(* ===== verification/Prelude.thy ===== *)
theory Prelude
  imports Main "HOL-Library.Word"
begin

text \<open>
  The vocabulary shared by every component: names for the machine integers of the Rust code,
  executable versions of the bit operations of the Rust standard library (\<open>leading_zeros\<close>,
  \<open>trailing_zeros\<close>, \<open>to_le_bytes\<close>, \<open>from_le_bytes\<close>, the wrapping shifts), writes into a byte
  buffer, and the lemma collections the component proofs rewrite with.

  Unsigned and signed integers of one width are the same word type: an \<open>i32\<close> of the source is
  the \<^typ>\<open>32 word\<close> with the same bits, and the signed operations read it with \<^const>\<open>sint\<close>.
  A \<open>usize\<close> is a \<^typ>\<open>nat\<close> where the source only uses it as a length or an index.
\<close>

unbundle bit_operations_syntax

type_synonym u8 = "8 word"
type_synonym u16 = "16 word"
type_synonym u32 = "32 word"
type_synonym u64 = "64 word"
type_synonym u128 = "128 word"
type_synonym bytes = "8 word list"

named_theorems word_bits \<open>bit-level characterisations of the modelled word operations\<close>
named_theorems byte_defs \<open>definitions unfolded when a byte sequence is evaluated\<close>

section \<open>Counting bits\<close>

fun bit_width :: "nat \<Rightarrow> nat" where
  "bit_width n = (if n = 0 then 0 else Suc (bit_width (n div 2)))"

declare bit_width.simps [simp del]

lemma bit_width_0 [simp]: "bit_width 0 = 0"
  by (simp add: bit_width.simps)

lemma bit_width_le_iff: "bit_width n \<le> k \<longleftrightarrow> n < 2 ^ k"
proof (induction n arbitrary: k rule: bit_width.induct)
  case (1 n)
  show ?case
  proof (cases k)
    case 0
    then show ?thesis by (simp add: bit_width.simps [of n])
  next
    case (Suc k')
    have "n div 2 < 2 ^ k' \<longleftrightarrow> n < 2 ^ k"
      unfolding Suc by (simp add: div_less_iff_less_mult mult.commute)
    with 1 Suc show ?thesis
      by (cases "n = 0") (simp_all add: bit_width.simps [of n])
  qed
qed

lemma bit_width_bounds:
  assumes "0 < n"
  shows "2 ^ (bit_width n - 1) \<le> n" and "n < 2 ^ bit_width n" and "0 < bit_width n"
proof -
  show "n < 2 ^ bit_width n"
    using bit_width_le_iff [of n "bit_width n"] by simp
  show "0 < bit_width n"
    using assms bit_width_le_iff [of n 0] by auto
  then have "\<not> bit_width n \<le> bit_width n - 1"
    by simp
  then show "2 ^ (bit_width n - 1) \<le> n"
    by (simp add: bit_width_le_iff)
qed

definition leading_zeros :: "'a::len word \<Rightarrow> nat" where
  "leading_zeros w = LENGTH('a) - bit_width (unat w)"

definition leading_ones :: "'a::len word \<Rightarrow> nat" where
  "leading_ones w = leading_zeros (NOT w)"

fun trailing_zeros_nat :: "nat \<Rightarrow> nat" where
  "trailing_zeros_nat n = (if n = 0 \<or> odd n then 0 else Suc (trailing_zeros_nat (n div 2)))"

declare trailing_zeros_nat.simps [simp del]

definition trailing_zeros :: "'a::len word \<Rightarrow> nat" where
  "trailing_zeros w = (if w = 0 then LENGTH('a) else trailing_zeros_nat (unat w))"

fun count_ones_nat :: "nat \<Rightarrow> nat" where
  "count_ones_nat n = (if n = 0 then 0 else n mod 2 + count_ones_nat (n div 2))"

declare count_ones_nat.simps [simp del]

definition count_ones :: "'a::len word \<Rightarrow> nat" where
  "count_ones w = count_ones_nat (unat w)"

lemma bit_width_unat_le: "bit_width (unat w) \<le> LENGTH('a)" for w :: "'a::len word"
  by (simp add: bit_width_le_iff)

lemma leading_zeros_le: "leading_zeros w \<le> LENGTH('a)" for w :: "'a::len word"
  by (simp add: leading_zeros_def)

lemma leading_zeros_ge_iff:
  "k \<le> LENGTH('a) \<Longrightarrow> k \<le> leading_zeros w \<longleftrightarrow> unat w < 2 ^ (LENGTH('a) - k)"
  for w :: "'a::len word"
  using bit_width_unat_le [of w] bit_width_le_iff [of "unat w" "LENGTH('a) - k"]
  by (auto simp: leading_zeros_def)

lemma unat_less_power_iff_bit:
  "unat w < 2 ^ k \<longleftrightarrow> (\<forall>i. bit w i \<longrightarrow> i < k)" for w :: "'a::len word"
proof -
  have "unat w < 2 ^ k \<longleftrightarrow> take_bit k (unat w) = unat w"
    by (simp add: take_bit_nat_eq_self_iff)
  also have "\<dots> \<longleftrightarrow> take_bit k w = w"
    by (metis unsigned_take_bit_eq word_unat_eq_iff)
  also have "\<dots> \<longleftrightarrow> (\<forall>i. bit w i \<longrightarrow> i < k)"
    by (auto simp: bit_eq_iff bit_take_bit_iff dest: bit_imp_le_length)
  finally show ?thesis .
qed

lemma leading_zeros_ge_iff_bit:
  "k \<le> LENGTH('a) \<Longrightarrow> k \<le> leading_zeros w \<longleftrightarrow> (\<forall>i. bit w i \<longrightarrow> i < LENGTH('a) - k)"
  for w :: "'a::len word"
  by (simp add: leading_zeros_ge_iff unat_less_power_iff_bit)

lemma leading_ones_ge_iff_bit:
  "k \<le> LENGTH('a) \<Longrightarrow>
    k \<le> leading_ones w \<longleftrightarrow> (\<forall>i. LENGTH('a) - k \<le> i \<and> i < LENGTH('a) \<longrightarrow> bit w i)"
  for w :: "'a::len word"
  by (simp add: leading_ones_def leading_zeros_ge_iff_bit bit_not_iff) (meson not_le)

lemma trailing_zeros_nat_spec:
  assumes "0 < n"
  shows "bit n (trailing_zeros_nat n)" and "i < trailing_zeros_nat n \<Longrightarrow> \<not> bit n i"
proof -
  have "bit n (trailing_zeros_nat n) \<and> (\<forall>i < trailing_zeros_nat n. \<not> bit n i)"
    using assms
  proof (induction n rule: trailing_zeros_nat.induct)
    case (1 n)
    show ?case
    proof (cases "odd n")
      case True
      then show ?thesis by (simp add: trailing_zeros_nat.simps [of n] bit_0)
    next
      case False
      with 1 have "bit (n div 2) (trailing_zeros_nat (n div 2))"
        and *: "\<forall>i < trailing_zeros_nat (n div 2). \<not> bit (n div 2) i"
        by auto
      moreover have "\<not> bit n i" if "i < Suc (trailing_zeros_nat (n div 2))" for i
        using that * False by (cases i) (auto simp: bit_0 bit_Suc)
      ultimately show ?thesis
        using False 1(2) by (simp add: trailing_zeros_nat.simps [of n] bit_Suc)
    qed
  qed
  then show "bit n (trailing_zeros_nat n)" and "i < trailing_zeros_nat n \<Longrightarrow> \<not> bit n i"
    by auto
qed

lemma trailing_zeros_bit: "w \<noteq> 0 \<Longrightarrow> bit w (trailing_zeros w)" for w :: "'a::len word"
  using trailing_zeros_nat_spec(1) [of "unat w"]
  by (simp add: trailing_zeros_def bit_unsigned_iff unat_gt_0)

lemma trailing_zeros_below: "i < trailing_zeros w \<Longrightarrow> \<not> bit w i" for w :: "'a::len word"
  using trailing_zeros_nat_spec(2) [of "unat w" i] bit_imp_le_length [of w i]
  by (auto simp: trailing_zeros_def bit_unsigned_iff unat_gt_0 split: if_splits)

lemma trailing_zeros_less: "w \<noteq> 0 \<Longrightarrow> trailing_zeros w < LENGTH('a)" for w :: "'a::len word"
  using trailing_zeros_bit bit_imp_le_length by blast

section \<open>Little-endian bytes\<close>

text \<open>\<open>to_le_bytes\<close> of a value of \<open>n\<close> bytes, and \<open>from_le_bytes\<close> of a byte array.\<close>

definition le_bytes :: "nat \<Rightarrow> 'a::len word \<Rightarrow> bytes" where
  "le_bytes n w = map (\<lambda>i. ucast (drop_bit (8 * i) w)) [0..<n]"

fun from_le_bytes :: "bytes \<Rightarrow> 'a::len word" where
  "from_le_bytes [] = 0"
| "from_le_bytes (b # bs) = ucast b OR push_bit 8 (from_le_bytes bs)"

lemma length_le_bytes [simp]: "length (le_bytes n w) = n"
  by (simp add: le_bytes_def)

lemma nth_le_bytes [simp]: "i < n \<Longrightarrow> le_bytes n w ! i = ucast (drop_bit (8 * i) w)"
  by (simp add: le_bytes_def)

lemma take_le_bytes [simp]: "m \<le> n \<Longrightarrow> take m (le_bytes n w) = le_bytes m w"
  by (simp add: le_bytes_def take_map)

lemma le_bytes_0 [simp]: "le_bytes 0 w = []"
  by (simp add: le_bytes_def)

lemma bit_from_le_bytes [word_bits]:
  "bit (from_le_bytes bs :: 'a::len word) i \<longleftrightarrow>
    i < LENGTH('a) \<and> i div 8 < length bs \<and> bit (bs ! (i div 8)) (i mod 8)"
proof (induction bs arbitrary: i)
  case Nil
  show ?case by simp
next
  case (Cons b bs)
  show ?case
  proof (cases "i < 8")
    case True
    then show ?thesis
      by (auto simp: bit_or_iff bit_push_bit_iff bit_unsigned_iff)
  next
    case False
    then have "\<not> bit b i"
      using bit_imp_le_length [of b i] by auto
    moreover have "i div 8 = Suc ((i - 8) div 8)" "(i - 8) mod 8 = i mod 8"
      using False by (simp_all add: le_div_geq le_mod_geq)
    ultimately show ?thesis
      using False Cons.IH [of "i - 8"]
      by (auto simp: bit_or_iff bit_push_bit_iff bit_unsigned_iff)
  qed
qed

lemma bit_le_bytes_nth [word_bits]:
  "i < n \<Longrightarrow> bit (le_bytes n w ! i) j \<longleftrightarrow> j < 8 \<and> bit w (8 * i + j)"
  by (simp add: bit_unsigned_iff bit_drop_bit_eq)

text \<open>Reading back the low \<open>n\<close> bytes truncates the value to them.\<close>

lemma from_le_bytes_le_bytes:
  "from_le_bytes (le_bytes n w) = take_bit (8 * n) w" for w :: "'a::len word"
  by (rule bit_word_eqI)
    (auto simp: bit_from_le_bytes bit_le_bytes_nth bit_take_bit_iff less_mult_imp_div_less
      mult.commute div_less_iff_less_mult simp del: nth_le_bytes)

lemma from_le_bytes_append_zeros:
  "from_le_bytes (bs @ replicate k 0) = from_le_bytes bs"
  by (rule bit_word_eqI) (auto simp: bit_from_le_bytes nth_append)

lemma take_bit_word_self: "LENGTH('a) \<le> n \<Longrightarrow> take_bit n w = w" for w :: "'a::len word"
  by (rule bit_word_eqI) (auto simp: bit_take_bit_iff)

lemma drop_bit_mask_word:
  "n \<le> LENGTH('a) \<Longrightarrow> drop_bit k (mask n) = (mask (n - k) :: 'a::len word)"
  by (rule bit_word_eqI) (auto simp: bit_drop_bit_eq bit_mask_iff)

lemma unat_ucast_up: "unat (ucast w :: 'b::len word) = unat w" if "LENGTH('a) \<le> LENGTH('b)"
  for w :: "'a::len word"
proof -
  have "unat w < 2 ^ LENGTH('b)"
    using that unsigned_less [of w, where ?'a = nat] by (meson less_le_trans one_le_numeral power_increasing)
  then show ?thesis by (simp add: unsigned_ucast_eq take_bit_nat_eq_self)
qed

lemma unat_less_imp_bit: "unat w < 2 ^ k \<Longrightarrow> bit w i \<Longrightarrow> i < k" for w :: "'a::len word"
  by (simp add: unat_less_power_iff_bit)

section \<open>Shifts and sign extension\<close>

text \<open>\<open>wrapping_shl\<close> and \<open>wrapping_shr\<close> take the shift amount modulo the width of the type;
  \<open>wrapping_sar\<close> is \<open>wrapping_shr\<close> on the signed type of the same width.\<close>

definition wrapping_shl :: "'a::len word \<Rightarrow> nat \<Rightarrow> 'a word" where
  "wrapping_shl w n = push_bit (n mod LENGTH('a)) w"

definition wrapping_shr :: "'a::len word \<Rightarrow> nat \<Rightarrow> 'a word" where
  "wrapping_shr w n = drop_bit (n mod LENGTH('a)) w"

definition wrapping_sar :: "'a::len word \<Rightarrow> nat \<Rightarrow> 'a word" where
  "wrapping_sar w n = signed_drop_bit (n mod LENGTH('a)) w"

section \<open>Lists\<close>

lemma list_cases_4:
  obtains "xs = []" | a where "xs = [a]" | a b where "xs = [a, b]" | a b c where "xs = [a, b, c]"
  | a b c d where "xs = [a, b, c, d]" | a b c d e es where "xs = a # b # c # d # e # es"
  by (metis neq_Nil_conv)

section \<open>Byte buffers\<close>

text \<open>Writing at the front of a slice: indexing past its end panics, which is \<open>None\<close>.\<close>

definition write_prefix :: "bytes \<Rightarrow> bytes \<Rightarrow> bytes option" where
  "write_prefix buffer bs =
    (if length bs \<le> length buffer then Some (bs @ drop (length bs) buffer) else None)"

text \<open>\<open>slice.get(..n)\<close> and \<open>slice.get(a..b)\<close>.\<close>

definition slice_get_to :: "'a list \<Rightarrow> nat \<Rightarrow> 'a list option" where
  "slice_get_to xs n = (if n \<le> length xs then Some (take n xs) else None)"

definition slice_get :: "'a list \<Rightarrow> nat \<Rightarrow> nat \<Rightarrow> 'a list option" where
  "slice_get xs a b = (if a \<le> b \<and> b \<le> length xs then Some (take (b - a) (drop a xs)) else None)"

end
