(* ===== verification/Varint.thy ===== *)
theory Varint
  imports Prelude
begin

text \<open>
  The two variable-length integer encodings of \<open>crates/polkavm-common/src/varint.rs\<close>: the
  prefix varint of the program container (sizes, indices) and the simple varint of instruction
  immediates, a sign-extended little-endian byte sequence whose length is stored elsewhere.
\<close>

section \<open>The prefix varint\<close>

definition get_varint_length :: "nat \<Rightarrow> nat" where
  "get_varint_length zeros =
    (let bits_required = 32 - zeros;
         x = drop_bit 3 bits_required
     in drop_bit 3 ((x + bits_required) XOR x))"

definition MAX_VARINT_LENGTH :: nat where
  "MAX_VARINT_LENGTH = 5"

definition read_varint :: "bytes \<Rightarrow> u8 \<Rightarrow> (nat \<times> u32) option" where
  "read_varint input first_byte =
    (let len = leading_zeros (NOT first_byte);
         upper_mask = drop_bit len (255 :: u32);
         upper_bits = wrapping_shl (upper_mask AND ucast first_byte) (len * 8)
     in case slice_get_to input len of
          None \<Rightarrow> None
        | Some input \<Rightarrow>
            (case input of
               [] \<Rightarrow> Some (len, upper_bits)
             | [b0] \<Rightarrow> Some (len, upper_bits OR ucast b0)
             | [b0, b1] \<Rightarrow> Some (len, upper_bits OR ucast (from_le_bytes [b0, b1] :: u16))
             | [b0, b1, b2] \<Rightarrow> Some (len, upper_bits OR from_le_bytes [b0, b1, b2, 0])
             | [b0, b1, b2, b3] \<Rightarrow> Some (len, upper_bits OR from_le_bytes [b0, b1, b2, b3])
             | _ \<Rightarrow> None))"

text \<open>The bytes \<open>write_varint\<close> stores, one arm per encoded length.\<close>

definition varint_bytes :: "u32 \<Rightarrow> bytes option" where
  "varint_bytes value =
    (let varint_length = get_varint_length (leading_zeros value);
         bytes = le_bytes 4 value
     in if varint_length = 0 then Some [ucast value]
        else if varint_length = 1 then Some [0x80 OR ucast (drop_bit 8 value), bytes ! 0]
        else if varint_length = 2 then
          Some [0xC0 OR ucast (drop_bit 16 value), bytes ! 0, bytes ! 1]
        else if varint_length = 3 then
          Some [0xE0 OR ucast (drop_bit 24 value), bytes ! 0, bytes ! 1, bytes ! 2]
        else if varint_length = 4 then
          Some [0xF0, bytes ! 0, bytes ! 1, bytes ! 2, bytes ! 3]
        else None)"

definition write_varint :: "u32 \<Rightarrow> bytes \<Rightarrow> (nat \<times> bytes) option" where
  "write_varint value buffer =
    (case varint_bytes value of
       None \<Rightarrow> None
     | Some bs \<Rightarrow>
        (case write_prefix buffer bs of
           None \<Rightarrow> None
         | Some buffer' \<Rightarrow> Some (get_varint_length (leading_zeros value) + 1, buffer')))"

section \<open>The simple varint\<close>

definition LENGTH_TO_SHIFT :: "nat \<Rightarrow> nat" where
  "LENGTH_TO_SHIFT len =
    (if len = 0 then 32 else if len = 1 then 24 else if len = 2 then 16
     else if len = 3 then 8 else 0)"

definition read_simple_varint :: "u32 \<Rightarrow> nat \<Rightarrow> u32" where
  "read_simple_varint chunk len =
    (let shift = LENGTH_TO_SHIFT len
     in wrapping_sar (ucast (push_bit shift (ucast chunk :: u64)) :: u32) shift)"

definition get_bytes_required :: "u32 \<Rightarrow> nat" where
  "get_bytes_required value =
    (let zeros = leading_zeros value in
     if zeros = 32 then 0
     else if zeros > 24 then 1
     else if zeros > 16 then 2
     else if zeros > 8 then 3
     else if zeros \<noteq> 0 then 4
     else
       let ones = leading_ones value in
       if ones > 24 then 1
       else if ones > 16 then 2
       else if ones > 8 then 3
       else 4)"

definition simple_varint_bytes :: "u32 \<Rightarrow> bytes option" where
  "simple_varint_bytes value =
    (let varint_length = get_bytes_required value;
         bytes = le_bytes 4 value
     in if varint_length = 0 then Some []
        else if varint_length = 1 then Some [ucast value]
        else if varint_length = 2 then Some [bytes ! 0, bytes ! 1]
        else if varint_length = 3 then Some [bytes ! 0, bytes ! 1, bytes ! 2]
        else if varint_length = 4 then Some [bytes ! 0, bytes ! 1, bytes ! 2, bytes ! 3]
        else None)"

definition write_simple_varint :: "u32 \<Rightarrow> bytes \<Rightarrow> (nat \<times> bytes) option" where
  "write_simple_varint value buffer =
    (case simple_varint_bytes value of
       None \<Rightarrow> None
     | Some bs \<Rightarrow>
        (case write_prefix buffer bs of
           None \<Rightarrow> None
         | Some buffer' \<Rightarrow> Some (get_bytes_required value, buffer')))"

section \<open>Lemmas on the prefix varint\<close>

lemma get_varint_length_cases:
  assumes "lz \<le> 32"
  shows "get_varint_length lz =
    (if 25 \<le> lz then 0 else if 18 \<le> lz then 1 else if 11 \<le> lz then 2 else if 4 \<le> lz then 3 else 4)"
proof -
  have "\<forall>lz \<in> set [0..<33]. get_varint_length lz =
    (if 25 \<le> lz then 0 else if 18 \<le> lz then 1 else if 11 \<le> lz then 2 else if 4 \<le> lz then 3 else 4)"
    by code_simp
  with assms show ?thesis by auto
qed

lemma varint_length_cases:
  "get_varint_length (leading_zeros v) =
    (if unat v < 2 ^ 7 then 0 else if unat v < 2 ^ 14 then 1 else if unat v < 2 ^ 21 then 2
     else if unat v < 2 ^ 28 then 3 else 4)" for v :: u32
  using leading_zeros_ge_iff [of 25 v] leading_zeros_ge_iff [of 18 v]
    leading_zeros_ge_iff [of 11 v] leading_zeros_ge_iff [of 4 v] leading_zeros_le [of v]
  by (simp add: get_varint_length_cases)

lemma leading_ones_eqI:
  fixes w :: u8
  assumes "k < 8" and "\<And>i. 8 - k \<le> i \<Longrightarrow> i < 8 \<Longrightarrow> bit w i" and "\<not> bit w (7 - k)"
  shows "leading_zeros (NOT w) = k"
proof -
  have "k \<le> leading_ones w"
    using assms(1,2) by (simp add: leading_ones_ge_iff_bit)
  moreover have "\<not> Suc k \<le> leading_ones w"
    using assms(1,3) by (auto simp: leading_ones_ge_iff_bit intro!: exI [of _ "7 - k"])
  ultimately show ?thesis
    by (simp add: leading_ones_def)
qed

abbreviation varint_prefix :: "nat \<Rightarrow> u8" where
  "varint_prefix k \<equiv> NOT (mask (8 - k))"

lemma bit_varint_prefix: "bit (varint_prefix k) i \<longleftrightarrow> 8 - k \<le> i \<and> i < 8"
  by (auto simp: bit_not_iff bit_mask_iff)

lemma slice_cases:
  obtains (too_short) "slice_get_to xs n = None" "length xs < n"
  | (empty) "slice_get_to xs n = Some []" "n = 0"
  | (one) a where "slice_get_to xs n = Some [a]" "n = 1" "n \<le> length xs" "take n xs = [a]"
  | (two) a b where "slice_get_to xs n = Some [a, b]" "n = 2" "n \<le> length xs" "take n xs = [a, b]"
  | (three) a b c where "slice_get_to xs n = Some [a, b, c]" "n = 3" "n \<le> length xs" "take n xs = [a, b, c]"
  | (four) a b c d where "slice_get_to xs n = Some [a, b, c, d]" "n = 4" "n \<le> length xs"
      "take n xs = [a, b, c, d]"
  | (more) a b c d e es where "slice_get_to xs n = Some (a # b # c # d # e # es)" "4 < n"
proof (cases "n \<le> length xs")
  case False
  then show ?thesis using too_short by (simp add: slice_get_to_def)
next
  case True
  define ys where "ys = take n xs"
  with True have ys: "take n xs = ys" "length ys = n" "slice_get_to xs n = Some ys"
    by (auto simp: slice_get_to_def)
  show ?thesis
  proof (cases ys rule: list_cases_4)
    case 1 show ?thesis by (rule empty) (use 1 ys True in simp_all)
  next
    case (2 a) show ?thesis by (rule one [of a]) (use 2 ys True in simp_all)
  next
    case (3 a b) show ?thesis by (rule two [of a b]) (use 3 ys True in simp_all)
  next
    case (4 a b c) show ?thesis by (rule three [of a b c]) (use 4 ys True in simp_all)
  next
    case (5 a b c d) show ?thesis by (rule four [of a b c d]) (use 5 ys True in simp_all)
  next
    case (6 a b c d e es) show ?thesis by (rule more [of a b c d e es]) (use 6 ys True in simp_all)
  qed
qed

text \<open>One formula for the five arms of the reader, and one for those of the writer.\<close>

lemma ucast_from_le_bytes_16:
  "(ucast (from_le_bytes [b0, b1] :: u16) :: u32) = from_le_bytes [b0, b1]"
  by (rule bit_word_eqI)
    (auto simp: bit_from_le_bytes bit_unsigned_iff div_less_iff_less_mult
      simp del: from_le_bytes.simps)

lemma read_varint_alt:
  "read_varint input first_byte =
    (let len = leading_zeros (NOT first_byte) in
     if len \<le> 4 \<and> len \<le> length input then
       Some (len, wrapping_shl (mask (8 - len) AND ucast first_byte) (len * 8)
                  OR from_le_bytes (take len input))
     else None)"
proof -
  define len where "len = leading_zeros (NOT first_byte)"
  have mask: "drop_bit len (255 :: u32) = mask (8 - len)"
    using drop_bit_mask_word [of 8 len, where ?'a = 32] by (simp add: mask_numeral)
  have low: "from_le_bytes [] = (0 :: u32)" "from_le_bytes [a] = (ucast a :: u32)"
    "from_le_bytes [a, b, c, 0] = (from_le_bytes [a, b, c] :: u32)" for a b c
    using from_le_bytes_append_zeros [of "[a, b, c]" 1] by simp_all
  show ?thesis
    unfolding read_varint_def len_def [symmetric] Let_def mask
    by (cases rule: slice_cases [of input len])
      (simp_all add: low ucast_from_le_bytes_16 del: from_le_bytes.simps)
qed

lemma varint_prefixes:
  "NOT (mask 8) = (0 :: u8)" "NOT (mask 7) = (0x80 :: u8)" "NOT (mask 6) = (0xC0 :: u8)"
  "NOT (mask 5) = (0xE0 :: u8)" "NOT (mask 4) = (0xF0 :: u8)"
  by code_simp+

lemma varint_bytes_alt:
  "varint_bytes v =
    (let k = get_varint_length (leading_zeros v) in
     Some ((varint_prefix k OR ucast (drop_bit (8 * k) v)) # le_bytes k v))"
proof -
  have [simp]: "drop_bit 32 v = 0"
    by (rule bit_word_eqI) (auto simp: bit_drop_bit_eq dest: bit_imp_le_length)
  show ?thesis
    unfolding varint_bytes_def varint_length_cases Let_def
    by (simp add: varint_prefixes le_bytes_def upt_rec)
qed

lemma varint_first_byte:
  assumes "k < 4" and "unat v < 2 ^ (7 * k + 7)"
  shows "leading_zeros (NOT (varint_prefix k OR ucast (drop_bit (8 * k) v))) = k"
proof (rule leading_ones_eqI)
  have "\<not> bit v (8 * k + (7 - k))"
    using unat_less_imp_bit [OF assms(2), of "8 * k + (7 - k)"] assms(1) by auto
  then show "\<not> bit (varint_prefix k OR ucast (drop_bit (8 * k) v)) (7 - k)"
    using assms(1) by (auto simp: bit_or_iff bit_unsigned_iff bit_drop_bit_eq bit_mask_iff bit_not_iff)
qed (use assms(1) in \<open>auto simp: bit_or_iff bit_varint_prefix\<close>)

lemma varint_value:
  fixes v :: u32
  assumes "k < 4" and "unat v < 2 ^ (7 * k + 7)"
  shows "wrapping_shl (mask (8 - k) AND ucast (varint_prefix k OR ucast (drop_bit (8 * k) v))) (k * 8)
    OR from_le_bytes (le_bytes k v) = v"
proof (rule bit_word_eqI)
  fix i assume i: "i < LENGTH(32)"
  define w :: u32 where "w = wrapping_shl (mask (8 - k) AND ucast (varint_prefix k OR ucast (drop_bit (8 * k) v))) (k * 8)"
  have w: "bit (w :: u32) i \<longleftrightarrow> 8 * k \<le> i \<and> i < 7 * k + 8 \<and> bit v i"
    using assms(1) i unfolding w_def wrapping_shl_def
    by (auto simp: bit_and_iff bit_or_iff bit_push_bit_iff bit_mask_iff bit_unsigned_iff
        bit_drop_bit_eq bit_not_iff mult.commute)
  moreover have "bit v i \<Longrightarrow> i < 7 * k + 7"
    using unat_less_imp_bit [OF assms(2), of i] .
  ultimately show "bit (w OR from_le_bytes (le_bytes k v)) i = bit v i"
    by (auto simp: from_le_bytes_le_bytes bit_or_iff bit_take_bit_iff)
qed

lemma varint_length_bound:
  "get_varint_length (leading_zeros v) = k \<Longrightarrow> k \<le> 4 \<and> unat v < 2 ^ (7 * k + 7)" for v :: u32
  using unsigned_less [of v, where ?'a = nat]
  by (auto simp: varint_length_cases split: if_splits)

lemma read_varint_bytes:
  assumes "varint_bytes v = Some bs"
  shows "read_varint (tl bs @ rest) (hd bs) = Some (length bs - 1, v)"
proof -
  define k where "k = get_varint_length (leading_zeros v)"
  from assms have bs: "bs = (varint_prefix k OR ucast (drop_bit (8 * k) v)) # le_bytes k v"
    by (simp add: varint_bytes_alt k_def Let_def)
  have k: "k \<le> 4" "unat v < 2 ^ (7 * k + 7)"
    using varint_length_bound k_def by blast+
  show ?thesis
  proof (cases "k = 4")
    case True
    have "drop_bit 32 v = 0"
      by (rule bit_word_eqI) (auto simp: bit_drop_bit_eq dest: bit_imp_le_length)
    moreover have "leading_zeros (15 :: u8) = 4"
      by code_simp
    ultimately show ?thesis
      using True by (simp add: bs read_varint_alt mask_numeral wrapping_shl_def
          from_le_bytes_le_bytes take_bit_word_self)
  next
    case False
    with k(1) have "k < 4" by simp
    then show ?thesis
      using varint_first_byte [OF _ k(2)] varint_value [OF _ k(2)]
      by (simp add: bs read_varint_alt Let_def)
  qed
qed

lemma first_zero_bit:
  fixes b :: u8
  assumes "leading_zeros (NOT b) = n" and "n < 8"
  shows "\<not> bit b (7 - n)"
proof -
  have "\<not> Suc n \<le> leading_ones b"
    using assms by (simp add: leading_ones_def)
  then obtain i where i: "7 - n \<le> i" "i < 8" "\<not> bit b i"
    using assms(2) by (auto simp: leading_ones_ge_iff_bit)
  moreover have "bit b i" if "8 - n \<le> i"
    using leading_ones_ge_iff_bit [of n b] assms that i(2) by (simp add: leading_ones_def)
  ultimately have "i = 7 - n" by force
  with i(3) show ?thesis by simp
qed

lemma read_varint_length:
  assumes "read_varint input first_byte = Some (n, v)"
  shows "n \<le> 4" and "n \<le> length input" and "unat v < 2 ^ (7 * n + 7)"
proof -
  define w :: u32 where "w = wrapping_shl (mask (8 - n) AND ucast first_byte) (n * 8)"
  from assms have n: "n = leading_zeros (NOT first_byte)" "n \<le> 4" "n \<le> length input"
    and v: "v = w OR from_le_bytes (take n input)"
    by (auto simp: read_varint_alt Let_def w_def split: if_splits)
  then show "n \<le> 4" "n \<le> length input"
    by simp_all
  show "unat v < 2 ^ (7 * n + 7)"
  proof (cases "n = 4")
    case True
    then show ?thesis using unsigned_less [of v, where ?'a = nat] by simp
  next
    case False
    with n(2) have "n < 4" by simp
    have "i < 7 * n + 7" if "bit v i" for i
    proof (cases "i < 8 * n")
      case True
      with \<open>n < 4\<close> show ?thesis by simp
    next
      case False
      then have "\<not> bit (from_le_bytes (take n input) :: u32) i"
        by (auto simp: bit_from_le_bytes div_less_iff_less_mult)
      with that have "bit w i" by (simp add: v bit_or_iff)
      then have "bit first_byte (i - 8 * n)" and "i - 8 * n < 8 - n"
        using False \<open>n < 4\<close>
        by (simp_all add: w_def wrapping_shl_def bit_and_iff bit_push_bit_iff bit_mask_iff
            bit_unsigned_iff mult.commute)
      moreover have "i - 8 * n \<noteq> 7 - n"
        using first_zero_bit [of first_byte n] n(1) \<open>n < 4\<close> \<open>bit first_byte (i - 8 * n)\<close> by auto
      ultimately show ?thesis by simp
    qed
    then show ?thesis by (simp add: unat_less_power_iff_bit)
  qed
qed

section \<open>Lemmas on the simple varint\<close>

lemma bit_read_simple_varint:
  assumes "n \<le> 4"
  shows "bit (read_simple_varint chunk n) i \<longleftrightarrow> 0 < n \<and> i < 32 \<and> bit chunk (min i (8 * n - 1))"
proof -
  from assms have "n \<in> {0, 1, 2, 3, 4}" by auto
  then show ?thesis
    by (auto simp: read_simple_varint_def LENGTH_TO_SHIFT_def wrapping_sar_def Let_def
        bit_signed_drop_bit_iff bit_unsigned_iff bit_push_bit_iff min_def)
qed

lemma constant_above_iff:
  fixes m n :: nat
  assumes "m < n"
  shows "(\<forall>i<n. P (min i m) = P i) \<longleftrightarrow>
    (\<forall>i. m \<le> i \<and> i < n \<longrightarrow> \<not> P i) \<or> (\<forall>i. m \<le> i \<and> i < n \<longrightarrow> P i)"
proof -
  have "(\<forall>i<n. P (min i m) = P i) \<longleftrightarrow> (\<forall>i. m \<le> i \<and> i < n \<longrightarrow> P i = P m)"
    by (metis min.absorb1 min.absorb2 nat_le_linear)
  with assms show ?thesis
    by (cases "P m") (simp, blast)+
qed

lemma read_simple_varint_self_iff:
  assumes "0 < n" "n \<le> 4"
  shows "read_simple_varint v n = v \<longleftrightarrow>
    8 * (4 - n) < leading_zeros v \<or> 8 * (4 - n) < leading_ones v"
proof -
  have "read_simple_varint v n = v \<longleftrightarrow> (\<forall>i < 32. bit v (min i (8 * n - 1)) = bit v i)"
    using assms by (auto simp: bit_eq_iff bit_read_simple_varint)
  also have "\<dots> \<longleftrightarrow> (\<forall>i. 8 * n - 1 \<le> i \<and> i < 32 \<longrightarrow> \<not> bit v i) \<or>
      (\<forall>i. 8 * n - 1 \<le> i \<and> i < 32 \<longrightarrow> bit v i)"
    using assms by (intro constant_above_iff) simp
  also have "\<dots> \<longleftrightarrow> Suc (8 * (4 - n)) \<le> leading_zeros v \<or> Suc (8 * (4 - n)) \<le> leading_ones v"
  proof -
    have "(\<forall>i. 8 * n - 1 \<le> i \<and> i < 32 \<longrightarrow> \<not> bit v i) \<longleftrightarrow> (\<forall>i. bit v i \<longrightarrow> i < 8 * n - 1)"
      using bit_imp_le_length [of v] by (auto simp: not_le [symmetric])
    moreover have "32 - Suc (8 * (4 - n)) = 8 * n - 1" "Suc (8 * (4 - n)) \<le> 32"
      using assms by auto
    ultimately show ?thesis
      by (simp add: leading_zeros_ge_iff_bit leading_ones_ge_iff_bit)
  qed
  finally show ?thesis by (simp add: Suc_le_eq)
qed

lemma leading_ones_0_iff: "leading_ones v = 0 \<longleftrightarrow> leading_zeros v \<noteq> 0" for v :: u32
proof -
  have below: "i < 31" if "bit v i" "\<not> bit v 31" for i
  proof -
    have "i < 32" "i \<noteq> 31" using bit_imp_le_length [of v i] that by auto
    then show ?thesis by simp
  qed
  have "1 \<le> leading_zeros v \<longleftrightarrow> \<not> bit v 31"
    using below leading_zeros_ge_iff_bit [of 1 v] by auto
  moreover have "1 \<le> leading_ones v \<longleftrightarrow> bit v 31"
  proof -
    have "31 \<le> i \<and> i < 32 \<longleftrightarrow> i = 31" for i :: nat by auto
    then show ?thesis by (simp add: leading_ones_ge_iff_bit)
  qed
  ultimately show ?thesis by linarith
qed

lemma get_bytes_required_le_4: "get_bytes_required v \<le> 4"
  by (simp add: get_bytes_required_def Let_def)

lemma leading_zeros_32_iff: "leading_zeros v = 32 \<longleftrightarrow> v = 0" for v :: u32
  using leading_zeros_ge_iff [of 32 v] leading_zeros_le [of v] by (auto simp: unat_eq_0)

text \<open>The length chosen by the writer is the least one whose sign extension is the value.\<close>

lemma get_bytes_required_le_iff:
  assumes "n \<le> 4"
  shows "get_bytes_required v \<le> n \<longleftrightarrow> read_simple_varint v n = v"
proof (cases "n = 0")
  case True
  have "read_simple_varint v 0 = 0"
    by (rule bit_word_eqI) (simp add: bit_read_simple_varint)
  with True show ?thesis
    by (auto simp: get_bytes_required_def Let_def leading_zeros_32_iff)
next
  case False
  with assms have "n \<in> {1, 2, 3, 4}" by auto
  with read_simple_varint_self_iff [of n v] assms leading_ones_0_iff [of v]
  show ?thesis
    by (auto simp: get_bytes_required_def Let_def split: if_splits)
qed

lemma read_simple_varint_cong:
  assumes "n \<le> 4" and "take_bit (8 * n) chunk = take_bit (8 * n) chunk'"
  shows "read_simple_varint chunk n = read_simple_varint chunk' n"
proof (rule bit_word_eqI)
  fix i assume "i < LENGTH(32)"
  have "bit chunk j = bit chunk' j" if "j < 8 * n" for j
    using assms(2) that by (metis bit_take_bit_iff)
  from this [of "min i (8 * n - 1)"]
  show "bit (read_simple_varint chunk n) i = bit (read_simple_varint chunk' n) i"
    using assms(1) by (cases n) (simp_all add: bit_read_simple_varint)
qed

lemma read_simple_varint_idem:
  "n \<le> 4 \<Longrightarrow> read_simple_varint (read_simple_varint chunk n) n = read_simple_varint chunk n"
  by (auto simp: bit_eq_iff bit_read_simple_varint min_def)

lemma simple_varint_bytes_alt: "simple_varint_bytes v = Some (le_bytes (get_bytes_required v) v)"
  using get_bytes_required_le_4 [of v]
  by (auto simp: simple_varint_bytes_def Let_def le_bytes_def upt_rec)

lemma read_simple_varint_required:
  "take_bit (8 * get_bytes_required v) chunk = take_bit (8 * get_bytes_required v) v \<Longrightarrow>
    read_simple_varint chunk (get_bytes_required v) = v"
  using get_bytes_required_le_iff [of "get_bytes_required v" v] get_bytes_required_le_4 [of v]
  by (metis order_refl read_simple_varint_cong)

lemma bit_le_bytes_prefix:
  "take_bit (8 * n) (from_le_bytes (take m (le_bytes n v @ rest)) :: 'a word) = take_bit (8 * n) v"
  if "n \<le> m" for v :: "'a::len word"
proof (rule bit_word_eqI)
  fix i assume "i < LENGTH('a)"
  with that show "bit (take_bit (8 * n) (from_le_bytes (take m (le_bytes n v @ rest)) :: 'a word)) i =
      bit (take_bit (8 * n) v) i"
    by (auto simp: bit_take_bit_iff bit_from_le_bytes nth_append bit_unsigned_iff bit_drop_bit_eq
        div_less_iff_less_mult mult.commute)
qed

section \<open>Properties\<close>

text \<open>C30: for every 32-bit value, \<open>write_varint\<close> succeeds on a buffer of \<open>MAX_VARINT_LENGTH\<close>
  bytes, touches only the bytes it reports, and \<open>read_varint\<close> on those bytes gives back the
  value and the number of bytes consumed after the first, whatever follows them.\<close>

theorem varint_roundtrip:
  assumes "MAX_VARINT_LENGTH \<le> length buffer"
  shows "\<exists>n buffer'. write_varint v buffer = Some (n, buffer') \<and> 1 \<le> n \<and> n \<le> MAX_VARINT_LENGTH
    \<and> length buffer' = length buffer \<and> drop n buffer' = drop n buffer
    \<and> read_varint (tl buffer') (hd buffer') = Some (n - 1, v)"
proof -
  define k where "k = get_varint_length (leading_zeros v)"
  obtain bs where bs: "varint_bytes v = Some bs" "length bs = k + 1" and k: "k \<le> 4"
    using varint_length_bound [of v k] by (auto simp: varint_bytes_alt Let_def k_def)
  moreover have "bs \<noteq> []" using bs(2) by auto
  ultimately show ?thesis
    using assms read_varint_bytes [OF bs(1), of "drop (k + 1) buffer"]
    by (simp add: write_varint_def write_prefix_def MAX_VARINT_LENGTH_def k_def)
qed

theorem varint_roundtrip_witness:
  "MAX_VARINT_LENGTH \<le> length [0, 0, 0, 0, 0, 7 :: u8] \<and>
   (\<exists>n buffer'. write_varint 300 [0, 0, 0, 0, 0, 7] = Some (n, buffer') \<and> 1 \<le> n \<and> n \<le> 5
    \<and> read_varint (tl buffer') (hd buffer') = Some (n - 1, 300))"
  using varint_roundtrip [of "[0, 0, 0, 0, 0, 7]" 300] by (auto simp: MAX_VARINT_LENGTH_def)

text \<open>C37: the encoding \<open>write_varint\<close> chooses is the shortest one: whatever input \<open>read_varint\<close>
  accepts for a value, the written form is not longer.\<close>

theorem varint_minimal:
  assumes "read_varint input first_byte = Some (n, v)"
  shows "\<exists>bs. varint_bytes v = Some bs \<and> length bs \<le> n + 1"
proof -
  have "n \<le> 4" "unat v < 2 ^ (7 * n + 7)"
    using read_varint_length [OF assms] by simp_all
  moreover from this have "n \<in> {0, 1, 2, 3, 4}" by auto
  ultimately have "get_varint_length (leading_zeros v) \<le> n"
    by (auto simp: varint_length_cases)
  then show ?thesis by (simp add: varint_bytes_alt Let_def)
qed

theorem varint_minimal_witness:
  "read_varint [5] 0x81 = Some (1, 261) \<and> (\<exists>bs. varint_bytes 261 = Some bs \<and> length bs \<le> 2)"
proof -
  have "read_varint [5] 0x81 = Some (1, 261)" by code_simp
  with varint_minimal [OF this] show ?thesis by (simp add: numeral_2_eq_2)
qed

text \<open>C38: the simple varint of an immediate is read back exactly by sign extension, from the
  bytes written and whatever fills the rest of the four-byte chunk.\<close>

theorem simple_varint_roundtrip:
  assumes "4 \<le> length buffer"
  shows "\<exists>n buffer'. write_simple_varint v buffer = Some (n, buffer') \<and> n \<le> 4
    \<and> drop n buffer' = drop n buffer
    \<and> read_simple_varint (from_le_bytes (take 4 buffer')) n = v"
  using assms get_bytes_required_le_4 [of v]
  by (auto simp: write_simple_varint_def simple_varint_bytes_alt write_prefix_def
      intro!: read_simple_varint_required bit_le_bytes_prefix simp del: take_append)

theorem simple_varint_roundtrip_witness:
  "4 \<le> length [0x55, 0x55, 0x55, 0x55 :: u8] \<and>
   (\<exists>n buffer'. write_simple_varint 0xFFFFFF80 [0x55, 0x55, 0x55, 0x55] = Some (n, buffer') \<and> n \<le> 4
    \<and> read_simple_varint (from_le_bytes (take 4 buffer')) n = 0xFFFFFF80)"
  using simple_varint_roundtrip [of "[0x55, 0x55, 0x55, 0x55]" "0xFFFFFF80"] by auto

text \<open>C39: the number of bytes chosen for an immediate is the least one: a length up to four
  suffices exactly when some chunk read at that length gives the value.\<close>

theorem get_bytes_required_least:
  assumes "n \<le> 4"
  shows "get_bytes_required v \<le> n \<longleftrightarrow> (\<exists>chunk. read_simple_varint chunk n = v)"
  using assms get_bytes_required_le_iff read_simple_varint_idem by metis

theorem get_bytes_required_least_witness:
  "(2 :: nat) \<le> 4 \<and> (get_bytes_required 0x80 \<le> 2 \<longleftrightarrow> (\<exists>chunk. read_simple_varint chunk 2 = 0x80))"
  using get_bytes_required_least [of 2 "0x80"] by simp

end
