(* ===== verification/Operation.thy ===== *)
theory Operation
  imports Prelude "HOL-Library.Signed_Division"
begin

text \<open>
  The arithmetic shared by the interpreter and the optimizer,
  \<open>crates/polkavm-common/src/operation.rs\<close>: RISC-V division and remainder, which never trap, and
  the upper halves of the widening multiplications. Rust's \<open>/\<close> and \<open>%\<close> on signed integers truncate
  towards zero, which is \<open>sdiv\<close> and \<open>smod\<close> on the signed readings of the words.
\<close>

definition i32_MIN :: u32 where "i32_MIN = 0x80000000"
definition i64_MIN :: u64 where "i64_MIN = 0x8000000000000000"

definition divu :: "u32 \<Rightarrow> u32 \<Rightarrow> u32" where
  "divu lhs rhs = (if rhs = 0 then 0xFFFFFFFF else lhs div rhs)"

definition divu64 :: "u64 \<Rightarrow> u64 \<Rightarrow> u64" where
  "divu64 lhs rhs = (if rhs = 0 then 0xFFFFFFFFFFFFFFFF else lhs div rhs)"

definition remu :: "u32 \<Rightarrow> u32 \<Rightarrow> u32" where
  "remu lhs rhs = (if rhs = 0 then lhs else lhs mod rhs)"

definition remu64 :: "u64 \<Rightarrow> u64 \<Rightarrow> u64" where
  "remu64 lhs rhs = (if rhs = 0 then lhs else lhs mod rhs)"

definition div_i32 :: "u32 \<Rightarrow> u32 \<Rightarrow> u32" where
  "div_i32 lhs rhs =
    (if rhs = 0 then -1
     else if lhs = i32_MIN \<and> rhs = -1 then lhs
     else word_of_int (sint lhs sdiv sint rhs))"

definition div64 :: "u64 \<Rightarrow> u64 \<Rightarrow> u64" where
  "div64 lhs rhs =
    (if rhs = 0 then -1
     else if lhs = i64_MIN \<and> rhs = -1 then lhs
     else word_of_int (sint lhs sdiv sint rhs))"

definition rem_i32 :: "u32 \<Rightarrow> u32 \<Rightarrow> u32" where
  "rem_i32 lhs rhs =
    (if rhs = 0 then lhs
     else if lhs = i32_MIN \<and> rhs = -1 then 0
     else word_of_int (sint lhs smod sint rhs))"

definition rem64 :: "u64 \<Rightarrow> u64 \<Rightarrow> u64" where
  "rem64 lhs rhs =
    (if rhs = 0 then lhs
     else if lhs = i64_MIN \<and> rhs = -1 then 0
     else word_of_int (sint lhs smod sint rhs))"

definition mulh :: "u32 \<Rightarrow> u32 \<Rightarrow> u32" where
  "mulh lhs rhs = ucast (signed_drop_bit 32 (scast lhs * scast rhs :: u64))"

definition mulh64 :: "u64 \<Rightarrow> u64 \<Rightarrow> u64" where
  "mulh64 lhs rhs = ucast (signed_drop_bit 64 (scast lhs * scast rhs :: u128))"

definition mulhsu :: "u32 \<Rightarrow> u32 \<Rightarrow> u32" where
  "mulhsu lhs rhs = ucast (signed_drop_bit 32 (scast lhs * ucast rhs :: u64))"

definition mulhsu64 :: "u64 \<Rightarrow> u64 \<Rightarrow> u64" where
  "mulhsu64 lhs rhs = ucast (signed_drop_bit 64 (scast lhs * ucast rhs :: u128))"

definition mulhu :: "u32 \<Rightarrow> u32 \<Rightarrow> u32" where
  "mulhu lhs rhs = ucast (signed_drop_bit 32 (ucast lhs * ucast rhs :: u64))"

definition mulhu64 :: "u64 \<Rightarrow> u64 \<Rightarrow> u64" where
  "mulhu64 lhs rhs = ucast (signed_drop_bit 64 (ucast lhs * ucast rhs :: u128))"

section \<open>The upper half of a product\<close>

lemma high_half:
  fixes p :: int
  assumes "LENGTH('b::len) = 2 * LENGTH('a::len)"
  shows "ucast (signed_drop_bit LENGTH('a) (word_of_int p :: 'b word)) =
    (word_of_int (p div 2 ^ LENGTH('a)) :: 'a word)"
  using assms
  by (intro bit_word_eqI)
    (auto simp: bit_unsigned_iff bit_signed_drop_bit_iff bit_word_of_int_iff
      simp flip: drop_bit_eq_div simp: bit_drop_bit_eq)

lemma sint_bounds:
  "- (2 ^ (LENGTH('a) - 1)) \<le> sint w" "sint w < 2 ^ (LENGTH('a) - 1)" for w :: "'a::len word"
  using sint_greater_eq [of w] sint_less [of w] by simp_all

lemma half_range: "2 * 2 ^ (LENGTH('a) - 1) = (2 ^ LENGTH('a::len) :: int)"
  by (simp flip: power_Suc)

lemma int_div_less:
  fixes p c a :: int
  assumes "0 < c" and "p < a * c"
  shows "p div c < a"
proof (rule ccontr)
  assume "\<not> p div c < a"
  then have "a * c \<le> p div c * c" using assms(1) by simp
  also have "\<dots> \<le> p"
    using div_mult_mod_eq [of p c] pos_mod_sign [OF assms(1), of p] by linarith
  finally show False using assms(2) by simp
qed

lemma sint_of_quotient:
  fixes p :: int
  defines "M \<equiv> 2 ^ (LENGTH('a) - 1)"
  assumes "- M * (2 * M) \<le> p" and "p < M * (2 * M)"
  shows "sint (word_of_int (p div 2 ^ LENGTH('a)) :: 'a::len word) = p div 2 ^ LENGTH('a)"
proof -
  have M: "2 * M = 2 ^ LENGTH('a)" "0 < 2 * M"
    unfolding M_def half_range by simp_all
  have "- M \<le> p div (2 * M)"
    using zdiv_mono1 [OF assms(2), of "2 * M"] M(2) by (simp del: mult_minus_left)
  moreover have "p div (2 * M) < M"
    using int_div_less [OF M(2) assms(3)] .
  ultimately show ?thesis
    unfolding M(1) by (simp add: signed_of_int signed_take_bit_int_eq_self M_def)
qed

lemma product_recombine:
  "(p :: int) = 2 ^ n * (p div 2 ^ n) + take_bit n p"
  by (simp add: take_bit_eq_mod)

lemma uint_mult_take_bit:
  "uint (lhs * rhs) = take_bit LENGTH('a) (sint lhs * sint rhs)"
  "uint (lhs * rhs) = take_bit LENGTH('a) (sint lhs * uint rhs)"
  "uint (lhs * rhs) = take_bit LENGTH('a) (uint lhs * uint rhs)" for lhs rhs :: "'a::len word"
proof -
  have "lhs * rhs = word_of_int (sint lhs * sint rhs)" "lhs * rhs = word_of_int (sint lhs * uint rhs)"
    "lhs * rhs = word_of_int (uint lhs * uint rhs)"
    by simp_all
  then show "uint (lhs * rhs) = take_bit LENGTH('a) (sint lhs * sint rhs)"
    "uint (lhs * rhs) = take_bit LENGTH('a) (sint lhs * uint rhs)"
    "uint (lhs * rhs) = take_bit LENGTH('a) (uint lhs * uint rhs)"
    by (metis uint_word_of_int_eq)+
qed

lemma signed_product_bounds:
  fixes a b M :: int
  assumes "- M \<le> a" "a < M" "- M \<le> b" "b < M"
  shows "- M * (2 * M) \<le> a * b" and "a * b < M * (2 * M)"
proof -
  have M: "0 < M" using assms by simp
  have "\<bar>a\<bar> * \<bar>b\<bar> \<le> M * M"
    using assms M by (intro mult_mono) auto
  then have "\<bar>a * b\<bar> \<le> M * M" by (simp add: abs_mult)
  moreover have "0 < M * M" using M by simp
  ultimately show "- M * (2 * M) \<le> a * b" "a * b < M * (2 * M)" by auto
qed

lemma mixed_product_bounds:
  fixes a b M :: int
  assumes "- M \<le> a" "a < M" "0 \<le> b" "b < 2 * M"
  shows "- M * (2 * M) \<le> a * b" and "a * b < M * (2 * M)"
proof -
  have M: "0 < M" using assms by simp
  have "- M * b \<le> a * b" using assms by (intro mult_right_mono) auto
  moreover have "- M * (2 * M) \<le> - M * b" using assms M by simp
  ultimately show "- M * (2 * M) \<le> a * b" by linarith
  have "a * b \<le> (M - 1) * b" using assms by (intro mult_right_mono) auto
  also have "\<dots> \<le> (M - 1) * (2 * M)" using assms M by (intro mult_left_mono) auto
  also have "\<dots> < M * (2 * M)" using M by (intro mult_strict_right_mono) auto
  finally show "a * b < M * (2 * M)" .
qed

lemma widening_product_signed:
  fixes lhs rhs :: "'a::len word"
  assumes "LENGTH('b::len) = 2 * LENGTH('a)"
  shows "2 ^ LENGTH('a) * sint (ucast (signed_drop_bit LENGTH('a) (scast lhs * scast rhs :: 'b word)) :: 'a word)
      + uint (lhs * rhs) = sint lhs * sint rhs"
proof -
  have "scast lhs * scast rhs = (word_of_int (sint lhs * sint rhs) :: 'b word)"
    by simp
  then show ?thesis
    using high_half [OF assms, of "sint lhs * sint rhs"] product_recombine [of "sint lhs * sint rhs" "LENGTH('a)"]
      signed_product_bounds [OF sint_bounds sint_bounds, of lhs rhs]
    by (simp add: uint_mult_take_bit(1) sint_of_quotient)
qed

lemma widening_product_mixed:
  fixes lhs rhs :: "'a::len word"
  assumes "LENGTH('b::len) = 2 * LENGTH('a)"
  shows "2 ^ LENGTH('a) * sint (ucast (signed_drop_bit LENGTH('a) (scast lhs * ucast rhs :: 'b word)) :: 'a word)
      + uint (lhs * rhs) = sint lhs * uint rhs"
proof -
  have "scast lhs * ucast rhs = (word_of_int (sint lhs * uint rhs) :: 'b word)"
    by simp
  then show ?thesis
    using high_half [OF assms, of "sint lhs * uint rhs"] product_recombine [of "sint lhs * uint rhs" "LENGTH('a)"]
      mixed_product_bounds [OF sint_bounds, of "uint rhs" lhs, unfolded half_range]
    by (simp add: uint_mult_take_bit(2) sint_of_quotient half_range [simplified])
qed

lemma widening_product_unsigned:
  fixes lhs rhs :: "'a::len word"
  assumes "LENGTH('b::len) = 2 * LENGTH('a)"
  shows "2 ^ LENGTH('a) * uint (ucast (signed_drop_bit LENGTH('a) (ucast lhs * ucast rhs :: 'b word)) :: 'a word)
      + uint (lhs * rhs) = uint lhs * uint rhs"
proof -
  have "ucast lhs * ucast rhs = (word_of_int (uint lhs * uint rhs) :: 'b word)"
    by simp
  moreover have "uint lhs * uint rhs < 2 ^ LENGTH('a) * 2 ^ LENGTH('a)"
    by (intro mult_strict_mono') simp_all
  then have "uint lhs * uint rhs div 2 ^ LENGTH('a) < 2 ^ LENGTH('a)"
    by (intro int_div_less) simp_all
  ultimately show ?thesis
    using high_half [OF assms, of "uint lhs * uint rhs"] product_recombine [of "uint lhs * uint rhs" "LENGTH('a)"]
    by (simp add: uint_mult_take_bit(3) uint_word_of_int_eq take_bit_int_eq_self
        pos_imp_zdiv_nonneg_iff)
qed

section \<open>Signed division\<close>

lemma sdiv_in_range:
  fixes a b M :: int
  assumes "- M \<le> a" "a < M" "b \<noteq> 0" "\<not> (a = - M \<and> b = -1)"
  shows "- M \<le> a sdiv b" and "a sdiv b < M"
proof -
  have "\<bar>a sdiv b\<bar> < M \<or> a sdiv b = a \<or> (a sdiv b = - a \<and> a \<noteq> - M)"
  proof (cases "\<bar>b\<bar> = 1")
    case True
    then have "b = 1 \<or> b = -1" by linarith
    with assms show ?thesis by auto
  next
    case False
    have "\<bar>a sdiv b\<bar> \<le> \<bar>a\<bar> div \<bar>b\<bar>"
      by (auto simp: signed_divide_int_def abs_mult sgn_if abs_of_nonneg div_int_pos_iff)
    also have "\<dots> \<le> \<bar>a\<bar> div 2"
      using assms(3) False by (intro zdiv_mono2) auto
    also have "\<dots> < M" using assms by simp
    finally show ?thesis by simp
  qed
  with assms show "- M \<le> a sdiv b" "a sdiv b < M" by auto
qed

lemma smod_in_range:
  fixes a b :: int
  assumes "b \<noteq> 0"
  shows "\<bar>a smod b\<bar> < \<bar>b\<bar>" and "a smod b = 0 \<or> sgn (a smod b) = sgn a"
proof -
  define m where "m = \<bar>a\<bar> mod \<bar>b\<bar>"
  have "0 \<le> m" "m < \<bar>b\<bar>" "a smod b = sgn a * m"
    using assms by (simp_all add: m_def signed_modulo_int_def)
  then show "\<bar>a smod b\<bar> < \<bar>b\<bar>" "a smod b = 0 \<or> sgn (a smod b) = sgn a"
    using assms by (auto simp: abs_mult sgn_mult sgn_if)
qed

text \<open>The contract of a signed division with remainder: the quotient and the remainder recombine,
  the remainder is smaller than the divisor and takes the sign of the dividend.\<close>

definition signed_division_spec :: "'a::len word \<Rightarrow> 'a word \<Rightarrow> 'a word \<Rightarrow> 'a word \<Rightarrow> bool" where
  "signed_division_spec lhs rhs q r \<longleftrightarrow>
    lhs = q * rhs + r \<and>
    (rhs = 0 \<longrightarrow> q = -1) \<and>
    (rhs \<noteq> 0 \<longrightarrow> \<bar>sint r\<bar> < \<bar>sint rhs\<bar> \<and> (sint r = 0 \<or> sgn (sint r) = sgn (sint lhs))) \<and>
    (rhs \<noteq> 0 \<and> \<not> (sint lhs = - (2 ^ (LENGTH('a) - 1)) \<and> sint rhs = -1)
      \<longrightarrow> sint q = sint lhs sdiv sint rhs)"

definition unsigned_division_spec :: "'a::len word \<Rightarrow> 'a word \<Rightarrow> 'a word \<Rightarrow> 'a word \<Rightarrow> bool" where
  "unsigned_division_spec lhs rhs q r \<longleftrightarrow>
    lhs = q * rhs + r \<and> (rhs = 0 \<longrightarrow> q = -1) \<and>
    (rhs \<noteq> 0 \<longrightarrow> r < rhs \<and> uint q = uint lhs div uint rhs)"

lemma unsigned_division_regular:
  "rhs \<noteq> 0 \<Longrightarrow> unsigned_division_spec lhs rhs (lhs div rhs) (lhs mod rhs)" for lhs rhs :: "'a::len word"
  by (auto simp: unsigned_division_spec_def word_mod_div_equality word_mod_less_divisor word_gt_0
      uint_div)

lemma signed_division_regular:
  fixes lhs rhs :: "'a::len word"
  assumes "rhs \<noteq> 0" and "\<not> (sint lhs = - (2 ^ (LENGTH('a) - 1)) \<and> sint rhs = -1)"
  shows "signed_division_spec lhs rhs (word_of_int (sint lhs sdiv sint rhs)) (word_of_int (sint lhs smod sint rhs))"
proof -
  define M :: int where "M = 2 ^ (LENGTH('a) - 1)"
  have nz: "sint rhs \<noteq> 0" using assms(1) signed_word_eqI [of rhs 0] by auto
  have b: "- M \<le> sint lhs" "sint lhs < M" "- M \<le> sint rhs" "sint rhs < M"
    unfolding M_def by (rule sint_bounds)+
  have fits: "sint (word_of_int x :: 'a word) = x" if "- M \<le> x" "x < M" for x
    using that by (simp add: M_def signed_of_int signed_take_bit_int_eq_self)
  have "sint (word_of_int (sint lhs sdiv sint rhs) :: 'a word) = sint lhs sdiv sint rhs"
    using sdiv_in_range [OF b(1,2) nz] assms(2) by (intro fits) (auto simp: M_def)
  moreover have "sint (word_of_int (sint lhs smod sint rhs) :: 'a word) = sint lhs smod sint rhs"
    using smod_in_range(1) [OF nz, of "sint lhs"] b by (intro fits) linarith+
  moreover have "lhs = word_of_int (sint lhs sdiv sint rhs * sint rhs + sint lhs smod sint rhs)"
    by (simp only: sdiv_mult_smod_eq) simp
  ultimately show ?thesis
    using smod_in_range [OF nz, of "sint lhs"] nz by (auto simp: signed_division_spec_def)
qed

section \<open>Properties\<close>

text \<open>C34: the divisions and remainders of both widths meet their contracts on all inputs:
  dividend = quotient * divisor + remainder in wrapping arithmetic (division by zero and the
  overflowing \<open>MIN / -1\<close> included), the remainder is smaller than the divisor with the dividend's
  sign, the quotient is the truncated one, and division by zero gives the all-ones word.\<close>

theorem div_rem_correct:
  "signed_division_spec l32 r32 (div_i32 l32 r32) (rem_i32 l32 r32) \<and>
   signed_division_spec l64 r64 (div64 l64 r64) (rem64 l64 r64) \<and>
   unsigned_division_spec l32 r32 (divu l32 r32) (remu l32 r32) \<and>
   unsigned_division_spec l64 r64 (divu64 l64 r64) (remu64 l64 r64)"
proof (intro conjI)
  have min: "sint l32 = - (2 ^ (LENGTH(32) - 1)) \<longleftrightarrow> l32 = i32_MIN" "sint r32 = - 1 \<longleftrightarrow> r32 = - 1"
    "sint l64 = - (2 ^ (LENGTH(64) - 1)) \<longleftrightarrow> l64 = i64_MIN" "sint r64 = - 1 \<longleftrightarrow> r64 = - 1"
    using signed_word_eqI [of l32 i32_MIN] signed_word_eqI [of r32 "- 1"]
      signed_word_eqI [of l64 i64_MIN] signed_word_eqI [of r64 "- 1"]
    by (auto simp: i32_MIN_def i64_MIN_def)
  show "signed_division_spec l32 r32 (div_i32 l32 r32) (rem_i32 l32 r32)"
    using signed_division_regular [of r32 l32] min
    by (auto simp: div_i32_def rem_i32_def signed_division_spec_def i32_MIN_def)
  show "signed_division_spec l64 r64 (div64 l64 r64) (rem64 l64 r64)"
    using signed_division_regular [of r64 l64] min
    by (auto simp: div64_def rem64_def signed_division_spec_def i64_MIN_def)
  show "unsigned_division_spec l32 r32 (divu l32 r32) (remu l32 r32)"
    using unsigned_division_regular [of r32 l32]
    by (auto simp: divu_def remu_def unsigned_division_spec_def)
  show "unsigned_division_spec l64 r64 (divu64 l64 r64) (remu64 l64 r64)"
    using unsigned_division_regular [of r64 l64]
    by (auto simp: divu64_def remu64_def unsigned_division_spec_def)
qed

text \<open>C35: the upper halves are exact: together with the wrapping product they give the full
  product of the operands, read as signed, signed times unsigned, or unsigned numbers.\<close>

theorem mulh_exact:
  "2 ^ 32 * sint (mulh a b) + uint (a * b) = sint a * sint b \<and>
   2 ^ 32 * sint (mulhsu a b) + uint (a * b) = sint a * uint b \<and>
   2 ^ 32 * uint (mulhu a b) + uint (a * b) = uint a * uint b \<and>
   2 ^ 64 * sint (mulh64 c d) + uint (c * d) = sint c * sint d \<and>
   2 ^ 64 * sint (mulhsu64 c d) + uint (c * d) = sint c * uint d \<and>
   2 ^ 64 * uint (mulhu64 c d) + uint (c * d) = uint c * uint d"
  using widening_product_signed [of a b, where ?'b = 64] widening_product_mixed [of a b, where ?'b = 64]
    widening_product_unsigned [of a b, where ?'b = 64] widening_product_signed [of c d, where ?'b = 128]
    widening_product_mixed [of c d, where ?'b = 128] widening_product_unsigned [of c d, where ?'b = 128]
  by (simp add: mulh_def mulhsu_def mulhu_def mulh64_def mulhsu64_def mulhu64_def)

end
