(* ===== verification/Memory_Map.thy ===== *)
theory Memory_Map
  imports Prelude
begin

text \<open>
  The layout of the guest address space, \<open>crates/polkavm-common/src/abi.rs\<close>, and the page alignment
  of \<open>utils.rs\<close> it uses. \<open>None\<close> of \<open>align_to_next_page\<close> and of \<open>build\<close> is a panic (the assertion on
  the page size), \<open>Inl\<close> of \<open>build\<close> its error message.
\<close>

definition ADDRESS_SPACE_SIZE :: u64 where "ADDRESS_SPACE_SIZE = 0x100000000"
definition VM_MIN_PAGE_SIZE :: u32 where "VM_MIN_PAGE_SIZE = 0x1000"
definition VM_MAX_PAGE_SIZE :: u32 where "VM_MAX_PAGE_SIZE = 0x10000"
definition VM_ADDRESS_SPACE_BOTTOM :: u32 where "VM_ADDRESS_SPACE_BOTTOM = VM_MAX_PAGE_SIZE"
definition VM_ADDRESS_SPACE_TOP :: u32 where
  "VM_ADDRESS_SPACE_TOP = ucast (ADDRESS_SPACE_SIZE - ucast VM_MAX_PAGE_SIZE)"
definition VM_ADDR_RETURN_TO_HOST :: u32 where "VM_ADDR_RETURN_TO_HOST = 0xffff0000"
definition VM_MAXIMUM_CODE_SIZE :: u32 where "VM_MAXIMUM_CODE_SIZE = 32 * 1024 * 1024"
definition VM_MAXIMUM_JUMP_TABLE_ENTRIES :: u32 where
  "VM_MAXIMUM_JUMP_TABLE_ENTRIES = 16 * 1024 * 1024"
definition VM_MAXIMUM_IMPORT_COUNT :: u32 where "VM_MAXIMUM_IMPORT_COUNT = 1024"
definition VM_CODE_ADDRESS_ALIGNMENT :: u32 where "VM_CODE_ADDRESS_ALIGNMENT = 2"

lemmas abi_constants =
  ADDRESS_SPACE_SIZE_def VM_MIN_PAGE_SIZE_def VM_MAX_PAGE_SIZE_def VM_ADDRESS_SPACE_BOTTOM_def
  VM_ADDRESS_SPACE_TOP_def

definition align_to_next_page :: "'a::len word \<Rightarrow> 'a word \<Rightarrow> 'a word option option" where
  "align_to_next_page page_size value =
    (if \<not> (page_size \<noteq> 0 \<and> (page_size AND (page_size - 1)) = 0) then None
     else if value AND (page_size - 1) = 0 then Some (Some value)
     else if value \<le> -1 - page_size then Some (Some ((value + page_size) AND NOT (page_size - 1)))
     else Some None)"

record MemoryMapBuilder =
  b_page_size :: u32
  b_ro_data_size :: u32
  b_rw_data_size :: u32
  b_stack_size :: u32
  b_aux_data_size :: u32

record MemoryMap =
  page_size :: u32
  ro_data_size :: u32
  rw_data_address :: u32
  rw_data_size :: u32
  stack_address_high :: u32
  stack_size :: u32
  aux_data_address :: u32
  aux_data_size :: u32
  heap_base :: u32
  max_heap_size :: u32

definition MemoryMapBuilder_new :: "u32 \<Rightarrow> MemoryMapBuilder" where
  "MemoryMapBuilder_new ps = \<lparr>b_page_size = ps, b_ro_data_size = 0, b_rw_data_size = 0,
    b_stack_size = 0, b_aux_data_size = 0\<rparr>"

definition is_power_of_two :: "'a::len word \<Rightarrow> bool" where
  "is_power_of_two w \<longleftrightarrow> count_ones w = 1"

text \<open>The pair of alignments made for each region: its share of the address space, aligned to the
  largest page size, and its size, aligned to the page size of the program.\<close>

definition align_region :: "u32 \<Rightarrow> u32 \<Rightarrow> string \<Rightarrow> (string + u64 \<times> u32) option" where
  "align_region ps sz message =
    (case align_to_next_page (ucast VM_MAX_PAGE_SIZE) (ucast sz :: u64) of
       None \<Rightarrow> None
     | Some None \<Rightarrow> Some (Inl message)
     | Some (Some address_space) \<Rightarrow>
        (case align_to_next_page ps sz of
           None \<Rightarrow> None
         | Some None \<Rightarrow> Some (Inl message)
         | Some (Some aligned) \<Rightarrow> Some (Inr (address_space, aligned))))"

definition place_regions ::
  "u32 \<Rightarrow> u32 \<Rightarrow> u64 \<times> u32 \<Rightarrow> u64 \<times> u32 \<Rightarrow> u64 \<times> u32 \<Rightarrow> u64 \<times> u32 \<Rightarrow> string + MemoryMap" where
  "place_regions ps original_rw_data_size ro rw stack aux =
    (let address_low = (0 :: u64) + ucast VM_ADDRESS_SPACE_BOTTOM + fst ro + ucast VM_MAX_PAGE_SIZE;
         rw_address = ucast address_low :: u32;
         base = address_low + ucast original_rw_data_size;
         address_low = address_low + fst rw;
         heap_slack = address_low - base;
         address_low = address_low + ucast VM_MAX_PAGE_SIZE;
         address_high = uint VM_ADDRESS_SPACE_TOP - sint (fst aux);
         aux_address = word_of_int address_high :: u32;
         address_high = address_high - uint VM_MAX_PAGE_SIZE;
         stack_high = word_of_int address_high :: u32;
         address_high = address_high - sint (fst stack)
     in if sint address_low > address_high then Inl ''maximum memory size exceeded''
        else
          let heap_size = word_of_int address_high - address_low + heap_slack
          in Inr \<lparr>page_size = ps, ro_data_size = snd ro, rw_data_address = rw_address,
                  rw_data_size = snd rw, stack_address_high = stack_high, stack_size = snd stack,
                  aux_data_address = aux_address, aux_data_size = snd aux,
                  heap_base = ucast base, max_heap_size = ucast heap_size\<rparr>)"

definition build :: "MemoryMapBuilder \<Rightarrow> (string + MemoryMap) option" where
  "build b =
    (if b_page_size b < VM_MIN_PAGE_SIZE then
       Some (Inl ''invalid page size: page size is too small'')
     else if b_page_size b > VM_MAX_PAGE_SIZE then
       Some (Inl ''invalid page size: page size is too big'')
     else if \<not> is_power_of_two (b_page_size b) then
       Some (Inl ''invalid page size: page size is not a power of two'')
     else
       case align_region (b_page_size b) (b_ro_data_size b) ''the size of read-only data is too big'' of
         None \<Rightarrow> None | Some (Inl e) \<Rightarrow> Some (Inl e) | Some (Inr ro) \<Rightarrow>
       (case align_region (b_page_size b) (b_rw_data_size b) ''the size of read-write data is too big'' of
         None \<Rightarrow> None | Some (Inl e) \<Rightarrow> Some (Inl e) | Some (Inr rw) \<Rightarrow>
       (case align_region (b_page_size b) (b_stack_size b) ''the size of the stack is too big'' of
         None \<Rightarrow> None | Some (Inl e) \<Rightarrow> Some (Inl e) | Some (Inr stack) \<Rightarrow>
       (case align_region (b_page_size b) (b_aux_data_size b) ''the size of the aux data is too big'' of
         None \<Rightarrow> None | Some (Inl e) \<Rightarrow> Some (Inl e) | Some (Inr aux) \<Rightarrow>
         Some (place_regions (b_page_size b) (b_rw_data_size b) ro rw stack aux)))))"

text \<open>The accessors that compute: the ends of the regions, and the low end of the stack.\<close>

definition ro_data_address :: "MemoryMap \<Rightarrow> u32" where
  "ro_data_address m = VM_ADDRESS_SPACE_BOTTOM"

definition ro_data_range :: "MemoryMap \<Rightarrow> u32 \<times> u32" where
  "ro_data_range m = (ro_data_address m, ro_data_address m + ro_data_size m)"

definition rw_data_range :: "MemoryMap \<Rightarrow> u32 \<times> u32" where
  "rw_data_range m = (rw_data_address m, rw_data_address m + rw_data_size m)"

definition stack_address_low :: "MemoryMap \<Rightarrow> u32" where
  "stack_address_low m = stack_address_high m - stack_size m"

definition stack_range :: "MemoryMap \<Rightarrow> u32 \<times> u32" where
  "stack_range m = (stack_address_low m, stack_address_high m)"

definition aux_data_range :: "MemoryMap \<Rightarrow> u32 \<times> u32" where
  "aux_data_range m = (aux_data_address m, aux_data_address m + aux_data_size m)"

section \<open>Alignment\<close>

definition round_up :: "nat \<Rightarrow> nat \<Rightarrow> nat" where
  "round_up p n = (n + p - 1) div p * p"

lemma round_up_bounds:
  assumes "0 < p"
  shows "n \<le> round_up p n" and "round_up p n < n + p" and "p dvd round_up p n"
proof -
  have "(n + p - 1) div p * p + (n + p - 1) mod p = n + p - 1" by simp
  moreover have "(n + p - 1) mod p \<le> p - 1"
    using mod_less_divisor [OF assms, of "n + p - 1"] by linarith
  ultimately show "n \<le> round_up p n" "round_up p n < n + p"
    unfolding round_up_def using assms by linarith+
  show "p dvd round_up p n" by (simp add: round_up_def)
qed

lemma round_up_unique:
  assumes "n \<le> m" "m < n + p" "p dvd m"
  shows "round_up p n = m"
proof -
  obtain k where m: "m = k * p" using assms(3) by (auto simp: dvd_def mult.commute)
  have "0 < p" using assms(1,2) by simp
  have "(n + p - 1) div p = k"
    using assms(1,2) m \<open>0 < p\<close> by (intro div_nat_eqI) (auto simp: mult.commute)
  then show ?thesis by (simp add: round_up_def m)
qed

lemma round_up_unaligned:
  assumes "0 < p" "\<not> p dvd n"
  shows "round_up p n = (n + p) div p * p"
proof (rule round_up_unique)
  have "(n + p) div p * p + (n + p) mod p = n + p" by (rule div_mult_mod_eq)
  moreover have "(n + p) mod p < p" "0 < (n + p) mod p"
    using assms by (simp_all add: mod_greater_zero_iff_not_dvd)
  ultimately show "n \<le> (n + p) div p * p" "(n + p) div p * p < n + p" by linarith+
qed simp

lemma round_up_mono: "m \<le> n \<Longrightarrow> round_up p m \<le> round_up p n"
  by (simp add: round_up_def div_le_mono diff_le_mono)

lemma round_up_dvd_le:
  assumes "p dvd q" "0 < q"
  shows "round_up p n \<le> round_up q n"
proof (rule ccontr)
  have "0 < p" using assms by (auto intro: Nat.gr0I)
  assume "\<not> round_up p n \<le> round_up q n"
  then have lt: "round_up q n < round_up p n" by simp
  have "round_up q n < n + p" using lt round_up_bounds(2) [OF \<open>0 < p\<close>, of n] by linarith
  then have "round_up p n = round_up q n"
    using round_up_bounds [OF assms(2), of n] assms(1) by (intro round_up_unique) (auto intro: dvd_trans)
  with lt show False by simp
qed

lemma count_ones_nat_eq_0: "count_ones_nat n = 0 \<longleftrightarrow> n = 0"
proof (induction n rule: count_ones_nat.induct)
  case (1 n)
  show ?case
  proof (cases "n = 0")
    case True
    then show ?thesis by (simp add: count_ones_nat.simps)
  next
    case False
    have "\<not> (n mod 2 = 0 \<and> n div 2 = 0)" using False by (metis div_mult_mod_eq mult_is_0 add_0)
    with 1 [OF False] False show ?thesis by (simp add: count_ones_nat.simps [of n])
  qed
qed

lemma count_ones_nat_eq_1: "count_ones_nat n = 1 \<Longrightarrow> \<exists>k. n = 2 ^ k"
proof (induction n rule: count_ones_nat.induct)
  case (1 n)
  have "n \<noteq> 0"
    using 1(2) count_ones_nat_eq_0 [of n] by (metis zero_neq_one)
  show ?case
  proof (cases "odd n")
    case True
    with 1(2) \<open>n \<noteq> 0\<close> have "n div 2 = 0"
      by (simp add: count_ones_nat.simps [of n] count_ones_nat_eq_0 odd_iff_mod_2_eq_one)
    with True have "n = 2 ^ 0" by (auto elim: oddE)
    then show ?thesis ..
  next
    case False
    with 1(2) \<open>n \<noteq> 0\<close> have "count_ones_nat (n div 2) = 1"
      by (simp add: count_ones_nat.simps [of n] even_iff_mod_2_eq_zero)
    with 1(1) \<open>n \<noteq> 0\<close> obtain k where "n div 2 = 2 ^ k" by blast
    with False have "n = 2 ^ Suc k" by (auto elim: evenE)
    then show ?thesis ..
  qed
qed

lemma is_power_of_two_unat:
  "is_power_of_two w \<Longrightarrow> \<exists>k < LENGTH('a). unat w = 2 ^ k" for w :: "'a::len word"
proof -
  assume "is_power_of_two w"
  then obtain k where k: "unat w = 2 ^ k"
    using count_ones_nat_eq_1 [of "unat w"] by (auto simp: is_power_of_two_def count_ones_def)
  then have "(2 :: nat) ^ k < 2 ^ LENGTH('a)"
    using unsigned_less [of w, where ?'a = nat] by simp
  then have "k < LENGTH('a)"
    by (rule power_less_imp_less_exp [rotated]) simp
  with k show ?thesis by blast
qed

lemma unat_and_not_mask: "unat (w AND NOT (mask k)) = unat w div 2 ^ k * 2 ^ k" for w :: "'a::len word"
proof -
  have "w AND NOT (mask k) = push_bit k (drop_bit k w)"
    by (rule bit_word_eqI) (auto simp: bit_and_iff bit_not_iff bit_mask_iff bit_push_bit_iff bit_drop_bit_eq)
  moreover have "unat w div 2 ^ k * 2 ^ k < 2 ^ LENGTH('a)"
    using unsigned_less [of w, where ?'a = nat] div_times_less_eq_dividend [of "unat w" "2 ^ k"]
    by linarith
  ultimately show ?thesis
    by (simp only: unsigned_push_bit_eq unsigned_drop_bit_eq)
      (simp add: push_bit_eq_mult drop_bit_eq_div take_bit_nat_eq_self)
qed

lemma dvd_gap: "p dvd a \<Longrightarrow> p dvd b \<Longrightarrow> a < b \<Longrightarrow> a + p \<le> b" for a b p :: nat
  using dvd_imp_le [of p "b - a"] by auto

lemma align_to_next_page_pow2:
  fixes v :: "'a::len word"
  assumes p: "unat p = 2 ^ k"
  shows "align_to_next_page p v =
    (if round_up (2 ^ k) (unat v) < 2 ^ LENGTH('a)
     then Some (Some (word_of_nat (round_up (2 ^ k) (unat v)))) else Some None)"
proof -
  define n where "n = unat v"
  have n: "n < 2 ^ LENGTH('a)" unfolding n_def by simp
  have k: "k < LENGTH('a)"
    using unsigned_less [of p, where ?'a = nat] p power_less_imp_less_exp [of "2 :: nat" k] by simp
  have p2: "p = 2 ^ k" using p by (metis of_nat_numeral of_nat_power of_nat_unat ucast_id)
  have mask: "p - 1 = mask k" by (simp add: p2 mask_eq_exp_minus_1)
  have ok: "p \<noteq> 0" "p AND (p - 1) = 0"
  proof -
    show "p \<noteq> 0" using p by auto
    show "p AND (p - 1) = 0" unfolding mask unfolding p2
      by (rule bit_word_eqI) (auto simp: bit_and_iff bit_exp_iff bit_mask_iff)
  qed
  have aligned: "v AND (p - 1) = 0 \<longleftrightarrow> 2 ^ k dvd n"
    unfolding mask n_def
    by (simp only: word_unat_eq_iff unsigned_take_bit_eq flip: take_bit_eq_mask)
      (simp add: take_bit_eq_mod dvd_eq_mod_eq_0)
  have "unat (- 1 - p) = 2 ^ LENGTH('a) - 1 - 2 ^ k"
    using unat_sub [of p "- 1"] p by (simp add: unsigned_minus_1_eq_mask mask_eq_exp_minus_1)
  moreover have "2 ^ k < (2 :: nat) ^ LENGTH('a)" using k by simp
  ultimately have fits: "v \<le> - 1 - p \<longleftrightarrow> n + 2 ^ k < 2 ^ LENGTH('a)"
    unfolding word_le_nat_alt n_def [symmetric] by linarith
  have pk: "(0 :: nat) < 2 ^ k" by simp
  show ?thesis
  proof (cases "2 ^ k dvd n")
    case True
    then have "round_up (2 ^ k) n = n" by (intro round_up_unique) auto
    then show ?thesis
      using ok aligned True n by (simp add: align_to_next_page_def n_def)
  next
    case unaligned: False
    then have r: "n < round_up (2 ^ k) n"
      using round_up_bounds [OF pk, of n] by (metis le_neq_implies_less)
    show ?thesis
    proof (cases "n + 2 ^ k < 2 ^ LENGTH('a)")
      case True
      have "round_up (2 ^ k) n = (n + 2 ^ k) div 2 ^ k * 2 ^ k"
        using unaligned by (intro round_up_unaligned) simp_all
      moreover have "unat (v + p) = n + 2 ^ k"
        using True p by (simp add: unat_word_ariths n_def)
      ultimately have "unat ((v + p) AND NOT (mask k)) = round_up (2 ^ k) n"
        by (simp add: unat_and_not_mask)
      then have "(v + p) AND NOT (mask k) = word_of_nat (round_up (2 ^ k) n)"
        by (metis of_nat_unat ucast_id)
      then show ?thesis
        using ok aligned unaligned fits True round_up_bounds(2) [OF pk, of n]
        by (simp add: align_to_next_page_def n_def mask)
    next
      case False
      have "\<not> round_up (2 ^ k) n < 2 ^ LENGTH('a)"
        using dvd_gap [of "2 ^ k" "round_up (2 ^ k) n" "2 ^ LENGTH('a)"] k r False
          round_up_bounds(3) [OF pk, of n] by (auto simp: le_imp_power_dvd)
      then show ?thesis
        using ok aligned unaligned fits False by (simp add: align_to_next_page_def n_def)
    qed
  qed
qed

section \<open>The layout\<close>

text \<open>What a memory map promises, for the sizes the builder was given: every region starts at a
  multiple of the largest page size and ends at a multiple of the program's page size, holds at
  least the requested bytes, the regions are in order with a guard of at least the largest page
  size below, between and above them, and the heap runs from the end of the requested read-write
  data up to the guard below the stack's address space.\<close>

definition memory_map_ok :: "MemoryMapBuilder \<Rightarrow> MemoryMap \<Rightarrow> bool" where
  "memory_map_ok b m \<longleftrightarrow>
    (let P = unat (b_page_size b); G = 0x10000;
         ro = unat (ro_data_address m); ro_end = unat (snd (ro_data_range m));
         rw = unat (rw_data_address m); rw_end = unat (snd (rw_data_range m));
         st = unat (stack_address_low m); st_end = unat (stack_address_high m);
         aux = unat (aux_data_address m); aux_end = unat (snd (aux_data_range m));
         heap = unat (heap_base m); heap_end = unat (heap_base m) + unat (max_heap_size m)
     in page_size m = b_page_size b
      \<and> G dvd ro \<and> G dvd rw \<and> G dvd st_end \<and> G dvd aux
      \<and> P dvd ro_end \<and> P dvd rw_end \<and> P dvd st \<and> P dvd aux_end
      \<and> ro_end = ro + unat (ro_data_size m) \<and> rw_end = rw + unat (rw_data_size m)
      \<and> st_end = st + unat (stack_size m) \<and> aux_end = aux + unat (aux_data_size m)
      \<and> unat (ro_data_size m) = round_up P (unat (b_ro_data_size b))
      \<and> unat (rw_data_size m) = round_up P (unat (b_rw_data_size b))
      \<and> unat (stack_size m) = round_up P (unat (b_stack_size b))
      \<and> unat (aux_data_size m) = round_up P (unat (b_aux_data_size b))
      \<and> ro = G \<and> ro_end + G \<le> rw \<and> rw_end + G \<le> st \<and> st_end + G \<le> aux \<and> aux_end + G \<le> 2 ^ 32
      \<and> heap = rw + unat (b_rw_data_size b) \<and> rw_end \<le> heap_end + P \<and> heap_end + G \<le> st)"

definition total_address_space :: "MemoryMapBuilder \<Rightarrow> nat" where
  "total_address_space b = round_up 0x10000 (unat (b_ro_data_size b))
    + round_up 0x10000 (unat (b_rw_data_size b)) + round_up 0x10000 (unat (b_stack_size b))
    + round_up 0x10000 (unat (b_aux_data_size b))"

lemma align_to_max_page:
  "align_to_next_page (ucast VM_MAX_PAGE_SIZE) (ucast sz :: u64) =
    Some (Some (word_of_nat (round_up 0x10000 (unat sz))))" for sz :: u32
proof -
  have "round_up 65536 (unat sz) < unat sz + 65536"
    by (rule round_up_bounds) simp
  then show ?thesis
    using align_to_next_page_pow2 [of "0x10000" 16 "ucast sz :: u64"] unsigned_less [of sz, where ?'a = nat]
    by (simp add: VM_MAX_PAGE_SIZE_def unsigned_ucast_eq take_bit_nat_eq_self)
qed

lemma align_region_pow2:
  assumes "unat ps = 2 ^ k" "k \<le> 16"
  shows "align_region ps sz message =
    (if round_up (2 ^ k) (unat sz) < 2 ^ 32
     then Some (Inr (word_of_nat (round_up 0x10000 (unat sz)), word_of_nat (round_up (2 ^ k) (unat sz))))
     else Some (Inl message))"
  by (simp add: align_region_def align_to_max_page align_to_next_page_pow2 [OF assms(1)])

lemma ucast_word_of_nat: "(ucast (word_of_nat n :: 'b::len word) :: 'a::len word) = word_of_nat n"
  if "n < 2 ^ LENGTH('b)"
proof -
  have "unat (word_of_nat n :: 'b word) = n"
    using that by (simp add: unsigned_of_nat take_bit_nat_eq_self)
  then show ?thesis by (metis of_nat_unat)
qed

lemma sint_word_of_nat: "sint (word_of_nat n :: 'a::len word) = int n" if "n < 2 ^ (LENGTH('a) - 1)"
proof -
  have "int n < 2 ^ (LENGTH('a) - 1)"
    using that by (metis of_nat_less_iff of_nat_numeral of_nat_power)
  moreover have "- (2 ^ (LENGTH('a) - 1)) \<le> int n"
    by (rule order_trans [of _ 0]) simp_all
  ultimately show ?thesis
    by (simp add: signed_of_nat signed_take_bit_int_eq_self)
qed

lemma place_regions_alt:
  assumes "R \<le> 2 ^ 32" "W \<le> 2 ^ 32" "S \<le> 2 ^ 32" "A \<le> 2 ^ 32" "unat orig \<le> W"
  shows "place_regions ps orig (word_of_nat R, r) (word_of_nat W, w) (word_of_nat S, s) (word_of_nat A, a) =
    (if 2 ^ 32 - 5 * 0x10000 < R + W + S + A then Inl ''maximum memory size exceeded''
     else Inr \<lparr>page_size = ps, ro_data_size = r, rw_data_address = word_of_nat (0x20000 + R),
       rw_data_size = w, stack_address_high = word_of_nat (0xFFFE0000 - A), stack_size = s,
       aux_data_address = word_of_nat (0xFFFF0000 - A), aux_data_size = a,
       heap_base = word_of_nat (0x20000 + R + unat orig),
       max_heap_size = word_of_nat (0xFFFE0000 - A - S - (0x30000 + R + unat orig))\<rparr>)"
proof -
  have low: "(0 :: u64) + ucast VM_ADDRESS_SPACE_BOTTOM + word_of_nat R + ucast VM_MAX_PAGE_SIZE =
      word_of_nat (0x20000 + R)"
    by (simp add: abi_constants)
  have base: "word_of_nat (0x20000 + R) + (ucast orig :: u64) = word_of_nat (0x20000 + R + unat orig)"
    by simp
  have low': "word_of_nat (0x20000 + R) + word_of_nat W = (word_of_nat (0x20000 + R + W) :: u64)"
    "word_of_nat (0x20000 + R + W) + ucast VM_MAX_PAGE_SIZE = (word_of_nat (0x30000 + R + W) :: u64)"
    by (simp_all add: abi_constants)
  have high: "uint VM_ADDRESS_SPACE_TOP - sint (word_of_nat A :: u64) = 0xFFFF0000 - int A"
    "uint VM_MAX_PAGE_SIZE = 0x10000" "sint (word_of_nat S :: u64) = int S"
    "sint (word_of_nat (0x30000 + R + W) :: u64) = 0x30000 + int R + int W"
    using assms sint_word_of_nat [of "0x30000 + R + W", where ?'a = 64]
    by (simp_all add: abi_constants sint_word_of_nat)
  have exceeded: "0x30000 + int R + int W > 0xFFFF0000 - int A - 0x10000 - int S \<longleftrightarrow>
      2 ^ 32 - 5 * 0x10000 < R + W + S + A"
    by auto
  have narrow: "ucast (word_of_nat (0x20000 + R) :: u64) = (word_of_nat (0x20000 + R) :: u32)"
    "ucast (word_of_nat (0x20000 + R + unat orig) :: u64) = (word_of_nat (0x20000 + R + unat orig) :: u32)"
    using assms by (simp_all add: ucast_word_of_nat del: of_nat_add of_nat_numeral)
  show ?thesis
  proof (cases "2 ^ 32 - 5 * 0x10000 < R + W + S + A")
    case True
    then show ?thesis
      unfolding place_regions_def fst_conv snd_conv Let_def low base low' high exceeded by simp
  next
    case False
    have stk: "word_of_int (0xFFFF0000 - int A - 0x10000) = (word_of_nat (0xFFFE0000 - A) :: u32)"
      "word_of_int (0xFFFF0000 - int A) = (word_of_nat (0xFFFF0000 - A) :: u32)"
      using False by (simp_all add: of_nat_diff)
    have heap: "word_of_int (0xFFFF0000 - int A - 0x10000 - int S) - word_of_nat (0x30000 + R + W) +
        (word_of_nat (0x20000 + R + W) - word_of_nat (0x20000 + R + unat orig)) =
        (word_of_nat (0xFFFE0000 - A - S - (0x30000 + R + unat orig)) :: u64)"
      using False assms(5) by (simp add: of_nat_diff)
    have "ucast (word_of_nat (0xFFFE0000 - A - S - (0x30000 + R + unat orig)) :: u64) =
        (word_of_nat (0xFFFE0000 - A - S - (0x30000 + R + unat orig)) :: u32)"
      by (rule ucast_word_of_nat) (simp add: diff_le_self [THEN le_less_trans])
    with False show ?thesis
      unfolding place_regions_def fst_conv snd_conv Let_def low base low' high exceeded narrow stk heap
      by simp
  qed
qed

lemma unat_word_of_nat_32: "n < 2 ^ 32 \<Longrightarrow> unat (word_of_nat n :: u32) = n"
  by (simp add: unsigned_of_nat take_bit_nat_eq_self)

lemma unat_word_of_nat_diff_32:
  "y \<le> x \<Longrightarrow> x < 2 ^ 32 \<Longrightarrow> unat (word_of_nat x - word_of_nat y :: u32) = x - y"
  by (subst unat_sub) (simp_all add: word_le_nat_alt unat_word_of_nat_32)

lemma unat_word_of_nat_add_32:
  "x + y < 2 ^ 32 \<Longrightarrow> unat (word_of_nat x + word_of_nat y :: u32) = x + y"
  using unat_word_of_nat_32 [of "x + y"] by simp

text \<open>With a valid page size the builder has one outcome per size of the regions.\<close>

definition built_map :: "MemoryMapBuilder \<Rightarrow> MemoryMap" where
  "built_map b =
    (let P = unat (b_page_size b); up = round_up 0x10000;
         R = up (unat (b_ro_data_size b)); S = up (unat (b_stack_size b));
         A = up (unat (b_aux_data_size b)); base = 0x20000 + R + unat (b_rw_data_size b)
     in \<lparr>page_size = b_page_size b, ro_data_size = word_of_nat (round_up P (unat (b_ro_data_size b))),
         rw_data_address = word_of_nat (0x20000 + R),
         rw_data_size = word_of_nat (round_up P (unat (b_rw_data_size b))),
         stack_address_high = word_of_nat (0xFFFE0000 - A),
         stack_size = word_of_nat (round_up P (unat (b_stack_size b))),
         aux_data_address = word_of_nat (0xFFFF0000 - A),
         aux_data_size = word_of_nat (round_up P (unat (b_aux_data_size b))),
         heap_base = word_of_nat base,
         max_heap_size = word_of_nat (0xFFFE0000 - A - S - (0x10000 + base))\<rparr>)"

definition valid_page_size :: "u32 \<Rightarrow> bool" where
  "valid_page_size ps \<longleftrightarrow> VM_MIN_PAGE_SIZE \<le> ps \<and> ps \<le> VM_MAX_PAGE_SIZE \<and> is_power_of_two ps"

lemma valid_page_size_pow2:
  assumes "valid_page_size ps"
  obtains k where "unat ps = 2 ^ k" "12 \<le> k" "k \<le> 16"
proof -
  obtain k where k: "unat ps = 2 ^ k"
    using assms is_power_of_two_unat [of ps] by (auto simp: valid_page_size_def)
  have "(2 :: nat) ^ 12 \<le> 2 ^ k" "(2 :: nat) ^ k \<le> 2 ^ 16"
    using assms k by (simp_all add: valid_page_size_def word_le_nat_alt abi_constants)
  then have "12 \<le> k" "k \<le> 16"
    by (metis one_less_numeral_iff power_increasing_iff semiring_norm(76))+
  with k that show ?thesis by blast
qed

lemma round_up_max_page:
  assumes "k \<le> 16"
  shows "round_up (2 ^ k) n \<le> round_up 0x10000 n" "n \<le> round_up 0x10000 n"
    "round_up 0x10000 n < n + 0x10000"
proof -
  have "(2 :: nat) ^ k dvd 2 ^ 16" using assms by (rule le_imp_power_dvd)
  then show "round_up (2 ^ k) n \<le> round_up 0x10000 n" by (intro round_up_dvd_le) simp_all
qed (use round_up_bounds [of "0x10000" n] in simp_all)

lemma round_up_max_page_le: "round_up 0x10000 (unat sz) \<le> 2 ^ 32" for sz :: u32
proof (rule ccontr)
  assume "\<not> round_up 0x10000 (unat sz) \<le> 2 ^ 32"
  then have "2 ^ 32 + 0x10000 \<le> round_up 0x10000 (unat sz)"
    using dvd_gap [of "0x10000" "2 ^ 32" "round_up 0x10000 (unat sz)"] round_up_bounds(3) [of "0x10000"]
    by simp
  then show False
    using round_up_max_page(3) [of 16 "unat sz"] unsigned_less [of sz, where ?'a = nat] by simp
qed

lemma build_outcome:
  assumes "valid_page_size (b_page_size b)"
  shows "if total_address_space b \<le> 2 ^ 32 - 5 * 0x10000 then build b = Some (Inr (built_map b))
    else \<exists>e. build b = Some (Inl e)"
proof -
  obtain k where k: "unat (b_page_size b) = 2 ^ k" "k \<le> 16"
    using assms valid_page_size_pow2 by metis
  note region = align_region_pow2 [OF k]
  note place = place_regions_alt [OF round_up_max_page_le round_up_max_page_le round_up_max_page_le
      round_up_max_page_le round_up_max_page(2) [OF order_refl]]
  have page: "\<not> b_page_size b < VM_MIN_PAGE_SIZE" "\<not> VM_MAX_PAGE_SIZE < b_page_size b"
    "is_power_of_two (b_page_size b)"
    using assms by (auto simp: valid_page_size_def not_less)
  show ?thesis
  proof (cases "total_address_space b \<le> 2 ^ 32 - 5 * 0x10000")
    case True
    then have "round_up (2 ^ k) (unat (b_ro_data_size b)) < 2 ^ 32"
      "round_up (2 ^ k) (unat (b_rw_data_size b)) < 2 ^ 32"
      "round_up (2 ^ k) (unat (b_stack_size b)) < 2 ^ 32"
      "round_up (2 ^ k) (unat (b_aux_data_size b)) < 2 ^ 32"
      using round_up_max_page(1) [OF k(2), of "unat (b_ro_data_size b)"]
        round_up_max_page(1) [OF k(2), of "unat (b_rw_data_size b)"]
        round_up_max_page(1) [OF k(2), of "unat (b_stack_size b)"]
        round_up_max_page(1) [OF k(2), of "unat (b_aux_data_size b)"]
      by (simp_all add: total_address_space_def)
    with True page show ?thesis
      by (simp add: build_def region place total_address_space_def built_map_def k Let_def)
  next
    case False
    then show ?thesis
      using page by (auto simp: build_def region place total_address_space_def)
  qed
qed

lemma build_Inr:
  assumes "build b = Some (Inr m)"
  shows "valid_page_size (b_page_size b)" "total_address_space b \<le> 2 ^ 32 - 5 * 0x10000" "m = built_map b"
proof -
  show v: "valid_page_size (b_page_size b)"
    using assms by (auto simp: build_def valid_page_size_def split: if_splits)
  show "total_address_space b \<le> 2 ^ 32 - 5 * 0x10000"
    using build_outcome [OF v] assms by (auto split: if_splits)
  with build_outcome [OF v] assms show "m = built_map b" by simp
qed

lemma built_map_ok:
  assumes "valid_page_size (b_page_size b)" "total_address_space b \<le> 2 ^ 32 - 5 * 0x10000"
  shows "memory_map_ok b (built_map b)"
proof -
  obtain k where k: "unat (b_page_size b) = 2 ^ k" "k \<le> 16"
    using assms(1) valid_page_size_pow2 by metis
  define P :: nat where "P = 2 ^ k"
  define r w s a where "r = unat (b_ro_data_size b)" and "w = unat (b_rw_data_size b)"
    and "s = unat (b_stack_size b)" and "a = unat (b_aux_data_size b)"
  define R W S A where "R = round_up 0x10000 r" and "W = round_up 0x10000 w"
    and "S = round_up 0x10000 s" and "A = round_up 0x10000 a"
  have "(2 :: nat) ^ k dvd 2 ^ 16" using k(2) by (rule le_imp_power_dvd)
  then have PG: "P dvd 0x10000" and P0: "0 < P" by (simp_all add: P_def)
  have le: "round_up P r \<le> R" "round_up P w \<le> W" "round_up P s \<le> S" "round_up P a \<le> A"
    unfolding P_def R_def W_def S_def A_def using k(2) by (simp_all add: round_up_max_page(1))
  have up: "w \<le> W" "w \<le> round_up P w" "round_up P w < w + P" "w \<le> round_up P w"
    unfolding W_def using round_up_bounds [OF P0, of w] round_up_max_page(2) [of 16 w] by simp_all
  have G: "0x10000 dvd R" "0x10000 dvd W" "0x10000 dvd S" "0x10000 dvd A"
    unfolding R_def W_def S_def A_def by (simp_all add: round_up_bounds)
  have Pd: "P dvd round_up P r" "P dvd round_up P w" "P dvd round_up P s" "P dvd round_up P a"
    using P0 by (simp_all add: round_up_bounds)
  have total: "R + W + S + A \<le> 0xFFFB0000"
    using assms(2) by (simp add: total_address_space_def R_def W_def S_def A_def r_def w_def s_def a_def)
  have top: "0x10000 dvd 0xFFFE0000 - A" "0x10000 dvd 0xFFFF0000 - A" "0x10000 dvd 0x20000 + R"
    using G by (simp_all add: dvd_diff_nat dvd_add)
  note PGd = dvd_trans [OF PG]
  define m where "m = built_map b"
  have sizes: "unat (ro_data_size m) = round_up P r" "unat (rw_data_size m) = round_up P w"
    "unat (stack_size m) = round_up P s" "unat (aux_data_size m) = round_up P a"
    using total le unfolding m_def built_map_def Let_def k P_def [symmetric] r_def w_def s_def a_def
    by (simp_all add: unat_word_of_nat_32)
  have ro: "unat (ro_data_address m) = 0x10000" "unat (snd (ro_data_range m)) = 0x10000 + round_up P r"
  proof -
    show "unat (ro_data_address m) = 0x10000" by (simp add: ro_data_address_def abi_constants)
    show "unat (snd (ro_data_range m)) = 0x10000 + round_up P r"
      using sizes(1) total le
      by (simp add: ro_data_range_def ro_data_address_def abi_constants unat_word_ariths)
  qed
  have rw: "unat (rw_data_address m) = 0x20000 + R" "unat (snd (rw_data_range m)) = 0x20000 + R + round_up P w"
  proof -
    show rw: "unat (rw_data_address m) = 0x20000 + R"
      using total unat_word_of_nat_32 [of "0x20000 + R"] by (simp add: m_def built_map_def Let_def R_def r_def)
    show "unat (snd (rw_data_range m)) = 0x20000 + R + round_up P w"
      using sizes(2) rw total le by (simp add: rw_data_range_def unat_word_ariths)
  qed
  have st: "unat (stack_address_high m) = 0xFFFE0000 - A"
    "unat (stack_address_low m) = 0xFFFE0000 - A - round_up P s"
  proof -
    show st: "unat (stack_address_high m) = 0xFFFE0000 - A"
      using total unat_word_of_nat_32 [of "0xFFFE0000 - A"] by (simp add: m_def built_map_def Let_def A_def a_def)
    show "unat (stack_address_low m) = 0xFFFE0000 - A - round_up P s"
      using st sizes(3) total le unfolding stack_address_low_def
      by (subst unat_sub) (simp_all add: word_le_nat_alt)
  qed
  have aux: "unat (aux_data_address m) = 0xFFFF0000 - A"
    "unat (snd (aux_data_range m)) = 0xFFFF0000 - A + round_up P a"
  proof -
    show aux: "unat (aux_data_address m) = 0xFFFF0000 - A"
      using total unat_word_of_nat_32 [of "0xFFFF0000 - A"] by (simp add: m_def built_map_def Let_def A_def a_def)
    show "unat (snd (aux_data_range m)) = 0xFFFF0000 - A + round_up P a"
      using sizes(4) aux total le by (simp add: aux_data_range_def unat_word_ariths)
  qed
  have heap: "unat (heap_base m) = 0x20000 + R + w"
    "unat (max_heap_size m) = 0xFFFE0000 - A - S - (0x30000 + R + w)"
    using total up unat_word_of_nat_32 [of "0x20000 + R + w"]
      unat_word_of_nat_32 [of "0xFFFE0000 - A - S - (0x30000 + R + w)"]
    by (simp_all add: m_def built_map_def Let_def R_def r_def w_def A_def a_def S_def s_def)
  have "page_size m = b_page_size b"
    by (simp add: m_def built_map_def Let_def)
  then have "memory_map_ok b m"
    unfolding memory_map_ok_def Let_def sizes ro rw st aux heap k P_def [symmetric] r_def [symmetric]
      w_def [symmetric] s_def [symmetric] a_def [symmetric]
    using total le up top Pd PGd [OF top(1)] PGd [OF top(2)] PGd [OF top(3)] PG
      dvd_diff_nat [OF PGd [OF top(1)] Pd(3)] dvd_add [OF PGd [OF top(2)] Pd(4)]
    by (intro conjI) (simp_all add: dvd_add)
  then show ?thesis by (simp add: m_def)
qed

section \<open>Properties\<close>

text \<open>C29: building a memory map never panics, and it succeeds exactly when the page size is a
  power of two between 4 KiB and 64 KiB and the four regions, each rounded up to 64 KiB, together
  with the five 64 KiB guards fit the 32-bit address space; otherwise it returns an error.\<close>

theorem build_succeeds_iff:
  "build b \<noteq> None \<and>
   ((\<exists>m. build b = Some (Inr m)) \<longleftrightarrow>
     valid_page_size (b_page_size b) \<and> total_address_space b + 5 * 0x10000 \<le> 2 ^ 32)"
proof (cases "valid_page_size (b_page_size b)")
  case True
  then show ?thesis using build_outcome [OF True] by (auto split: if_splits)
next
  case False
  then have "\<exists>e. build b = Some (Inl e)"
    by (auto simp: valid_page_size_def build_def not_le)
  with False show ?thesis by auto
qed

text \<open>C28: every memory map that is built has the promised layout: aligned regions of the rounded
  sizes, in order, separated by guards, and a heap that stays below the stack's guard.\<close>

theorem build_layout:
  assumes "build b = Some (Inr m)"
  shows "memory_map_ok b m"
  using build_Inr [OF assms] built_map_ok by simp

theorem build_layout_witness:
  "build \<lparr>b_page_size = 0x4000, b_ro_data_size = 1, b_rw_data_size = 1, b_stack_size = 1,
      b_aux_data_size = 0\<rparr> = Some (Inr
    \<lparr>page_size = 0x4000, ro_data_size = 0x4000, rw_data_address = 0x30000, rw_data_size = 0x4000,
     stack_address_high = 0xfffe0000, stack_size = 0x4000, aux_data_address = 0xffff0000,
     aux_data_size = 0, heap_base = 0x30001, max_heap_size = 0xfff8ffff\<rparr>)
  \<and> memory_map_ok \<lparr>b_page_size = 0x4000, b_ro_data_size = 1, b_rw_data_size = 1, b_stack_size = 1,
      b_aux_data_size = 0\<rparr>
    \<lparr>page_size = 0x4000, ro_data_size = 0x4000, rw_data_address = 0x30000, rw_data_size = 0x4000,
     stack_address_high = 0xfffe0000, stack_size = 0x4000, aux_data_address = 0xffff0000,
     aux_data_size = 0, heap_base = 0x30001, max_heap_size = 0xfff8ffff\<rparr>"
  (is "?b = ?m \<and> ?ok")
proof -
  have "?b = ?m"
    by (simp add: build_def align_region_def align_to_next_page_def place_regions_def abi_constants
        is_power_of_two_def count_ones_def count_ones_nat.simps word_le_def)
  moreover from this have ?ok by (rule build_layout)
  ultimately show ?thesis by (rule conjI)
qed

end
