(* ===== verification/Isa.thy ===== *)
theory Isa
  imports Prelude
begin

text \<open>
  Registers and opcodes, \<open>crates/polkavm-common/src/program.rs\<close>. The opcodes are grouped by the
  shape of their arguments, as the macro \<open>define_all_instructions\<close> groups them: one enumeration per
  shape, and \<open>Opcode\<close> as their sum. An instruction set is the list of its opcodes with their
  numbers, in the order \<open>define_instruction_set\<close> lists them; the locale \<open>instruction_set\<close> holds what
  the encoder and the decoder rely on.
\<close>

section \<open>Registers\<close>

datatype Reg = RA | SP | T0 | T1 | T2 | S0 | S1 | A0 | A1 | A2 | A3 | A4 | A5

fun Reg_to_u32 :: "Reg \<Rightarrow> u32" where
  "Reg_to_u32 RA = 0"
| "Reg_to_u32 SP = 1"
| "Reg_to_u32 T0 = 2"
| "Reg_to_u32 T1 = 3"
| "Reg_to_u32 T2 = 4"
| "Reg_to_u32 S0 = 5"
| "Reg_to_u32 S1 = 6"
| "Reg_to_u32 A0 = 7"
| "Reg_to_u32 A1 = 8"
| "Reg_to_u32 A2 = 9"
| "Reg_to_u32 A3 = 10"
| "Reg_to_u32 A4 = 11"
| "Reg_to_u32 A5 = 12"

definition Reg_to_usize :: "Reg \<Rightarrow> nat" where
  "Reg_to_usize reg = unat (Reg_to_u32 reg)"

definition from_raw :: "u32 \<Rightarrow> Reg option" where
  "from_raw value =
    (if value = 0 then Some RA
     else if value = 1 then Some SP
     else if value = 2 then Some T0
     else if value = 3 then Some T1
     else if value = 4 then Some T2
     else if value = 5 then Some S0
     else if value = 6 then Some S1
     else if value = 7 then Some A0
     else if value = 8 then Some A1
     else if value = 9 then Some A2
     else if value = 10 then Some A3
     else if value = 11 then Some A4
     else if value = 12 then Some A5
     else None)"

fun Reg_name :: "Reg \<Rightarrow> string" where
  "Reg_name RA = ''ra''"
| "Reg_name SP = ''sp''"
| "Reg_name T0 = ''t0''"
| "Reg_name T1 = ''t1''"
| "Reg_name T2 = ''t2''"
| "Reg_name S0 = ''s0''"
| "Reg_name S1 = ''s1''"
| "Reg_name A0 = ''a0''"
| "Reg_name A1 = ''a1''"
| "Reg_name A2 = ''a2''"
| "Reg_name A3 = ''a3''"
| "Reg_name A4 = ''a4''"
| "Reg_name A5 = ''a5''"

fun Reg_name_non_abi :: "Reg \<Rightarrow> string" where
  "Reg_name_non_abi RA = ''r0''"
| "Reg_name_non_abi SP = ''r1''"
| "Reg_name_non_abi T0 = ''r2''"
| "Reg_name_non_abi T1 = ''r3''"
| "Reg_name_non_abi T2 = ''r4''"
| "Reg_name_non_abi S0 = ''r5''"
| "Reg_name_non_abi S1 = ''r6''"
| "Reg_name_non_abi A0 = ''r7''"
| "Reg_name_non_abi A1 = ''r8''"
| "Reg_name_non_abi A2 = ''r9''"
| "Reg_name_non_abi A3 = ''r10''"
| "Reg_name_non_abi A4 = ''r11''"
| "Reg_name_non_abi A5 = ''r12''"

definition Reg_ALL :: "Reg list" where
  "Reg_ALL = [RA, SP, T0, T1, T2, S0, S1, A0, A1, A2, A3, A4, A5]"

definition ARG_REGS :: "Reg list" where
  "ARG_REGS = [A0, A1, A2, A3, A4, A5, T0, T1, T2]"

text \<open>A register as it stands in the code: the word it was decoded from, of which only the low
  four bits count. Two of them are equal in the source when they name the same register. The
  last branch of \<open>RawReg_get\<close> is the source's \<open>unreachable!\<close>.\<close>

datatype RawReg = RawReg (raw_unparsed: u32)

definition RawReg_get :: "RawReg \<Rightarrow> Reg" where
  "RawReg_get r =
    (let value = raw_unparsed r AND 0xF;
         value = (if value > 12 then 12 else value)
     in case from_raw value of Some reg \<Rightarrow> reg | None \<Rightarrow> RA)"

definition RawReg_eq :: "RawReg \<Rightarrow> RawReg \<Rightarrow> bool" where
  "RawReg_eq a b \<longleftrightarrow> RawReg_get a = RawReg_get b"

definition Reg_raw :: "Reg \<Rightarrow> RawReg" where
  "Reg_raw reg = RawReg (Reg_to_u32 reg)"

section \<open>Opcodes\<close>

datatype op_argless =
    trap | fallthrough | memset | unlikely

datatype op_reg_imm =
    jump_indirect | load_imm | load_u8 | load_i8 | load_u16 | load_i16 | load_i32 | load_u32 |
    load_u64 | store_u8 | store_u16 | store_u32 | store_u64

datatype op_reg_imm_offset =
    load_imm_and_jump | branch_eq_imm | branch_not_eq_imm | branch_less_unsigned_imm |
    branch_less_signed_imm | branch_greater_or_equal_unsigned_imm |
    branch_greater_or_equal_signed_imm | branch_less_or_equal_signed_imm |
    branch_less_or_equal_unsigned_imm | branch_greater_signed_imm | branch_greater_unsigned_imm

datatype op_reg_imm_imm =
    store_imm_indirect_u8 | store_imm_indirect_u16 | store_imm_indirect_u32 |
    store_imm_indirect_u64

datatype op_reg_reg_imm =
    store_indirect_u8 | store_indirect_u16 | store_indirect_u32 | store_indirect_u64 |
    load_indirect_u8 | load_indirect_i8 | load_indirect_u16 | load_indirect_i16 |
    load_indirect_i32 | load_indirect_u32 | load_indirect_u64 | add_imm_32 | add_imm_64 |
    and_imm | xor_imm | or_imm | mul_imm_32 | mul_imm_64 | set_less_than_unsigned_imm |
    set_less_than_signed_imm | shift_logical_left_imm_32 | shift_logical_left_imm_64 |
    shift_logical_right_imm_32 | shift_logical_right_imm_64 | shift_arithmetic_right_imm_32 |
    shift_arithmetic_right_imm_64 | negate_and_add_imm_32 | negate_and_add_imm_64 |
    set_greater_than_unsigned_imm | set_greater_than_signed_imm |
    shift_logical_right_imm_alt_32 | shift_logical_right_imm_alt_64 |
    shift_arithmetic_right_imm_alt_32 | shift_arithmetic_right_imm_alt_64 |
    shift_logical_left_imm_alt_32 | shift_logical_left_imm_alt_64 | cmov_if_zero_imm |
    cmov_if_not_zero_imm | rotate_right_imm_32 | rotate_right_imm_alt_32 |
    rotate_right_imm_64 | rotate_right_imm_alt_64

datatype op_reg_reg_offset =
    branch_eq | branch_not_eq | branch_less_unsigned | branch_less_signed |
    branch_greater_or_equal_unsigned | branch_greater_or_equal_signed

datatype op_reg_reg_reg =
    add_32 | add_64 | sub_32 | sub_64 | and_op | xor_op | or_op | mul_32 | mul_64 |
    mul_upper_signed_signed | mul_upper_unsigned_unsigned | mul_upper_signed_unsigned |
    set_less_than_unsigned | set_less_than_signed | shift_logical_left_32 |
    shift_logical_left_64 | shift_logical_right_32 | shift_logical_right_64 |
    shift_arithmetic_right_32 | shift_arithmetic_right_64 | div_unsigned_32 | div_unsigned_64 |
    div_signed_32 | div_signed_64 | rem_unsigned_32 | rem_unsigned_64 | rem_signed_32 |
    rem_signed_64 | cmov_if_zero | cmov_if_not_zero | and_inverted | or_inverted | xnor |
    maximum | maximum_unsigned | minimum | minimum_unsigned | rotate_left_32 | rotate_left_64 |
    rotate_right_32 | rotate_right_64

datatype op_offset =
    jump

datatype op_imm =
    ecalli

datatype op_imm_imm =
    store_imm_u8 | store_imm_u16 | store_imm_u32 | store_imm_u64

datatype op_reg_reg =
    move_reg | sbrk | count_leading_zero_bits_32 | count_leading_zero_bits_64 |
    count_trailing_zero_bits_32 | count_trailing_zero_bits_64 | count_set_bits_32 |
    count_set_bits_64 | sign_extend_8 | sign_extend_16 | zero_extend_16 | reverse_byte

datatype op_reg_reg_imm_imm =
    load_imm_and_jump_indirect

datatype op_reg_imm64 =
    load_imm64

datatype Opcode =
    O_argless op_argless
  | O_reg_imm op_reg_imm
  | O_reg_imm_offset op_reg_imm_offset
  | O_reg_imm_imm op_reg_imm_imm
  | O_reg_reg_imm op_reg_reg_imm
  | O_reg_reg_offset op_reg_reg_offset
  | O_reg_reg_reg op_reg_reg_reg
  | O_offset op_offset
  | O_imm op_imm
  | O_imm_imm op_imm_imm
  | O_reg_reg op_reg_reg
  | O_reg_reg_imm_imm op_reg_reg_imm_imm
  | O_reg_imm64 op_reg_imm64

definition can_fallthrough :: "Opcode \<Rightarrow> bool" where
  "can_fallthrough op \<longleftrightarrow>
    op \<noteq> O_argless trap \<and> op \<noteq> O_offset jump \<and> op \<noteq> O_reg_imm jump_indirect
    \<and> op \<noteq> O_reg_imm_offset load_imm_and_jump
    \<and> op \<noteq> O_reg_reg_imm_imm load_imm_and_jump_indirect"

fun starts_new_basic_block :: "Opcode \<Rightarrow> bool" where
  "starts_new_basic_block (O_argless op) = (op = trap \<or> op = fallthrough)"
| "starts_new_basic_block (O_offset op) = (op = jump)"
| "starts_new_basic_block (O_reg_imm op) = (op = jump_indirect)"
| "starts_new_basic_block (O_reg_reg_imm_imm op) = (op = load_imm_and_jump_indirect)"
| "starts_new_basic_block (O_reg_reg_offset op) =
    (op \<in> {branch_eq, branch_greater_or_equal_signed, branch_greater_or_equal_unsigned,
            branch_less_signed, branch_less_unsigned, branch_not_eq})"
| "starts_new_basic_block (O_reg_imm_offset op) =
    (op \<in> {load_imm_and_jump, branch_eq_imm, branch_greater_or_equal_signed_imm,
            branch_greater_or_equal_unsigned_imm, branch_greater_signed_imm,
            branch_greater_unsigned_imm, branch_less_or_equal_signed_imm,
            branch_less_or_equal_unsigned_imm, branch_less_signed_imm, branch_less_unsigned_imm,
            branch_not_eq_imm})"
| "starts_new_basic_block _ = False"

section \<open>Instruction sets\<close>

type_synonym isa = "(Opcode \<times> nat) list"

definition UNUSED_RAW_OPCODE :: u8 where
  "UNUSED_RAW_OPCODE = 255"

definition RAW_OPCODE_TO_ENUM :: "isa \<Rightarrow> nat \<Rightarrow> Opcode option" where
  "RAW_OPCODE_TO_ENUM isa = foldl (\<lambda>map (name, value). map(value := Some name)) (\<lambda>_. None) isa"

definition OPCODE_DISCRIMINANT_TO_RAW_OPCODE :: "isa \<Rightarrow> Opcode \<Rightarrow> u8" where
  "OPCODE_DISCRIMINANT_TO_RAW_OPCODE isa =
    foldl (\<lambda>map (name, value). map(name := word_of_nat value)) (\<lambda>_. 255) isa"

definition opcode_from_u8 :: "isa \<Rightarrow> u8 \<Rightarrow> Opcode option" where
  "opcode_from_u8 isa byte = RAW_OPCODE_TO_ENUM isa (unat byte)"

definition opcode_to_u8 :: "isa \<Rightarrow> Opcode \<Rightarrow> u8 option" where
  "opcode_to_u8 isa opcode =
    (let raw_opcode = OPCODE_DISCRIMINANT_TO_RAW_OPCODE isa opcode
     in if raw_opcode = UNUSED_RAW_OPCODE then None else Some raw_opcode)"

definition supports_opcode :: "isa \<Rightarrow> Opcode \<Rightarrow> bool" where
  "supports_opcode isa opcode \<longleftrightarrow> opcode \<in> set (map fst isa)"

section \<open>Lemmas on registers\<close>

lemma Reg_to_u32_le: "Reg_to_u32 reg \<le> 12"
  by (cases reg) simp_all

lemma Reg_to_usize_less: "Reg_to_usize reg < 13"
  by (cases reg) (simp_all add: Reg_to_usize_def)

lemma from_raw_to_u32 [simp]: "from_raw (Reg_to_u32 reg) = Some reg"
  by (cases reg) (simp_all add: from_raw_def)

lemma from_raw_Some: "from_raw v = Some reg \<longleftrightarrow> v = Reg_to_u32 reg"
  by (cases reg) (auto simp: from_raw_def)

lemma from_raw_None: "from_raw v = None \<longleftrightarrow> 12 < v"
proof
  assume "12 < v"
  then show "from_raw v = None"
    by (metis Reg_to_u32_le from_raw_Some not_le option.exhaust)
next
  assume none: "from_raw v = None"
  show "12 < v"
  proof (rule ccontr)
    assume "\<not> 12 < v"
    then have "unat v \<le> 12" by (simp add: not_less word_le_nat_alt)
    then have "unat v \<in> set [0..<13]" by simp
    then have "v \<in> word_of_nat ` set [0..<13]"
      by (metis image_eqI of_nat_unat ucast_id)
    with none show False by (auto simp: from_raw_def upt_rec)
  qed
qed

text \<open>The \<open>unreachable!\<close> of \<open>RawReg::get\<close> is not reached.\<close>

lemma RawReg_get_total: "from_raw (let v = raw_unparsed r AND 0xF in if v > 12 then 12 else v) \<noteq> None"
  by (simp add: from_raw_None Let_def)

lemma RawReg_get_raw [simp]: "RawReg_get (Reg_raw reg) = reg"
  by (cases reg) (simp_all add: RawReg_get_def Reg_raw_def from_raw_def)

lemma Reg_to_u32_inject [simp]: "Reg_to_u32 a = Reg_to_u32 b \<longleftrightarrow> a = b"
  using from_raw_to_u32 by (metis option.inject)

text \<open>The order on registers derived in the source is that of their numbers.\<close>

instantiation Reg :: linorder
begin

definition less_eq_Reg :: "Reg \<Rightarrow> Reg \<Rightarrow> bool" where
  "less_eq_Reg a b \<longleftrightarrow> Reg_to_u32 a \<le> Reg_to_u32 b"

definition less_Reg :: "Reg \<Rightarrow> Reg \<Rightarrow> bool" where
  "less_Reg a b \<longleftrightarrow> Reg_to_u32 a < Reg_to_u32 b"

instance
proof
  fix x y :: Reg
  show "x < y \<longleftrightarrow> x \<le> y \<and> \<not> y \<le> x"
    unfolding less_eq_Reg_def less_Reg_def by (rule less_le_not_le)
  show "x \<le> x" and "x \<le> y \<or> y \<le> x"
    unfolding less_eq_Reg_def by (simp_all add: linear)
  show "x \<le> y \<Longrightarrow> y \<le> x \<Longrightarrow> x = y"
    by (simp add: less_eq_Reg_def)
qed (auto simp: less_eq_Reg_def)

end

section \<open>The contract of an instruction set\<close>

lemma foldl_update_fst:
  assumes "distinct (map fst xs)"
  shows "foldl (\<lambda>m (k, v). m(k := f v)) m0 xs k =
    (case map_of xs k of Some v \<Rightarrow> f v | None \<Rightarrow> m0 k)"
  using assms
proof (induction xs arbitrary: m0)
  case (Cons x xs)
  then have "fst x \<notin> dom (map_of xs)" by (auto simp: dom_map_of_conv_image_fst)
  with Cons show ?case by (cases x) (auto split: option.splits)
qed simp

locale instruction_set =
  fixes isa :: isa
  assumes distinct_opcodes: "distinct (map fst isa)"
    and distinct_values: "distinct (map snd isa)"
    and values_below: "list_all (\<lambda>v. v < 255) (map snd isa)"
begin

lemma RAW_OPCODE_TO_ENUM_iff: "RAW_OPCODE_TO_ENUM isa v = Some op \<longleftrightarrow> (op, v) \<in> set isa"
proof -
  have "RAW_OPCODE_TO_ENUM isa v = foldl (\<lambda>m (k, v). m(k := Some v)) (\<lambda>_. None) (map prod.swap isa) v"
    by (simp add: RAW_OPCODE_TO_ENUM_def foldl_map case_prod_unfold)
  also have "\<dots> = map_of (map prod.swap isa) v"
    using distinct_values by (subst foldl_update_fst) (auto simp: comp_def split: option.splits)
  finally show ?thesis
    using distinct_values by (force simp: map_of_eq_Some_iff comp_def)
qed

lemma opcode_from_u8_iff: "opcode_from_u8 isa b = Some op \<longleftrightarrow> (op, unat b) \<in> set isa"
  by (simp add: opcode_from_u8_def RAW_OPCODE_TO_ENUM_iff)

lemma opcode_to_u8_iff: "opcode_to_u8 isa op = Some b \<longleftrightarrow> (op, unat b) \<in> set isa"
proof -
  have eq: "OPCODE_DISCRIMINANT_TO_RAW_OPCODE isa op =
      (case map_of isa op of Some v \<Rightarrow> word_of_nat v | None \<Rightarrow> 255)"
    unfolding OPCODE_DISCRIMINANT_TO_RAW_OPCODE_def
    by (rule foldl_update_fst [OF distinct_opcodes])
  have below: "unat (word_of_nat v :: u8) = v \<and> (word_of_nat v :: u8) \<noteq> 255" if "(op, v) \<in> set isa" for v
  proof -
    have "v < 255" using that values_below by (auto simp: list_all_iff)
    then have "unat (word_of_nat v :: u8) = v"
      by (simp add: unsigned_of_nat take_bit_nat_eq_self)
    with \<open>v < 255\<close> show ?thesis by auto
  qed
  show ?thesis
  proof (cases "map_of isa op")
    case None
    then have "op \<notin> fst ` set isa" by (simp add: map_of_eq_None_iff)
    then show ?thesis
      using None by (auto simp: opcode_to_u8_def eq UNUSED_RAW_OPCODE_def image_iff)
  next
    case (Some v)
    then have v: "(op, v) \<in> set isa" by (rule map_of_SomeD)
    have "(op, unat b) \<in> set isa \<longleftrightarrow> unat b = v"
      using v distinct_opcodes Some by (metis map_of_eq_Some_iff option.inject)
    with below [OF v] Some show ?thesis
      by (auto simp: opcode_to_u8_def eq UNUSED_RAW_OPCODE_def)
  qed
qed

text \<open>Opcodes and bytes correspond one to one, in both directions.\<close>

lemma opcode_roundtrip: "opcode_to_u8 isa op = Some b \<longleftrightarrow> opcode_from_u8 isa b = Some op"
  by (simp add: opcode_to_u8_iff opcode_from_u8_iff)

lemma unused_byte: "opcode_from_u8 isa UNUSED_RAW_OPCODE = None"
proof (rule ccontr)
  assume "opcode_from_u8 isa UNUSED_RAW_OPCODE \<noteq> None"
  then show False
    using values_below by (auto simp: opcode_from_u8_iff UNUSED_RAW_OPCODE_def list_all_iff)
qed

lemma supports_opcode_iff: "supports_opcode isa op \<longleftrightarrow> opcode_to_u8 isa op \<noteq> None"
proof -
  have "op \<in> fst ` set isa \<longleftrightarrow> (\<exists>b. (op, unat (b :: u8)) \<in> set isa)"
  proof
    assume "op \<in> fst ` set isa"
    then obtain v where v: "(op, v) \<in> set isa" by auto
    then have "v < 255" using values_below by (auto simp: list_all_iff)
    then have "unat (word_of_nat v :: u8) = v"
      by (simp add: unsigned_of_nat take_bit_nat_eq_self)
    with v show "\<exists>b. (op, unat (b :: u8)) \<in> set isa" by metis
  qed force
  then show ?thesis
    by (simp add: supports_opcode_def flip: opcode_to_u8_iff)
qed

end

end
