(* ===== verification/Args.thy ===== *)
theory Args
  imports Varint Isa
begin

text \<open>
  Decoding of instruction arguments, \<open>crates/polkavm-common/src/program.rs\<close>: the packed lookup table
  that gives the lengths of up to two immediates, the branch-free \<open>read_args_*\<close> functions that
  take the sixteen bytes after the opcode as one 128-bit word, and the straightforward reference
  decoders on byte slices that the source compares them with. A \<open>skip\<close> (the number of argument
  bytes, at most 24) and a count of bits are natural numbers.
\<close>

section \<open>The lookup table\<close>

definition sign_extend_at :: "u32 \<Rightarrow> nat \<Rightarrow> u32" where
  "sign_extend_at value bits_to_cut =
    wrapping_sar (ucast (push_bit bits_to_cut (ucast value :: u64)) :: u32) bits_to_cut"

definition pack :: "nat \<Rightarrow> nat \<Rightarrow> nat \<Rightarrow> u32" where
  "pack imm1_bits imm1_skip imm2_bits =
    word_of_nat imm1_bits OR push_bit 6 (word_of_nat imm1_skip) OR push_bit 12 (word_of_nat imm2_bits)"

definition unpack :: "u32 \<Rightarrow> nat \<times> nat \<times> nat" where
  "unpack entry =
    (unat (entry AND 0x3F), unat (drop_bit 6 entry AND 0x3F), unat (drop_bit 12 entry AND 0x3F))"

definition clamp :: "int \<Rightarrow> int \<Rightarrow> int \<Rightarrow> int" where
  "clamp low high value = (if value < low then low else if value > high then high else value)"

text \<open>The last branch is \<open>unreachable!\<close> in the source: the lengths are at most four.\<close>

definition sign_extend_cutoff_for_length :: "nat \<Rightarrow> nat" where
  "sign_extend_cutoff_for_length len =
    (if len = 0 then 32 else if len = 1 then 24 else if len = 2 then 16 else if len = 3 then 8
     else if len = 4 then 0 else 0)"

definition get_lookup_index :: "nat \<Rightarrow> u32 \<Rightarrow> nat" where
  "get_lookup_index skip aux = unat ((word_of_nat skip :: u32) OR push_bit 5 (aux AND 7))"

definition lookup_entry :: "int \<Rightarrow> nat \<Rightarrow> nat \<Rightarrow> u32" where
  "lookup_entry offset skip aux =
    (let imm1_length = min 4 aux;
         imm2_length = nat (clamp 0 4 (int skip - int imm1_length - offset));
         imm1_bits = sign_extend_cutoff_for_length imm1_length;
         imm2_bits = sign_extend_cutoff_for_length imm2_length;
         imm1_skip = imm1_length * 8
     in pack imm1_bits imm1_skip imm2_bits)"

definition LookupTable_build :: "int \<Rightarrow> u32 list" where
  "LookupTable_build offset =
    foldl (\<lambda>output (skip, aux).
        output[get_lookup_index skip (word_of_nat aux) := lookup_entry offset skip aux])
      (replicate 256 0) (List.product [0..<32] [0..<8])"

definition LookupTable_get :: "u32 list \<Rightarrow> nat \<Rightarrow> u32 \<Rightarrow> nat \<times> nat \<times> nat" where
  "LookupTable_get table skip aux = unpack (table ! get_lookup_index skip aux)"

definition TABLE_1 :: "u32 list" where "TABLE_1 = LookupTable_build 1"
definition TABLE_2 :: "u32 list" where "TABLE_2 = LookupTable_build 2"

section \<open>The branch-free decoders\<close>

definition read_args_imm :: "u128 \<Rightarrow> nat \<Rightarrow> u32" where
  "read_args_imm chunk skip = read_simple_varint (ucast chunk) skip"

definition read_args_offset :: "u128 \<Rightarrow> u32 \<Rightarrow> nat \<Rightarrow> u32" where
  "read_args_offset chunk instruction_offset skip = instruction_offset + read_args_imm chunk skip"

definition read_args_imm2 :: "u128 \<Rightarrow> nat \<Rightarrow> u32 \<times> u32" where
  "read_args_imm2 chunk skip =
    (let (imm1_bits, imm1_skip, imm2_bits) = LookupTable_get TABLE_1 skip (ucast chunk);
         chunk = drop_bit 8 chunk;
         chunk = (ucast chunk :: u64);
         imm1 = sign_extend_at (ucast chunk) imm1_bits;
         chunk = drop_bit imm1_skip chunk;
         imm2 = sign_extend_at (ucast chunk) imm2_bits
     in (imm1, imm2))"

definition read_args_reg_imm :: "u128 \<Rightarrow> nat \<Rightarrow> RawReg \<times> u32" where
  "read_args_reg_imm chunk skip =
    (let chunk = (ucast chunk :: u64);
         reg = RawReg (ucast chunk);
         chunk = drop_bit 8 chunk;
         (_, _, imm_bits) = LookupTable_get TABLE_1 skip 0;
         imm = sign_extend_at (ucast chunk) imm_bits
     in (reg, imm))"

definition read_args_reg_imm2 :: "u128 \<Rightarrow> nat \<Rightarrow> RawReg \<times> u32 \<times> u32" where
  "read_args_reg_imm2 chunk skip =
    (let reg = RawReg (ucast chunk);
         (imm1_bits, imm1_skip, imm2_bits) = LookupTable_get TABLE_1 skip (drop_bit 4 (ucast chunk));
         chunk = drop_bit 8 chunk;
         chunk = (ucast chunk :: u64);
         imm1 = sign_extend_at (ucast chunk) imm1_bits;
         chunk = drop_bit imm1_skip chunk;
         imm2 = sign_extend_at (ucast chunk) imm2_bits
     in (reg, imm1, imm2))"

definition read_args_reg_imm_offset :: "u128 \<Rightarrow> u32 \<Rightarrow> nat \<Rightarrow> RawReg \<times> u32 \<times> u32" where
  "read_args_reg_imm_offset chunk instruction_offset skip =
    (let (reg, imm1, imm2) = read_args_reg_imm2 chunk skip;
         imm2 = instruction_offset + imm2
     in (reg, imm1, imm2))"

definition read_args_regs2_imm2 :: "u128 \<Rightarrow> nat \<Rightarrow> RawReg \<times> RawReg \<times> u32 \<times> u32" where
  "read_args_regs2_imm2 chunk skip =
    (let value = (ucast chunk :: u32);
         reg1 = RawReg value; reg2 = RawReg (drop_bit 4 value); imm1_aux = drop_bit 8 value;
         (imm1_bits, imm1_skip, imm2_bits) = LookupTable_get TABLE_2 skip imm1_aux;
         chunk = drop_bit 16 chunk;
         chunk = (ucast chunk :: u64);
         imm1 = sign_extend_at (ucast chunk) imm1_bits;
         chunk = drop_bit imm1_skip chunk;
         imm2 = sign_extend_at (ucast chunk) imm2_bits
     in (reg1, reg2, imm1, imm2))"

definition read_args_reg_imm64 :: "u128 \<Rightarrow> nat \<Rightarrow> RawReg \<times> u64" where
  "read_args_reg_imm64 chunk skip = (RawReg (ucast chunk), ucast (drop_bit 8 chunk))"

definition read_args_regs2_imm :: "u128 \<Rightarrow> nat \<Rightarrow> RawReg \<times> RawReg \<times> u32" where
  "read_args_regs2_imm chunk skip =
    (let chunk = (ucast chunk :: u64);
         value = (ucast chunk :: u32);
         reg1 = RawReg value; reg2 = RawReg (drop_bit 4 value);
         chunk = drop_bit 8 chunk;
         (_, _, imm_bits) = LookupTable_get TABLE_1 skip 0;
         imm = sign_extend_at (ucast chunk) imm_bits
     in (reg1, reg2, imm))"

definition read_args_regs2_offset :: "u128 \<Rightarrow> u32 \<Rightarrow> nat \<Rightarrow> RawReg \<times> RawReg \<times> u32" where
  "read_args_regs2_offset chunk instruction_offset skip =
    (let (reg1, reg2, imm) = read_args_regs2_imm chunk skip;
         imm = instruction_offset + imm
     in (reg1, reg2, imm))"

definition read_args_regs3 :: "u128 \<Rightarrow> RawReg \<times> RawReg \<times> RawReg" where
  "read_args_regs3 chunk =
    (let chunk = (ucast chunk :: u32);
         reg2 = RawReg chunk; reg3 = RawReg (drop_bit 4 chunk); reg1 = RawReg (drop_bit 8 chunk)
     in (reg1, reg2, reg3))"

definition read_args_regs2 :: "u128 \<Rightarrow> RawReg \<times> RawReg" where
  "read_args_regs2 chunk =
    (let chunk = (ucast chunk :: u32) in (RawReg chunk, RawReg (drop_bit 4 chunk)))"

section \<open>What the table holds\<close>

lemma and_7_mod: "unat (aux AND 7) = unat aux mod 8" for aux :: u32
proof -
  have "aux AND 7 = take_bit 3 aux"
    by (simp add: take_bit_eq_mask mask_numeral)
  then show ?thesis by (simp only: unsigned_take_bit_eq) (simp add: take_bit_eq_mod)
qed

lemma get_lookup_index_eq:
  assumes "skip < 32"
  shows "get_lookup_index skip aux = skip + 32 * (unat aux mod 8)"
proof -
  have all: "\<forall>s \<in> set [0..<32]. \<forall>a \<in> set [0..<8].
      unat ((word_of_nat s :: u32) OR push_bit 5 (word_of_nat a)) = s + 32 * a"
    by code_simp
  have "aux AND 7 = word_of_nat (unat aux mod 8)"
    by (metis and_7_mod of_nat_unat ucast_id)
  then show ?thesis
    using assms all unfolding get_lookup_index_def by simp
qed

lemma foldl_list_update:
  assumes "distinct ks" and "inj_on f (set ks)" and "\<And>k. k \<in> set ks \<Longrightarrow> f k < length xs" and "k \<in> set ks"
  shows "foldl (\<lambda>ys k. ys[f k := g k]) xs ks ! f k = g k"
  using assms
proof (induction ks arbitrary: xs rule: rev_induct)
  case (snoc a ks)
  have len: "length (foldl (\<lambda>ys k. ys[f k := g k]) xs ks) = length xs" for ks
    by (induction ks rule: rev_induct) simp_all
  show ?case
  proof (cases "k = a")
    case True
    with snoc.prems len show ?thesis by simp
  next
    case False
    then have "f a \<noteq> f k" using snoc.prems by (auto simp: inj_on_def)
    with False snoc show ?thesis by (auto simp: nth_list_update)
  qed
qed simp

lemma digits_unique:
  fixes a b c d n :: nat
  assumes "a + n * b = c + n * d" "a < n" "c < n"
  shows "a = c" and "b = d"
proof -
  have "(a + n * b) mod n = a" "(c + n * d) mod n = c" "(a + n * b) div n = b" "(c + n * d) div n = d"
    using assms(2,3) by simp_all
  with assms(1) show "a = c" "b = d" by metis+
qed

lemma LookupTable_build_nth:
  assumes "skip < 32" "a < 8"
  shows "LookupTable_build offset ! (skip + 32 * a) = lookup_entry offset skip a"
proof -
  define f where "f k = get_lookup_index (fst k) (word_of_nat (snd k))" for k :: "nat \<times> nat"
  have small: "unat (word_of_nat a :: u32) mod 8 = a" if "a < 8" for a
    using that by (simp add: unsigned_of_nat take_bit_nat_eq_self)
  have f: "f k = fst k + 32 * snd k" if "k \<in> set (List.product [0..<32] [0..<8])" for k
    using that by (auto simp: f_def get_lookup_index_eq small)
  have "inj_on f (set (List.product [0..<32] [0..<8]))"
  proof (rule inj_onI)
    fix x y :: "nat \<times> nat"
    assume xy: "x \<in> set (List.product [0..<32] [0..<8])" "y \<in> set (List.product [0..<32] [0..<8])" "f x = f y"
    then have "fst x + 32 * snd x = fst y + 32 * snd y" "fst x < 32" "fst y < 32"
      using f by auto
    then show "x = y" using digits_unique by (metis prod_eqI)
  qed
  moreover have "distinct (List.product [0..<32] [0..<8])" by (simp add: distinct_product)
  moreover have "f k < length (replicate 256 (0 :: u32))" if "k \<in> set (List.product [0..<32] [0..<8])" for k
    using f [OF that] that by auto
  ultimately have "foldl (\<lambda>ys k. ys[f k := (\<lambda>(s, a). lookup_entry offset s a) k]) (replicate 256 0)
      (List.product [0..<32] [0..<8]) ! f (skip, a) = lookup_entry offset skip a"
    using foldl_list_update [of "List.product [0..<32] [0..<8]" f "replicate 256 0" "(skip, a)"
        "\<lambda>(s, a). lookup_entry offset s a"] assms by simp
  then show ?thesis
    using f [of "(skip, a)"] assms by (simp add: LookupTable_build_def f_def case_prod_unfold)
qed

lemma unpack_pack_lengths:
  assumes "i \<le> 4" "j \<le> 4"
  shows "unpack (pack (LENGTH_TO_SHIFT i) (i * 8) (LENGTH_TO_SHIFT j)) =
    (LENGTH_TO_SHIFT i, i * 8, LENGTH_TO_SHIFT j)"
proof -
  have "\<forall>i \<in> set [0..<5]. \<forall>j \<in> set [0..<5].
      unpack (pack (LENGTH_TO_SHIFT i) (i * 8) (LENGTH_TO_SHIFT j)) =
      (LENGTH_TO_SHIFT i, i * 8, LENGTH_TO_SHIFT j)"
    by code_simp
  with assms show ?thesis by simp
qed

text \<open>The lengths of the two immediates, from the byte that stores the first one.\<close>

definition imm1_len :: "u32 \<Rightarrow> nat" where
  "imm1_len aux = min 4 (unat aux mod 8)"

definition imm2_len :: "int \<Rightarrow> nat \<Rightarrow> u32 \<Rightarrow> nat" where
  "imm2_len offset skip aux = nat (clamp 0 4 (int skip - int (imm1_len aux) - offset))"

lemma imm_len_le: "imm1_len aux \<le> 4" "imm2_len offset skip aux \<le> 4"
  by (auto simp: imm1_len_def imm2_len_def clamp_def)

lemma LookupTable_get_eq:
  assumes "skip < 32"
  shows "LookupTable_get (LookupTable_build offset) skip aux =
    (LENGTH_TO_SHIFT (imm1_len aux), imm1_len aux * 8, LENGTH_TO_SHIFT (imm2_len offset skip aux))"
proof -
  have cutoff: "sign_extend_cutoff_for_length n = LENGTH_TO_SHIFT n" for n
    by (simp add: sign_extend_cutoff_for_length_def LENGTH_TO_SHIFT_def)
  have "lookup_entry offset skip (unat aux mod 8) =
      pack (LENGTH_TO_SHIFT (imm1_len aux)) (imm1_len aux * 8) (LENGTH_TO_SHIFT (imm2_len offset skip aux))"
    by (simp add: lookup_entry_def cutoff imm1_len_def imm2_len_def Let_def)
  then show ?thesis
    using assms unpack_pack_lengths [OF imm_len_le(1) imm_len_le(2), of aux offset skip aux]
    by (simp add: LookupTable_get_def get_lookup_index_eq LookupTable_build_nth)
qed

lemma sign_extend_at_length: "sign_extend_at v (LENGTH_TO_SHIFT n) = read_simple_varint v n"
  by (simp add: sign_extend_at_def read_simple_varint_def Let_def)

section \<open>The reference decoders\<close>

text \<open>The specification the source states for its decoders: byte slices, explicit lengths. The
  last branch of \<open>read_slice\<close> and of \<open>sext\<close> is \<open>unreachable!\<close> in the source.\<close>

definition read_slice :: "bytes \<Rightarrow> nat \<Rightarrow> nat \<Rightarrow> u32" where
  "read_slice input offset len =
    (case take len (drop offset input) of
       [] \<Rightarrow> 0
     | [a] \<Rightarrow> ucast a
     | [a, b] \<Rightarrow> ucast (from_le_bytes [a, b] :: u16)
     | [a, b, c] \<Rightarrow> from_le_bytes [a, b, c, 0]
     | [a, b, c, d] \<Rightarrow> from_le_bytes [a, b, c, d]
     | _ \<Rightarrow> 0)"

definition sext :: "u32 \<Rightarrow> nat \<Rightarrow> u32" where
  "sext value len =
    (if len = 0 then 0
     else if len = 1 then scast (ucast value :: u8)
     else if len = 2 then scast (ucast value :: u16)
     else if len = 3 then signed_drop_bit 8 (push_bit 8 value)
     else if len = 4 then value
     else 0)"

definition clamp_len :: "int \<Rightarrow> nat" where
  "clamp_len n = nat (clamp 0 4 n)"

definition simple_read_args_imm :: "bytes \<Rightarrow> nat \<Rightarrow> u32" where
  "simple_read_args_imm code skip =
    (let imm_length = min 4 skip in sext (read_slice code 0 imm_length) imm_length)"

definition simple_read_args_imm2 :: "bytes \<Rightarrow> nat \<Rightarrow> u32 \<times> u32" where
  "simple_read_args_imm2 code skip =
    (let imm1_length = min 4 (unat (code ! 0 AND 7));
         imm2_length = clamp_len (int skip - int imm1_length - 1);
         imm1 = sext (read_slice code 1 imm1_length) imm1_length;
         imm2 = sext (read_slice code (1 + imm1_length) imm2_length) imm2_length
     in (imm1, imm2))"

definition simple_read_args_reg_imm :: "bytes \<Rightarrow> nat \<Rightarrow> u8 \<times> u32" where
  "simple_read_args_reg_imm code skip =
    (let reg = min 12 (code ! 0 AND 0xF);
         imm_length = clamp_len (int skip - 1);
         imm = sext (read_slice code 1 imm_length) imm_length
     in (reg, imm))"

definition simple_read_args_reg_imm2 :: "bytes \<Rightarrow> nat \<Rightarrow> u8 \<times> u32 \<times> u32" where
  "simple_read_args_reg_imm2 code skip =
    (let reg = min 12 (code ! 0 AND 0xF);
         imm1_length = min 4 (unat (drop_bit 4 (code ! 0) AND 7));
         imm2_length = clamp_len (int skip - int imm1_length - 1);
         imm1 = sext (read_slice code 1 imm1_length) imm1_length;
         imm2 = sext (read_slice code (1 + imm1_length) imm2_length) imm2_length
     in (reg, imm1, imm2))"

definition simple_read_args_regs2_imm2 :: "bytes \<Rightarrow> nat \<Rightarrow> u8 \<times> u8 \<times> u32 \<times> u32" where
  "simple_read_args_regs2_imm2 code skip =
    (let reg1 = min 12 (code ! 0 AND 0xF);
         reg2 = min 12 (drop_bit 4 (code ! 0));
         imm1_length = min 4 (unat (code ! 1 AND 7));
         imm2_length = clamp_len (int skip - int imm1_length - 2);
         imm1 = sext (read_slice code 2 imm1_length) imm1_length;
         imm2 = sext (read_slice code (2 + imm1_length) imm2_length) imm2_length
     in (reg1, reg2, imm1, imm2))"

definition simple_read_args_regs2_imm :: "bytes \<Rightarrow> nat \<Rightarrow> u8 \<times> u8 \<times> u32" where
  "simple_read_args_regs2_imm code skip =
    (let reg1 = min 12 (code ! 0 AND 0xF);
         reg2 = min 12 (drop_bit 4 (code ! 0));
         imm_length = clamp_len (int skip - 1);
         imm = sext (read_slice code 1 imm_length) imm_length
     in (reg1, reg2, imm))"

definition simple_read_args_regs3 :: "bytes \<Rightarrow> u8 \<times> u8 \<times> u8" where
  "simple_read_args_regs3 code =
    (let reg2 = min 12 (code ! 0 AND 0xF);
         reg3 = min 12 (drop_bit 4 (code ! 0));
         reg1 = min 12 (code ! 1 AND 0xF)
     in (reg1, reg2, reg3))"

definition simple_read_args_regs2 :: "bytes \<Rightarrow> u8 \<times> u8" where
  "simple_read_args_regs2 code =
    (min 12 (code ! 0 AND 0xF), min 12 (drop_bit 4 (code ! 0)))"

section \<open>The decoders on the bytes of the chunk\<close>

text \<open>An immediate of \<open>len\<close> bytes at byte \<open>off\<close> of the chunk.\<close>

definition arg_imm :: "u128 \<Rightarrow> nat \<Rightarrow> nat \<Rightarrow> u32" where
  "arg_imm chunk off len = read_simple_varint (ucast (drop_bit (8 * off) chunk)) len"

lemma narrow_chunk:
  assumes "8 * n + 32 \<le> 64"
  shows "(ucast (drop_bit (n * 8) (ucast (drop_bit m chunk :: u128) :: u64)) :: u32) =
    ucast (drop_bit (m + 8 * n) chunk)"
  using assms
  by (intro bit_word_eqI) (auto simp: bit_unsigned_iff bit_drop_bit_eq ac_simps dest: bit_imp_le_length)

lemma narrow_chunk_0:
  "(ucast (ucast (drop_bit m chunk :: u128) :: u64) :: u32) = ucast (drop_bit m chunk)"
  "(ucast (drop_bit 8 (ucast chunk :: u64)) :: u32) = ucast (drop_bit 8 chunk)"
  "(ucast (ucast chunk :: u64) :: u32) = ucast chunk"
  by (rule bit_word_eqI; auto simp: bit_unsigned_iff bit_drop_bit_eq dest: bit_imp_le_length)+

lemma read_args_imm_eq: "read_args_imm chunk skip = arg_imm chunk 0 (min 4 skip)"
  by (auto simp: read_args_imm_def arg_imm_def read_simple_varint_def LENGTH_TO_SHIFT_def min_def)

lemma table_get:
  assumes "skip < 32"
  shows "LookupTable_get TABLE_1 skip aux =
      (LENGTH_TO_SHIFT (imm1_len aux), imm1_len aux * 8, LENGTH_TO_SHIFT (imm2_len 1 skip aux))"
    and "LookupTable_get TABLE_2 skip aux =
      (LENGTH_TO_SHIFT (imm1_len aux), imm1_len aux * 8, LENGTH_TO_SHIFT (imm2_len 2 skip aux))"
  using assms by (simp_all add: TABLE_1_def TABLE_2_def LookupTable_get_eq)

lemma narrow_imm:
  "(ucast (drop_bit (imm1_len aux * 8) (ucast (drop_bit m chunk :: u128) :: u64)) :: u32) =
    ucast (drop_bit (m + 8 * imm1_len aux) chunk)"
  using imm_len_le(1) [of aux] by (intro narrow_chunk) simp

lemmas read_args_simps = table_get sign_extend_at_length narrow_imm narrow_chunk_0 arg_imm_def Let_def

lemma read_args_imm2_eq:
  assumes "skip < 32"
  shows "read_args_imm2 chunk skip =
    (arg_imm chunk 1 (imm1_len (ucast chunk)),
     arg_imm chunk (1 + imm1_len (ucast chunk)) (imm2_len 1 skip (ucast chunk)))"
  using assms by (simp add: read_args_imm2_def read_args_simps)

lemma read_args_reg_imm_eq:
  assumes "skip < 32"
  shows "read_args_reg_imm chunk skip = (RawReg (ucast chunk), arg_imm chunk 1 (clamp_len (int skip - 1)))"
  using assms by (simp add: read_args_reg_imm_def read_args_simps imm2_len_def imm1_len_def clamp_len_def)

lemma read_args_reg_imm2_eq:
  assumes "skip < 32"
  shows "read_args_reg_imm2 chunk skip =
    (let aux = drop_bit 4 (ucast chunk) in
     (RawReg (ucast chunk), arg_imm chunk 1 (imm1_len aux),
      arg_imm chunk (1 + imm1_len aux) (imm2_len 1 skip aux)))"
  using assms by (simp add: read_args_reg_imm2_def read_args_simps)

lemma read_args_regs2_imm2_eq:
  assumes "skip < 32"
  shows "read_args_regs2_imm2 chunk skip =
    (let aux = drop_bit 8 (ucast chunk) in
     (RawReg (ucast chunk), RawReg (drop_bit 4 (ucast chunk)), arg_imm chunk 2 (imm1_len aux),
      arg_imm chunk (2 + imm1_len aux) (imm2_len 2 skip aux)))"
  using assms by (simp add: read_args_regs2_imm2_def read_args_simps)

lemma read_args_regs2_imm_eq:
  assumes "skip < 32"
  shows "read_args_regs2_imm chunk skip =
    (RawReg (ucast chunk), RawReg (drop_bit 4 (ucast chunk)), arg_imm chunk 1 (clamp_len (int skip - 1)))"
  using assms by (simp add: read_args_regs2_imm_def read_args_simps imm2_len_def imm1_len_def clamp_len_def)

section \<open>Agreement with the reference\<close>

lemma sext_eq: "len \<le> 4 \<Longrightarrow> sext v len = read_simple_varint v len"
proof (rule bit_word_eqI)
  fix i assume "len \<le> 4" "i < LENGTH(32)"
  then have "len \<in> {0, 1, 2, 3, 4}" by auto
  with \<open>i < LENGTH(32)\<close> show "bit (sext v len) i = bit (read_simple_varint v len) i"
    by (auto simp: sext_def bit_read_simple_varint bit_word_scast_iff bit_unsigned_iff
        bit_signed_drop_bit_iff bit_push_bit_iff min_def)
qed

lemma read_slice_eq:
  assumes "len \<le> 4"
  shows "read_slice code off len = from_le_bytes (take len (drop off code))"
proof -
  define ys where "ys = take len (drop off code)"
  have zero: "from_le_bytes [a, b, c, 0] = (from_le_bytes [a, b, c] :: u32)" for a b c
    using from_le_bytes_append_zeros [of "[a, b, c]" 1] by simp
  have "length ys \<le> 4" using assms by (simp add: ys_def)
  then show ?thesis
    unfolding read_slice_def ys_def [symmetric]
    by (cases ys rule: list_cases_4)
      (simp_all add: zero ucast_from_le_bytes_16 del: from_le_bytes.simps(2), simp)
qed

lemma reference_imm:
  assumes "len \<le> 4" "off + len \<le> length code" "length code = 16"
  shows "sext (read_slice code off len) len = arg_imm (from_le_bytes code) off len"
proof -
  have "take_bit (8 * len) (from_le_bytes (take len (drop off code)) :: u32) =
      take_bit (8 * len) (ucast (drop_bit (8 * off) (from_le_bytes code :: u128)))"
  proof (rule bit_word_eqI)
    fix i assume "i < LENGTH(32)"
    show "bit (take_bit (8 * len) (from_le_bytes (take len (drop off code)) :: u32)) i =
        bit (take_bit (8 * len) (ucast (drop_bit (8 * off) (from_le_bytes code :: u128)) :: u32)) i"
    proof (cases "i < 8 * len")
      case True
      then have "i div 8 < len" by (simp add: div_less_iff_less_mult mult.commute)
      moreover have "(8 * off + i) div 8 = off + i div 8" "(8 * off + i) mod 8 = i mod 8"
        by simp_all
      ultimately show ?thesis
        using True assms \<open>i < LENGTH(32)\<close>
        by (simp add: bit_take_bit_iff bit_from_le_bytes bit_unsigned_iff bit_drop_bit_eq)
    next
      case False
      then show ?thesis by (simp add: bit_take_bit_iff)
    qed
  qed
  from read_simple_varint_cong [OF assms(1) this] show ?thesis
    using assms(1) by (simp add: sext_eq read_slice_eq arg_imm_def)
qed

lemma bit_chunk_low:
  assumes "length code = 16" "i < 8" "j < 16"
  shows "bit (from_le_bytes code :: u128) (8 * j + i) = bit (code ! j) i"
  using assms by (auto simp: bit_from_le_bytes)

lemma RawReg_get_value: "Reg_to_u32 (RawReg_get (RawReg w)) = min 12 (w AND 0xF)"
proof -
  define v where "v = (if w AND 0xF > 12 then 12 else w AND 0xF)"
  have "from_raw v \<noteq> None" by (simp add: v_def from_raw_None)
  then obtain reg where reg: "from_raw v = Some reg" by blast
  then have "v = Reg_to_u32 reg" by (simp add: from_raw_Some)
  moreover have "RawReg_get (RawReg w) = reg"
    using reg by (simp add: RawReg_get_def v_def Let_def split: if_splits)
  ultimately show ?thesis by (auto simp: v_def min_def not_le split: if_splits)
qed

definition reg_as_u8 :: "RawReg \<Rightarrow> u8" where
  "reg_as_u8 r = ucast (Reg_to_u32 (RawReg_get r))"

lemma reg_as_u8_eq:
  assumes "\<And>i. i < 4 \<Longrightarrow> bit w i = bit b i"
  shows "reg_as_u8 (RawReg w) = min 12 (b AND 0xF)"
proof -
  have mask: "x AND 0xF = take_bit 4 x" for x :: "'a::len word"
    by (simp add: take_bit_eq_mask mask_numeral)
  have "w AND 0xF = ucast (b AND 0xF)"
    unfolding mask by (rule bit_word_eqI) (use assms in \<open>auto simp: bit_take_bit_iff bit_unsigned_iff\<close>)
  then have "reg_as_u8 (RawReg w) = ucast (min 12 (ucast (b AND 0xF) :: u32))"
    by (simp add: reg_as_u8_def RawReg_get_value)
  also have "\<dots> = min 12 (b AND 0xF)"
  proof -
    have "ucast (ucast x :: u32) = x" for x :: u8
      by (rule bit_word_eqI) (simp add: bit_unsigned_iff)
    then show ?thesis by (simp add: min_def word_le_nat_alt unat_ucast_up)
  qed
  finally show ?thesis .
qed

lemma unat_and_7: "unat (b AND 7) = unat b mod 8" for b :: u8
proof -
  have "b AND 7 = take_bit 3 b"
    by (simp add: take_bit_eq_mask mask_numeral)
  then show ?thesis by (simp only: unsigned_take_bit_eq) (simp add: take_bit_eq_mod)
qed

lemma imm1_len_eq:
  fixes b :: u8
  assumes "\<And>i. i < 3 \<Longrightarrow> bit w i = bit b i"
  shows "imm1_len w = min 4 (unat (b AND 7))"
proof -
  have "take_bit 3 w = ucast (take_bit 3 b)"
    by (rule bit_word_eqI) (use assms in \<open>auto simp: bit_take_bit_iff bit_unsigned_iff\<close>)
  then have "unat (take_bit 3 w) = unat (take_bit 3 b)"
    by (simp only:) (rule unat_ucast_up, simp)
  then show ?thesis
    by (simp only: unsigned_take_bit_eq) (simp add: imm1_len_def take_bit_eq_mod unat_and_7)
qed

lemma nibble_AND: "drop_bit 4 b AND 0xF = drop_bit 4 b" for b :: u8
proof -
  have mask: "x AND 0xF = take_bit 4 x" for x :: u8
    by (simp add: take_bit_eq_mask mask_numeral)
  show ?thesis unfolding mask
    by (rule bit_word_eqI) (auto simp: bit_take_bit_iff bit_drop_bit_eq dest: bit_imp_le_length)
qed

lemma chunk_bits:
  assumes "length code = 16"
  shows "i < 8 \<Longrightarrow> bit (ucast (from_le_bytes code :: u128) :: u32) i = bit (code ! 0) i"
    and "i < 4 \<Longrightarrow> bit (drop_bit 4 (ucast (from_le_bytes code :: u128) :: u32)) i = bit (drop_bit 4 (code ! 0)) i"
    and "i < 8 \<Longrightarrow> bit (drop_bit 8 (ucast (from_le_bytes code :: u128) :: u32)) i = bit (code ! 1) i"
  using bit_chunk_low [OF assms, of i 0] bit_chunk_low [OF assms, of "4 + i" 0]
    bit_chunk_low [OF assms, of i 1]
  by (simp_all add: bit_unsigned_iff bit_drop_bit_eq)

lemma chunk_regs:
  assumes "length code = 16"
  defines "v \<equiv> ucast (from_le_bytes code :: u128)"
  shows "reg_as_u8 (RawReg v) = min 12 (code ! 0 AND 0xF)"
    and "reg_as_u8 (RawReg (drop_bit 4 v)) = min 12 (drop_bit 4 (code ! 0))"
    and "reg_as_u8 (RawReg (drop_bit 8 v)) = min 12 (code ! 1 AND 0xF)"
  using reg_as_u8_eq [of v "code ! 0"] reg_as_u8_eq [of "drop_bit 4 v" "drop_bit 4 (code ! 0)"]
    reg_as_u8_eq [of "drop_bit 8 v" "code ! 1"] chunk_bits [OF assms(1)]
  by (simp_all add: v_def nibble_AND)

lemma chunk_lens:
  assumes "length code = 16"
  defines "v \<equiv> ucast (from_le_bytes code :: u128)"
  shows "imm1_len v = min 4 (unat (code ! 0 AND 7))"
    and "imm1_len (drop_bit 4 v) = min 4 (unat (drop_bit 4 (code ! 0) AND 7))"
    and "imm1_len (drop_bit 8 v) = min 4 (unat (code ! 1 AND 7))"
  using imm1_len_eq [of v "code ! 0"] imm1_len_eq [of "drop_bit 4 v" "drop_bit 4 (code ! 0)"]
    imm1_len_eq [of "drop_bit 8 v" "code ! 1"] chunk_bits [OF assms(1)]
  by (simp_all add: v_def)

lemma clamp_len_le: "clamp_len n \<le> 4"
  by (auto simp: clamp_len_def clamp_def)

section \<open>Properties\<close>

text \<open>C23: on any sixteen argument bytes and any argument length the code can produce (up to
  31), the branch-free table-driven decoders agree with the reference decoders.\<close>

theorem read_args_agree_with_reference:
  assumes "length code = 16" and "skip < 32"
  defines "chunk \<equiv> from_le_bytes code"
  shows "read_args_imm chunk skip = simple_read_args_imm code skip
    \<and> read_args_imm2 chunk skip = simple_read_args_imm2 code skip
    \<and> map_prod reg_as_u8 id (read_args_reg_imm chunk skip) = simple_read_args_reg_imm code skip
    \<and> map_prod reg_as_u8 id (read_args_reg_imm2 chunk skip) = simple_read_args_reg_imm2 code skip
    \<and> map_prod reg_as_u8 (map_prod reg_as_u8 id) (read_args_regs2_imm2 chunk skip)
        = simple_read_args_regs2_imm2 code skip
    \<and> map_prod reg_as_u8 (map_prod reg_as_u8 id) (read_args_regs2_imm chunk skip)
        = simple_read_args_regs2_imm code skip
    \<and> map_prod reg_as_u8 (map_prod reg_as_u8 reg_as_u8) (read_args_regs3 chunk)
        = simple_read_args_regs3 code
    \<and> map_prod reg_as_u8 reg_as_u8 (read_args_regs2 chunk) = simple_read_args_regs2 code"
proof (intro conjI)
  note regs = chunk_regs [OF assms(1)] and lens = chunk_lens [OF assms(1)]
  have imm: "sext (read_slice code off len) len = arg_imm chunk off len" if "len \<le> 4" "off \<le> 6" for off len
    using that assms(1) unfolding chunk_def by (intro reference_imm) simp_all
  note simps = regs lens imm_len_le imm2_len_def clamp_len_def [symmetric] clamp_len_le imm
  show "read_args_imm chunk skip = simple_read_args_imm code skip"
    by (simp add: read_args_imm_eq simple_read_args_imm_def imm)
  show "read_args_imm2 chunk skip = simple_read_args_imm2 code skip"
    using assms(2) by (simp add: read_args_imm2_eq simple_read_args_imm2_def Let_def chunk_def simps)
  show "map_prod reg_as_u8 id (read_args_reg_imm chunk skip) = simple_read_args_reg_imm code skip"
    using assms(2) by (simp add: read_args_reg_imm_eq simple_read_args_reg_imm_def Let_def simps chunk_def)
  show "map_prod reg_as_u8 id (read_args_reg_imm2 chunk skip) = simple_read_args_reg_imm2 code skip"
    using assms(2) by (simp add: read_args_reg_imm2_eq simple_read_args_reg_imm2_def Let_def simps chunk_def)
  show "map_prod reg_as_u8 (map_prod reg_as_u8 id) (read_args_regs2_imm2 chunk skip)
      = simple_read_args_regs2_imm2 code skip"
    using assms(2) by (simp add: read_args_regs2_imm2_eq simple_read_args_regs2_imm2_def Let_def simps chunk_def)
  show "map_prod reg_as_u8 (map_prod reg_as_u8 id) (read_args_regs2_imm chunk skip)
      = simple_read_args_regs2_imm code skip"
    using assms(2) by (simp add: read_args_regs2_imm_eq simple_read_args_regs2_imm_def Let_def simps chunk_def)
  show "map_prod reg_as_u8 (map_prod reg_as_u8 reg_as_u8) (read_args_regs3 chunk) = simple_read_args_regs3 code"
    by (simp add: read_args_regs3_def simple_read_args_regs3_def Let_def regs chunk_def)
  show "map_prod reg_as_u8 reg_as_u8 (read_args_regs2 chunk) = simple_read_args_regs2 code"
    by (simp add: read_args_regs2_def simple_read_args_regs2_def Let_def regs chunk_def)
qed

theorem read_args_agree_with_reference_witness:
  "length [0x22, 0x05, 0xFE, 0xFF, 0x10, 9, 9, 9, 9, 9, 9, 9, 9, 9, 9, 9 :: u8] = 16 \<and> (5 :: nat) < 32
   \<and> read_args_imm2 (from_le_bytes [0x22, 0x05, 0xFE, 0xFF, 0x10, 9, 9, 9, 9, 9, 9, 9, 9, 9, 9, 9]) 5
     = (0xFFFFFE05, 0x10FF)"
proof -
  have "simple_read_args_imm2 [0x22, 0x05, 0xFE, 0xFF, 0x10, 9, 9, 9, 9, 9, 9, 9, 9, 9, 9, 9] 5
      = (0xFFFFFE05, 0x10FF)"
    by code_simp
  with read_args_agree_with_reference [of "[0x22, 0x05, 0xFE, 0xFF, 0x10, 9, 9, 9, 9, 9, 9, 9, 9, 9, 9, 9]" 5]
  show ?thesis by simp
qed

end
