(* ===== verification/Isa_Tables.thy ===== *)
theory Isa_Tables
  imports Isa
begin

text \<open>
  The four instruction sets of \<open>crates/polkavm-common/src/program.rs\<close>, one list per argument shape
  as in the source, the enumeration of the kinds a blob can name, and the proof that each
  instruction set meets the contract of the locale \<open>instruction_set\<close>.
\<close>

section \<open>The tables\<close>

subsection \<open>\<open>ISA_ReviveV1\<close>\<close>

definition ReviveV1_argless :: "(op_argless \<times> nat) list" where
  "ReviveV1_argless = [
    (trap, 0), (fallthrough, 1)]"

definition ReviveV1_reg_imm :: "(op_reg_imm \<times> nat) list" where
  "ReviveV1_reg_imm = [
    (jump_indirect, 50), (load_imm, 51), (load_u8, 52), (load_i8, 53), (load_u16, 54),
    (load_i16, 55), (load_i32, 57), (load_u32, 56), (load_u64, 58), (store_u8, 59),
    (store_u16, 60), (store_u32, 61), (store_u64, 62)]"

definition ReviveV1_reg_imm_offset :: "(op_reg_imm_offset \<times> nat) list" where
  "ReviveV1_reg_imm_offset = [
    (load_imm_and_jump, 80), (branch_eq_imm, 81), (branch_not_eq_imm, 82),
    (branch_less_unsigned_imm, 83), (branch_less_signed_imm, 87),
    (branch_greater_or_equal_unsigned_imm, 85), (branch_greater_or_equal_signed_imm, 89),
    (branch_less_or_equal_signed_imm, 88), (branch_less_or_equal_unsigned_imm, 84),
    (branch_greater_signed_imm, 90), (branch_greater_unsigned_imm, 86)]"

definition ReviveV1_reg_imm_imm :: "(op_reg_imm_imm \<times> nat) list" where
  "ReviveV1_reg_imm_imm = [
    (store_imm_indirect_u8, 70), (store_imm_indirect_u16, 71), (store_imm_indirect_u32, 72),
    (store_imm_indirect_u64, 73)]"

definition ReviveV1_reg_reg_imm :: "(op_reg_reg_imm \<times> nat) list" where
  "ReviveV1_reg_reg_imm = [
    (store_indirect_u8, 120), (store_indirect_u16, 121), (store_indirect_u32, 122),
    (store_indirect_u64, 123), (load_indirect_u8, 124), (load_indirect_i8, 125),
    (load_indirect_u16, 126), (load_indirect_i16, 127), (load_indirect_i32, 129),
    (load_indirect_u32, 128), (load_indirect_u64, 130), (add_imm_32, 131), (add_imm_64, 149),
    (and_imm, 132), (xor_imm, 133), (or_imm, 134), (mul_imm_32, 135), (mul_imm_64, 150),
    (set_less_than_unsigned_imm, 136), (set_less_than_signed_imm, 137),
    (shift_logical_left_imm_32, 138), (shift_logical_left_imm_64, 151),
    (shift_logical_right_imm_32, 139), (shift_logical_right_imm_64, 152),
    (shift_arithmetic_right_imm_32, 140), (shift_arithmetic_right_imm_64, 153),
    (negate_and_add_imm_32, 141), (negate_and_add_imm_64, 154),
    (set_greater_than_unsigned_imm, 142), (set_greater_than_signed_imm, 143),
    (shift_logical_right_imm_alt_32, 145), (shift_logical_right_imm_alt_64, 156),
    (shift_arithmetic_right_imm_alt_32, 146), (shift_arithmetic_right_imm_alt_64, 157),
    (shift_logical_left_imm_alt_32, 144), (shift_logical_left_imm_alt_64, 155),
    (cmov_if_zero_imm, 147), (cmov_if_not_zero_imm, 148), (rotate_right_imm_32, 160),
    (rotate_right_imm_alt_32, 161), (rotate_right_imm_64, 158), (rotate_right_imm_alt_64, 159)]"

definition ReviveV1_reg_reg_offset :: "(op_reg_reg_offset \<times> nat) list" where
  "ReviveV1_reg_reg_offset = [
    (branch_eq, 170), (branch_not_eq, 171), (branch_less_unsigned, 172),
    (branch_less_signed, 173), (branch_greater_or_equal_unsigned, 174),
    (branch_greater_or_equal_signed, 175)]"

definition ReviveV1_reg_reg_reg :: "(op_reg_reg_reg \<times> nat) list" where
  "ReviveV1_reg_reg_reg = [
    (add_32, 190), (add_64, 200), (sub_32, 191), (sub_64, 201), (and_op, 210), (xor_op, 211),
    (or_op, 212), (mul_32, 192), (mul_64, 202), (mul_upper_signed_signed, 213),
    (mul_upper_unsigned_unsigned, 214), (mul_upper_signed_unsigned, 215),
    (set_less_than_unsigned, 216), (set_less_than_signed, 217), (shift_logical_left_32, 197),
    (shift_logical_left_64, 207), (shift_logical_right_32, 198), (shift_logical_right_64, 208),
    (shift_arithmetic_right_32, 199), (shift_arithmetic_right_64, 209), (div_unsigned_32, 193),
    (div_unsigned_64, 203), (div_signed_32, 194), (div_signed_64, 204), (rem_unsigned_32, 195),
    (rem_unsigned_64, 205), (rem_signed_32, 196), (rem_signed_64, 206), (cmov_if_zero, 218),
    (cmov_if_not_zero, 219), (and_inverted, 224), (or_inverted, 225), (xnor, 226),
    (maximum, 227), (maximum_unsigned, 228), (minimum, 229), (minimum_unsigned, 230),
    (rotate_left_32, 221), (rotate_left_64, 220), (rotate_right_32, 223), (rotate_right_64, 222)]"

definition ReviveV1_offset :: "(op_offset \<times> nat) list" where
  "ReviveV1_offset = [
    (jump, 40)]"

definition ReviveV1_imm :: "(op_imm \<times> nat) list" where
  "ReviveV1_imm = [
    (ecalli, 10)]"

definition ReviveV1_imm_imm :: "(op_imm_imm \<times> nat) list" where
  "ReviveV1_imm_imm = [
    (store_imm_u8, 30), (store_imm_u16, 31), (store_imm_u32, 32), (store_imm_u64, 33)]"

definition ReviveV1_reg_reg :: "(op_reg_reg \<times> nat) list" where
  "ReviveV1_reg_reg = [
    (move_reg, 100), (count_leading_zero_bits_32, 105), (count_leading_zero_bits_64, 104),
    (count_trailing_zero_bits_32, 107), (count_trailing_zero_bits_64, 106),
    (count_set_bits_32, 103), (count_set_bits_64, 102), (sign_extend_8, 108),
    (sign_extend_16, 109), (zero_extend_16, 110), (reverse_byte, 111)]"

definition ReviveV1_reg_reg_imm_imm :: "(op_reg_reg_imm_imm \<times> nat) list" where
  "ReviveV1_reg_reg_imm_imm = [
    (load_imm_and_jump_indirect, 180)]"

definition ReviveV1_reg_imm64 :: "(op_reg_imm64 \<times> nat) list" where
  "ReviveV1_reg_imm64 = [
    (load_imm64, 20)]"

definition ISA_ReviveV1 :: isa where
  "ISA_ReviveV1 =
    map (map_prod O_argless id) ReviveV1_argless
    @ map (map_prod O_reg_imm id) ReviveV1_reg_imm
    @ map (map_prod O_reg_imm_offset id) ReviveV1_reg_imm_offset
    @ map (map_prod O_reg_imm_imm id) ReviveV1_reg_imm_imm
    @ map (map_prod O_reg_reg_imm id) ReviveV1_reg_reg_imm
    @ map (map_prod O_reg_reg_offset id) ReviveV1_reg_reg_offset
    @ map (map_prod O_reg_reg_reg id) ReviveV1_reg_reg_reg
    @ map (map_prod O_offset id) ReviveV1_offset
    @ map (map_prod O_imm id) ReviveV1_imm
    @ map (map_prod O_imm_imm id) ReviveV1_imm_imm
    @ map (map_prod O_reg_reg id) ReviveV1_reg_reg
    @ map (map_prod O_reg_reg_imm_imm id) ReviveV1_reg_reg_imm_imm
    @ map (map_prod O_reg_imm64 id) ReviveV1_reg_imm64"

lemmas ISA_ReviveV1_defs =
  ISA_ReviveV1_def ReviveV1_argless_def ReviveV1_reg_imm_def ReviveV1_reg_imm_offset_def
  ReviveV1_reg_imm_imm_def ReviveV1_reg_reg_imm_def ReviveV1_reg_reg_offset_def
  ReviveV1_reg_reg_reg_def ReviveV1_offset_def ReviveV1_imm_def ReviveV1_imm_imm_def
  ReviveV1_reg_reg_def ReviveV1_reg_reg_imm_imm_def ReviveV1_reg_imm64_def

subsection \<open>\<open>ISA_Latest32\<close>\<close>

definition Latest32_argless :: "(op_argless \<times> nat) list" where
  "Latest32_argless = [
    (trap, 0), (fallthrough, 1), (memset, 2), (unlikely, 3)]"

definition Latest32_reg_imm :: "(op_reg_imm \<times> nat) list" where
  "Latest32_reg_imm = [
    (jump_indirect, 50), (load_imm, 51), (load_u8, 52), (load_i8, 53), (load_u16, 54),
    (load_i16, 55), (load_i32, 57), (store_u8, 59), (store_u16, 60), (store_u32, 61)]"

definition Latest32_reg_imm_offset :: "(op_reg_imm_offset \<times> nat) list" where
  "Latest32_reg_imm_offset = [
    (load_imm_and_jump, 80), (branch_eq_imm, 81), (branch_not_eq_imm, 82),
    (branch_less_unsigned_imm, 83), (branch_less_signed_imm, 87),
    (branch_greater_or_equal_unsigned_imm, 85), (branch_greater_or_equal_signed_imm, 89),
    (branch_less_or_equal_signed_imm, 88), (branch_less_or_equal_unsigned_imm, 84),
    (branch_greater_signed_imm, 90), (branch_greater_unsigned_imm, 86)]"

definition Latest32_reg_imm_imm :: "(op_reg_imm_imm \<times> nat) list" where
  "Latest32_reg_imm_imm = [
    (store_imm_indirect_u8, 70), (store_imm_indirect_u16, 71), (store_imm_indirect_u32, 72)]"

definition Latest32_reg_reg_imm :: "(op_reg_reg_imm \<times> nat) list" where
  "Latest32_reg_reg_imm = [
    (store_indirect_u8, 120), (store_indirect_u16, 121), (store_indirect_u32, 122),
    (load_indirect_u8, 124), (load_indirect_i8, 125), (load_indirect_u16, 126),
    (load_indirect_i16, 127), (load_indirect_i32, 129), (add_imm_32, 131), (and_imm, 132),
    (xor_imm, 133), (or_imm, 134), (mul_imm_32, 135), (set_less_than_unsigned_imm, 136),
    (set_less_than_signed_imm, 137), (shift_logical_left_imm_32, 138),
    (shift_logical_right_imm_32, 139), (shift_arithmetic_right_imm_32, 140),
    (negate_and_add_imm_32, 141), (set_greater_than_unsigned_imm, 142),
    (set_greater_than_signed_imm, 143), (shift_logical_right_imm_alt_32, 145),
    (shift_arithmetic_right_imm_alt_32, 146), (shift_logical_left_imm_alt_32, 144),
    (cmov_if_zero_imm, 147), (cmov_if_not_zero_imm, 148), (rotate_right_imm_32, 160),
    (rotate_right_imm_alt_32, 161)]"

definition Latest32_reg_reg_offset :: "(op_reg_reg_offset \<times> nat) list" where
  "Latest32_reg_reg_offset = [
    (branch_eq, 170), (branch_not_eq, 171), (branch_less_unsigned, 172),
    (branch_less_signed, 173), (branch_greater_or_equal_unsigned, 174),
    (branch_greater_or_equal_signed, 175)]"

definition Latest32_reg_reg_reg :: "(op_reg_reg_reg \<times> nat) list" where
  "Latest32_reg_reg_reg = [
    (add_32, 190), (sub_32, 191), (and_op, 210), (xor_op, 211), (or_op, 212), (mul_32, 192),
    (mul_upper_signed_signed, 213), (mul_upper_unsigned_unsigned, 214),
    (mul_upper_signed_unsigned, 215), (set_less_than_unsigned, 216),
    (set_less_than_signed, 217), (shift_logical_left_32, 197), (shift_logical_right_32, 198),
    (shift_arithmetic_right_32, 199), (div_unsigned_32, 193), (div_signed_32, 194),
    (rem_unsigned_32, 195), (rem_signed_32, 196), (cmov_if_zero, 218), (cmov_if_not_zero, 219),
    (and_inverted, 224), (or_inverted, 225), (xnor, 226), (maximum, 227),
    (maximum_unsigned, 228), (minimum, 229), (minimum_unsigned, 230), (rotate_left_32, 221),
    (rotate_right_32, 223)]"

definition Latest32_offset :: "(op_offset \<times> nat) list" where
  "Latest32_offset = [
    (jump, 40)]"

definition Latest32_imm :: "(op_imm \<times> nat) list" where
  "Latest32_imm = [
    (ecalli, 10)]"

definition Latest32_imm_imm :: "(op_imm_imm \<times> nat) list" where
  "Latest32_imm_imm = [
    (store_imm_u8, 30), (store_imm_u16, 31), (store_imm_u32, 32)]"

definition Latest32_reg_reg :: "(op_reg_reg \<times> nat) list" where
  "Latest32_reg_reg = [
    (move_reg, 100), (sbrk, 101), (count_leading_zero_bits_32, 105),
    (count_trailing_zero_bits_32, 107), (count_set_bits_32, 103), (sign_extend_8, 108),
    (sign_extend_16, 109), (zero_extend_16, 110), (reverse_byte, 111)]"

definition Latest32_reg_reg_imm_imm :: "(op_reg_reg_imm_imm \<times> nat) list" where
  "Latest32_reg_reg_imm_imm = [
    (load_imm_and_jump_indirect, 180)]"

definition Latest32_reg_imm64 :: "(op_reg_imm64 \<times> nat) list" where
  "Latest32_reg_imm64 = []"

definition ISA_Latest32 :: isa where
  "ISA_Latest32 =
    map (map_prod O_argless id) Latest32_argless
    @ map (map_prod O_reg_imm id) Latest32_reg_imm
    @ map (map_prod O_reg_imm_offset id) Latest32_reg_imm_offset
    @ map (map_prod O_reg_imm_imm id) Latest32_reg_imm_imm
    @ map (map_prod O_reg_reg_imm id) Latest32_reg_reg_imm
    @ map (map_prod O_reg_reg_offset id) Latest32_reg_reg_offset
    @ map (map_prod O_reg_reg_reg id) Latest32_reg_reg_reg
    @ map (map_prod O_offset id) Latest32_offset
    @ map (map_prod O_imm id) Latest32_imm
    @ map (map_prod O_imm_imm id) Latest32_imm_imm
    @ map (map_prod O_reg_reg id) Latest32_reg_reg
    @ map (map_prod O_reg_reg_imm_imm id) Latest32_reg_reg_imm_imm
    @ map (map_prod O_reg_imm64 id) Latest32_reg_imm64"

lemmas ISA_Latest32_defs =
  ISA_Latest32_def Latest32_argless_def Latest32_reg_imm_def Latest32_reg_imm_offset_def
  Latest32_reg_imm_imm_def Latest32_reg_reg_imm_def Latest32_reg_reg_offset_def
  Latest32_reg_reg_reg_def Latest32_offset_def Latest32_imm_def Latest32_imm_imm_def
  Latest32_reg_reg_def Latest32_reg_reg_imm_imm_def Latest32_reg_imm64_def

subsection \<open>\<open>ISA_Latest64\<close>\<close>

definition Latest64_argless :: "(op_argless \<times> nat) list" where
  "Latest64_argless = [
    (trap, 0), (fallthrough, 1), (memset, 2), (unlikely, 3)]"

definition Latest64_reg_imm :: "(op_reg_imm \<times> nat) list" where
  "Latest64_reg_imm = [
    (jump_indirect, 50), (load_imm, 51), (load_u8, 52), (load_i8, 53), (load_u16, 54),
    (load_i16, 55), (load_i32, 57), (load_u32, 56), (load_u64, 58), (store_u8, 59),
    (store_u16, 60), (store_u32, 61), (store_u64, 62)]"

definition Latest64_reg_imm_offset :: "(op_reg_imm_offset \<times> nat) list" where
  "Latest64_reg_imm_offset = [
    (load_imm_and_jump, 80), (branch_eq_imm, 81), (branch_not_eq_imm, 82),
    (branch_less_unsigned_imm, 83), (branch_less_signed_imm, 87),
    (branch_greater_or_equal_unsigned_imm, 85), (branch_greater_or_equal_signed_imm, 89),
    (branch_less_or_equal_signed_imm, 88), (branch_less_or_equal_unsigned_imm, 84),
    (branch_greater_signed_imm, 90), (branch_greater_unsigned_imm, 86)]"

definition Latest64_reg_imm_imm :: "(op_reg_imm_imm \<times> nat) list" where
  "Latest64_reg_imm_imm = [
    (store_imm_indirect_u8, 70), (store_imm_indirect_u16, 71), (store_imm_indirect_u32, 72),
    (store_imm_indirect_u64, 73)]"

definition Latest64_reg_reg_imm :: "(op_reg_reg_imm \<times> nat) list" where
  "Latest64_reg_reg_imm = [
    (store_indirect_u8, 120), (store_indirect_u16, 121), (store_indirect_u32, 122),
    (store_indirect_u64, 123), (load_indirect_u8, 124), (load_indirect_i8, 125),
    (load_indirect_u16, 126), (load_indirect_i16, 127), (load_indirect_i32, 129),
    (load_indirect_u32, 128), (load_indirect_u64, 130), (add_imm_32, 131), (add_imm_64, 149),
    (and_imm, 132), (xor_imm, 133), (or_imm, 134), (mul_imm_32, 135), (mul_imm_64, 150),
    (set_less_than_unsigned_imm, 136), (set_less_than_signed_imm, 137),
    (shift_logical_left_imm_32, 138), (shift_logical_left_imm_64, 151),
    (shift_logical_right_imm_32, 139), (shift_logical_right_imm_64, 152),
    (shift_arithmetic_right_imm_32, 140), (shift_arithmetic_right_imm_64, 153),
    (negate_and_add_imm_32, 141), (negate_and_add_imm_64, 154),
    (set_greater_than_unsigned_imm, 142), (set_greater_than_signed_imm, 143),
    (shift_logical_right_imm_alt_32, 145), (shift_logical_right_imm_alt_64, 156),
    (shift_arithmetic_right_imm_alt_32, 146), (shift_arithmetic_right_imm_alt_64, 157),
    (shift_logical_left_imm_alt_32, 144), (shift_logical_left_imm_alt_64, 155),
    (cmov_if_zero_imm, 147), (cmov_if_not_zero_imm, 148), (rotate_right_imm_32, 160),
    (rotate_right_imm_alt_32, 161), (rotate_right_imm_64, 158), (rotate_right_imm_alt_64, 159)]"

definition Latest64_reg_reg_offset :: "(op_reg_reg_offset \<times> nat) list" where
  "Latest64_reg_reg_offset = [
    (branch_eq, 170), (branch_not_eq, 171), (branch_less_unsigned, 172),
    (branch_less_signed, 173), (branch_greater_or_equal_unsigned, 174),
    (branch_greater_or_equal_signed, 175)]"

definition Latest64_reg_reg_reg :: "(op_reg_reg_reg \<times> nat) list" where
  "Latest64_reg_reg_reg = [
    (add_32, 190), (add_64, 200), (sub_32, 191), (sub_64, 201), (and_op, 210), (xor_op, 211),
    (or_op, 212), (mul_32, 192), (mul_64, 202), (mul_upper_signed_signed, 213),
    (mul_upper_unsigned_unsigned, 214), (mul_upper_signed_unsigned, 215),
    (set_less_than_unsigned, 216), (set_less_than_signed, 217), (shift_logical_left_32, 197),
    (shift_logical_left_64, 207), (shift_logical_right_32, 198), (shift_logical_right_64, 208),
    (shift_arithmetic_right_32, 199), (shift_arithmetic_right_64, 209), (div_unsigned_32, 193),
    (div_unsigned_64, 203), (div_signed_32, 194), (div_signed_64, 204), (rem_unsigned_32, 195),
    (rem_unsigned_64, 205), (rem_signed_32, 196), (rem_signed_64, 206), (cmov_if_zero, 218),
    (cmov_if_not_zero, 219), (and_inverted, 224), (or_inverted, 225), (xnor, 226),
    (maximum, 227), (maximum_unsigned, 228), (minimum, 229), (minimum_unsigned, 230),
    (rotate_left_32, 221), (rotate_left_64, 220), (rotate_right_32, 223), (rotate_right_64, 222)]"

definition Latest64_offset :: "(op_offset \<times> nat) list" where
  "Latest64_offset = [
    (jump, 40)]"

definition Latest64_imm :: "(op_imm \<times> nat) list" where
  "Latest64_imm = [
    (ecalli, 10)]"

definition Latest64_imm_imm :: "(op_imm_imm \<times> nat) list" where
  "Latest64_imm_imm = [
    (store_imm_u8, 30), (store_imm_u16, 31), (store_imm_u32, 32), (store_imm_u64, 33)]"

definition Latest64_reg_reg :: "(op_reg_reg \<times> nat) list" where
  "Latest64_reg_reg = [
    (move_reg, 100), (sbrk, 101), (count_leading_zero_bits_32, 105),
    (count_leading_zero_bits_64, 104), (count_trailing_zero_bits_32, 107),
    (count_trailing_zero_bits_64, 106), (count_set_bits_32, 103), (count_set_bits_64, 102),
    (sign_extend_8, 108), (sign_extend_16, 109), (zero_extend_16, 110), (reverse_byte, 111)]"

definition Latest64_reg_reg_imm_imm :: "(op_reg_reg_imm_imm \<times> nat) list" where
  "Latest64_reg_reg_imm_imm = [
    (load_imm_and_jump_indirect, 180)]"

definition Latest64_reg_imm64 :: "(op_reg_imm64 \<times> nat) list" where
  "Latest64_reg_imm64 = [
    (load_imm64, 20)]"

definition ISA_Latest64 :: isa where
  "ISA_Latest64 =
    map (map_prod O_argless id) Latest64_argless
    @ map (map_prod O_reg_imm id) Latest64_reg_imm
    @ map (map_prod O_reg_imm_offset id) Latest64_reg_imm_offset
    @ map (map_prod O_reg_imm_imm id) Latest64_reg_imm_imm
    @ map (map_prod O_reg_reg_imm id) Latest64_reg_reg_imm
    @ map (map_prod O_reg_reg_offset id) Latest64_reg_reg_offset
    @ map (map_prod O_reg_reg_reg id) Latest64_reg_reg_reg
    @ map (map_prod O_offset id) Latest64_offset
    @ map (map_prod O_imm id) Latest64_imm
    @ map (map_prod O_imm_imm id) Latest64_imm_imm
    @ map (map_prod O_reg_reg id) Latest64_reg_reg
    @ map (map_prod O_reg_reg_imm_imm id) Latest64_reg_reg_imm_imm
    @ map (map_prod O_reg_imm64 id) Latest64_reg_imm64"

lemmas ISA_Latest64_defs =
  ISA_Latest64_def Latest64_argless_def Latest64_reg_imm_def Latest64_reg_imm_offset_def
  Latest64_reg_imm_imm_def Latest64_reg_reg_imm_def Latest64_reg_reg_offset_def
  Latest64_reg_reg_reg_def Latest64_offset_def Latest64_imm_def Latest64_imm_imm_def
  Latest64_reg_reg_def Latest64_reg_reg_imm_imm_def Latest64_reg_imm64_def

subsection \<open>\<open>ISA_JamV1\<close>\<close>

definition JamV1_argless :: "(op_argless \<times> nat) list" where
  "JamV1_argless = [
    (trap, 0), (fallthrough, 1), (unlikely, 2)]"

definition JamV1_reg_imm :: "(op_reg_imm \<times> nat) list" where
  "JamV1_reg_imm = [
    (jump_indirect, 50), (load_imm, 51), (load_u8, 52), (load_i8, 53), (load_u16, 54),
    (load_i16, 55), (load_i32, 57), (load_u32, 56), (load_u64, 58), (store_u8, 59),
    (store_u16, 60), (store_u32, 61), (store_u64, 62)]"

definition JamV1_reg_imm_offset :: "(op_reg_imm_offset \<times> nat) list" where
  "JamV1_reg_imm_offset = [
    (load_imm_and_jump, 80), (branch_eq_imm, 81), (branch_not_eq_imm, 82),
    (branch_less_unsigned_imm, 83), (branch_less_signed_imm, 87),
    (branch_greater_or_equal_unsigned_imm, 85), (branch_greater_or_equal_signed_imm, 89),
    (branch_less_or_equal_signed_imm, 88), (branch_less_or_equal_unsigned_imm, 84),
    (branch_greater_signed_imm, 90), (branch_greater_unsigned_imm, 86)]"

definition JamV1_reg_imm_imm :: "(op_reg_imm_imm \<times> nat) list" where
  "JamV1_reg_imm_imm = [
    (store_imm_indirect_u8, 70), (store_imm_indirect_u16, 71), (store_imm_indirect_u32, 72),
    (store_imm_indirect_u64, 73)]"

definition JamV1_reg_reg_imm :: "(op_reg_reg_imm \<times> nat) list" where
  "JamV1_reg_reg_imm = [
    (store_indirect_u8, 120), (store_indirect_u16, 121), (store_indirect_u32, 122),
    (store_indirect_u64, 123), (load_indirect_u8, 124), (load_indirect_i8, 125),
    (load_indirect_u16, 126), (load_indirect_i16, 127), (load_indirect_i32, 129),
    (load_indirect_u32, 128), (load_indirect_u64, 130), (add_imm_32, 131), (add_imm_64, 149),
    (and_imm, 132), (xor_imm, 133), (or_imm, 134), (mul_imm_32, 135), (mul_imm_64, 150),
    (set_less_than_unsigned_imm, 136), (set_less_than_signed_imm, 137),
    (shift_logical_left_imm_32, 138), (shift_logical_left_imm_64, 151),
    (shift_logical_right_imm_32, 139), (shift_logical_right_imm_64, 152),
    (shift_arithmetic_right_imm_32, 140), (shift_arithmetic_right_imm_64, 153),
    (negate_and_add_imm_32, 141), (negate_and_add_imm_64, 154),
    (set_greater_than_unsigned_imm, 142), (set_greater_than_signed_imm, 143),
    (shift_logical_right_imm_alt_32, 145), (shift_logical_right_imm_alt_64, 156),
    (shift_arithmetic_right_imm_alt_32, 146), (shift_arithmetic_right_imm_alt_64, 157),
    (shift_logical_left_imm_alt_32, 144), (shift_logical_left_imm_alt_64, 155),
    (cmov_if_zero_imm, 147), (cmov_if_not_zero_imm, 148), (rotate_right_imm_32, 160),
    (rotate_right_imm_alt_32, 161), (rotate_right_imm_64, 158), (rotate_right_imm_alt_64, 159)]"

definition JamV1_reg_reg_offset :: "(op_reg_reg_offset \<times> nat) list" where
  "JamV1_reg_reg_offset = [
    (branch_eq, 170), (branch_not_eq, 171), (branch_less_unsigned, 172),
    (branch_less_signed, 173), (branch_greater_or_equal_unsigned, 174),
    (branch_greater_or_equal_signed, 175)]"

definition JamV1_reg_reg_reg :: "(op_reg_reg_reg \<times> nat) list" where
  "JamV1_reg_reg_reg = [
    (add_32, 190), (add_64, 200), (sub_32, 191), (sub_64, 201), (and_op, 210), (xor_op, 211),
    (or_op, 212), (mul_32, 192), (mul_64, 202), (mul_upper_signed_signed, 213),
    (mul_upper_unsigned_unsigned, 214), (mul_upper_signed_unsigned, 215),
    (set_less_than_unsigned, 216), (set_less_than_signed, 217), (shift_logical_left_32, 197),
    (shift_logical_left_64, 207), (shift_logical_right_32, 198), (shift_logical_right_64, 208),
    (shift_arithmetic_right_32, 199), (shift_arithmetic_right_64, 209), (div_unsigned_32, 193),
    (div_unsigned_64, 203), (div_signed_32, 194), (div_signed_64, 204), (rem_unsigned_32, 195),
    (rem_unsigned_64, 205), (rem_signed_32, 196), (rem_signed_64, 206), (cmov_if_zero, 218),
    (cmov_if_not_zero, 219), (and_inverted, 224), (or_inverted, 225), (xnor, 226),
    (maximum, 227), (maximum_unsigned, 228), (minimum, 229), (minimum_unsigned, 230),
    (rotate_left_32, 221), (rotate_left_64, 220), (rotate_right_32, 223), (rotate_right_64, 222)]"

definition JamV1_offset :: "(op_offset \<times> nat) list" where
  "JamV1_offset = [
    (jump, 40)]"

definition JamV1_imm :: "(op_imm \<times> nat) list" where
  "JamV1_imm = [
    (ecalli, 10)]"

definition JamV1_imm_imm :: "(op_imm_imm \<times> nat) list" where
  "JamV1_imm_imm = [
    (store_imm_u8, 30), (store_imm_u16, 31), (store_imm_u32, 32), (store_imm_u64, 33)]"

definition JamV1_reg_reg :: "(op_reg_reg \<times> nat) list" where
  "JamV1_reg_reg = [
    (move_reg, 100), (count_leading_zero_bits_32, 104), (count_leading_zero_bits_64, 103),
    (count_trailing_zero_bits_32, 106), (count_trailing_zero_bits_64, 105),
    (count_set_bits_32, 102), (count_set_bits_64, 101), (sign_extend_8, 107),
    (sign_extend_16, 108), (zero_extend_16, 109), (reverse_byte, 110)]"

definition JamV1_reg_reg_imm_imm :: "(op_reg_reg_imm_imm \<times> nat) list" where
  "JamV1_reg_reg_imm_imm = [
    (load_imm_and_jump_indirect, 180)]"

definition JamV1_reg_imm64 :: "(op_reg_imm64 \<times> nat) list" where
  "JamV1_reg_imm64 = [
    (load_imm64, 20)]"

definition ISA_JamV1 :: isa where
  "ISA_JamV1 =
    map (map_prod O_argless id) JamV1_argless
    @ map (map_prod O_reg_imm id) JamV1_reg_imm
    @ map (map_prod O_reg_imm_offset id) JamV1_reg_imm_offset
    @ map (map_prod O_reg_imm_imm id) JamV1_reg_imm_imm
    @ map (map_prod O_reg_reg_imm id) JamV1_reg_reg_imm
    @ map (map_prod O_reg_reg_offset id) JamV1_reg_reg_offset
    @ map (map_prod O_reg_reg_reg id) JamV1_reg_reg_reg
    @ map (map_prod O_offset id) JamV1_offset
    @ map (map_prod O_imm id) JamV1_imm
    @ map (map_prod O_imm_imm id) JamV1_imm_imm
    @ map (map_prod O_reg_reg id) JamV1_reg_reg
    @ map (map_prod O_reg_reg_imm_imm id) JamV1_reg_reg_imm_imm
    @ map (map_prod O_reg_imm64 id) JamV1_reg_imm64"

lemmas ISA_JamV1_defs =
  ISA_JamV1_def JamV1_argless_def JamV1_reg_imm_def JamV1_reg_imm_offset_def JamV1_reg_imm_imm_def
  JamV1_reg_reg_imm_def JamV1_reg_reg_offset_def JamV1_reg_reg_reg_def JamV1_offset_def
  JamV1_imm_def JamV1_imm_imm_def JamV1_reg_reg_def JamV1_reg_reg_imm_imm_def
  JamV1_reg_imm64_def

section \<open>Instruction set kinds\<close>

datatype InstructionSetKind = ReviveV1 | JamV1 | Latest32 | Latest64

fun InstructionSetKind_name :: "InstructionSetKind \<Rightarrow> string" where
  "InstructionSetKind_name ReviveV1 = ''revive_v1''"
| "InstructionSetKind_name JamV1 = ''jam_v1''"
| "InstructionSetKind_name Latest32 = ''latest32''"
| "InstructionSetKind_name Latest64 = ''latest64''"

fun blob_version :: "InstructionSetKind \<Rightarrow> u8" where
  "blob_version ReviveV1 = 0"
| "blob_version Latest32 = 1"
| "blob_version Latest64 = 2"
| "blob_version JamV1 = 3"

definition from_blob_version :: "u8 \<Rightarrow> InstructionSetKind option" where
  "from_blob_version version =
    (if version = 0 then Some ReviveV1
     else if version = 1 then Some Latest32
     else if version = 2 then Some Latest64
     else if version = 3 then Some JamV1
     else None)"

fun is_64_bit :: "InstructionSetKind \<Rightarrow> bool" where
  "is_64_bit Latest32 = False"
| "is_64_bit ReviveV1 = True"
| "is_64_bit JamV1 = True"
| "is_64_bit Latest64 = True"

fun isa_of :: "InstructionSetKind \<Rightarrow> isa" where
  "isa_of ReviveV1 = ISA_ReviveV1"
| "isa_of Latest32 = ISA_Latest32"
| "isa_of Latest64 = ISA_Latest64"
| "isa_of JamV1 = ISA_JamV1"

section \<open>Each table is an instruction set\<close>

interpretation revive_v1: instruction_set ISA_ReviveV1
  by unfold_locales (simp_all add: ISA_ReviveV1_defs)

interpretation latest32: instruction_set ISA_Latest32
  by unfold_locales (simp_all add: ISA_Latest32_defs)

interpretation latest64: instruction_set ISA_Latest64
  by unfold_locales (simp_all add: ISA_Latest64_defs)

interpretation jam_v1: instruction_set ISA_JamV1
  by unfold_locales (simp_all add: ISA_JamV1_defs)

lemma instruction_set_isa_of: "instruction_set (isa_of kind)"
  by (cases kind) (simp_all add: revive_v1.instruction_set_axioms latest32.instruction_set_axioms
      latest64.instruction_set_axioms jam_v1.instruction_set_axioms)

section \<open>Properties\<close>

text \<open>C33: in every instruction set a byte decodes to an opcode exactly when the opcode encodes to
  that byte, an opcode is encodable exactly when it is supported, and the byte reserved as unused
  decodes to nothing.\<close>

theorem opcode_tables_inverse:
  "(opcode_to_u8 (isa_of kind) op = Some b \<longleftrightarrow> opcode_from_u8 (isa_of kind) b = Some op) \<and>
   (supports_opcode (isa_of kind) op \<longleftrightarrow> opcode_to_u8 (isa_of kind) op \<noteq> None) \<and>
   opcode_from_u8 (isa_of kind) UNUSED_RAW_OPCODE = None"
  using instruction_set.opcode_roundtrip [OF instruction_set_isa_of]
    instruction_set.supports_opcode_iff [OF instruction_set_isa_of]
    instruction_set.unused_byte [OF instruction_set_isa_of]
  by blast

text \<open>The version byte of a blob and the instruction set kind determine each other.\<close>

lemma blob_version_inverse: "from_blob_version v = Some kind \<longleftrightarrow> v = blob_version kind"
  by (cases kind) (auto simp: from_blob_version_def)

end
