(* ===== verification/Instr.thy ===== *)
theory Instr
  imports Args Isa_Tables
begin

text \<open>
  Instructions, \<open>crates/polkavm-common/src/program.rs\<close>: the enumeration with its arguments, the
  encoder \<open>Instruction::serialize_into\<close>, the decoder \<open>InstructionSet::parse_instruction\<close>, and the
  proof that decoding inverts encoding for every instruction set. The encoders are given as the
  bytes they store at the front of the buffer, the first one being the opcode.
\<close>

datatype Instruction =
    I_argless op_argless
  | I_reg_imm op_reg_imm RawReg u32
  | I_reg_imm_offset op_reg_imm_offset RawReg u32 u32
  | I_reg_imm_imm op_reg_imm_imm RawReg u32 u32
  | I_reg_reg_imm op_reg_reg_imm RawReg RawReg u32
  | I_reg_reg_offset op_reg_reg_offset RawReg RawReg u32
  | I_reg_reg_reg op_reg_reg_reg RawReg RawReg RawReg
  | I_offset op_offset u32
  | I_imm op_imm u32
  | I_imm_imm op_imm_imm u32 u32
  | I_reg_reg op_reg_reg RawReg RawReg
  | I_reg_reg_imm_imm op_reg_reg_imm_imm RawReg RawReg u32 u32
  | I_reg_imm64 op_reg_imm64 RawReg u64
  | invalid

fun opcode :: "Instruction \<Rightarrow> Opcode" where
  "opcode (I_argless op) = O_argless op"
| "opcode (I_reg_imm op _ _) = O_reg_imm op"
| "opcode (I_reg_imm_offset op _ _ _) = O_reg_imm_offset op"
| "opcode (I_reg_imm_imm op _ _ _) = O_reg_imm_imm op"
| "opcode (I_reg_reg_imm op _ _ _) = O_reg_reg_imm op"
| "opcode (I_reg_reg_offset op _ _ _) = O_reg_reg_offset op"
| "opcode (I_reg_reg_reg op _ _ _) = O_reg_reg_reg op"
| "opcode (I_offset op _) = O_offset op"
| "opcode (I_imm op _) = O_imm op"
| "opcode (I_imm_imm op _ _) = O_imm_imm op"
| "opcode (I_reg_reg op _ _) = O_reg_reg op"
| "opcode (I_reg_reg_imm_imm op _ _ _ _) = O_reg_reg_imm_imm op"
| "opcode (I_reg_imm64 op _ _) = O_reg_imm64 op"
| "opcode invalid = O_argless trap"

definition instruction_starts_new_basic_block :: "Instruction \<Rightarrow> bool" where
  "instruction_starts_new_basic_block i = starts_new_basic_block (opcode i)"

section \<open>Encoding\<close>

text \<open>\<open>write_simple_varint\<close> into a buffer that is long enough; its \<open>unreachable!\<close> is the empty list.\<close>

definition simple_varint :: "u32 \<Rightarrow> bytes" where
  "simple_varint v = (case simple_varint_bytes v of Some bs \<Rightarrow> bs | None \<Rightarrow> [])"

definition serialize_argless :: "u8 \<Rightarrow> bytes" where
  "serialize_argless opc = [opc]"

definition serialize_reg_imm_offset :: "u32 \<Rightarrow> u8 \<Rightarrow> RawReg \<Rightarrow> u32 \<Rightarrow> u32 \<Rightarrow> bytes" where
  "serialize_reg_imm_offset position opc reg imm1 imm2 =
    (let imm2 = imm2 - position;
         imm1_length = length (simple_varint imm1)
     in [opc, ucast (raw_unparsed reg) OR word_of_nat (push_bit 4 imm1_length)]
        @ simple_varint imm1 @ simple_varint imm2)"

definition serialize_reg_imm_imm :: "u8 \<Rightarrow> RawReg \<Rightarrow> u32 \<Rightarrow> u32 \<Rightarrow> bytes" where
  "serialize_reg_imm_imm opc reg imm1 imm2 =
    (let imm1_length = length (simple_varint imm1)
     in [opc, ucast (raw_unparsed reg) OR word_of_nat (push_bit 4 imm1_length)]
        @ simple_varint imm1 @ simple_varint imm2)"

definition serialize_reg_reg_imm_imm :: "u8 \<Rightarrow> RawReg \<Rightarrow> RawReg \<Rightarrow> u32 \<Rightarrow> u32 \<Rightarrow> bytes" where
  "serialize_reg_reg_imm_imm opc reg1 reg2 imm1 imm2 =
    (let imm1_length = length (simple_varint imm1)
     in [opc, ucast (raw_unparsed reg1) OR push_bit 4 (ucast (raw_unparsed reg2)), word_of_nat imm1_length]
        @ simple_varint imm1 @ simple_varint imm2)"

definition serialize_reg_imm64 :: "u8 \<Rightarrow> RawReg \<Rightarrow> u64 \<Rightarrow> bytes" where
  "serialize_reg_imm64 opc reg imm = [opc, ucast (raw_unparsed reg)] @ le_bytes 8 imm"

definition serialize_reg_reg_reg :: "u8 \<Rightarrow> RawReg \<Rightarrow> RawReg \<Rightarrow> RawReg \<Rightarrow> bytes" where
  "serialize_reg_reg_reg opc reg1 reg2 reg3 =
    [opc, ucast (raw_unparsed reg2) OR push_bit 4 (ucast (raw_unparsed reg3)), ucast (raw_unparsed reg1)]"

definition serialize_reg_reg_imm :: "u8 \<Rightarrow> RawReg \<Rightarrow> RawReg \<Rightarrow> u32 \<Rightarrow> bytes" where
  "serialize_reg_reg_imm opc reg1 reg2 imm =
    [opc, ucast (raw_unparsed reg1) OR push_bit 4 (ucast (raw_unparsed reg2))] @ simple_varint imm"

definition serialize_reg_reg_offset :: "u32 \<Rightarrow> u8 \<Rightarrow> RawReg \<Rightarrow> RawReg \<Rightarrow> u32 \<Rightarrow> bytes" where
  "serialize_reg_reg_offset position opc reg1 reg2 imm =
    (let imm = imm - position
     in [opc, ucast (raw_unparsed reg1) OR push_bit 4 (ucast (raw_unparsed reg2))] @ simple_varint imm)"

definition serialize_reg_imm :: "u8 \<Rightarrow> RawReg \<Rightarrow> u32 \<Rightarrow> bytes" where
  "serialize_reg_imm opc reg imm = [opc, ucast (raw_unparsed reg)] @ simple_varint imm"

definition serialize_offset :: "u32 \<Rightarrow> u8 \<Rightarrow> u32 \<Rightarrow> bytes" where
  "serialize_offset position opc imm = (let imm = imm - position in [opc] @ simple_varint imm)"

definition serialize_imm :: "u8 \<Rightarrow> u32 \<Rightarrow> bytes" where
  "serialize_imm opc imm = [opc] @ simple_varint imm"

definition serialize_imm_imm :: "u8 \<Rightarrow> u32 \<Rightarrow> u32 \<Rightarrow> bytes" where
  "serialize_imm_imm opc imm1 imm2 =
    [opc, word_of_nat (length (simple_varint imm1))] @ simple_varint imm1 @ simple_varint imm2"

definition serialize_reg_reg :: "u8 \<Rightarrow> RawReg \<Rightarrow> RawReg \<Rightarrow> bytes" where
  "serialize_reg_reg opc reg1 reg2 =
    [opc, ucast (raw_unparsed reg1) OR push_bit 4 (ucast (raw_unparsed reg2))]"

definition raw_opcode :: "isa \<Rightarrow> Opcode \<Rightarrow> u8" where
  "raw_opcode isa op = (case opcode_to_u8 isa op of Some b \<Rightarrow> b | None \<Rightarrow> UNUSED_RAW_OPCODE)"

fun serialize :: "isa \<Rightarrow> u32 \<Rightarrow> Instruction \<Rightarrow> bytes" where
  "serialize isa _ (I_argless op) = serialize_argless (raw_opcode isa (O_argless op))"
| "serialize isa _ (I_reg_imm op reg imm) = serialize_reg_imm (raw_opcode isa (O_reg_imm op)) reg imm"
| "serialize isa position (I_reg_imm_offset op reg imm1 imm2) =
    serialize_reg_imm_offset position (raw_opcode isa (O_reg_imm_offset op)) reg imm1 imm2"
| "serialize isa _ (I_reg_imm_imm op reg imm1 imm2) =
    serialize_reg_imm_imm (raw_opcode isa (O_reg_imm_imm op)) reg imm1 imm2"
| "serialize isa _ (I_reg_reg_imm op reg1 reg2 imm) =
    serialize_reg_reg_imm (raw_opcode isa (O_reg_reg_imm op)) reg1 reg2 imm"
| "serialize isa position (I_reg_reg_offset op reg1 reg2 imm) =
    serialize_reg_reg_offset position (raw_opcode isa (O_reg_reg_offset op)) reg1 reg2 imm"
| "serialize isa _ (I_reg_reg_reg op reg1 reg2 reg3) =
    serialize_reg_reg_reg (raw_opcode isa (O_reg_reg_reg op)) reg1 reg2 reg3"
| "serialize isa position (I_offset op imm) = serialize_offset position (raw_opcode isa (O_offset op)) imm"
| "serialize isa _ (I_imm op imm) = serialize_imm (raw_opcode isa (O_imm op)) imm"
| "serialize isa _ (I_imm_imm op imm1 imm2) = serialize_imm_imm (raw_opcode isa (O_imm_imm op)) imm1 imm2"
| "serialize isa _ (I_reg_reg op reg1 reg2) = serialize_reg_reg (raw_opcode isa (O_reg_reg op)) reg1 reg2"
| "serialize isa _ (I_reg_reg_imm_imm op reg1 reg2 imm1 imm2) =
    serialize_reg_reg_imm_imm (raw_opcode isa (O_reg_reg_imm_imm op)) reg1 reg2 imm1 imm2"
| "serialize isa _ (I_reg_imm64 op reg imm) = serialize_reg_imm64 (raw_opcode isa (O_reg_imm64 op)) reg imm"
| "serialize isa _ invalid = serialize_argless (raw_opcode isa (O_argless trap))"

definition serialize_into :: "isa \<Rightarrow> u32 \<Rightarrow> Instruction \<Rightarrow> bytes \<Rightarrow> (nat \<times> bytes) option" where
  "serialize_into isa position i buffer =
    (let bs = serialize isa position i in map_option (Pair (length bs)) (write_prefix buffer bs))"

definition MAX_INSTRUCTION_LENGTH :: nat where
  "MAX_INSTRUCTION_LENGTH = 2 + MAX_VARINT_LENGTH * 2"

section \<open>Decoding\<close>

text \<open>The arm of the \<open>match\<close> on the opcode number that is taken, if any.\<close>

definition matching_arm :: "isa \<Rightarrow> nat \<Rightarrow> Opcode option" where
  "matching_arm isa n = map_option fst (find (\<lambda>(_, value). value = n) isa)"

definition parse_instruction :: "isa \<Rightarrow> nat \<Rightarrow> u128 \<Rightarrow> u32 \<Rightarrow> nat \<Rightarrow> Instruction" where
  "parse_instruction isa opc chunk offset skip =
    (case matching_arm isa opc of
       None \<Rightarrow> invalid
     | Some (O_argless op) \<Rightarrow> I_argless op
     | Some (O_reg_imm op) \<Rightarrow>
         (let (reg, imm) = read_args_reg_imm chunk skip in I_reg_imm op reg imm)
     | Some (O_reg_imm_offset op) \<Rightarrow>
         (let (reg, imm1, imm2) = read_args_reg_imm_offset chunk offset skip
          in I_reg_imm_offset op reg imm1 imm2)
     | Some (O_reg_imm_imm op) \<Rightarrow>
         (let (reg, imm1, imm2) = read_args_reg_imm2 chunk skip in I_reg_imm_imm op reg imm1 imm2)
     | Some (O_reg_reg_imm op) \<Rightarrow>
         (let (reg1, reg2, imm) = read_args_regs2_imm chunk skip in I_reg_reg_imm op reg1 reg2 imm)
     | Some (O_reg_reg_offset op) \<Rightarrow>
         (let (reg1, reg2, imm) = read_args_regs2_offset chunk offset skip
          in I_reg_reg_offset op reg1 reg2 imm)
     | Some (O_reg_reg_reg op) \<Rightarrow>
         (let (reg1, reg2, reg3) = read_args_regs3 chunk in I_reg_reg_reg op reg1 reg2 reg3)
     | Some (O_offset op) \<Rightarrow> (let imm = read_args_offset chunk offset skip in I_offset op imm)
     | Some (O_imm op) \<Rightarrow> (let imm = read_args_imm chunk skip in I_imm op imm)
     | Some (O_imm_imm op) \<Rightarrow>
         (let (imm1, imm2) = read_args_imm2 chunk skip in I_imm_imm op imm1 imm2)
     | Some (O_reg_reg op) \<Rightarrow> (let (reg1, reg2) = read_args_regs2 chunk in I_reg_reg op reg1 reg2)
     | Some (O_reg_reg_imm_imm op) \<Rightarrow>
         (let (reg1, reg2, imm1, imm2) = read_args_regs2_imm2 chunk skip
          in I_reg_reg_imm_imm op reg1 reg2 imm1 imm2)
     | Some (O_reg_imm64 op) \<Rightarrow>
         (let (reg, imm) = read_args_reg_imm64 chunk skip in I_reg_imm64 op reg imm))"

text \<open>Equality of instructions as the source derives it: registers are compared by what they
  name. It is plain equality after this normalisation.\<close>

definition norm_reg :: "RawReg \<Rightarrow> RawReg" where
  "norm_reg r = Reg_raw (RawReg_get r)"

fun normalize :: "Instruction \<Rightarrow> Instruction" where
  "normalize (I_reg_imm op r i) = I_reg_imm op (norm_reg r) i"
| "normalize (I_reg_imm_offset op r i j) = I_reg_imm_offset op (norm_reg r) i j"
| "normalize (I_reg_imm_imm op r i j) = I_reg_imm_imm op (norm_reg r) i j"
| "normalize (I_reg_reg_imm op r s i) = I_reg_reg_imm op (norm_reg r) (norm_reg s) i"
| "normalize (I_reg_reg_offset op r s i) = I_reg_reg_offset op (norm_reg r) (norm_reg s) i"
| "normalize (I_reg_reg_reg op r s t) = I_reg_reg_reg op (norm_reg r) (norm_reg s) (norm_reg t)"
| "normalize (I_reg_reg op r s) = I_reg_reg op (norm_reg r) (norm_reg s)"
| "normalize (I_reg_reg_imm_imm op r s i j) = I_reg_reg_imm_imm op (norm_reg r) (norm_reg s) i j"
| "normalize (I_reg_imm64 op r i) = I_reg_imm64 op (norm_reg r) i"
| "normalize i = i"

text \<open>Registers as \<open>Reg::into\<close> makes them occupy four bits; a register decoded from code may not.\<close>

definition small_reg :: "RawReg \<Rightarrow> bool" where
  "small_reg r \<longleftrightarrow> raw_unparsed r < 16"

fun small_regs :: "Instruction \<Rightarrow> bool" where
  "small_regs (I_reg_imm _ r _) = small_reg r"
| "small_regs (I_reg_imm_offset _ r _ _) = small_reg r"
| "small_regs (I_reg_imm_imm _ r _ _) = small_reg r"
| "small_regs (I_reg_reg_imm _ r s _) = (small_reg r \<and> small_reg s)"
| "small_regs (I_reg_reg_offset _ r s _) = (small_reg r \<and> small_reg s)"
| "small_regs (I_reg_reg_reg _ r s t) = (small_reg r \<and> small_reg s \<and> small_reg t)"
| "small_regs (I_reg_reg _ r s) = (small_reg r \<and> small_reg s)"
| "small_regs (I_reg_reg_imm_imm _ r s _ _) = (small_reg r \<and> small_reg s)"
| "small_regs (I_reg_imm64 _ r _) = small_reg r"
| "small_regs _ = True"

section \<open>Reading back what was written\<close>

lemma simple_varint_eq: "simple_varint v = le_bytes (get_bytes_required v) v"
  by (simp add: simple_varint_def simple_varint_bytes_alt)

lemma length_simple_varint: "length (simple_varint v) = get_bytes_required v" "length (simple_varint v) \<le> 4"
  by (simp_all add: simple_varint_eq get_bytes_required_le_4)

lemma bit_chunk:
  assumes "i < 8" "j < 16" "j < length bs"
  shows "bit (from_le_bytes bs :: u128) (8 * j + i) = bit (bs ! j) i"
  using assms by (simp add: bit_from_le_bytes)

lemma arg_imm_written:
  assumes "length pre + 4 \<le> 16"
  shows "arg_imm (from_le_bytes (pre @ simple_varint v @ post)) (length pre) (get_bytes_required v) = v"
proof -
  define n where "n = get_bytes_required v"
  define bs where "bs = pre @ simple_varint v @ post"
  have n: "n \<le> 4" by (simp add: n_def get_bytes_required_le_4)
  have len: "length pre + n \<le> length bs"
    by (simp add: bs_def simple_varint_eq n_def)
  have "take_bit (8 * n) (ucast (drop_bit (8 * length pre) (from_le_bytes bs :: u128))) = take_bit (8 * n) v"
  proof (rule bit_word_eqI)
    fix i assume i: "i < LENGTH(32)"
    show "bit (take_bit (8 * n) (ucast (drop_bit (8 * length pre) (from_le_bytes bs :: u128)) :: u32)) i =
        bit (take_bit (8 * n) v) i"
    proof (cases "i < 8 * n")
      case True
      then have d: "i div 8 < n" by (simp add: div_less_iff_less_mult mult.commute)
      have "8 * length pre + i = 8 * (length pre + i div 8) + i mod 8" by simp
      then have "bit (from_le_bytes bs :: u128) (8 * length pre + i) =
          bit (bs ! (length pre + i div 8)) (i mod 8)"
        using bit_chunk [of "i mod 8" "length pre + i div 8" bs] d n len assms
        by (simp add: add.commute)
      also have "bs ! (length pre + i div 8) = le_bytes n v ! (i div 8)"
        using d by (simp add: bs_def simple_varint_eq n_def nth_append del: nth_le_bytes)
      also have "bit (le_bytes n v ! (i div 8)) (i mod 8) = bit v i"
        using d by (simp add: bit_unsigned_iff bit_drop_bit_eq)
      finally show ?thesis
        using True i by (simp add: bit_take_bit_iff bit_unsigned_iff bit_drop_bit_eq)
    next
      case False
      then show ?thesis by (simp add: bit_take_bit_iff)
    qed
  qed
  then show ?thesis
    unfolding arg_imm_def bs_def n_def by (rule read_simple_varint_required)
qed

lemma RawReg_get_cong:
  assumes "\<And>i. i < 4 \<Longrightarrow> bit v i = bit w i"
  shows "RawReg_get (RawReg v) = RawReg_get (RawReg w)"
proof -
  have mask: "x AND 0xF = take_bit 4 x" for x :: u32
    by (simp add: take_bit_eq_mask mask_numeral)
  have "v AND 0xF = w AND 0xF"
    unfolding mask by (rule bit_word_eqI) (use assms in \<open>auto simp: bit_take_bit_iff\<close>)
  then show ?thesis by (simp add: RawReg_get_def)
qed

lemma small_reg_bits: "small_reg r \<Longrightarrow> bit (raw_unparsed r) i \<Longrightarrow> i < 4"
  using unat_less_imp_bit [of "raw_unparsed r" 4 i] by (simp add: small_reg_def word_less_nat_alt)

text \<open>The byte that holds two registers, or a register and a small length.\<close>

lemma bit_reg_pair:
  assumes "small_reg r" "small_reg s" "i < 8"
  shows "bit (ucast (raw_unparsed r) OR push_bit 4 (ucast (raw_unparsed s)) :: u8) i \<longleftrightarrow>
    (if i < 4 then bit (raw_unparsed r) i else bit (raw_unparsed s) (i - 4))"
  using assms(3) small_reg_bits [OF assms(1), of i]
  by (auto simp: bit_or_iff bit_push_bit_iff bit_unsigned_iff)

lemma bit_reg_len:
  assumes "small_reg r" "n \<le> 4" "i < 8"
  shows "bit (ucast (raw_unparsed r) OR word_of_nat (push_bit 4 n) :: u8) i \<longleftrightarrow>
    (if i < 4 then bit (raw_unparsed r) i else bit n (i - 4))"
  using assms(3) small_reg_bits [OF assms(1), of i]
  by (auto simp: bit_or_iff bit_push_bit_iff bit_unsigned_iff bit_of_nat_iff)

lemma norm_reg_chunk:
  assumes "\<And>i. i < 4 \<Longrightarrow> bit v i = bit (raw_unparsed r) i"
  shows "norm_reg (RawReg v) = norm_reg r"
  using RawReg_get_cong [of v "raw_unparsed r"] assms by (simp add: norm_reg_def)

lemma imm1_len_small:
  assumes "n \<le> 4" and "\<And>i. i < 3 \<Longrightarrow> bit w i = bit n i"
  shows "imm1_len w = n"
proof -
  have "take_bit 3 (unat w) = take_bit 3 n"
    by (rule bit_eqI) (use assms(2) in \<open>auto simp: bit_take_bit_iff bit_unsigned_iff\<close>)
  moreover have "take_bit 3 n = n" using assms(1) by (simp add: take_bit_nat_eq_self)
  ultimately show ?thesis using assms(1) by (simp add: imm1_len_def take_bit_eq_mod)
qed

lemma chunk_low_bits:
  assumes "bs \<noteq> []"
  shows "i < 8 \<Longrightarrow> bit (ucast (from_le_bytes bs :: u128) :: u32) i = bit (hd bs) i"
    and "i < 4 \<Longrightarrow> bit (drop_bit 4 (ucast (from_le_bytes bs :: u128) :: u32)) i = bit (hd bs) (4 + i)"
  using bit_chunk [of i 0 bs] bit_chunk [of "4 + i" 0 bs] assms
  by (simp_all add: bit_unsigned_iff bit_drop_bit_eq hd_conv_nth)

lemma chunk_second_bits:
  assumes "1 < length bs" "i < 8"
  shows "bit (drop_bit 8 (ucast (from_le_bytes bs :: u128) :: u32)) i = bit (bs ! 1) i"
  using bit_chunk [of i 1 bs] assms by (simp add: bit_unsigned_iff bit_drop_bit_eq)

text \<open>One lemma per argument shape: the decoder applied to the argument bytes of the encoder, with
  anything after them.\<close>

lemma read_written_reg_imm:
  assumes "small_reg reg"
  shows "map_prod norm_reg id (read_args_reg_imm
      (from_le_bytes (tl (serialize_reg_imm opc reg imm) @ rest)) (length (serialize_reg_imm opc reg imm) - 1))
    = (norm_reg reg, imm)"
proof -
  define bs where "bs = ucast (raw_unparsed reg) # simple_varint imm @ rest"
  have bytes: "tl (serialize_reg_imm opc reg imm) @ rest = bs"
    "length (serialize_reg_imm opc reg imm) = 2 + get_bytes_required imm"
    by (simp_all add: serialize_reg_imm_def bs_def length_simple_varint)
  have len: "clamp_len (int (1 + get_bytes_required imm) - 1) = get_bytes_required imm"
    using get_bytes_required_le_4 [of imm] by (simp add: clamp_len_def clamp_def)
  have "arg_imm (from_le_bytes bs) 1 (get_bytes_required imm) = imm"
    using arg_imm_written [of "[ucast (raw_unparsed reg)]" imm rest] by (simp add: bs_def)
  moreover have "norm_reg (RawReg (ucast (from_le_bytes bs :: u128))) = norm_reg reg"
    using chunk_low_bits [of bs] by (intro norm_reg_chunk) (simp add: bs_def bit_unsigned_iff)
  ultimately show ?thesis
    using get_bytes_required_le_4 [of imm] len unfolding bytes by (simp add: read_args_reg_imm_eq)
qed

lemma arg_imm_written_pair:
  assumes "length pre + 8 \<le> 16"
  shows "arg_imm (from_le_bytes (pre @ simple_varint imm1 @ simple_varint imm2 @ rest))
      (length pre) (get_bytes_required imm1) = imm1"
    and "arg_imm (from_le_bytes (pre @ simple_varint imm1 @ simple_varint imm2 @ rest))
      (length pre + get_bytes_required imm1) (get_bytes_required imm2) = imm2"
  using arg_imm_written [of pre imm1 "simple_varint imm2 @ rest"]
    arg_imm_written [of "pre @ simple_varint imm1" imm2 rest] assms get_bytes_required_le_4 [of imm1]
  by (simp_all add: length_simple_varint)

lemma imm2_len_written:
  assumes "imm1_len aux = n1" "n2 \<le> 4"
  shows "imm2_len (int k) (k + n1 + n2) aux = n2"
  using assms by (simp add: imm2_len_def clamp_def)

lemma read_written_reg_imm2:
  assumes "small_reg reg"
  shows "map_prod norm_reg id (read_args_reg_imm2
      (from_le_bytes (tl (serialize_reg_imm_imm opc reg imm1 imm2) @ rest))
      (length (serialize_reg_imm_imm opc reg imm1 imm2) - 1))
    = (norm_reg reg, imm1, imm2)"
proof -
  define n1 n2 where "n1 = get_bytes_required imm1" and "n2 = get_bytes_required imm2"
  define b :: u8 where "b = ucast (raw_unparsed reg) OR word_of_nat (push_bit 4 n1)"
  define bs where "bs = b # simple_varint imm1 @ simple_varint imm2 @ rest"
  have bytes: "tl (serialize_reg_imm_imm opc reg imm1 imm2) @ rest = bs"
    "length (serialize_reg_imm_imm opc reg imm1 imm2) - 1 = 1 + n1 + n2"
    by (simp_all add: serialize_reg_imm_imm_def bs_def b_def length_simple_varint n1_def n2_def)
  have n: "n1 \<le> 4" "n2 \<le> 4" by (simp_all add: n1_def n2_def get_bytes_required_le_4)
  have bits: "bit b i \<longleftrightarrow> (if i < 4 then bit (raw_unparsed reg) i else bit n1 (i - 4))" if "i < 8" for i
    using bit_reg_len [OF assms n(1) that] by (simp add: b_def)
  have aux: "imm1_len (drop_bit 4 (ucast (from_le_bytes bs :: u128))) = n1"
    using chunk_low_bits(2) [of bs] n(1) bits by (intro imm1_len_small) (simp_all add: bs_def)
  moreover have "norm_reg (RawReg (ucast (from_le_bytes bs :: u128))) = norm_reg reg"
    using chunk_low_bits(1) [of bs] bits by (intro norm_reg_chunk) (simp add: bs_def)
  moreover have "arg_imm (from_le_bytes bs) 1 n1 = imm1" "arg_imm (from_le_bytes bs) (1 + n1) n2 = imm2"
    using arg_imm_written_pair [of "[b]" imm1 imm2 rest] by (simp_all add: bs_def n1_def n2_def)
  ultimately show ?thesis
    using n imm2_len_written [OF aux n(2), of 1] unfolding bytes
    by (simp add: read_args_reg_imm2_eq Let_def)
qed

lemma read_written_imm:
  "read_args_imm (from_le_bytes (tl (serialize_imm opc imm) @ rest)) (length (serialize_imm opc imm) - 1) = imm"
  using arg_imm_written [of "[]" imm rest] get_bytes_required_le_4 [of imm]
  by (simp add: serialize_imm_def read_args_imm_eq length_simple_varint min_absorb2)

lemma read_written_imm2:
  "read_args_imm2 (from_le_bytes (tl (serialize_imm_imm opc imm1 imm2) @ rest))
      (length (serialize_imm_imm opc imm1 imm2) - 1) = (imm1, imm2)"
proof -
  define n1 n2 where "n1 = get_bytes_required imm1" and "n2 = get_bytes_required imm2"
  define bs where "bs = (word_of_nat n1 :: u8) # simple_varint imm1 @ simple_varint imm2 @ rest"
  have bytes: "tl (serialize_imm_imm opc imm1 imm2) @ rest = bs"
    "length (serialize_imm_imm opc imm1 imm2) - 1 = 1 + n1 + n2"
    by (simp_all add: serialize_imm_imm_def bs_def length_simple_varint n1_def n2_def)
  have n: "n1 \<le> 4" "n2 \<le> 4" by (simp_all add: n1_def n2_def get_bytes_required_le_4)
  have aux: "imm1_len (ucast (from_le_bytes bs :: u128)) = n1"
    using chunk_low_bits(1) [of bs] n(1)
    by (intro imm1_len_small) (simp_all add: bs_def bit_of_nat_iff)
  moreover have "arg_imm (from_le_bytes bs) 1 n1 = imm1" "arg_imm (from_le_bytes bs) (1 + n1) n2 = imm2"
    using arg_imm_written_pair [of "[word_of_nat n1]" imm1 imm2 rest] by (simp_all add: bs_def n1_def n2_def)
  ultimately show ?thesis
    using n imm2_len_written [OF aux n(2), of 1] unfolding bytes by (simp add: read_args_imm2_eq)
qed

text \<open>Two registers in the first argument byte.\<close>

lemma norm_reg_pair:
  assumes "small_reg r" "small_reg s"
    and "bs = (ucast (raw_unparsed r) OR push_bit 4 (ucast (raw_unparsed s))) # rest"
  shows "norm_reg (RawReg (ucast (from_le_bytes bs :: u128))) = norm_reg r"
    and "norm_reg (RawReg (drop_bit 4 (ucast (from_le_bytes bs :: u128)))) = norm_reg s"
proof -
  have ne: "bs \<noteq> []" using assms(3) by simp
  show "norm_reg (RawReg (ucast (from_le_bytes bs :: u128))) = norm_reg r"
  proof (rule norm_reg_chunk)
    fix i :: nat assume "i < 4"
    then show "bit (ucast (from_le_bytes bs :: u128) :: u32) i = bit (raw_unparsed r) i"
      using chunk_low_bits(1) [OF ne, of i] bit_reg_pair [OF assms(1,2), of i] by (simp add: assms(3))
  qed
  show "norm_reg (RawReg (drop_bit 4 (ucast (from_le_bytes bs :: u128)))) = norm_reg s"
  proof (rule norm_reg_chunk)
    fix i :: nat assume "i < 4"
    then show "bit (drop_bit 4 (ucast (from_le_bytes bs :: u128) :: u32)) i = bit (raw_unparsed s) i"
      using chunk_low_bits(2) [OF ne, of i] bit_reg_pair [OF assms(1,2), of "4 + i"] by (simp add: assms(3))
  qed
qed

lemma read_written_regs2_imm:
  assumes "small_reg r" "small_reg s"
  shows "map_prod norm_reg (map_prod norm_reg id) (read_args_regs2_imm
      (from_le_bytes (tl (serialize_reg_reg_imm opc r s imm) @ rest))
      (length (serialize_reg_reg_imm opc r s imm) - 1))
    = (norm_reg r, norm_reg s, imm)"
proof -
  define b :: u8 where "b = ucast (raw_unparsed r) OR push_bit 4 (ucast (raw_unparsed s))"
  define bs where "bs = b # simple_varint imm @ rest"
  have bytes: "tl (serialize_reg_reg_imm opc r s imm) @ rest = bs"
    "length (serialize_reg_reg_imm opc r s imm) = 2 + get_bytes_required imm"
    by (simp_all add: serialize_reg_reg_imm_def bs_def b_def length_simple_varint)
  have len: "clamp_len (int (1 + get_bytes_required imm) - 1) = get_bytes_required imm"
    using get_bytes_required_le_4 [of imm] by (simp add: clamp_len_def clamp_def)
  have "arg_imm (from_le_bytes bs) 1 (get_bytes_required imm) = imm"
    using arg_imm_written [of "[b]" imm rest] by (simp add: bs_def)
  then show ?thesis
    using get_bytes_required_le_4 [of imm] len norm_reg_pair [OF assms bs_def [unfolded b_def]]
    unfolding bytes by (simp add: read_args_regs2_imm_eq)
qed

lemma read_written_regs2_imm2:
  assumes "small_reg r" "small_reg s"
  shows "map_prod norm_reg (map_prod norm_reg id) (read_args_regs2_imm2
      (from_le_bytes (tl (serialize_reg_reg_imm_imm opc r s imm1 imm2) @ rest))
      (length (serialize_reg_reg_imm_imm opc r s imm1 imm2) - 1))
    = (norm_reg r, norm_reg s, imm1, imm2)"
proof -
  define n1 n2 where "n1 = get_bytes_required imm1" and "n2 = get_bytes_required imm2"
  define b :: u8 where "b = ucast (raw_unparsed r) OR push_bit 4 (ucast (raw_unparsed s))"
  define bs where "bs = b # word_of_nat n1 # simple_varint imm1 @ simple_varint imm2 @ rest"
  have bytes: "tl (serialize_reg_reg_imm_imm opc r s imm1 imm2) @ rest = bs"
    "length (serialize_reg_reg_imm_imm opc r s imm1 imm2) - 1 = 2 + n1 + n2"
    by (simp_all add: serialize_reg_reg_imm_imm_def bs_def b_def length_simple_varint n1_def n2_def)
  have n: "n1 \<le> 4" "n2 \<le> 4" by (simp_all add: n1_def n2_def get_bytes_required_le_4)
  have aux: "imm1_len (drop_bit 8 (ucast (from_le_bytes bs :: u128))) = n1"
    using chunk_second_bits [of bs] n(1)
    by (intro imm1_len_small) (simp_all add: bs_def bit_of_nat_iff)
  moreover have "arg_imm (from_le_bytes bs) 2 n1 = imm1" "arg_imm (from_le_bytes bs) (2 + n1) n2 = imm2"
    using arg_imm_written_pair [of "[b, word_of_nat n1]" imm1 imm2 rest]
    by (simp_all add: bs_def n1_def n2_def numeral_2_eq_2)
  ultimately show ?thesis
    using n imm2_len_written [OF aux n(2), of 2] norm_reg_pair [OF assms bs_def [unfolded b_def]]
    unfolding bytes by (simp add: read_args_regs2_imm2_eq Let_def)
qed

lemma read_written_regs2:
  assumes "small_reg r" "small_reg s"
  shows "map_prod norm_reg norm_reg (read_args_regs2 (from_le_bytes (tl (serialize_reg_reg opc r s) @ rest)))
    = (norm_reg r, norm_reg s)"
  using norm_reg_pair [OF assms refl, of rest]
  by (simp add: serialize_reg_reg_def read_args_regs2_def Let_def del: from_le_bytes.simps)

lemma read_written_regs3:
  assumes "small_reg r" "small_reg s" "small_reg t"
  shows "map_prod norm_reg (map_prod norm_reg norm_reg)
      (read_args_regs3 (from_le_bytes (tl (serialize_reg_reg_reg opc r s t) @ rest)))
    = (norm_reg r, norm_reg s, norm_reg t)"
proof -
  define bs where "bs = (ucast (raw_unparsed s) OR push_bit 4 (ucast (raw_unparsed t)))
    # ucast (raw_unparsed r) # rest"
  have "norm_reg (RawReg (drop_bit 8 (ucast (from_le_bytes bs :: u128)))) = norm_reg r"
    using chunk_second_bits [of bs] by (intro norm_reg_chunk) (simp add: bs_def bit_unsigned_iff)
  moreover have "tl (serialize_reg_reg_reg opc r s t) @ rest = bs"
    by (simp add: serialize_reg_reg_reg_def bs_def)
  ultimately show ?thesis
    using norm_reg_pair [OF assms(2,3) bs_def] by (simp add: read_args_regs3_def Let_def)
qed

lemma read_written_reg_imm64:
  assumes "small_reg r"
  shows "map_prod norm_reg id (read_args_reg_imm64 (from_le_bytes (tl (serialize_reg_imm64 opc r imm) @ rest)) skip)
    = (norm_reg r, imm)"
proof -
  define bs where "bs = ucast (raw_unparsed r) # le_bytes 8 imm @ rest"
  have "norm_reg (RawReg (ucast (from_le_bytes bs :: u128))) = norm_reg r"
    using chunk_low_bits(1) [of bs] by (intro norm_reg_chunk) (simp add: bs_def bit_unsigned_iff)
  moreover have "ucast (drop_bit 8 (from_le_bytes bs :: u128)) = imm"
  proof (rule bit_word_eqI)
    fix i assume i: "i < LENGTH(64)"
    have "8 + i = 8 * (1 + i div 8) + i mod 8" by simp
    then have "bit (from_le_bytes bs :: u128) (8 + i) = bit (bs ! (1 + i div 8)) (i mod 8)"
      using bit_chunk [of "i mod 8" "1 + i div 8" bs] i
      by (simp add: bs_def div_less_iff_less_mult add.commute del: from_le_bytes.simps)
    also have "\<dots> = bit (le_bytes 8 imm ! (i div 8)) (i mod 8)"
      using i by (simp add: bs_def nth_append div_less_iff_less_mult del: nth_le_bytes)
    also have "\<dots> = bit imm i"
      using i by (simp add: div_less_iff_less_mult bit_unsigned_iff bit_drop_bit_eq)
    finally show "bit (ucast (drop_bit 8 (from_le_bytes bs :: u128)) :: u64) i = bit imm i"
      using i by (simp add: bit_unsigned_iff bit_drop_bit_eq)
  qed
  moreover have "tl (serialize_reg_imm64 opc r imm) @ rest = bs"
    by (simp add: serialize_reg_imm64_def bs_def)
  ultimately show ?thesis by (simp add: read_args_reg_imm64_def)
qed

lemma read_written_offset:
  "read_args_offset (from_le_bytes (tl (serialize_offset pos opc imm) @ rest)) pos
      (length (serialize_offset pos opc imm) - 1) = imm"
  using read_written_imm [of opc "imm - pos" rest]
  by (simp add: serialize_offset_def serialize_imm_def read_args_offset_def Let_def)

lemma read_written_regs2_offset:
  assumes "small_reg r" "small_reg s"
  shows "map_prod norm_reg (map_prod norm_reg id) (read_args_regs2_offset
      (from_le_bytes (tl (serialize_reg_reg_offset pos opc r s imm) @ rest)) pos
      (length (serialize_reg_reg_offset pos opc r s imm) - 1))
    = (norm_reg r, norm_reg s, imm)"
  using read_written_regs2_imm [OF assms, of opc "imm - pos" rest]
  by (auto simp: serialize_reg_reg_offset_def serialize_reg_reg_imm_def read_args_regs2_offset_def
      Let_def split: prod.splits simp del: from_le_bytes.simps)

lemma read_written_reg_imm_offset:
  assumes "small_reg r"
  shows "map_prod norm_reg id (read_args_reg_imm_offset
      (from_le_bytes (tl (serialize_reg_imm_offset pos opc r imm1 imm2) @ rest)) pos
      (length (serialize_reg_imm_offset pos opc r imm1 imm2) - 1))
    = (norm_reg r, imm1, imm2)"
  using read_written_reg_imm2 [OF assms, of opc imm1 "imm2 - pos" rest]
  by (auto simp: serialize_reg_imm_offset_def serialize_reg_imm_imm_def read_args_reg_imm_offset_def
      Let_def split: prod.splits simp del: from_le_bytes.simps)

lemmas serialize_defs =
  serialize_argless_def serialize_reg_imm_offset_def serialize_reg_imm_imm_def
  serialize_reg_reg_imm_imm_def serialize_reg_imm64_def serialize_reg_reg_reg_def
  serialize_reg_reg_imm_def serialize_reg_reg_offset_def serialize_reg_imm_def serialize_offset_def
  serialize_imm_def serialize_imm_imm_def serialize_reg_reg_def

lemma hd_serialize: "hd (serialize isa pos i) = raw_opcode isa (opcode i)"
  by (cases i) (simp_all add: serialize_defs Let_def)

lemma get_bytes_required_bounds:
  "get_bytes_required a \<le> 9" "get_bytes_required a \<le> 10"
  "get_bytes_required a + get_bytes_required b \<le> 8" "get_bytes_required a + get_bytes_required b \<le> 9"
  using get_bytes_required_le_4 [of a] get_bytes_required_le_4 [of b] by simp_all

lemma length_serialize: "1 \<le> length (serialize isa pos i)" "length (serialize isa pos i) \<le> 11"
  by (cases i; simp add: serialize_defs Let_def length_simple_varint get_bytes_required_bounds)+

context instruction_set
begin

lemma matching_arm_iff: "matching_arm isa v = Some op \<longleftrightarrow> (op, v) \<in> set isa"
proof -
  have "find (\<lambda>(_, value). value = v) isa = Some (op', v') \<longleftrightarrow> v' = v \<and> (op', v) \<in> set isa" for op' v'
    using distinct_values
  proof (induction isa)
    case (Cons x xs)
    then show ?case by (cases x) (auto simp: image_iff rev_image_eqI)
  qed simp
  then show ?thesis
    unfolding matching_arm_def map_option_eq_Some by (simp add: split_paired_Ex)
qed

lemma matching_arm_from_u8: "matching_arm isa (unat b) = opcode_from_u8 isa b"
proof (cases "opcode_from_u8 isa b")
  case None
  then have "(op, unat b) \<notin> set isa" for op by (metis opcode_from_u8_iff option.distinct(1))
  then show ?thesis using None matching_arm_iff by (metis not_None_eq)
next
  case (Some op)
  then have "(op, unat b) \<in> set isa" by (simp only: opcode_from_u8_iff)
  then show ?thesis unfolding Some matching_arm_iff .
qed

lemma matching_arm_raw_opcode:
  "supports_opcode isa op \<Longrightarrow> matching_arm isa (unat (raw_opcode isa op)) = Some op"
proof -
  assume "supports_opcode isa op"
  then obtain b where b: "opcode_to_u8 isa op = Some b" by (auto simp: supports_opcode_iff)
  then have "opcode_from_u8 isa b = Some op" by (simp add: opcode_roundtrip)
  with b show ?thesis by (simp add: raw_opcode_def matching_arm_from_u8)
qed

text \<open>Decoding the bytes of an encoded instruction gives the instruction back.\<close>

lemma parse_serialize:
  assumes "supports_opcode isa (opcode i)" "small_regs i" "i \<noteq> invalid"
  shows "normalize (parse_instruction isa (unat (hd (serialize isa pos i)))
      (from_le_bytes (tl (serialize isa pos i) @ rest)) pos (length (serialize isa pos i) - 1))
    = normalize i"
proof -
  define opc where "opc = raw_opcode isa (opcode i)"
  have arm: "matching_arm isa (unat opc) = Some (opcode i)"
    using assms(1) by (simp add: opc_def matching_arm_raw_opcode)
  note decode = parse_instruction_def Let_def case_prod_unfold prod_eq_iff
  have hd: "hd (serialize isa pos i) = opc" by (simp add: hd_serialize opc_def)
  show ?thesis
  proof (cases i)
    case (I_argless op)
    then show ?thesis unfolding hd using arm by (simp add: parse_instruction_def)
  next
    case (I_reg_imm op r x)
    then have "serialize isa pos i = serialize_reg_imm opc r x" by (simp add: opc_def)
    then show ?thesis
      unfolding hd using I_reg_imm arm assms(2) read_written_reg_imm [of r opc x rest] by (auto simp: decode)
  next
    case (I_reg_imm_offset op r x y)
    then have "serialize isa pos i = serialize_reg_imm_offset pos opc r x y" by (simp add: opc_def)
    then show ?thesis
      unfolding hd using I_reg_imm_offset arm assms(2) read_written_reg_imm_offset [of r pos opc x y rest] by (auto simp: decode)
  next
    case (I_reg_imm_imm op r x y)
    then have "serialize isa pos i = serialize_reg_imm_imm opc r x y" by (simp add: opc_def)
    then show ?thesis
      unfolding hd using I_reg_imm_imm arm assms(2) read_written_reg_imm2 [of r opc x y rest] by (auto simp: decode)
  next
    case (I_reg_reg_imm op r s x)
    then have "serialize isa pos i = serialize_reg_reg_imm opc r s x" by (simp add: opc_def)
    then show ?thesis
      unfolding hd using I_reg_reg_imm arm assms(2) read_written_regs2_imm [of r s opc x rest] by (auto simp: decode)
  next
    case (I_reg_reg_offset op r s x)
    then have "serialize isa pos i = serialize_reg_reg_offset pos opc r s x" by (simp add: opc_def)
    then show ?thesis
      unfolding hd using I_reg_reg_offset arm assms(2) read_written_regs2_offset [of r s pos opc x rest] by (auto simp: decode)
  next
    case (I_reg_reg_reg op r s t)
    then have "serialize isa pos i = serialize_reg_reg_reg opc r s t" by (simp add: opc_def)
    then show ?thesis
      unfolding hd using I_reg_reg_reg arm assms(2) read_written_regs3 [of r s t opc rest] by (auto simp: decode)
  next
    case (I_offset op x)
    then have "serialize isa pos i = serialize_offset pos opc x" by (simp add: opc_def)
    then show ?thesis
      unfolding hd using I_offset arm assms(2) read_written_offset [of pos opc x rest] by (auto simp: decode)
  next
    case (I_imm op x)
    then have "serialize isa pos i = serialize_imm opc x" by (simp add: opc_def)
    then show ?thesis
      unfolding hd using I_imm arm assms(2) read_written_imm [of opc x rest] by (auto simp: decode)
  next
    case (I_imm_imm op x y)
    then have "serialize isa pos i = serialize_imm_imm opc x y" by (simp add: opc_def)
    then show ?thesis
      unfolding hd using I_imm_imm arm assms(2) read_written_imm2 [of opc x y rest] by (auto simp: decode)
  next
    case (I_reg_reg op r s)
    then have "serialize isa pos i = serialize_reg_reg opc r s" by (simp add: opc_def)
    then show ?thesis
      unfolding hd using I_reg_reg arm assms(2) read_written_regs2 [of r s opc rest] by (auto simp: decode)
  next
    case (I_reg_reg_imm_imm op r s x y)
    then have "serialize isa pos i = serialize_reg_reg_imm_imm opc r s x y" by (simp add: opc_def)
    then show ?thesis
      unfolding hd using I_reg_reg_imm_imm arm assms(2) read_written_regs2_imm2 [of r s opc x y rest] by (auto simp: decode)
  next
    case (I_reg_imm64 op r x)
    then have "serialize isa pos i = serialize_reg_imm64 opc r x" by (simp add: opc_def)
    then show ?thesis
      unfolding hd using I_reg_imm64 arm assms(2) read_written_reg_imm64 [of r opc x rest] by (auto simp: decode)
  next
    case invalid
    with assms(3) show ?thesis by simp
  qed
qed

end

section \<open>Properties\<close>

text \<open>C22: decoding inverts encoding in every instruction set: for an instruction whose opcode the
  set supports and whose registers fit in four bits, the bytes stored by the encoder, followed by
  anything, decode at the same position to an equal instruction; the encoding is between one and
  eleven bytes and so fits the buffer \<open>MAX_INSTRUCTION_LENGTH\<close>.\<close>

theorem parse_serialize_roundtrip:
  assumes "supports_opcode (isa_of kind) (opcode i)" and "small_regs i" and "i \<noteq> invalid"
    and "MAX_INSTRUCTION_LENGTH \<le> length buffer"
  shows "\<exists>n buffer'. serialize_into (isa_of kind) pos i buffer = Some (n, buffer')
    \<and> 1 \<le> n \<and> n \<le> MAX_INSTRUCTION_LENGTH
    \<and> normalize (parse_instruction (isa_of kind) (unat (hd buffer')) (from_le_bytes (tl buffer')) pos (n - 1))
      = normalize i"
proof -
  let ?bs = "serialize (isa_of kind) pos i"
  have len: "1 \<le> length ?bs" "length ?bs \<le> length buffer" "length ?bs \<le> MAX_INSTRUCTION_LENGTH"
    using length_serialize [of "isa_of kind" pos i] assms(4)
    by (simp_all add: MAX_INSTRUCTION_LENGTH_def MAX_VARINT_LENGTH_def)
  then have "?bs \<noteq> []" by auto
  moreover have "serialize_into (isa_of kind) pos i buffer =
      Some (length ?bs, ?bs @ drop (length ?bs) buffer)"
    using len by (simp add: serialize_into_def write_prefix_def Let_def)
  ultimately show ?thesis
    using len instruction_set.parse_serialize [OF instruction_set_isa_of assms(1-3),
        of pos "drop (length ?bs) buffer"] by auto
qed

theorem parse_serialize_roundtrip_witness:
  "supports_opcode (isa_of Latest64) (opcode (I_reg_reg_offset branch_eq (Reg_raw A0) (Reg_raw A1) 100))
   \<and> (\<exists>n buffer'. serialize_into (isa_of Latest64) 1000
        (I_reg_reg_offset branch_eq (Reg_raw A0) (Reg_raw A1) 100) (replicate 12 0) = Some (n, buffer')
      \<and> normalize (parse_instruction (isa_of Latest64) (unat (hd buffer')) (from_le_bytes (tl buffer')) 1000 (n - 1))
        = I_reg_reg_offset branch_eq (Reg_raw A0) (Reg_raw A1) 100)"
proof -
  have sup: "supports_opcode (isa_of Latest64) (opcode (I_reg_reg_offset branch_eq (Reg_raw A0) (Reg_raw A1) 100))"
    by (simp add: supports_opcode_def ISA_Latest64_defs)
  moreover have "small_regs (I_reg_reg_offset branch_eq (Reg_raw A0) (Reg_raw A1) 100)"
    by (simp add: small_reg_def Reg_raw_def)
  moreover have "MAX_INSTRUCTION_LENGTH \<le> length (replicate 12 (0 :: u8))"
    by (simp add: MAX_INSTRUCTION_LENGTH_def MAX_VARINT_LENGTH_def)
  ultimately show ?thesis
    using parse_serialize_roundtrip [of Latest64 "I_reg_reg_offset branch_eq (Reg_raw A0) (Reg_raw A1) 100"
        "replicate 12 0" 1000]
    by (auto simp: norm_reg_def)
qed

end
