(* ===== verification/Bitmask.thy ===== *)
theory Bitmask
  imports Prelude
begin

text \<open>
  The bitmask that marks the offsets at which instructions start,
  \<open>crates/polkavm-common/src/program.rs\<close>: the search for the next and for the previous instruction,
  in the byte-at-a-time versions and in the word-at-a-time ones, against one specification: the
  nearest set bit after or before an offset. Offsets and lengths are natural numbers. Indexing
  the bitmask out of range panics in \<open>get_previous_instruction_skip\<close>; its callers have checked that
  the byte exists.
\<close>

section \<open>The code\<close>

definition BITMASK_MAX :: nat where
  "BITMASK_MAX = 24"

definition get_bit_for_offset :: "bytes \<Rightarrow> nat \<Rightarrow> nat \<Rightarrow> bool" where
  "get_bit_for_offset bitmask code_len offset =
    (if \<not> offset div 8 < length bitmask then False
     else if offset > code_len then False
     else
       let byte = bitmask ! (offset div 8); shift = offset mod 8
       in drop_bit shift byte AND 1 = 1)"

definition get_previous_instruction_skip :: "bytes \<Rightarrow> nat \<Rightarrow> nat option" where
  "get_previous_instruction_skip bitmask offset =
    (let shift = offset mod 8;
         mask = push_bit 24 (ucast (bitmask ! (offset div 8)) :: u32);
         mask = (if offset \<ge> 8 then mask OR push_bit 16 (ucast (bitmask ! (offset div 8 - 1))) else mask);
         mask = (if offset \<ge> 16 then mask OR push_bit 8 (ucast (bitmask ! (offset div 8 - 2))) else mask);
         mask = (if offset \<ge> 24 then mask OR ucast (bitmask ! (offset div 8 - 3)) else mask);
         mask = push_bit (8 - shift) mask;
         mask = drop_bit 1 mask;
         skip = leading_zeros mask - 1
     in if skip > BITMASK_MAX then None else Some skip)"

function find_next_loop :: "bytes \<Rightarrow> nat \<Rightarrow> nat" where
  "find_next_loop bitmask offset =
    (if offset div 8 < length bitmask then
       let shift = offset mod 8;
           mask = drop_bit shift (bitmask ! (offset div 8))
       in if mask = 0 then find_next_loop bitmask (offset + (8 - shift))
          else offset + trailing_zeros mask
     else offset)"
  by pat_completeness auto
termination
  by (relation "measure (\<lambda>(bitmask, offset). 8 * length bitmask - offset)")
    (auto simp: less_mult_imp_div_less)

definition find_next_offset_unbounded :: "bytes \<Rightarrow> nat \<Rightarrow> nat \<Rightarrow> nat" where
  "find_next_offset_unbounded bitmask code_len offset = min code_len (find_next_loop bitmask offset)"

text \<open>The same search with the offset kept to 32 bits, as the iterator over the instructions runs it, whose
  code may have up to \<open>u32::MAX\<close> bytes: \<open>offset += 8 - shift\<close> wraps around in the last byte of a bitmask of
  \<open>2 ^ 29\<close> bytes, and the search starts over. \<open>None\<close> is a search that never ends.\<close>

partial_function (option) find_next_loop_u32 :: "bytes \<Rightarrow> nat \<Rightarrow> nat option" where
  "find_next_loop_u32 bitmask offset =
    (if offset div 8 < length bitmask then
       let shift = offset mod 8;
           mask = drop_bit shift (bitmask ! (offset div 8))
       in if mask = 0 then find_next_loop_u32 bitmask ((offset + (8 - shift)) mod 2 ^ 32)
          else Some (offset + trailing_zeros mask)
     else Some offset)"

definition find_next_offset_u32 :: "bytes \<Rightarrow> nat \<Rightarrow> nat \<Rightarrow> nat option" where
  "find_next_offset_u32 bitmask code_len offset = map_option (min code_len) (find_next_loop_u32 bitmask offset)"

function parse_bitmask_slow_loop :: "bytes \<Rightarrow> nat \<Rightarrow> nat \<Rightarrow> nat \<Rightarrow> nat \<times> bool" where
  "parse_bitmask_slow_loop bitmask code_length origin offset =
    (if offset div 8 < length bitmask then
       let shift = offset mod 8;
           mask = drop_bit shift (bitmask ! (offset div 8))
       in if mask = 0 then
            let offset = offset + (8 - shift)
            in if offset - origin < BITMASK_MAX
               then parse_bitmask_slow_loop bitmask code_length origin offset
               else (offset, True)
          else
            let offset = offset + trailing_zeros mask
            in (offset, offset \<ge> code_length \<or> offset - origin > BITMASK_MAX)
     else (offset, True))"
  by pat_completeness auto
termination
  by (relation "measure (\<lambda>(bitmask, _, _, offset). 8 * length bitmask - offset)")
    (auto simp: less_mult_imp_div_less)

definition parse_bitmask_slow :: "bytes \<Rightarrow> nat \<Rightarrow> nat \<Rightarrow> nat \<times> bool" where
  "parse_bitmask_slow bitmask code_length offset =
    (let offset = offset + 1;
         origin = offset;
         (offset, is_next_instruction_invalid) =
           parse_bitmask_slow_loop bitmask code_length origin offset;
         offset = min offset code_length;
         skip = min (offset - origin) BITMASK_MAX
     in (skip, is_next_instruction_invalid))"

definition parse_bitmask_fast :: "bytes \<Rightarrow> nat \<Rightarrow> nat option" where
  "parse_bitmask_fast bitmask offset =
    (let offset = offset + 1
     in case slice_get bitmask (offset div 8) (offset div 8 + 4) of
          None \<Rightarrow> None
        | Some bitmask \<Rightarrow>
            let shift = offset mod 8;
                mask = drop_bit shift (from_le_bytes [bitmask ! 0, bitmask ! 1, bitmask ! 2, bitmask ! 3] :: u32)
                       OR push_bit BITMASK_MAX 1
            in Some (trailing_zeros mask))"

declare find_next_loop.simps [simp del] parse_bitmask_slow_loop.simps [simp del]

section \<open>The specification\<close>

definition bit_at :: "bytes \<Rightarrow> nat \<Rightarrow> bool" where
  "bit_at bitmask i \<longleftrightarrow> i div 8 < length bitmask \<and> bit (bitmask ! (i div 8)) (i mod 8)"

text \<open>The first instruction at or after an offset, and the last one before it.\<close>

definition next_start :: "bytes \<Rightarrow> nat \<Rightarrow> nat option" where
  "next_start bitmask offset = find (bit_at bitmask) [offset..<8 * length bitmask]"

definition prev_start :: "bytes \<Rightarrow> nat \<Rightarrow> nat option" where
  "prev_start bitmask offset = find (bit_at bitmask) (rev [0..<offset])"

section \<open>Searching forwards\<close>

lemma bit_at_less: "bit_at bm i \<Longrightarrow> i < 8 * length bm"
  by (auto simp: bit_at_def div_less_iff_less_mult mult.commute)

lemma next_start_Some:
  "next_start bm o1 = Some n \<longleftrightarrow> o1 \<le> n \<and> bit_at bm n \<and> (\<forall>i. o1 \<le> i \<and> i < n \<longrightarrow> \<not> bit_at bm i)"
proof -
  have *: "find P [a..<b] = Some n \<longleftrightarrow> a \<le> n \<and> n < b \<and> P n \<and> (\<forall>i. a \<le> i \<and> i < n \<longrightarrow> \<not> P i)"
    for P :: "nat \<Rightarrow> bool" and a b
  proof (induction "b - a" arbitrary: a)
    case 0
    then show ?case by simp
  next
    case (Suc d)
    then have ab: "a < b" "[a..<b] = a # [Suc a..<b]" by (simp_all add: upt_conv_Cons)
    have IH: "find P [Suc a..<b] = Some n \<longleftrightarrow>
        Suc a \<le> n \<and> n < b \<and> P n \<and> (\<forall>i. Suc a \<le> i \<and> i < n \<longrightarrow> \<not> P i)"
      using Suc.hyps(2) by (intro Suc.hyps(1)) simp
    show ?case
    proof (cases "P a")
      case True
      then show ?thesis using ab by (auto simp: le_less)
    next
      case False
      have "(\<forall>i. a \<le> i \<and> i < n \<longrightarrow> \<not> P i) \<longleftrightarrow> (\<forall>i. Suc a \<le> i \<and> i < n \<longrightarrow> \<not> P i)"
        using False by (metis Suc_le_eq le_less)
      moreover have "P n \<and> a \<le> n \<longleftrightarrow> P n \<and> Suc a \<le> n"
        using False by (metis Suc_le_eq le_less)
      ultimately show ?thesis using False ab IH by auto
    qed
  qed
  show ?thesis
    unfolding next_start_def * using bit_at_less by blast
qed

lemma next_start_None: "next_start bm o1 = None \<longleftrightarrow> (\<forall>i \<ge> o1. \<not> bit_at bm i)"
  unfolding next_start_def find_None_iff using bit_at_less by fastforce

text \<open>One step of either loop: a byte with no bit left is skipped, otherwise the search ends.\<close>

lemma bit_mask_byte:
  fixes o1 :: nat
  assumes "o1 div 8 < length bm" and "o1 \<le> i" "i < o1 + (8 - o1 mod 8)"
  shows "bit_at bm i \<longleftrightarrow> bit (drop_bit (o1 mod 8) (bm ! (o1 div 8))) (i - o1)"
proof -
  have o1: "o1 = 8 * (o1 div 8) + o1 mod 8" by simp
  have "i = 8 * (o1 div 8) + (o1 mod 8 + (i - o1))" "o1 mod 8 + (i - o1) < 8"
    using assms(2,3) o1 by linarith+
  then have "i div 8 = o1 div 8" "i mod 8 = o1 mod 8 + (i - o1)"
    by (metis div_mult_self4 div_less add_0 mult.commute add.commute zero_neq_numeral,
        metis mod_mult_self4 mod_less mult.commute)
  with assms(1) show ?thesis by (simp add: bit_at_def bit_drop_bit_eq)
qed

lemma next_start_skip_byte:
  assumes "o1 div 8 < length bm" and "drop_bit (o1 mod 8) (bm ! (o1 div 8)) = 0"
  shows "next_start bm o1 = next_start bm (o1 + (8 - o1 mod 8))"
proof -
  have none: "\<not> bit_at bm i" if "o1 \<le> i" "i < o1 + (8 - o1 mod 8)" for i
    using bit_mask_byte [OF assms(1) that] assms(2) by simp
  have "next_start bm o1 = Some n \<longleftrightarrow> next_start bm (o1 + (8 - o1 mod 8)) = Some n" for n
    unfolding next_start_Some using none by (meson le_trans le_add1 not_le)
  then show ?thesis by (metis option.exhaust)
qed

lemma next_start_in_byte:
  assumes "o1 div 8 < length bm" and "drop_bit (o1 mod 8) (bm ! (o1 div 8)) \<noteq> 0"
  shows "next_start bm o1 = Some (o1 + trailing_zeros (drop_bit (o1 mod 8) (bm ! (o1 div 8))))"
proof -
  let ?m = "drop_bit (o1 mod 8) (bm ! (o1 div 8))"
  have set: "bit ?m (trailing_zeros ?m)" using assms(2) by (rule trailing_zeros_bit)
  then have "o1 mod 8 + trailing_zeros ?m < 8"
    using bit_imp_le_length by (fastforce simp: bit_drop_bit_eq)
  then have below: "trailing_zeros ?m < 8 - o1 mod 8" by simp
  have "bit_at bm (o1 + trailing_zeros ?m)"
    using bit_mask_byte [OF assms(1), of "o1 + trailing_zeros ?m"] below set by simp
  moreover have "\<not> bit_at bm i" if "o1 \<le> i" "i < o1 + trailing_zeros ?m" for i
    using bit_mask_byte [OF assms(1), of i] below that trailing_zeros_below [of "i - o1" ?m] by simp
  ultimately show ?thesis by (simp add: next_start_Some)
qed

lemma next_start_past_end: "\<not> o1 div 8 < length bm \<Longrightarrow> next_start bm o1 = None"
  using bit_at_less by (fastforce simp: next_start_None div_less_iff_less_mult)

lemma byte_end: "o1 + (8 - o1 mod 8) = 8 * (o1 div 8 + 1)" for o1 :: nat
proof -
  have arith: "r < 8 \<Longrightarrow> 8 * q + r + (8 - r) = 8 * (q + 1)" for q r :: nat by simp
  have "8 * (o1 div 8) + o1 mod 8 + (8 - o1 mod 8) = 8 * (o1 div 8 + 1)"
    by (rule arith) simp
  then show ?thesis by (simp only: mult_div_mod_eq)
qed

lemma find_next_loop_spec:
  "find_next_loop bm o1 =
    (case next_start bm o1 of Some n \<Rightarrow> n | None \<Rightarrow> max o1 (8 * length bm))"
proof (induction bm o1 rule: find_next_loop.induct)
  case (1 bm o1)
  show ?case
  proof (cases "o1 div 8 < length bm")
    case False
    then have "8 * length bm \<le> o1" by (simp add: div_less_iff_less_mult mult.commute not_less)
    with False show ?thesis
      by (simp add: find_next_loop.simps [of bm o1] next_start_past_end)
  next
    case True
    then have "o1 + (8 - o1 mod 8) \<le> 8 * length bm"
      using byte_end [of o1] by simp
    with True 1 show ?thesis
      by (cases "drop_bit (o1 mod 8) (bm ! (o1 div 8)) = 0")
        (simp_all add: find_next_loop.simps [of bm o1] Let_def next_start_in_byte
          next_start_skip_byte split: option.split)
  qed
qed

lemma find_next_offset_unbounded_spec:
  assumes "code_len \<le> 8 * length bm"
  shows "find_next_offset_unbounded bm code_len o1 =
    min code_len (case next_start bm o1 of Some n \<Rightarrow> n | None \<Rightarrow> code_len)"
  using assms by (simp add: find_next_offset_unbounded_def find_next_loop_spec split: option.split)

text \<open>Short of \<open>2 ^ 29\<close> bytes of bitmask the offset does not wrap.\<close>

lemma find_next_loop_u32_eq:
  "8 * length bm < 2 ^ 32 \<Longrightarrow> find_next_loop_u32 bm o1 = Some (find_next_loop bm o1)"
proof (induction bm o1 rule: find_next_loop.induct)
  case (1 bm o1)
  show ?case
  proof (cases "o1 div 8 < length bm")
    case True
    then have "o1 + (8 - o1 mod 8) \<le> 8 * length bm"
      using byte_end [of o1] by simp
    then have "(o1 + (8 - o1 mod 8)) mod 2 ^ 32 = o1 + (8 - o1 mod 8)"
      using "1.prems" by (intro mod_less) linarith
    with True 1 show ?thesis
      by (simp add: find_next_loop.simps [of bm o1] find_next_loop_u32.simps [of bm o1] Let_def)
  qed (simp add: find_next_loop.simps [of bm o1] find_next_loop_u32.simps [of bm o1])
qed

lemma find_next_offset_u32_eq:
  "8 * length bm < 2 ^ 32 \<Longrightarrow>
    find_next_offset_u32 bm code_len o1 = Some (find_next_offset_unbounded bm code_len o1)"
  by (simp add: find_next_offset_u32_def find_next_offset_unbounded_def find_next_loop_u32_eq)

text \<open>The slow search gives up at the first byte boundary that is at least \<open>BITMASK_MAX\<close> away.\<close>

definition slow_limit :: "nat \<Rightarrow> nat" where
  "slow_limit origin = 8 * ((origin + 31) div 8)"

lemma slow_limit_bounds: "origin + 24 \<le> slow_limit origin" "slow_limit origin < origin + 32"
proof -
  have "(origin + 31) mod 8 < 8" "8 * ((origin + 31) div 8) + (origin + 31) mod 8 = origin + 31"
    by simp_all
  then show "origin + 24 \<le> slow_limit origin" "slow_limit origin < origin + 32"
    unfolding slow_limit_def by linarith+
qed

lemma slow_limit_least: "origin + 24 \<le> 8 * k \<Longrightarrow> slow_limit origin \<le> 8 * k"
proof -
  assume "origin + 24 \<le> 8 * k"
  then have "(origin + 31) div 8 < k + 1" by (simp add: div_less_iff_less_mult)
  then show ?thesis by (simp add: slow_limit_def)
qed

lemma slow_limit_above: "o1 < slow_limit origin \<Longrightarrow> o1 + (8 - o1 mod 8) \<le> slow_limit origin"
proof -
  assume "o1 < slow_limit origin"
  then have "o1 div 8 < (origin + 31) div 8"
    unfolding slow_limit_def by (simp add: div_less_iff_less_mult mult.commute)
  then have "8 * (o1 div 8 + 1) \<le> 8 * ((origin + 31) div 8)"
    by (intro mult_le_mono2) simp
  then show ?thesis unfolding slow_limit_def byte_end .
qed

lemma slow_limit_eq: "slow_limit origin = origin + 24 \<longleftrightarrow> origin mod 8 = 0"
proof -
  have "slow_limit origin = origin + 24 \<longleftrightarrow> (origin + 31) mod 8 = 7"
    unfolding slow_limit_def using mult_div_mod_eq [of 8 "origin + 31"] by linarith
  also have "\<dots> \<longleftrightarrow> origin mod 8 = 0" by presburger
  finally show ?thesis .
qed

lemma parse_bitmask_slow_loop_spec:
  assumes "origin \<le> o1" "o1 < slow_limit origin"
  shows "parse_bitmask_slow_loop bm code_len origin o1 =
    (case next_start bm o1 of
       Some n \<Rightarrow> if n < slow_limit origin then (n, n \<ge> code_len \<or> n - origin > 24)
                 else (slow_limit origin, True)
     | None \<Rightarrow> (if slow_limit origin \<le> 8 * length bm then slow_limit origin
                else max o1 (8 * length bm), True))"
  using assms
proof (induction bm code_len origin o1 rule: parse_bitmask_slow_loop.induct)
  case (1 bm code_len origin o1)
  note unfold = parse_bitmask_slow_loop.simps [of bm code_len origin o1] BITMASK_MAX_def
  let ?o2 = "o1 + (8 - o1 mod 8)"
  have o2: "?o2 \<le> slow_limit origin" using slow_limit_above [OF 1(3)] .
  show ?case
  proof (cases "o1 div 8 < length bm")
    case False
    then have "8 * length bm \<le> o1" by (simp add: div_less_iff_less_mult mult.commute not_less)
    with False 1(3) show ?thesis by (simp add: unfold next_start_past_end)
  next
    case byte: True
    have inside: "?o2 \<le> 8 * length bm" using byte byte_end [of o1] by simp
    show ?thesis
    proof (cases "drop_bit (o1 mod 8) (bm ! (o1 div 8)) = 0")
      case zero: True
      show ?thesis
      proof (cases "?o2 - origin < 24")
        case True
        then have "?o2 < slow_limit origin" using slow_limit_bounds(1) [of origin] by linarith
        with 1(1) [OF byte refl refl zero refl] 1(2) True byte zero inside show ?thesis
          by (simp add: unfold next_start_skip_byte split: option.split)
      next
        case False
        then have "slow_limit origin \<le> ?o2"
          using slow_limit_least [of origin "o1 div 8 + 1"] 1(2) byte_end [of o1] by linarith
        with o2 have eq: "?o2 = slow_limit origin" by simp
        show ?thesis
          using byte zero False eq inside next_start_skip_byte [OF byte zero]
          by (auto simp: unfold next_start_Some split: option.split)
      qed
    next
      case False
      define t where "t = trailing_zeros (drop_bit (o1 mod 8) (bm ! (o1 div 8)))"
      have n: "next_start bm o1 = Some (o1 + t)"
        unfolding t_def using byte False by (rule next_start_in_byte)
      have "bit (drop_bit (o1 mod 8) (bm ! (o1 div 8))) t"
        unfolding t_def using False by (rule trailing_zeros_bit)
      then have "o1 mod 8 + t < 8"
        using bit_imp_le_length by (fastforce simp: bit_drop_bit_eq)
      with o2 have "o1 + t < slow_limit origin" by linarith
      with n byte False show ?thesis by (simp add: unfold Let_def t_def [symmetric])
    qed
  qed
qed

text \<open>What the slow parser returns: the distance to the next instruction, capped by
  \<open>BITMASK_MAX\<close> and by the end of the code, and whether what follows is invalid.\<close>

definition skip_to_next :: "bytes \<Rightarrow> nat \<Rightarrow> nat \<Rightarrow> nat" where
  "skip_to_next bm code_len o1 =
    min (min (case next_start bm o1 of Some n \<Rightarrow> n | None \<Rightarrow> code_len) code_len - o1) BITMASK_MAX"

definition next_is_invalid :: "bytes \<Rightarrow> nat \<Rightarrow> nat \<Rightarrow> bool" where
  "next_is_invalid bm code_len o1 =
    (case next_start bm o1 of None \<Rightarrow> True | Some n \<Rightarrow> n \<ge> code_len \<or> n - o1 > BITMASK_MAX)"

lemma parse_bitmask_slow_spec:
  assumes code_len: "code_len \<le> 8 * length bm"
  shows "parse_bitmask_slow bm code_len offset =
    (skip_to_next bm code_len (offset + 1),
     next_is_invalid bm code_len (offset + 1) \<or>
     (offset mod 8 = 7 \<and> next_start bm (offset + 1) = Some (offset + 25)))"
proof -
  define o1 where "o1 = offset + 1"
  have o1: "offset mod 8 = 7 \<longleftrightarrow> o1 mod 8 = 0" unfolding o1_def by presburger
  note b = slow_limit_bounds [of o1] slow_limit_eq [of o1]
  have loop: "parse_bitmask_slow_loop bm code_len o1 o1 =
    (case next_start bm o1 of
       Some n \<Rightarrow> if n < slow_limit o1 then (n, n \<ge> code_len \<or> n - o1 > 24) else (slow_limit o1, True)
     | None \<Rightarrow> (if slow_limit o1 \<le> 8 * length bm then slow_limit o1 else max o1 (8 * length bm), True))"
    using b(1) by (intro parse_bitmask_slow_loop_spec) simp_all
  have "parse_bitmask_slow bm code_len offset =
    (skip_to_next bm code_len o1,
     next_is_invalid bm code_len o1 \<or> (o1 mod 8 = 0 \<and> next_start bm o1 = Some (o1 + 24)))"
  proof (cases "next_start bm o1")
    case None
    have "min (min (if slow_limit o1 \<le> 8 * length bm then slow_limit o1
        else max o1 (8 * length bm)) code_len - o1) 24 = min (code_len - o1) 24"
      using b(1) code_len by (cases "slow_limit o1 \<le> 8 * length bm") auto
    then show ?thesis
      using None loop
      by (simp add: parse_bitmask_slow_def Let_def skip_to_next_def next_is_invalid_def
          BITMASK_MAX_def o1_def)
  next
    case (Some n)
    then have "o1 \<le> n" by (simp add: next_start_Some)
    have "min (min (if n < slow_limit o1 then n else slow_limit o1) code_len - o1) 24
        = min (min n code_len - o1) 24"
      using b(1) by (cases "n < slow_limit o1") auto
    moreover have "(if n < slow_limit o1 then n \<ge> code_len \<or> n - o1 > 24 else True) \<longleftrightarrow>
        n \<ge> code_len \<or> n - o1 > 24 \<or> (o1 mod 8 = 0 \<and> n = o1 + 24)"
      using b \<open>o1 \<le> n\<close> by (auto split: if_splits)
    ultimately show ?thesis
      using Some loop
      by (cases "n < slow_limit o1")
        (simp_all add: parse_bitmask_slow_def Let_def skip_to_next_def next_is_invalid_def
          BITMASK_MAX_def o1_def)
  qed
  then show ?thesis using o1 by (simp add: o1_def add.commute)
qed

lemma trailing_zeros_eqI:
  "bit w t \<Longrightarrow> (\<And>i. i < t \<Longrightarrow> \<not> bit w i) \<Longrightarrow> trailing_zeros w = t" for w :: "'a::len word"
  by (metis bit_0_eq bot_apply bot_bool_def linorder_neqE_nat trailing_zeros_below trailing_zeros_bit)

lemma offset_add_div_mod:
  "(o1 + i) div 8 = o1 div 8 + (o1 mod 8 + i) div 8" "(o1 + i) mod 8 = (o1 mod 8 + i) mod 8" for o1 :: nat
proof -
  have "o1 + i = (o1 mod 8 + i) + 8 * (o1 div 8)" by simp
  then show "(o1 + i) div 8 = o1 div 8 + (o1 mod 8 + i) div 8" "(o1 + i) mod 8 = (o1 mod 8 + i) mod 8"
    by (metis add.commute div_mult_self2 zero_neq_numeral, metis mod_mult_self2)
qed

lemma bit_four_bytes:
  assumes "o1 div 8 + 4 \<le> length bm" "o1 mod 8 + i < 32"
  shows "bit (drop_bit (o1 mod 8) (from_le_bytes (take 4 (drop (o1 div 8) bm)) :: u32)) i \<longleftrightarrow>
    bit_at bm (o1 + i)"
proof -
  define j where "j = o1 mod 8 + i"
  have j: "j div 8 < 4" "j < 32" using assms(2) unfolding j_def by (simp_all add: div_less_iff_less_mult)
  have "bit (from_le_bytes (take 4 (drop (o1 div 8) bm)) :: u32) j \<longleftrightarrow>
      bit (bm ! (o1 div 8 + j div 8)) (j mod 8)"
    using j assms(1) by (simp add: bit_from_le_bytes)
  moreover have "o1 div 8 + j div 8 < length bm" using j(1) assms(1) by linarith
  ultimately show ?thesis
    unfolding bit_at_def offset_add_div_mod [of o1 i] bit_drop_bit_eq by (simp only: comp_def j_def simp_thms)
qed

lemma parse_bitmask_fast_spec:
  "parse_bitmask_fast bm offset =
    (if (offset + 1) div 8 + 4 \<le> length bm
     then Some (case next_start bm (offset + 1) of
       None \<Rightarrow> BITMASK_MAX | Some n \<Rightarrow> min (n - (offset + 1)) BITMASK_MAX)
     else None)"
proof (cases "(offset + 1) div 8 + 4 \<le> length bm")
  case True
  define o1 where "o1 = offset + 1"
  define bs where "bs = take 4 (drop (o1 div 8) bm)"
  define mask where "mask = drop_bit (o1 mod 8) (from_le_bytes bs :: u32) OR push_bit 24 1"
  define t where "t = (case next_start bm o1 of None \<Rightarrow> 24 | Some n \<Rightarrow> min (n - o1) 24)"
  have len: "length bs = 4" using True by (simp add: bs_def o1_def)
  have bits: "bit mask i \<longleftrightarrow> bit_at bm (o1 + i) \<or> i = 24" if "i \<le> 24" for i
  proof -
    have "o1 mod 8 < 8" by simp
    then have "o1 mod 8 + i < 32" using that by linarith
    moreover have "bit (push_bit 24 1 :: u32) i \<longleftrightarrow> i = 24"
      by (auto simp only: bit_push_bit_iff bit_1_iff) simp
    ultimately show ?thesis
      unfolding mask_def bs_def bit_or_iff using True o1_def by (simp only: bit_four_bytes)
  qed
  have "t \<le> 24" by (simp add: t_def split: option.split)
  have tz: "trailing_zeros mask = t"
  proof (rule trailing_zeros_eqI)
    show "bit mask t"
    proof (cases "next_start bm o1")
      case None
      then have "t = 24" by (simp add: t_def)
      then show ?thesis by (simp add: bits)
    next
      case (Some n)
      then have n: "o1 \<le> n" "bit_at bm n" by (simp_all add: next_start_Some)
      have "t = min (n - o1) 24" using Some by (simp add: t_def)
      with n show ?thesis by (cases "n - o1 < 24") (simp_all add: bits)
    qed
    fix i assume "i < t"
    with \<open>t \<le> 24\<close> have "i < 24" by simp
    have "\<not> bit_at bm (o1 + i)"
    proof (cases "next_start bm o1")
      case None
      then show ?thesis by (simp add: next_start_None)
    next
      case (Some n)
      then have "o1 + i < n" using \<open>i < t\<close> by (auto simp: t_def)
      with Some show ?thesis by (simp add: next_start_Some)
    qed
    with \<open>i < 24\<close> show "\<not> bit mask i" by (simp add: bits)
  qed
  have "[bs ! 0, bs ! 1, bs ! 2, bs ! 3] = bs"
    using len by (intro nth_equalityI) (auto simp: less_Suc_eq eval_nat_numeral nth_Cons')
  moreover have "slice_get bm (o1 div 8) (o1 div 8 + 4) = Some bs"
    using True by (simp add: slice_get_def bs_def o1_def)
  ultimately have "parse_bitmask_fast bm offset = Some (trailing_zeros mask)"
    unfolding parse_bitmask_fast_def Let_def o1_def [symmetric] mask_def BITMASK_MAX_def
    by (simp only: option.case)
  with True show ?thesis
    by (simp only: tz t_def BITMASK_MAX_def o1_def if_True)
next
  case False
  then show ?thesis by (simp add: parse_bitmask_fast_def slice_get_def Let_def)
qed

section \<open>Searching backwards\<close>

lemma prev_start_Some:
  "prev_start bm o1 = Some p \<longleftrightarrow> p < o1 \<and> bit_at bm p \<and> (\<forall>i. p < i \<and> i < o1 \<longrightarrow> \<not> bit_at bm i)"
proof (induction o1)
  case 0
  then show ?case by (simp add: prev_start_def)
next
  case (Suc o1)
  have "prev_start bm (Suc o1) = (if bit_at bm o1 then Some o1 else prev_start bm o1)"
    by (simp add: prev_start_def)
  with Suc show ?case by (auto simp: less_Suc_eq)
qed

lemma prev_start_None: "prev_start bm o1 = None \<longleftrightarrow> (\<forall>i < o1. \<not> bit_at bm i)"
  unfolding prev_start_def by (auto simp: find_None_iff)

text \<open>The bits of the four bytes that end with the byte of the offset.\<close>

definition previous_mask :: "bytes \<Rightarrow> nat \<Rightarrow> u32" where
  "previous_mask bm offset =
    (let mask = push_bit 24 (ucast (bm ! (offset div 8)) :: u32);
         mask = (if offset \<ge> 8 then mask OR push_bit 16 (ucast (bm ! (offset div 8 - 1))) else mask);
         mask = (if offset \<ge> 16 then mask OR push_bit 8 (ucast (bm ! (offset div 8 - 2))) else mask)
     in if offset \<ge> 24 then mask OR ucast (bm ! (offset div 8 - 3)) else mask)"

lemma bit_previous_mask:
  assumes "q = offset div 8" "q < length bm" "j < 32"
  shows "bit (previous_mask bm offset) j \<longleftrightarrow> 24 \<le> 8 * q + j \<and> bit_at bm (8 * q + j - 24)"
proof -
  have q: "8 \<le> offset \<longleftrightarrow> 1 \<le> q" "16 \<le> offset \<longleftrightarrow> 2 \<le> q" "24 \<le> offset \<longleftrightarrow> 3 \<le> q"
    unfolding assms(1) by linarith+
  define k m where "k = j div 8" and "m = j mod 8"
  have j: "j = 8 * k + m" "m < 8" "k < 4"
    using assms(3) by (simp_all add: k_def m_def div_less_iff_less_mult)
  have at: "24 \<le> 8 * q + j \<and> bit_at bm (8 * q + j - 24) \<longleftrightarrow> 3 \<le> q + k \<and> bit (bm ! (q + k - 3)) m"
  proof (cases "3 \<le> q + k")
    case True
    then obtain r where r: "q + k = r + 3" by (metis add.commute le_Suc_ex)
    then have "8 * q + j = 8 * r + m + 24" using j(1) by simp
    moreover have "r < length bm" using r j(3) assms(2) by linarith
    ultimately show ?thesis using r j(2) by (simp add: bit_at_def)
  next
    case False
    then show ?thesis using j by linarith
  qed
  have byte: "bit (ucast b :: u32) i \<longleftrightarrow> bit b i" for b :: u8 and i
    using bit_imp_le_length [of b i] by (auto simp: bit_ucast_iff)
  have none: "\<not> bit b i" if "8 \<le> i" for b :: u8 and i
    using bit_imp_le_length [of b i] that by auto
  consider "k = 0" | "k = 1" | "k = 2" | "k = 3" using j(3) by linarith
  then show ?thesis
    unfolding at previous_mask_def q assms(1) [symmetric]
    by cases (use j(2) in \<open>auto simp: j(1) byte none Let_def bit_or_iff bit_push_bit_iff\<close>)
qed

lemma leading_zeros_eqI:
  fixes w :: "'a::len word"
  assumes "bit w t" "\<And>i. t < i \<Longrightarrow> \<not> bit w i"
  shows "leading_zeros w = LENGTH('a) - 1 - t"
proof (rule antisym)
  have t: "t < LENGTH('a)" using assms(1) by (rule bit_imp_le_length)
  show "LENGTH('a) - 1 - t \<le> leading_zeros w"
    using assms(2) t by (subst leading_zeros_ge_iff_bit) (auto, meson linorder_not_less not_less_eq)
  have "\<not> LENGTH('a) - t \<le> leading_zeros w"
    using assms(1) t by (subst leading_zeros_ge_iff_bit) auto
  then show "leading_zeros w \<le> LENGTH('a) - 1 - t" by linarith
qed

lemma leading_zeros_0: "leading_zeros (0 :: 'a::len word) = LENGTH('a)"
  using leading_zeros_le [of "0 :: 'a word"] leading_zeros_ge_iff_bit [of "LENGTH('a)" "0 :: 'a word"]
  by simp

lemma bit_shifted_previous_mask:
  assumes "offset div 8 < length bm"
  shows "bit (drop_bit 1 (push_bit (8 - offset mod 8) (previous_mask bm offset))) k \<longleftrightarrow>
    k < 31 \<and> 7 - offset mod 8 \<le> k \<and> 31 - k \<le> offset \<and> bit_at bm (offset - (31 - k))"
proof -
  define q s where "q = offset div 8" and "s = offset mod 8"
  have off: "offset = 8 * q + s" "s < 8" by (simp_all add: q_def s_def)
  have "bit (drop_bit 1 (push_bit (8 - s) (previous_mask bm offset))) k \<longleftrightarrow>
      k < 31 \<and> 7 - s \<le> k \<and> bit (previous_mask bm offset) (k + 1 - (8 - s))"
    by (auto simp: bit_drop_bit_eq bit_push_bit_iff)
  also have "\<dots> \<longleftrightarrow> k < 31 \<and> 7 - s \<le> k \<and> 31 - k \<le> offset \<and> bit_at bm (offset - (31 - k))"
  proof (cases "k < 31 \<and> 7 - s \<le> k")
    case True
    have "8 * q + (k + 1 - (8 - s)) - 24 = offset - (31 - k)"
      "24 \<le> 8 * q + (k + 1 - (8 - s)) \<longleftrightarrow> 31 - k \<le> offset" "k + 1 - (8 - s) < 32"
      using True off by linarith+
    then show ?thesis
      using assms by (simp add: bit_previous_mask [of q] q_def)
  qed auto
  finally show ?thesis unfolding s_def .
qed

text \<open>The byte of the offset and the three before it hold 24 earlier bits when the offset is at the
  start of a byte, so the largest skip that is found there is 23, not \<open>BITMASK_MAX\<close>.\<close>

definition previous_skip_limit :: "nat \<Rightarrow> nat" where
  "previous_skip_limit offset = (if offset mod 8 = 0 then BITMASK_MAX - 1 else BITMASK_MAX)"

lemma get_previous_instruction_skip_spec:
  assumes "offset div 8 < length bm"
  shows "get_previous_instruction_skip bm offset =
    (case prev_start bm offset of
       Some p \<Rightarrow> if offset - p - 1 \<le> previous_skip_limit offset then Some (offset - p - 1) else None
     | None \<Rightarrow> None)"
proof -
  define w where "w = drop_bit 1 (push_bit (8 - offset mod 8) (previous_mask bm offset))"
  note bits = bit_shifted_previous_mask [OF assms, folded w_def]
  have skip: "get_previous_instruction_skip bm offset =
      (if leading_zeros w - 1 > 24 then None else Some (leading_zeros w - 1))"
    unfolding get_previous_instruction_skip_def previous_mask_def w_def Let_def BITMASK_MAX_def ..
  have mod: "offset mod 8 < 8" by simp
  have zero: "get_previous_instruction_skip bm offset = None" if "w = 0"
    unfolding skip that leading_zeros_0 by simp
  show ?thesis
  proof (cases "prev_start bm offset")
    case None
    then have "\<not> bit w k" for k
      unfolding bits by (auto simp: prev_start_None)
    then have "w = 0" by (intro bit_word_eqI) simp
    then show ?thesis using None zero by simp
  next
    case (Some p)
    then have p: "p < offset" "bit_at bm p" "\<And>i. p < i \<Longrightarrow> i < offset \<Longrightarrow> \<not> bit_at bm i"
      by (auto simp: prev_start_Some)
    show ?thesis
    proof (cases "offset - p \<le> 24 + offset mod 8")
      case True
      define t where "t = 31 - (offset - p)"
      have t: "31 - t = offset - p" "t < 31" "7 - offset mod 8 \<le> t"
        using True mod p(1) unfolding t_def by linarith+
      have "leading_zeros w = LENGTH(32) - 1 - t"
      proof (rule leading_zeros_eqI)
        show "bit w t" unfolding bits t(1) using t p by simp
        fix i assume "t < i"
        then show "\<not> bit w i" unfolding bits using t p(1) p(3) [of "offset - (31 - i)"] by auto
      qed
      then have "leading_zeros w = offset - p" using t by simp
      then show ?thesis
        unfolding skip using Some True p(1) by (auto simp: previous_skip_limit_def BITMASK_MAX_def)
    next
      case False
      have "\<not> bit w k" for k
        unfolding bits using False mod p(3) [of "offset - (31 - k)"] by (cases "k < 31") auto
      then have "w = 0" by (intro bit_word_eqI) simp
      with False Some show ?thesis by (auto simp: zero previous_skip_limit_def BITMASK_MAX_def)
    qed
  qed
qed

section \<open>The properties\<close>

lemma get_bit_for_offset_eq: "get_bit_for_offset bm code_len i \<longleftrightarrow> bit_at bm i \<and> i \<le> code_len"
  by (auto simp: get_bit_for_offset_def bit_at_def Let_def and_one_eq bit_iff_odd_drop_bit odd_iff_mod_2_eq_one)

lemma fast_parser_in_range:
  assumes "length bm = (code_len + 7) div 8" "offset + 32 \<le> code_len"
  shows "(offset + 1) div 8 + 4 \<le> length bm"
  using assms by linarith

lemma fast_slow_parsers:
  assumes "length bm = (code_len + 7) div 8" "offset + 32 \<le> code_len"
  shows "parse_bitmask_fast bm offset = Some (fst (parse_bitmask_slow bm code_len offset))"
    and "fst (parse_bitmask_slow bm code_len offset) =
      (case next_start bm (offset + 1) of None \<Rightarrow> 24 | Some n \<Rightarrow> min (n - (offset + 1)) 24)"
    and "snd (parse_bitmask_slow bm code_len offset) \<longleftrightarrow>
      (fst (parse_bitmask_slow bm code_len offset) = 24 \<and> \<not> get_bit_for_offset bm code_len (offset + 25)) \<or>
      (offset mod 8 = 7 \<and> next_start bm (offset + 1) = Some (offset + 25))"
proof -
  have len: "code_len \<le> 8 * length bm" using assms(1) by simp
  note slow = parse_bitmask_slow_spec [OF len, of offset]
  show skip: "fst (parse_bitmask_slow bm code_len offset) =
      (case next_start bm (offset + 1) of None \<Rightarrow> 24 | Some n \<Rightarrow> min (n - (offset + 1)) 24)"
    using assms(2) by (auto simp: slow skip_to_next_def BITMASK_MAX_def split: option.split)
  then show "parse_bitmask_fast bm offset = Some (fst (parse_bitmask_slow bm code_len offset))"
    using fast_parser_in_range [OF assms]
    by (simp add: parse_bitmask_fast_spec BITMASK_MAX_def split: option.split)
  show "snd (parse_bitmask_slow bm code_len offset) \<longleftrightarrow>
      (fst (parse_bitmask_slow bm code_len offset) = 24 \<and> \<not> get_bit_for_offset bm code_len (offset + 25)) \<or>
      (offset mod 8 = 7 \<and> next_start bm (offset + 1) = Some (offset + 25))"
  proof (cases "next_start bm (offset + 1)")
    case None
    then have "\<not> bit_at bm (offset + 25)" by (simp add: next_start_None)
    then show ?thesis unfolding skip using None by (simp add: slow next_is_invalid_def get_bit_for_offset_eq)
  next
    case (Some n)
    then have n: "offset + 1 \<le> n" "bit_at bm n" "\<And>i. offset + 1 \<le> i \<Longrightarrow> i < n \<Longrightarrow> \<not> bit_at bm i"
      by (auto simp: next_start_Some)
    have "n - (offset + 1) > 24 \<longleftrightarrow> min (n - (offset + 1)) 24 = 24 \<and> \<not> bit_at bm (offset + 25)"
    proof (cases "n - (offset + 1) > 24")
      case True
      then show ?thesis using n(3) [of "offset + 25"] by simp
    next
      case False
      have "n = offset + 25" if "min (n - (offset + 1)) 24 = 24" using that False n(1) by linarith
      then show ?thesis using False n(2) by auto
    qed
    then show ?thesis
      unfolding skip get_bit_for_offset_eq using Some assms(2) n(1)
      by (auto simp: slow next_is_invalid_def BITMASK_MAX_def)
  qed
qed

text \<open>C31: Where the fast parser is used, at least 32 bytes before the end of the code, it returns, and
  its skip is that of the slow parser: the distance to the next marked offset, at most 24. The two
  agree about what follows (the fast step says invalid when the skip is 24 and no instruction is marked
  there) except when the instruction is 25 bytes long and ends at a byte boundary of the bitmask:
  then the slow parser calls a correctly marked next instruction invalid.\<close>
theorem parse_bitmask_fast_slow:
  assumes "length bm = (code_len + 7) div 8" "offset + 32 \<le> code_len"
  shows "parse_bitmask_fast bm offset = Some (fst (parse_bitmask_slow bm code_len offset)) \<and>
    fst (parse_bitmask_slow bm code_len offset) =
      (case next_start bm (offset + 1) of None \<Rightarrow> 24 | Some n \<Rightarrow> min (n - (offset + 1)) 24) \<and>
    (snd (parse_bitmask_slow bm code_len offset) \<longleftrightarrow>
      (fst (parse_bitmask_slow bm code_len offset) = 24 \<and> \<not> get_bit_for_offset bm code_len (offset + 25)) \<or>
      (offset mod 8 = 7 \<and> next_start bm (offset + 1) = Some (offset + 25)))"
  using fast_slow_parsers [OF assms] by blast

text \<open>At the instruction at offset 7 whose successor is 25 bytes later, the anomaly occurs.\<close>
theorem parse_bitmask_fast_slow_witness:
  "parse_bitmask_fast [0x80, 0, 0, 0, 1, 0] 7 = Some 24 \<and>
   parse_bitmask_slow [0x80, 0, 0, 0, 1, 0] 48 7 = (24, True) \<and>
   get_bit_for_offset [0x80, 0, 0, 0, 1, 0] 48 32"
proof -
  have n: "next_start [0x80, 0, 0, 0, 1, 0] 8 = Some 32"
    by (simp add: next_start_def upt_rec bit_at_def)
  show ?thesis
    using parse_bitmask_fast_slow [of "[0x80, 0, 0, 0, 1, 0]" 48 7] n
    by (simp add: prod_eq_iff get_bit_for_offset_eq bit_at_def)
qed

text \<open>C32: \<open>get_previous_instruction_skip\<close> finds the nearest marked offset before an offset whose byte
  exists, if the instruction there has at most 24 bytes of arguments, and at most 23 when the offset is
  a multiple of 8: then the oldest of the candidates is in a byte that is not read.\<close>
theorem get_previous_instruction_skip_correct:
  assumes "offset div 8 < length bm"
  shows "get_previous_instruction_skip bm offset = Some skip \<longleftrightarrow>
    skip < offset \<and> skip \<le> (if offset mod 8 = 0 then 23 else 24) \<and> bit_at bm (offset - skip - 1) \<and>
    (\<forall>i. offset - skip \<le> i \<longrightarrow> i < offset \<longrightarrow> \<not> bit_at bm i)"
proof -
  have "get_previous_instruction_skip bm offset = Some skip \<longleftrightarrow>
      (\<exists>p. prev_start bm offset = Some p \<and> skip = offset - p - 1 \<and> skip \<le> previous_skip_limit offset)"
    by (auto simp: get_previous_instruction_skip_spec [OF assms] split: option.splits if_splits)
  also have "\<dots> \<longleftrightarrow> skip < offset \<and> skip \<le> previous_skip_limit offset \<and>
      prev_start bm offset = Some (offset - skip - 1)"
    by (auto simp: prev_start_Some)
  also have "prev_start bm offset = Some (offset - skip - 1) \<longleftrightarrow>
      offset - skip - 1 < offset \<and> bit_at bm (offset - skip - 1) \<and>
      (\<forall>i. offset - skip - 1 < i \<and> i < offset \<longrightarrow> \<not> bit_at bm i)"
    by (rule prev_start_Some)
  finally show ?thesis
    by (auto simp: previous_skip_limit_def BITMASK_MAX_def)
qed

theorem get_previous_instruction_skip_correct_witness:
  "get_previous_instruction_skip [1, 1] 8 = Some 7 \<and> get_previous_instruction_skip [0x80, 0, 0, 0, 1] 32 \<noteq> Some 24"
proof
  have "\<not> bit_at [1, 1] i" if "1 \<le> i" "i < 8" for i
    using that by (simp add: bit_at_def bit_1_iff)
  then show "get_previous_instruction_skip [1, 1] 8 = Some 7"
    using get_previous_instruction_skip_correct [of 8 "[1, 1]" 7] by (simp add: bit_at_def)
  show "get_previous_instruction_skip [0x80, 0, 0, 0, 1] 32 \<noteq> Some 24"
    using get_previous_instruction_skip_correct [of 32 "[0x80, 0, 0, 0, 1]" 24] by simp
qed

end
