(* ===== verification/Code_Walk.thy ===== *)
theory Code_Walk
  imports Instr Bitmask
begin

text \<open>
  Walking over the code of a program, \<open>crates/polkavm-common/src/program.rs\<close>: one step of an opcode
  visitor in the slow and in the fast version, the whole run \<open>visitor_run\<close>, the iterator
  \<open>Instructions\<close>, and the two searches for basic blocks, \<open>is_jump_target_valid\<close> and
  \<open>find_start_of_basic_block\<close>. A visitor is its \<open>dispatch\<close> function on an explicit state. \<open>None\<close> is a
  panic (\<open>unreachable!\<close>, a failed \<open>assert!\<close>, an index out of range); debug assertions are not checked.
\<close>

section \<open>Visiting\<close>

type_synonym ('s, 'r) dispatch = "'s \<Rightarrow> nat \<Rightarrow> u128 \<Rightarrow> nat \<Rightarrow> nat \<Rightarrow> 'r \<times> 's"

definition INVALID_INSTRUCTION_INDEX :: nat where
  "INVALID_INSTRUCTION_INDEX = 256"

definition opcode_or_trap :: "isa \<Rightarrow> u8 \<Rightarrow> Opcode" where
  "opcode_or_trap isa b = (case opcode_from_u8 isa b of Some op \<Rightarrow> op | None \<Rightarrow> O_argless trap)"

definition visitor_step_invalid_instruction :: "('s, 'r) dispatch \<Rightarrow> 's \<Rightarrow> nat \<Rightarrow> 'r \<times> 's" where
  "visitor_step_invalid_instruction dispatch state offset =
    dispatch state INVALID_INSTRUCTION_INDEX 0 offset 0"

definition visitor_step_slow ::
  "isa \<Rightarrow> ('s, 'r) dispatch \<Rightarrow> 's \<Rightarrow> bytes \<Rightarrow> bytes \<Rightarrow> nat \<Rightarrow> (nat \<times> 'r \<times> bool) \<times> 's" where
  "visitor_step_slow isa dispatch state code bitmask offset =
    (if offset \<ge> length code then
       let (result, state) = visitor_step_invalid_instruction dispatch state offset
       in ((offset + 1, result, True), state)
     else
       let (skip, is_next_instruction_invalid) = parse_bitmask_slow bitmask (length code) offset;
           chunk = take (min (offset + 17) (length code) - offset) (drop offset code);
           opcode = chunk ! 0;
           is_next_instruction_invalid =
             (if is_next_instruction_invalid \<and> offset + skip + 1 \<ge> length code \<and>
                 \<not> can_fallthrough (opcode_or_trap isa opcode)
              then False else is_next_instruction_invalid);
           t = drop 1 chunk @ replicate (16 - (length chunk - 1)) 0;
           chunk = from_le_bytes t;
           (result, state) = dispatch state (unat opcode) chunk offset skip
       in ((offset + skip + 1, result, is_next_instruction_invalid), state))"

definition visitor_step_fast ::
  "('s, 'r) dispatch \<Rightarrow> 's \<Rightarrow> bytes \<Rightarrow> bytes \<Rightarrow> nat \<Rightarrow> ((nat \<times> 'r \<times> bool) \<times> 's) option" where
  "visitor_step_fast dispatch state code bitmask offset =
    (case slice_get code offset (offset + 32) of
       None \<Rightarrow> None
     | Some chunk \<Rightarrow>
       (case parse_bitmask_fast bitmask offset of
          None \<Rightarrow> None
        | Some skip \<Rightarrow>
          let opcode = unat (chunk ! 0);
              chunk = from_le_bytes (take 16 (drop 1 chunk));
              (result, state) = dispatch state opcode chunk offset skip;
              next_offset = offset + skip + 1;
              is_next_instruction_invalid =
                (skip = 24 \<and> \<not> get_bit_for_offset bitmask (length code) next_offset)
          in Some ((next_offset, result, is_next_instruction_invalid), state)))"

definition visitor_step_runner ::
  "bool \<Rightarrow> isa \<Rightarrow> ('s, unit) dispatch \<Rightarrow> 's \<Rightarrow> bytes \<Rightarrow> bytes \<Rightarrow> nat \<Rightarrow> (nat \<times> 's) option" where
  "visitor_step_runner FAST_PATH isa dispatch state code bitmask offset =
    (case (if FAST_PATH then visitor_step_fast dispatch state code bitmask offset
           else Some (visitor_step_slow isa dispatch state code bitmask offset)) of
       None \<Rightarrow> None
     | Some ((offset, _, is_next_instruction_invalid), state) \<Rightarrow>
         if is_next_instruction_invalid then
           let state = snd (visitor_step_invalid_instruction dispatch state offset)
           in if offset < length code
              then Some (find_next_offset_unbounded bitmask (length code) offset, state)
              else Some (offset, state)
         else Some (offset, state))"

lemma find_next_loop_ge: "offset \<le> find_next_loop bitmask offset"
  by (auto simp: find_next_loop_spec next_start_Some split: option.split)

text \<open>A step moves forward, so both loops of \<open>visitor_run\<close> end.\<close>

lemma visitor_step_fast_progress:
  "visitor_step_fast dispatch state code bitmask offset = Some ((next_offset, r), s) \<Longrightarrow> offset < next_offset"
  by (auto simp: visitor_step_fast_def Let_def split: option.splits prod.splits)

lemma visitor_step_slow_progress:
  "visitor_step_slow isa dispatch state code bitmask offset = ((next_offset, r), s) \<Longrightarrow> offset < next_offset"
  by (auto simp: visitor_step_slow_def Let_def split: prod.splits if_splits)

lemma visitor_step_runner_progress:
  assumes "visitor_step_runner fast isa dispatch state code bitmask offset = Some (offset', state')"
  shows "offset < offset'"
proof -
  define step where "step = (if fast then visitor_step_fast dispatch state code bitmask offset
      else Some (visitor_step_slow isa dispatch state code bitmask offset))"
  note run = assms [unfolded visitor_step_runner_def, folded step_def]
  obtain o1 u inv s1 where step: "step = Some ((o1, u, inv), s1)"
    using run by (cases step) auto
  have "offset < o1"
  proof (cases fast)
    case True
    with step show ?thesis unfolding step_def by (auto dest: visitor_step_fast_progress)
  next
    case False
    with step show ?thesis unfolding step_def by (auto dest: visitor_step_slow_progress)
  qed
  moreover have "o1 \<le> offset'"
    using run find_next_loop_ge [of o1 bitmask] unfolding step
    by (cases inv) (auto simp: find_next_offset_unbounded_def Let_def split: if_splits)
  ultimately show ?thesis by simp
qed

function visitor_loop ::
  "bool \<Rightarrow> isa \<Rightarrow> ('s, unit) dispatch \<Rightarrow> 's \<Rightarrow> bytes \<Rightarrow> bytes \<Rightarrow> nat \<Rightarrow> (nat \<times> 's) option" where
  "visitor_loop FAST_PATH isa dispatch state code bitmask offset =
    (if (if FAST_PATH then offset + 32 \<le> length code else offset < length code) then
       (case visitor_step_runner FAST_PATH isa dispatch state code bitmask offset of
          None \<Rightarrow> None
        | Some (offset, state) \<Rightarrow> visitor_loop FAST_PATH isa dispatch state code bitmask offset)
     else Some (offset, state))"
  by pat_completeness auto
termination
  by (relation "measure (\<lambda>(fast, isa, dispatch, state, code, bitmask, offset). length code - offset)")
    (auto dest: visitor_step_runner_progress split: if_splits)

declare visitor_loop.simps [simp del]

definition visitor_run :: "isa \<Rightarrow> ('s, unit) dispatch \<Rightarrow> 's \<Rightarrow> bytes \<Rightarrow> bytes \<Rightarrow> 's option" where
  "visitor_run isa dispatch state code bitmask =
    (let (offset, state) =
       (if \<not> get_bit_for_offset bitmask (length code) 0 then
          let state = snd (visitor_step_invalid_instruction dispatch state 0)
          in (find_next_offset_unbounded bitmask (length code) 0, state)
        else (0, state))
     in case visitor_loop True isa dispatch state code bitmask offset of
          None \<Rightarrow> None
        | Some (offset, state) \<Rightarrow>
            map_option snd (visitor_loop False isa dispatch state code bitmask offset))"

section \<open>What a run visits\<close>

text \<open>The specification: a run is a fold of the visitor over a list of events, the arguments of
  \<open>dispatch\<close>. There is one event per marked offset, with the opcode byte, the 16 bytes after it and
  the distance to the next marked offset, and an event for an invalid instruction where the code
  has none to continue with.\<close>

type_synonym event = "nat \<times> u128 \<times> nat \<times> nat"

definition code_ok :: "bytes \<Rightarrow> bytes \<Rightarrow> bool" where
  "code_ok code bm \<longleftrightarrow> length bm = (length code + 7) div 8"

fun visit :: "('s, 'r) dispatch \<Rightarrow> event \<Rightarrow> 's \<Rightarrow> 's" where
  "visit dispatch (opc, chunk, offset, skip) s = snd (dispatch s opc chunk offset skip)"

definition args_chunk :: "bytes \<Rightarrow> nat \<Rightarrow> u128" where
  "args_chunk code offset = from_le_bytes (take 16 (drop (offset + 1) code))"

definition skip_at :: "bytes \<Rightarrow> bytes \<Rightarrow> nat \<Rightarrow> nat" where
  "skip_at code bm offset = skip_to_next bm (length code) (offset + 1)"

definition following :: "bytes \<Rightarrow> bytes \<Rightarrow> nat \<Rightarrow> nat" where
  "following code bm offset =
    (case next_start bm (offset + 1) of Some n \<Rightarrow> min n (length code) | None \<Rightarrow> length code)"

definition slow_anomaly :: "bytes \<Rightarrow> nat \<Rightarrow> bool" where
  "slow_anomaly bm offset \<longleftrightarrow> offset mod 8 = 7 \<and> next_start bm (offset + 1) = Some (offset + 25)"

definition invalid_after :: "isa \<Rightarrow> bytes \<Rightarrow> bytes \<Rightarrow> nat \<Rightarrow> bool" where
  "invalid_after isa code bm offset \<longleftrightarrow>
    (if offset + 32 \<le> length code then next_is_invalid bm (length code) (offset + 1)
     else (next_is_invalid bm (length code) (offset + 1) \<or> slow_anomaly bm offset) \<and>
       (offset + skip_at code bm offset + 1 < length code \<or>
        can_fallthrough (opcode_or_trap isa (code ! offset))))"

definition events_at :: "isa \<Rightarrow> bytes \<Rightarrow> bytes \<Rightarrow> nat \<Rightarrow> event list" where
  "events_at isa code bm offset =
    (unat (code ! offset), args_chunk code offset, offset, skip_at code bm offset) #
    (if invalid_after isa code bm offset
     then [(INVALID_INSTRUCTION_INDEX, 0, offset + skip_at code bm offset + 1, 0)] else [])"

definition events_from :: "isa \<Rightarrow> bytes \<Rightarrow> bytes \<Rightarrow> nat \<Rightarrow> event list" where
  "events_from isa code bm offset =
    concat (map (events_at isa code bm) (filter (bit_at bm) [offset..<length code]))"

lemma code_ok_len: "code_ok code bm \<Longrightarrow> length code \<le> 8 * length bm"
  by (simp add: code_ok_def)

lemma slow_args_chunk:
  assumes "offset < length code"
  shows "from_le_bytes (drop 1 (take (min (offset + 17) (length code) - offset) (drop offset code))
      @ replicate k 0) = args_chunk code offset"
proof -
  have "drop 1 (take (min (offset + 17) (length code) - offset) (drop offset code)) =
      take 16 (drop (offset + 1) code)"
    using assms by (cases "offset + 17 \<le> length code") (simp_all add: drop_take)
  then show ?thesis by (simp add: from_le_bytes_append_zeros args_chunk_def)
qed

lemma visitor_step_slow_eq:
  assumes "code_ok code bm" "offset < length code"
  shows "visitor_step_slow isa dispatch s code bm offset =
    (let (r, s') = dispatch s (unat (code ! offset)) (args_chunk code offset) offset (skip_at code bm offset)
     in ((offset + skip_at code bm offset + 1, r,
          (next_is_invalid bm (length code) (offset + 1) \<or> slow_anomaly bm offset) \<and>
          (offset + skip_at code bm offset + 1 < length code \<or>
           can_fallthrough (opcode_or_trap isa (code ! offset)))), s'))"
proof -
  have "take (min (offset + 17) (length code) - offset) (drop offset code) ! 0 = code ! offset"
    using assms(2) by simp
  then show ?thesis
    using assms(2) slow_args_chunk [OF assms(2)] parse_bitmask_slow_spec [OF code_ok_len [OF assms(1)], of offset]
    unfolding visitor_step_slow_def Let_def
    by (auto simp: skip_at_def slow_anomaly_def not_le split: prod.split)
qed

lemma visitor_step_fast_eq:
  assumes "code_ok code bm" "offset + 32 \<le> length code"
  shows "visitor_step_fast dispatch s code bm offset =
    (let (r, s') = dispatch s (unat (code ! offset)) (args_chunk code offset) offset (skip_at code bm offset)
     in Some ((offset + skip_at code bm offset + 1, r, next_is_invalid bm (length code) (offset + 1)), s'))"
proof -
  note slow = parse_bitmask_slow_spec [OF code_ok_len [OF assms(1)], of offset]
  note fast = fast_slow_parsers [OF assms(1) [unfolded code_ok_def] assms(2)]
  have skip: "parse_bitmask_fast bm offset = Some (skip_at code bm offset)"
    using fast(1) slow by (simp add: skip_at_def)
  have inv: "(skip_at code bm offset = 24 \<and>
      \<not> get_bit_for_offset bm (length code) (offset + skip_at code bm offset + 1)) =
      next_is_invalid bm (length code) (offset + 1)"
  proof (cases "slow_anomaly bm offset")
    case True
    then have n: "next_start bm (offset + 1) = Some (offset + 25)" by (simp add: slow_anomaly_def)
    then have "bit_at bm (offset + 25)" by (simp add: next_start_Some)
    with n assms(2) show ?thesis
      by (auto simp: next_is_invalid_def get_bit_for_offset_eq BITMASK_MAX_def add.commute)
  next
    case False
    then show ?thesis
      using fast(3) slow by (auto simp: skip_at_def slow_anomaly_def ac_simps)
  qed
  have "slice_get code offset (offset + 32) = Some (take 32 (drop offset code))"
    using assms(2) by (simp add: slice_get_def)
  moreover have "take 16 (drop 1 (take 32 (drop offset code))) = take 16 (drop (offset + 1) code)"
    by (simp add: drop_take min_def)
  moreover have "take 32 (drop offset code) ! 0 = code ! offset" using assms(2) by simp
  ultimately show ?thesis
    unfolding visitor_step_fast_def skip inv args_chunk_def
    by (simp add: inv [simplified] Let_def args_chunk_def split: prod.split)
qed

lemma next_start_ge: "next_start bm o1 = Some n \<Longrightarrow> o1 \<le> n"
  by (simp add: next_start_Some)

lemma next_start_bit: "next_start bm o1 = Some n \<Longrightarrow> bit_at bm n"
  by (simp add: next_start_Some)

lemma skip_at_following:
  assumes "offset < length code"
  shows "offset + skip_at code bm offset + 1 = min (following code bm offset) (offset + 25)"
    and "offset < following code bm offset"
  using assms next_start_ge [of bm "offset + 1"]
  by (cases "next_start bm (offset + 1)";
      fastforce simp: skip_at_def skip_to_next_def following_def BITMASK_MAX_def)+

lemma find_next_after_skip:
  assumes "code_ok code bm" "offset < length code"
  shows "find_next_offset_unbounded bm (length code) (offset + skip_at code bm offset + 1) =
    following code bm offset"
proof -
  define o2 where "o2 = offset + skip_at code bm offset + 1"
  have o2: "o2 = min (following code bm offset) (offset + 25)" "offset < o2"
    using skip_at_following [OF assms(2)] unfolding o2_def by simp_all
  have "min (length code) (find_next_loop bm o2) = following code bm offset"
  proof (cases "next_start bm (offset + 1)")
    case None
    then have "next_start bm o2 = None" using o2(2) by (simp add: next_start_None)
    with None show ?thesis
      using code_ok_len [OF assms(1)] by (simp add: find_next_loop_spec following_def)
  next
    case (Some n)
    then have le: "o2 \<le> min n (length code)" using o2(1) by (auto simp: following_def)
    with Some o2(2) have "next_start bm o2 = Some n" by (simp add: next_start_Some)
    with Some le show ?thesis by (simp add: find_next_loop_spec following_def)
  qed
  then show ?thesis by (simp add: find_next_offset_unbounded_def o2_def)
qed

lemma skip_is_following:
  assumes "offset < length code" "\<not> next_is_invalid bm (length code) (offset + 1)"
  shows "offset + skip_at code bm offset + 1 = following code bm offset"
  using assms next_start_ge [of bm "offset + 1"]
  by (cases "next_start bm (offset + 1)")
    (auto simp: skip_at_def skip_to_next_def following_def next_is_invalid_def BITMASK_MAX_def)

lemma visitor_step_runner_eq:
  assumes ok: "code_ok code bm" and offset: "offset < length code"
    and path: "fast = (offset + 32 \<le> length code)"
  shows "visitor_step_runner fast isa dispatch s code bm offset =
    Some (following code bm offset, fold (visit dispatch) (events_at isa code bm offset) s)"
proof -
  define o2 where "o2 = offset + skip_at code bm offset + 1"
  define d where "d = dispatch s (unat (code ! offset)) (args_chunk code offset) offset (skip_at code bm offset)"
  have step: "(if fast then visitor_step_fast dispatch s code bm offset
      else Some (visitor_step_slow isa dispatch s code bm offset)) =
      Some ((o2, fst d, invalid_after isa code bm offset), snd d)"
    using visitor_step_fast_eq [OF ok, of offset dispatch s] visitor_step_slow_eq [OF ok offset, of isa dispatch s] path
    unfolding d_def [symmetric] o2_def [symmetric]
    by (cases fast) (simp_all add: invalid_after_def o2_def case_prod_beta')
  have le: "o2 \<le> following code bm offset" "following code bm offset \<le> length code"
    using skip_at_following(1) [OF offset, of bm] by (auto simp: o2_def following_def split: option.split)
  have events: "fold (visit dispatch) (events_at isa code bm offset) s =
      (if invalid_after isa code bm offset then snd (visitor_step_invalid_instruction dispatch (snd d) o2)
       else snd d)"
    by (simp add: events_at_def visitor_step_invalid_instruction_def d_def o2_def)
  have "o2 = following code bm offset" if "\<not> (invalid_after isa code bm offset \<and> o2 < length code)"
  proof (cases "next_is_invalid bm (length code) (offset + 1)")
    case True
    then have "length code \<le> o2"
      using that by (auto simp: invalid_after_def o2_def split: if_splits)
    with le show ?thesis by simp
  next
    case False
    then show ?thesis using skip_is_following [OF offset] by (simp add: o2_def)
  qed
  then show ?thesis
    using find_next_after_skip [OF ok offset]
    unfolding visitor_step_runner_def step events o2_def [symmetric]
    by (auto simp: Let_def)
qed

lemma filter_starts_step:
  assumes "bit_at bm offset" "offset < length code"
  shows "filter (bit_at bm) [offset..<length code] =
    offset # filter (bit_at bm) [following code bm offset..<length code]"
proof -
  define f where "f = following code bm offset"
  have f: "offset < f" "f \<le> length code"
    using skip_at_following(2) [OF assms(2), of bm] by (auto simp: f_def following_def split: option.split)
  have "[offset..<length code] = offset # [Suc offset..<f] @ [f..<length code]"
    using f assms(2) upt_add_eq_append [of "Suc offset" f "length code - f"] by (simp add: upt_conv_Cons)
  moreover have "filter (bit_at bm) [Suc offset..<f] = []"
    unfolding f_def following_def
    by (auto simp: filter_empty_conv next_start_Some next_start_None split: option.splits)
  ultimately show ?thesis using assms(1) by (simp add: f_def)
qed

lemma following_start:
  "following code bm offset < length code \<Longrightarrow> bit_at bm (following code bm offset)"
  by (cases "next_start bm (offset + 1)") (auto simp: following_def min_def next_start_bit split: if_splits)

lemma events_from_step:
  "bit_at bm offset \<Longrightarrow> offset < length code \<Longrightarrow>
    events_from isa code bm offset = events_at isa code bm offset @ events_from isa code bm (following code bm offset)"
  by (simp add: events_from_def filter_starts_step)

lemma events_from_end: "length code \<le> offset \<Longrightarrow> events_from isa code bm offset = []"
  by (simp add: events_from_def)

lemma visitor_loop_slow:
  assumes "code_ok code bm" "length code < offset + 32" "offset < length code \<longrightarrow> bit_at bm offset"
  shows "\<exists>offset'. visitor_loop False isa dispatch s code bm offset =
    Some (offset', fold (visit dispatch) (events_from isa code bm offset) s)"
  using assms(2,3)
proof (induction "length code - offset" arbitrary: offset s rule: less_induct)
  case less
  show ?case
  proof (cases "offset < length code")
    case True
    note f = skip_at_following(2) [OF True, of bm]
    have "visitor_step_runner False isa dispatch s code bm offset =
        Some (following code bm offset, fold (visit dispatch) (events_at isa code bm offset) s)"
      using visitor_step_runner_eq [OF assms(1) True, of False] less.prems(1) by simp
    moreover have "\<exists>offset'. visitor_loop False isa dispatch (fold (visit dispatch) (events_at isa code bm offset) s)
        code bm (following code bm offset) = Some (offset', fold (visit dispatch)
          (events_from isa code bm (following code bm offset)) (fold (visit dispatch) (events_at isa code bm offset) s))"
      using f True less.prems(1) following_start [of code bm offset] by (intro less.hyps) simp_all
    ultimately show ?thesis
      using True less.prems(2) by (subst visitor_loop.simps) (simp add: events_from_step)
  next
    case False
    then show ?thesis by (subst visitor_loop.simps) (simp add: events_from_end)
  qed
qed

lemma visitor_loop_fast:
  assumes "code_ok code bm" "offset < length code \<longrightarrow> bit_at bm offset"
  shows "\<exists>offset' s'. visitor_loop True isa dispatch s code bm offset = Some (offset', s') \<and>
    length code < offset' + 32 \<and> (offset' < length code \<longrightarrow> bit_at bm offset') \<and>
    fold (visit dispatch) (events_from isa code bm offset) s =
      fold (visit dispatch) (events_from isa code bm offset') s'"
  using assms(2)
proof (induction "length code - offset" arbitrary: offset s rule: less_induct)
  case less
  show ?case
  proof (cases "offset + 32 \<le> length code")
    case True
    then have inside: "offset < length code" by simp
    note f = skip_at_following(2) [OF inside, of bm]
    define s1 where "s1 = fold (visit dispatch) (events_at isa code bm offset) s"
    have "visitor_step_runner True isa dispatch s code bm offset = Some (following code bm offset, s1)"
      using visitor_step_runner_eq [OF assms(1) inside, of True] True by (simp add: s1_def)
    then have "visitor_loop True isa dispatch s code bm offset =
        visitor_loop True isa dispatch s1 code bm (following code bm offset)"
      using True by (subst visitor_loop.simps) simp
    moreover have "fold (visit dispatch) (events_from isa code bm offset) s =
        fold (visit dispatch) (events_from isa code bm (following code bm offset)) s1"
      using less.prems inside by (simp add: events_from_step s1_def)
    ultimately show ?thesis
      using f inside following_start [of code bm offset]
        less.hyps [of "following code bm offset" s1] by simp
  next
    case False
    then show ?thesis using less.prems by (subst visitor_loop.simps) simp
  qed
qed

text \<open>C24: A run over the code never panics and ends, whatever the visitor and the bitmask: it dispatches
  exactly the marked offsets, in ascending order, each with its opcode byte, its 16 argument bytes and
  the distance to the next marked offset, and an invalid instruction where there is none to continue
  with (before the first, and after one that nothing within reach follows). The result does not depend
  on where the fast steps give way to the slow ones, apart from \<open>slow_anomaly\<close>.\<close>
theorem visitor_run_visits:
  assumes "code_ok code bm"
  shows "visitor_run isa dispatch s code bm = Some (fold (visit dispatch)
    ((if bit_at bm 0 then [] else [(INVALID_INSTRUCTION_INDEX, 0, 0, 0)]) @ events_from isa code bm 0) s)"
proof -
  define start where "start = (if bit_at bm 0 then 0 else find_next_offset_unbounded bm (length code) 0)"
  define s0 where "s0 = (if bit_at bm 0 then s else snd (visitor_step_invalid_instruction dispatch s 0))"
  have start: "start = (case next_start bm 0 of Some n \<Rightarrow> min n (length code) | None \<Rightarrow> length code)"
    if "\<not> bit_at bm 0"
    using that code_ok_len [OF assms]
    by (simp add: start_def find_next_offset_unbounded_def find_next_loop_spec min.commute split: option.split)
  have marked: "start < length code \<longrightarrow> bit_at bm start"
    using start next_start_bit [of bm 0]
    by (cases "bit_at bm 0"; cases "next_start bm 0") (auto simp: start_def min_def split: if_splits)
  have skipped: "events_from isa code bm 0 = events_from isa code bm start"
  proof (cases "bit_at bm 0")
    case False
    have "start \<le> length code" "\<And>i. i < start \<Longrightarrow> \<not> bit_at bm i"
      using start [OF False] by (auto simp: next_start_Some next_start_None split: option.splits)
    then have "filter (bit_at bm) [0..<length code] = filter (bit_at bm) [start..<length code]"
      using upt_add_eq_append [of 0 start "length code - start"] by (simp add: filter_empty_conv)
    then show ?thesis by (simp add: events_from_def)
  qed (simp add: start_def)
  have run: "visitor_run isa dispatch s code bm =
      (case visitor_loop True isa dispatch s0 code bm start of
         None \<Rightarrow> None
       | Some (offset, state) \<Rightarrow> map_option snd (visitor_loop False isa dispatch state code bm offset))"
    by (simp add: visitor_run_def start_def s0_def get_bit_for_offset_eq)
  obtain o1 s1 where fast: "visitor_loop True isa dispatch s0 code bm start = Some (o1, s1)"
    and o1: "length code < o1 + 32" "o1 < length code \<longrightarrow> bit_at bm o1"
    and same: "fold (visit dispatch) (events_from isa code bm start) s0 =
      fold (visit dispatch) (events_from isa code bm o1) s1"
    using visitor_loop_fast [OF assms marked, of isa dispatch s0] by (elim exE conjE) (rule that)
  obtain o2 where slow: "visitor_loop False isa dispatch s1 code bm o1 =
      Some (o2, fold (visit dispatch) (events_from isa code bm o1) s1)"
    using visitor_loop_slow [OF assms o1(1) o1(2), of isa dispatch s1] by (elim exE) (rule that)
  have "visitor_run isa dispatch s code bm = Some (fold (visit dispatch) (events_from isa code bm start) s0)"
    unfolding run fast same by (simp add: slow)
  then show ?thesis
    by (simp add: skipped s0_def visitor_step_invalid_instruction_def)
qed

text \<open>A \<open>trap\<close>, then a \<open>jump\<close> with one byte of arguments: nothing follows either.\<close>
theorem visitor_run_visits_witness:
  "visitor_run ISA_JamV1 (\<lambda>s opc chunk offset skip. ((), s @ [(opc, chunk, offset, skip)])) [] [0, 40, 5] [3] =
    Some [(0, 0x528, 0, 0), (40, 5, 1, 1)]"
proof -
  have n: "next_start [3] (Suc 0) = Some (Suc 0)" "next_start [3] (Suc (Suc 0)) = None"
    by (simp_all add: next_start_def upt_rec bit_at_def)
  then have skip: "skip_at [0, 40, 5] [3] 0 = 0" "skip_at [0, 40, 5] [3] (Suc 0) = 1"
    by (simp_all add: skip_at_def skip_to_next_def BITMASK_MAX_def)
  have "opcode_from_u8 ISA_JamV1 40 = Some (O_offset jump)"
    unfolding jam_v1.opcode_from_u8_iff by (simp add: ISA_JamV1_def JamV1_offset_def)
  with n have inv: "\<not> invalid_after ISA_JamV1 [0, 40, 5] [3] 0" "\<not> invalid_after ISA_JamV1 [0, 40, 5] [3] (Suc 0)"
    by (simp_all add: invalid_after_def skip next_is_invalid_def slow_anomaly_def BITMASK_MAX_def
        opcode_or_trap_def can_fallthrough_def)
  have "events_from ISA_JamV1 [0, 40, 5] [3] 0 = [(0, 0x528, 0, 0), (40, 5, 1, 1)]"
    by (simp add: events_from_def bit_at_def events_at_def inv skip args_chunk_def)
  then show ?thesis
    using visitor_run_visits [of "[0, 40, 5]" "[3]" ISA_JamV1
        "\<lambda>s opc chunk offset skip. ((), s @ [(opc, chunk, offset, skip)])" "[]"]
    by (simp add: code_ok_def bit_at_def)
qed

section \<open>The iterator\<close>

definition parse_instruction_at ::
  "isa \<Rightarrow> bytes \<Rightarrow> bytes \<Rightarrow> nat \<Rightarrow> (nat \<times> Instruction \<times> bool) option" where
  "parse_instruction_at isa code bitmask offset =
    (let dispatch = (\<lambda>_ opc chunk offset skip. (parse_instruction isa opc chunk (word_of_nat offset) skip, ()))
     in if offset + 32 \<le> length code
        then map_option fst (visitor_step_fast dispatch () code bitmask offset)
        else Some (fst (visitor_step_slow isa dispatch () code bitmask offset)))"

record Instructions =
  i_code :: bytes
  i_bitmask :: bytes
  i_offset :: nat
  invalid_offset :: "nat option"
  is_bounded :: bool
  is_done :: bool
  i_instruction_set :: isa

record ParsedInstruction =
  kind :: Instruction
  p_offset :: nat
  next_offset :: nat

definition u32_MAX :: nat where
  "u32_MAX = 2 ^ 32 - 1"

definition Instructions_new :: "isa \<Rightarrow> bytes \<Rightarrow> bytes \<Rightarrow> nat \<Rightarrow> bool \<Rightarrow> Instructions option" where
  "Instructions_new isa code bitmask offset bounded =
    (if \<not> (length code \<le> u32_MAX \<and> length bitmask = (length code + 7) div 8) then None
     else
       let is_valid = get_bit_for_offset bitmask (length code) offset
       in map_option (\<lambda>(offset, invalid, done).
            \<lparr>i_code = code, i_bitmask = bitmask, i_offset = offset, invalid_offset = invalid,
             is_bounded = bounded, is_done = done, i_instruction_set = isa\<rparr>)
            (if is_valid then Some (offset, None, False)
             else if bounded then
               if offset = u32_MAX then Some (u32_MAX, None, True)
               else Some (min (offset + 1) (length code), Some offset, True)
             else map_option (\<lambda>next_offset. (next_offset, Some offset, False))
                    (find_next_offset_u32 bitmask (length code) offset)))"

definition Instructions_offset :: "Instructions \<Rightarrow> nat" where
  "Instructions_offset it = (case invalid_offset it of Some offset \<Rightarrow> offset | None \<Rightarrow> i_offset it)"

definition Instructions_next :: "Instructions \<Rightarrow> (ParsedInstruction option \<times> Instructions) option" where
  "Instructions_next it =
    (case invalid_offset it of
       Some offset \<Rightarrow>
         Some (Some \<lparr>kind = invalid, p_offset = offset, next_offset = i_offset it\<rparr>,
               it\<lparr>invalid_offset := None\<rparr>)
     | None \<Rightarrow>
         if is_done it \<or> i_offset it \<ge> length (i_code it) then Some (None, it)
         else
           (case parse_instruction_at (i_instruction_set it) (i_code it) (i_bitmask it) (i_offset it) of
              None \<Rightarrow> None
            | Some (next, instruction, is_next_instruction_invalid) \<Rightarrow>
                let code_len = length (i_code it);
                    it' =
                      (if \<not> is_next_instruction_invalid then Some (it\<lparr>i_offset := next\<rparr>)
                       else
                         map_option (\<lambda>it.
                           if can_fallthrough (opcode instruction)
                           then it\<lparr>invalid_offset := Some next\<rparr> else it)
                           (if next = code_len then Some (it\<lparr>i_offset := (code_len + 1) mod 2 ^ 32\<rparr>)
                            else if is_bounded it then
                              if can_fallthrough (opcode instruction)
                              then Some (it\<lparr>is_done := True, i_offset := code_len\<rparr>)
                              else Some (it\<lparr>is_done := True, i_offset := next\<rparr>)
                            else map_option (\<lambda>next_offset. it\<lparr>i_offset := next_offset\<rparr>)
                                   (find_next_offset_u32 (i_bitmask it) code_len next)))
                in map_option (\<lambda>it'.
                     (Some \<lparr>kind = instruction, p_offset = i_offset it, next_offset = next\<rparr>, it')) it'))"

definition Instructions_size_hint :: "Instructions \<Rightarrow> nat \<times> nat option" where
  "Instructions_size_hint it =
    (0, Some (length (i_code it) - min (Instructions_offset it) (length (i_code it))))"

text \<open>What a \<open>for\<close> loop over the iterator sees; \<open>None\<close> when it panics or is not exhausted within the
  fuel.\<close>

fun Instructions_collect :: "nat \<Rightarrow> Instructions \<Rightarrow> ParsedInstruction list option" where
  "Instructions_collect 0 it = None"
| "Instructions_collect (Suc n) it =
    (case Instructions_next it of
       None \<Rightarrow> None
     | Some (None, it) \<Rightarrow> Some []
     | Some (Some p, it) \<Rightarrow> map_option ((#) p) (Instructions_collect n it))"

subsection \<open>What the iterator yields\<close>

definition instruction_at :: "isa \<Rightarrow> bytes \<Rightarrow> bytes \<Rightarrow> nat \<Rightarrow> Instruction" where
  "instruction_at isa code bm offset =
    parse_instruction isa (unat (code ! offset)) (args_chunk code offset) (word_of_nat offset)
      (skip_at code bm offset)"

text \<open>The instruction at a marked offset, and the implicit trap after it where the code has nothing
  to fall through to.\<close>

definition items_at :: "isa \<Rightarrow> bytes \<Rightarrow> bytes \<Rightarrow> bool \<Rightarrow> nat \<Rightarrow> ParsedInstruction list" where
  "items_at isa code bm bounded offset =
    (let i = instruction_at isa code bm offset;
         next = offset + skip_at code bm offset + 1
     in \<lparr>kind = i, p_offset = offset, next_offset = next\<rparr> #
        (if invalid_after isa code bm offset \<and> can_fallthrough (opcode i)
         then [\<lparr>kind = invalid, p_offset = next, next_offset =
           (if next = length code then length code + 1
            else if bounded then length code else following code bm offset)\<rparr>]
         else []))"

text \<open>A bounded walk stops where the code has a hole.\<close>

fun walk_items :: "isa \<Rightarrow> bytes \<Rightarrow> bytes \<Rightarrow> bool \<Rightarrow> nat list \<Rightarrow> ParsedInstruction list" where
  "walk_items isa code bm bounded [] = []"
| "walk_items isa code bm bounded (offset # offsets) =
    items_at isa code bm bounded offset @
    (if bounded \<and> invalid_after isa code bm offset then []
     else walk_items isa code bm bounded offsets)"

definition items_from :: "isa \<Rightarrow> bytes \<Rightarrow> bytes \<Rightarrow> bool \<Rightarrow> nat \<Rightarrow> ParsedInstruction list" where
  "items_from isa code bm bounded offset =
    walk_items isa code bm bounded (filter (bit_at bm) [offset..<length code])"

text \<open>The offsets of a walk fit into 32 bits. A walk moves one past the end of the code; the search of an
  unbounded one rounds the end up to a multiple of eight.\<close>

definition walk_fits :: "bytes \<Rightarrow> bool \<Rightarrow> bool" where
  "walk_fits code bounded \<longleftrightarrow> length code + (if bounded then 1 else 7) < 2 ^ 32"

lemma walk_fits_end: "walk_fits code bounded \<Longrightarrow> (length code + 1) mod 2 ^ 32 = length code + 1"
  by (simp add: walk_fits_def split: if_splits)

lemma walk_fits_search:
  "walk_fits code False \<Longrightarrow> code_ok code bm \<Longrightarrow>
    find_next_offset_u32 bm (length code) offset = Some (find_next_offset_unbounded bm (length code) offset)"
  by (rule find_next_offset_u32_eq) (auto simp: walk_fits_def code_ok_def)

lemma walk_fits_u32: "walk_fits code bounded \<Longrightarrow> length code \<le> u32_MAX"
  by (simp add: walk_fits_def u32_MAX_def split: if_splits)

lemma parse_instruction_at_eq:
  assumes "code_ok code bm" "offset < length code"
  shows "parse_instruction_at isa code bm offset =
    Some (offset + skip_at code bm offset + 1, instruction_at isa code bm offset,
      invalid_after isa code bm offset)"
  by (simp add: parse_instruction_at_def instruction_at_def invalid_after_def
      visitor_step_fast_eq [OF assms(1)] visitor_step_slow_eq [OF assms])

abbreviation iterator :: "isa \<Rightarrow> bytes \<Rightarrow> bytes \<Rightarrow> bool \<Rightarrow> nat \<Rightarrow> nat option \<Rightarrow> bool \<Rightarrow> Instructions" where
  "iterator isa code bm bounded offset pend done \<equiv>
    \<lparr>i_code = code, i_bitmask = bm, i_offset = offset, invalid_offset = pend, is_bounded = bounded,
     is_done = done, i_instruction_set = isa\<rparr>"

lemma collect_done:
  assumes "done \<or> length code \<le> offset"
  shows "0 < fuel \<Longrightarrow> Instructions_collect fuel (iterator isa code bm bounded offset None done) = Some []"
    and "1 < fuel \<Longrightarrow> Instructions_collect fuel (iterator isa code bm bounded offset (Some o2) done) =
      Some [\<lparr>kind = invalid, p_offset = o2, next_offset = offset\<rparr>]"
proof -
  show 1: "Instructions_collect fuel (iterator isa code bm bounded offset None done) = Some []" if "0 < fuel" for fuel
    using that assms by (cases fuel) (auto simp: Instructions_next_def)
  show "Instructions_collect fuel (iterator isa code bm bounded offset (Some o2) done) =
      Some [\<lparr>kind = invalid, p_offset = o2, next_offset = offset\<rparr>]" if "1 < fuel"
    using that 1 [of "fuel - 1"] by (cases fuel) (auto simp: Instructions_next_def)
qed

lemma collect_invalid:
  "Instructions_collect (Suc fuel) (iterator isa code bm bounded offset (Some o2) done) =
    map_option ((#) \<lparr>kind = invalid, p_offset = o2, next_offset = offset\<rparr>)
      (Instructions_collect fuel (iterator isa code bm bounded offset None done))"
  by (simp add: Instructions_next_def)

lemma next_at_start:
  fixes isa :: isa and bounded :: bool
  assumes "code_ok code bm" "offset < length code" "walk_fits code bounded"
  defines "next \<equiv> offset + skip_at code bm offset + 1"
    and "i \<equiv> instruction_at isa code bm offset"
  shows "Instructions_next (iterator isa code bm bounded offset None False) =
    Some (Some \<lparr>kind = i, p_offset = offset, next_offset = next\<rparr>,
      (if \<not> invalid_after isa code bm offset then iterator isa code bm bounded next None False
       else
         let pend = (if can_fallthrough (opcode i) then Some next else None)
         in if next = length code then iterator isa code bm bounded (length code + 1) pend False
            else if bounded then
              iterator isa code bm bounded (if can_fallthrough (opcode i) then length code else next) pend True
            else iterator isa code bm bounded (following code bm offset) pend False))"
  using assms(2,3) find_next_after_skip [OF assms(1,2)] walk_fits_search [OF _ assms(1)] walk_fits_end [OF assms(3)]
  unfolding Instructions_next_def next_def i_def
  by (cases bounded) (simp_all add: parse_instruction_at_eq [OF assms(1,2)] Let_def)

lemma not_invalid_after_following:
  assumes "offset < length code" "\<not> invalid_after isa code bm offset"
  shows "offset + skip_at code bm offset + 1 = following code bm offset"
proof (cases "next_is_invalid bm (length code) (offset + 1)")
  case True
  then have "length code \<le> offset + skip_at code bm offset + 1"
    using assms(2) by (auto simp: invalid_after_def split: if_splits)
  moreover have "following code bm offset \<le> length code"
    by (simp add: following_def split: option.split)
  ultimately show ?thesis using skip_at_following(1) [OF assms(1), of bm] by simp
next
  case False
  then show ?thesis using skip_is_following [OF assms(1)] by simp
qed

lemma length_items_at: "length (items_at isa code bm bounded offset) \<in> {1, 2}"
  by (simp add: items_at_def Let_def)

lemma items_from_step:
  assumes "bit_at bm offset" "offset < length code"
  shows "items_from isa code bm bounded offset = items_at isa code bm bounded offset @
    (if bounded \<and> invalid_after isa code bm offset then []
     else items_from isa code bm bounded (following code bm offset))"
  using assms by (simp add: items_from_def filter_starts_step)

lemma items_from_end: "length code \<le> offset \<Longrightarrow> items_from isa code bm bounded offset = []"
  by (simp add: items_from_def)

lemma collect_items_from:
  assumes ok: "code_ok code bm" and fits: "walk_fits code bounded"
  shows "(offset < length code \<longrightarrow> bit_at bm offset) \<Longrightarrow>
    length (items_from isa code bm bounded offset) < fuel \<Longrightarrow>
    Instructions_collect fuel (iterator isa code bm bounded offset None False) =
      Some (items_from isa code bm bounded offset)"
proof (induction "length code - offset" arbitrary: offset fuel rule: less_induct)
  case less
  show ?case
  proof (cases "offset < length code")
    case False
    then show ?thesis using less.prems(2) collect_done(1) by (simp add: items_from_end)
  next
    case True
    define nx where "nx = offset + skip_at code bm offset + 1"
    define i where "i = instruction_at isa code bm offset"
    define f where "f = following code bm offset"
    have f: "offset < f" "nx \<le> f" "f \<le> length code" "f < length code \<longrightarrow> bit_at bm f"
      using skip_at_following [OF True, of bm] following_start [of code bm offset]
      by (auto simp: f_def nx_def following_def split: option.split)
    note items = items_from_step [OF less.prems(1) [rule_format, OF True] True, where isa = isa and bounded = bounded]
    note step = next_at_start [OF ok True fits, where isa = isa, folded nx_def i_def f_def]
    have IH: "Instructions_collect fuel' (iterator isa code bm bounded f None False) =
        Some (items_from isa code bm bounded f)" if "length (items_from isa code bm bounded f) < fuel'" for fuel'
      using less.hyps [of f fuel'] f(1,4) True that by simp
    obtain fuel1 where fuel: "fuel = Suc fuel1" using less.prems(2) by (cases fuel) auto
    have len: "length (items_from isa code bm bounded offset) \<le> fuel1" using less.prems(2) fuel by simp
    have item: "items_at isa code bm bounded offset =
        \<lparr>kind = i, p_offset = offset, next_offset = nx\<rparr> #
        (if invalid_after isa code bm offset \<and> can_fallthrough (opcode i)
         then [\<lparr>kind = invalid, p_offset = nx, next_offset =
           (if nx = length code then length code + 1 else if bounded then length code else f)\<rparr>]
         else [])"
      by (simp add: items_at_def Let_def nx_def i_def f_def)
    consider (valid) "\<not> invalid_after isa code bm offset" "nx = f"
      | (last) "invalid_after isa code bm offset" "nx = length code" "f = length code"
      | (hole) "invalid_after isa code bm offset" "nx \<noteq> length code" bounded
      | (jump) "invalid_after isa code bm offset" "nx \<noteq> length code" "\<not> bounded"
      using not_invalid_after_following [OF True] f(2,3) by (force simp: nx_def f_def)
    then show ?thesis
    proof cases
      case valid
      with len have "length (items_from isa code bm bounded f) < fuel1"
        by (simp add: items item f_def [symmetric])
      then show ?thesis using valid IH by (simp add: fuel step items item f_def [symmetric])
    next
      case last
      then show ?thesis
        using len by (auto simp: fuel step items item f_def [symmetric] items_from_end collect_done)
    next
      case hole
      then show ?thesis
        using len unfolding fuel Instructions_collect.simps step items item
        by (auto simp: collect_done)
    next
      case jump
      show ?thesis
      proof (cases "can_fallthrough (opcode i)")
        case True
        have len2: "Suc (Suc (length (items_from isa code bm bounded f))) \<le> fuel1"
          using len jump True unfolding items item by (simp add: f_def [symmetric])
        then obtain fuel2 where fuel2: "fuel1 = Suc fuel2" "length (items_from isa code bm bounded f) < fuel2"
          by (cases fuel1) auto
        show ?thesis
          using jump True IH [OF fuel2(2)] unfolding fuel Instructions_collect.simps(2) step items item
          by (simp add: fuel2(1) collect_invalid f_def [symmetric] del: Instructions_collect.simps)
      next
        case False
        have "length (items_from isa code bm bounded f) < fuel1"
          using len jump False unfolding items item by (simp add: f_def [symmetric])
        then show ?thesis
          using jump False IH unfolding fuel Instructions_collect.simps(2) step items item
          by (simp add: f_def [symmetric])
      qed
    qed
  qed
qed

lemma length_walk_items: "length (walk_items isa code bm bounded offsets) \<le> 2 * length offsets"
proof (induction offsets)
  case (Cons offset offsets)
  then show ?case using length_items_at [of isa code bm bounded offset] by auto
qed simp

lemma length_items_from: "length (items_from isa code bm bounded offset) \<le> 2 * length code"
proof -
  have "length (filter (bit_at bm) [offset..<length code]) \<le> length code"
    using length_filter_le [of "bit_at bm" "[offset..<length code]"] by simp
  then show ?thesis
    using length_walk_items [of isa code bm bounded "filter (bit_at bm) [offset..<length code]"]
    unfolding items_from_def by linarith
qed

text \<open>The offset at which an unbounded walk from an unmarked offset resumes.\<close>

definition resume_at :: "bytes \<Rightarrow> bytes \<Rightarrow> nat \<Rightarrow> nat" where
  "resume_at code bm offset =
    (case next_start bm offset of Some n \<Rightarrow> min n (length code) | None \<Rightarrow> length code)"

lemma find_next_resume:
  "code_ok code bm \<Longrightarrow> find_next_offset_unbounded bm (length code) offset = resume_at code bm offset"
  using code_ok_len [of code bm]
  by (auto simp: find_next_offset_unbounded_def find_next_loop_spec resume_at_def min.commute split: option.split)

lemma resume_at_start: "resume_at code bm offset < length code \<longrightarrow> bit_at bm (resume_at code bm offset)"
  by (cases "next_start bm offset") (auto simp: resume_at_def min_def next_start_bit)

text \<open>C25: Over code whose offsets fit into 32 bits, an iterator over the instructions never panics and is
  exhausted after at most \<open>2 * code_len + 1\<close> items. The bound is the length of the code plus 1 for a bounded iterator and plus
  7 for an unbounded one; past it, but within the \<open>u32::MAX\<close> bytes that the constructor accepts, the offset wraps around. From a marked offset it yields every marked instruction after it in order,
  decoded, followed by an implicit trap where an instruction may fall through into code that is
  missing or too far away; a bounded iterator stops there, an unbounded one resumes at the next marked
  offset. From an unmarked offset it first yields an invalid instruction.\<close>
theorem Instructions_walk:
  assumes "length code + (if bounded then 1 else 7) < 2 ^ 32" "code_ok code bm"
  shows "map_option (Instructions_collect (2 * length code + 2)) (Instructions_new isa code bm offset bounded) =
    Some (Some
      (if get_bit_for_offset bm (length code) offset then items_from isa code bm bounded offset
       else if bounded then
         (if offset = u32_MAX then []
          else [\<lparr>kind = invalid, p_offset = offset, next_offset = min (offset + 1) (length code)\<rparr>])
       else \<lparr>kind = invalid, p_offset = offset, next_offset = resume_at code bm offset\<rparr> #
         items_from isa code bm bounded (resume_at code bm offset)))"
proof -
  have fits: "walk_fits code bounded" using assms(1) by (simp add: walk_fits_def)
  have new: "Instructions_new isa code bm offset bounded = Some
      (if get_bit_for_offset bm (length code) offset then iterator isa code bm bounded offset None False
       else if bounded then
         (if offset = u32_MAX then iterator isa code bm bounded u32_MAX None True
          else iterator isa code bm bounded (min (offset + 1) (length code)) (Some offset) True)
       else iterator isa code bm bounded (resume_at code bm offset) (Some offset) False)"
    using assms(2) fits walk_fits_u32 [OF fits] walk_fits_search [OF _ assms(2)] find_next_resume [OF assms(2)]
    by (cases bounded) (auto simp: Instructions_new_def code_ok_def)
  have walk: "Instructions_collect fuel (iterator isa code bm bounded o1 None False) =
      Some (items_from isa code bm bounded o1)"
    if "o1 < length code \<longrightarrow> bit_at bm o1" "2 * length code + 1 \<le> fuel" for o1 fuel
    using collect_items_from [OF assms(2) fits that(1)] length_items_from [of isa code bm bounded o1] that(2)
    by simp
  have fuel: "2 * length code + 2 = Suc (2 * length code + 1)" by simp
  show ?thesis
  proof (cases "get_bit_for_offset bm (length code) offset")
    case True
    then show ?thesis
      using walk [of offset] by (simp add: new get_bit_for_offset_eq del: Instructions_collect.simps)
  next
    case False
    then show ?thesis
      using walk [OF resume_at_start order_refl]
      unfolding new fuel
      by (auto simp: collect_invalid collect_done simp del: Instructions_collect.simps)
  qed
qed

lemma next_start_one_byte: "next_start [1] (Suc 0) = None" "bit_at [1] 0"
  by (simp_all add: next_start_def upt_rec bit_at_def)

text \<open>Code that ends with a \<open>fallthrough\<close>: the implicit trap is at its end.\<close>

lemma fallthrough_items:
  "items_from ISA_JamV1 [1] [1] bounded 0 =
    [\<lparr>kind = I_argless fallthrough, p_offset = 0, next_offset = 1\<rparr>,
     \<lparr>kind = invalid, p_offset = 1, next_offset = 2\<rparr>]"
proof -
  have skip: "skip_at [1] [1] 0 = 0"
    by (simp add: skip_at_def skip_to_next_def next_start_one_byte BITMASK_MAX_def)
  have i: "instruction_at ISA_JamV1 [1] [1] 0 = I_argless fallthrough"
    by (simp add: instruction_at_def parse_instruction_def matching_arm_def ISA_JamV1_def JamV1_argless_def)
  have op: "opcode_from_u8 ISA_JamV1 1 = Some (O_argless fallthrough)"
    unfolding jam_v1.opcode_from_u8_iff by (simp add: ISA_JamV1_def JamV1_argless_def)
  then have "invalid_after ISA_JamV1 [1] [1] 0"
    by (simp add: invalid_after_def skip next_is_invalid_def next_start_one_byte opcode_or_trap_def
        can_fallthrough_def)
  then show ?thesis
    by (simp add: items_from_def next_start_one_byte items_at_def i skip can_fallthrough_def)
qed

theorem Instructions_walk_witness:
  "map_option (Instructions_collect 4) (Instructions_new ISA_JamV1 [1] [1] 0 True) =
    Some (Some [\<lparr>kind = I_argless fallthrough, p_offset = 0, next_offset = 1\<rparr>,
     \<lparr>kind = invalid, p_offset = 1, next_offset = 2\<rparr>])"
proof -
  have "2 * length [1 :: u8] + 2 = 4" "length [1 :: u8] + (if True then 1 else 7) < 2 ^ 32" "code_ok [1] [1]"
    by (simp_all add: code_ok_def)
  then show ?thesis
    using Instructions_walk [of "[1]" True "[1]" ISA_JamV1 0] next_start_one_byte
    by (simp only: fallthrough_items get_bit_for_offset_eq if_True) simp
qed

text \<open>C40: The upper bound of the iterator's \<open>size_hint\<close> is not an upper bound: for code that is a single
  \<open>fallthrough\<close> it is 1, and the iterator yields two items, the instruction and the implicit trap.\<close>
theorem size_hint_too_small:
  "\<exists>it. Instructions_new ISA_JamV1 [1] [1] 0 False = Some it \<and>
    Instructions_size_hint it = (0, Some 1) \<and>
    map_option length (Instructions_collect 4 it) = Some 2"
proof -
  have "Instructions_new ISA_JamV1 [1] [1] 0 False = Some (iterator ISA_JamV1 [1] [1] False 0 None False)"
    by (simp add: Instructions_new_def u32_MAX_def get_bit_for_offset_eq next_start_one_byte)
  moreover have "Instructions_size_hint (iterator ISA_JamV1 [1] [1] False 0 None False) = (0, Some 1)"
    by (simp add: Instructions_size_hint_def Instructions_offset_def)
  moreover have "Instructions_collect 4 (iterator ISA_JamV1 [1] [1] False 0 None False) =
      Some (items_from ISA_JamV1 [1] [1] False 0)"
    by (rule collect_items_from) (simp_all add: code_ok_def walk_fits_def next_start_one_byte fallthrough_items)
  ultimately show ?thesis by (simp add: fallthrough_items)
qed

section \<open>Basic blocks\<close>

definition is_jump_target_valid :: "isa \<Rightarrow> bytes \<Rightarrow> bytes \<Rightarrow> nat \<Rightarrow> bool" where
  "is_jump_target_valid isa code bitmask offset =
    (if \<not> get_bit_for_offset bitmask (length code) offset then False
     else if offset = 0 then True
     else
       (case get_previous_instruction_skip bitmask offset of
          None \<Rightarrow> False
        | Some skip \<Rightarrow>
            (case opcode_from_u8 isa (code ! (offset - skip - 1)) of
               None \<Rightarrow> False
             | Some opc \<Rightarrow> if \<not> starts_new_basic_block opc then False else True)))"

function find_start_loop :: "isa \<Rightarrow> bytes \<Rightarrow> bytes \<Rightarrow> nat \<Rightarrow> nat option" where
  "find_start_loop isa code bitmask offset =
    (case get_previous_instruction_skip bitmask offset of
       None \<Rightarrow> None
     | Some skip \<Rightarrow>
         let previous_offset = offset - skip - 1;
             opc = opcode_or_trap isa (code ! previous_offset)
         in if starts_new_basic_block opc then Some offset
            else if previous_offset = 0 then Some 0
            else find_start_loop isa code bitmask previous_offset)"
  by pat_completeness auto
termination
  by (relation "measure (\<lambda>(isa, code, bitmask, offset). offset)") auto

definition find_start_of_basic_block :: "isa \<Rightarrow> bytes \<Rightarrow> bytes \<Rightarrow> nat \<Rightarrow> nat option" where
  "find_start_of_basic_block isa code bitmask offset =
    (if \<not> get_bit_for_offset bitmask (length code) offset then None
     else if offset = 0 then Some 0
     else find_start_loop isa code bitmask offset)"

declare find_start_loop.simps [simp del]

text \<open>The specification: an offset starts a basic block when the instruction before it ends one; a byte
  that is no opcode counts as a \<open>trap\<close>. \<open>near\<close> says that the instruction before it is within reach
  of the backward search.\<close>

definition block_start :: "isa \<Rightarrow> bytes \<Rightarrow> bytes \<Rightarrow> nat \<Rightarrow> bool" where
  "block_start isa code bm offset \<longleftrightarrow>
    offset = 0 \<or> (\<exists>p. prev_start bm offset = Some p \<and> starts_new_basic_block (opcode_or_trap isa (code ! p)))"

definition near :: "bytes \<Rightarrow> nat \<Rightarrow> bool" where
  "near bm offset \<longleftrightarrow> offset = 0 \<or>
    (\<exists>p. prev_start bm offset = Some p \<and> offset - p - 1 \<le> previous_skip_limit offset)"

lemma bit_at_byte: "bit_at bm offset \<Longrightarrow> offset div 8 < length bm"
  by (simp add: bit_at_def)

lemma previous_skip_cases:
  assumes "bit_at bm offset" "offset \<noteq> 0"
  obtains (far) "get_previous_instruction_skip bm offset = None" "\<not> near bm offset"
  | (prev) p where "get_previous_instruction_skip bm offset = Some (offset - p - 1)" "near bm offset"
      "prev_start bm offset = Some p" "p < offset" "offset - (offset - p - 1) - 1 = p"
proof (cases "get_previous_instruction_skip bm offset")
  case None
  then show ?thesis
    using far assms get_previous_instruction_skip_spec [OF bit_at_byte [OF assms(1)]]
    by (auto simp: near_def split: option.splits if_splits)
next
  case (Some skip)
  then obtain p where "prev_start bm offset = Some p" "skip = offset - p - 1"
    "offset - p - 1 \<le> previous_skip_limit offset"
    using get_previous_instruction_skip_spec [OF bit_at_byte [OF assms(1)]]
    by (auto split: option.splits if_splits)
  moreover from this have "p < offset" by (simp add: prev_start_Some)
  ultimately show ?thesis using Some prev [of p] by (simp add: near_def)
qed

lemma find_start_loop_spec:
  assumes "bit_at bm offset" "offset \<noteq> 0"
  shows "find_start_loop isa code bm offset = Some b \<longleftrightarrow>
    b \<le> offset \<and> bit_at bm b \<and> block_start isa code bm b \<and> near bm b \<and>
    (\<forall>i. b < i \<and> i \<le> offset \<and> bit_at bm i \<longrightarrow> \<not> block_start isa code bm i \<and> near bm i)"
  using assms
proof (induction isa code bm offset rule: find_start_loop.induct)
  case (1 isa code bm offset)
  from "1.prems" show ?case
  proof (cases rule: previous_skip_cases)
    case far
    then show ?thesis
      using "1.prems" by (subst find_start_loop.simps) (auto simp: le_less)
  next
    case (prev p)
    have start: "block_start isa code bm offset \<longleftrightarrow> starts_new_basic_block (opcode_or_trap isa (code ! p))"
      using prev "1.prems" by (simp add: block_start_def)
    have p: "bit_at bm p" "\<And>i. bit_at bm i \<Longrightarrow> i < offset \<Longrightarrow> i \<le> p"
      using prev(3) by (auto simp: prev_start_Some not_le [symmetric])
    show ?thesis
    proof (cases "block_start isa code bm offset")
      case True
      then have "find_start_loop isa code bm offset = Some offset"
        using prev start by (subst find_start_loop.simps) (simp add: Let_def)
      then show ?thesis using True prev "1.prems" by (auto simp: le_less)
    next
      case False
      have between: "(\<forall>i. b < i \<and> i \<le> offset \<and> bit_at bm i \<longrightarrow> \<not> block_start isa code bm i \<and> near bm i) \<longleftrightarrow>
          (\<forall>i. b < i \<and> i \<le> p \<and> bit_at bm i \<longrightarrow> \<not> block_start isa code bm i \<and> near bm i)" if "b \<le> p"
        using p(2) prev(2,4) False by (metis le_less less_le_trans order.trans)
      have b: "b \<le> offset \<and> bit_at bm b \<and> block_start isa code bm b \<longleftrightarrow>
          b \<le> p \<and> bit_at bm b \<and> block_start isa code bm b"
        using p(2) [of b] prev(4) False by (auto simp: le_less)
      show ?thesis
      proof (cases "p = 0")
        case True
        then have "find_start_loop isa code bm offset = Some 0"
          using prev start False by (subst find_start_loop.simps) (simp add: Let_def)
        moreover have "block_start isa code bm 0" "near bm 0"
          by (simp_all add: block_start_def near_def)
        ultimately show ?thesis using b between p(1) True by auto
      next
        case False
        have "find_start_loop isa code bm offset = find_start_loop isa code bm p"
          using prev start \<open>\<not> block_start isa code bm offset\<close> False
          by (subst find_start_loop.simps) (simp add: Let_def)
        moreover have "find_start_loop isa code bm p = Some b \<longleftrightarrow>
            b \<le> p \<and> bit_at bm b \<and> block_start isa code bm b \<and> near bm b \<and>
            (\<forall>i. b < i \<and> i \<le> p \<and> bit_at bm i \<longrightarrow> \<not> block_start isa code bm i \<and> near bm i)"
          using "1.IH" [OF prev(1) refl refl] prev(5) start \<open>\<not> block_start isa code bm offset\<close> False p(1)
          by simp
        ultimately show ?thesis using b between by (cases "b \<le> p") auto
      qed
    qed
  qed
qed

lemma is_jump_target_validI:
  assumes "bit_at bm offset" "offset \<le> length code"
    and "offset \<noteq> 0 \<Longrightarrow> prev_start bm offset = Some p \<and> offset - p - 1 < BITMASK_MAX \<and>
      opcode_from_u8 isa (code ! p) = Some op \<and> starts_new_basic_block op"
  shows "is_jump_target_valid isa code bm offset"
proof (cases "offset = 0")
  case True
  then show ?thesis using assms(1) by (simp add: is_jump_target_valid_def get_bit_for_offset_eq)
next
  case False
  note p = assms(3) [OF False]
  from assms(1) False show ?thesis
    by (cases rule: previous_skip_cases)
      (use p assms(1,2) False in \<open>auto simp: is_jump_target_valid_def get_bit_for_offset_eq near_def
        previous_skip_limit_def split: if_splits\<close>)
qed

text \<open>C27: A jump target is valid exactly when an instruction is marked there and it is the first one or
  the instruction before it is within reach, has a known opcode and ends a basic block.\<close>
theorem is_jump_target_valid_iff:
  "is_jump_target_valid isa code bm offset \<longleftrightarrow>
    bit_at bm offset \<and> offset \<le> length code \<and>
    (offset = 0 \<or> (\<exists>p op. prev_start bm offset = Some p \<and> offset - p - 1 \<le> previous_skip_limit offset \<and>
       opcode_from_u8 isa (code ! p) = Some op \<and> starts_new_basic_block op))"
proof (cases "bit_at bm offset \<and> offset \<noteq> 0")
  case True
  then have "bit_at bm offset" "offset \<noteq> 0" by simp_all
  then show ?thesis
    by (cases rule: previous_skip_cases)
      (auto simp: is_jump_target_valid_def get_bit_for_offset_eq near_def split: option.split)
next
  case False
  then show ?thesis by (auto simp: is_jump_target_valid_def get_bit_for_offset_eq)
qed

text \<open>C26: \<open>find_start_of_basic_block\<close> returns the last start of a basic block at or before a marked
  offset, if every marked instruction from there on is within reach of the one after it; the start of
  the first block is 0, and an unknown opcode ends a block like a \<open>trap\<close>.\<close>
theorem find_start_of_basic_block_iff:
  "find_start_of_basic_block isa code bm offset = Some b \<longleftrightarrow>
    bit_at bm offset \<and> offset \<le> length code \<and>
    b \<le> offset \<and> bit_at bm b \<and> block_start isa code bm b \<and> near bm b \<and>
    (\<forall>i. b < i \<and> i \<le> offset \<and> bit_at bm i \<longrightarrow> \<not> block_start isa code bm i \<and> near bm i)"
proof (cases "get_bit_for_offset bm (length code) offset \<and> offset \<noteq> 0")
  case True
  then show ?thesis
    using find_start_loop_spec [of bm offset isa code b]
    by (simp add: find_start_of_basic_block_def get_bit_for_offset_eq)
next
  case False
  then show ?thesis
    by (auto simp: find_start_of_basic_block_def get_bit_for_offset_eq block_start_def near_def)
qed

theorem find_start_of_basic_block_iff_witness:
  "find_start_of_basic_block ISA_JamV1 [1, 0] [3] 1 = Some 1"
proof -
  have "opcode_from_u8 ISA_JamV1 1 = Some (O_argless fallthrough)"
    unfolding jam_v1.opcode_from_u8_iff by (simp add: ISA_JamV1_def JamV1_argless_def)
  moreover have "prev_start [3] 1 = Some 0"
    by (simp add: prev_start_def bit_at_def)
  ultimately show ?thesis
    using find_start_of_basic_block_iff [of ISA_JamV1 "[1, 0]" "[3]" 1 1]
    by (auto simp: bit_at_def block_start_def near_def opcode_or_trap_def)
qed

end
