(* ===== verification/Reader.thy ===== *)
theory Reader
  imports Varint
begin

text \<open>
  The cursor the blob parser reads with, \<open>struct Reader\<close> in \<open>crates/polkavm-common/src/program.rs\<close>,
  its errors, and the interface between what a writer appends and what a reader takes off: a \<open>codec\<close> is
  an encoder and a reading operation that gives the value back and stops behind it. A reading
  operation returns \<open>Inl\<close> the error or \<open>Inr\<close> the value and the moved cursor; after an error the
  source does not use the cursor again. Slicing at a position beyond the end panics in the source;
  \<open>reader_ok\<close> excludes that and every operation keeps it.
\<close>

datatype ProgramParseErrorKind =
    FailedToReadVarint nat
  | FailedToReadStringNonUtf nat
  | UnexpectedSection nat u8
  | UnexpectedEnd nat nat nat
  | UnsupportedVersion u8
  | Other string

record Reader =
  blob :: bytes
  position :: nat

type_synonym 'a parse_result = "ProgramParseErrorKind + 'a"

text \<open>The \<open>?\<close> operator.\<close>

definition and_then :: "'e + 'a \<Rightarrow> ('a \<Rightarrow> 'e + 'b) \<Rightarrow> 'e + 'b" where
  "and_then r f = (case r of Inl e \<Rightarrow> Inl e | Inr x \<Rightarrow> f x)"

lemma and_then_simps [simp]: "and_then (Inl e) f = Inl e" "and_then (Inr x) f = f x"
  by (simp_all add: and_then_def)

lemma and_then_Inr_iff: "and_then r f = Inr y \<longleftrightarrow> (\<exists>x. r = Inr x \<and> f x = Inr y)"
  by (cases r) simp_all

lemma and_then_cong [fundef_cong]:
  "r = r' \<Longrightarrow> (\<And>x. r' = Inr x \<Longrightarrow> f x = f' x) \<Longrightarrow> and_then r f = and_then r' f'"
  by (cases r') simp_all

text \<open>What a computation yields when it succeeds, with one rule per way to build it.\<close>

definition yields :: "'e + 'a \<Rightarrow> ('a \<Rightarrow> bool) \<Rightarrow> bool" where
  "yields r P \<longleftrightarrow> (\<forall>x. r = Inr x \<longrightarrow> P x)"

named_theorems yields_rules

lemma yields_and_then [yields_rules]:
  "(\<And>x. r = Inr x \<Longrightarrow> yields (f x) P) \<Longrightarrow> yields (and_then r f) P"
  by (auto simp: yields_def and_then_Inr_iff)

lemma yields_Inl [yields_rules]: "yields (Inl e) P"
  by (simp add: yields_def)

lemma yields_Inr [yields_rules]: "P x \<Longrightarrow> yields (Inr x) P"
  by (simp add: yields_def)

lemma yields_if [yields_rules]:
  "(b \<Longrightarrow> yields r P) \<Longrightarrow> (\<not> b \<Longrightarrow> yields s P) \<Longrightarrow> yields (if b then r else s) P"
  by simp

lemma yields_prod [yields_rules]:
  "(\<And>a b. p = (a, b) \<Longrightarrow> yields (f a b) P) \<Longrightarrow> yields (case p of (a, b) \<Rightarrow> f a b) P"
  by (cases p) simp

lemma yields_let [yields_rules]: "yields (f x) P \<Longrightarrow> yields (let y = x in f y) P"
  by simp

lemma yieldsD: "yields r P \<Longrightarrow> r = Inr x \<Longrightarrow> P x"
  by (simp add: yields_def)

definition read_slice_as_range :: "Reader \<Rightarrow> nat \<Rightarrow> ((nat \<times> nat) \<times> Reader) parse_result" where
  "read_slice_as_range reader count =
    (let rest = drop (position reader) (blob reader)
     in if length rest < count then Inl (UnexpectedEnd (position reader) count (length rest))
        else Inr ((position reader, position reader + count),
                  reader\<lparr>position := position reader + count\<rparr>))"

definition read_skip :: "Reader \<Rightarrow> nat \<Rightarrow> Reader parse_result" where
  "read_skip reader count = and_then (read_slice_as_range reader count) (\<lambda>(_, reader). Inr reader)"

definition reader_read_slice :: "Reader \<Rightarrow> nat \<Rightarrow> (bytes \<times> Reader) parse_result" where
  "reader_read_slice reader len =
    (let rest = drop (position reader) (blob reader)
     in case slice_get_to rest len of
          None \<Rightarrow> Inl (UnexpectedEnd (position reader) len (length rest))
        | Some sl \<Rightarrow> Inr (sl, reader\<lparr>position := position reader + len\<rparr>))"

definition read_byte :: "Reader \<Rightarrow> (u8 \<times> Reader) parse_result" where
  "read_byte reader = and_then (reader_read_slice reader 1) (\<lambda>(sl, reader). Inr (sl ! 0, reader))"

definition reader_read_varint :: "Reader \<Rightarrow> (u32 \<times> Reader) parse_result" where
  "reader_read_varint reader =
    and_then (read_byte reader) (\<lambda>(first_byte, reader).
      case read_varint (drop (position reader) (blob reader)) first_byte of
        None \<Rightarrow> Inl (FailedToReadVarint (position reader - 1))
      | Some (len, value) \<Rightarrow> Inr (value, reader\<lparr>position := position reader + len\<rparr>))"

definition read_bytes_with_length :: "Reader \<Rightarrow> (bytes \<times> Reader) parse_result" where
  "read_bytes_with_length reader =
    and_then (reader_read_varint reader) (\<lambda>(len, reader). reader_read_slice reader (unat len))"

text \<open>\<open>ArcBytes::subslice\<close>: a range of the bytes.\<close>

definition subslice :: "bytes \<Rightarrow> nat \<times> nat \<Rightarrow> bytes" where
  "subslice bs rng = take (snd rng - fst rng) (drop (fst rng) bs)"

definition read_slice_as_bytes :: "Reader \<Rightarrow> nat \<Rightarrow> (bytes \<times> Reader) parse_result" where
  "read_slice_as_bytes reader len =
    and_then (read_slice_as_range reader len) (\<lambda>(rng, reader).
      Inr (subslice (blob reader) rng, reader))"

text \<open>The section byte is an in-out parameter of the source, hence argument and result.\<close>

definition read_section_as_bytes :: "Reader \<Rightarrow> u8 \<Rightarrow> u8 \<Rightarrow> ((bytes \<times> u8) \<times> Reader) parse_result" where
  "read_section_as_bytes reader out_section expected_section =
    (if out_section \<noteq> expected_section then Inr (([], out_section), reader)
     else
       and_then (reader_read_varint reader) (\<lambda>(section_length, reader).
       and_then (read_slice_as_range reader (unat section_length)) (\<lambda>(rng, reader).
       and_then (read_byte reader) (\<lambda>(section, reader).
       Inr ((subslice (blob reader) rng, section), reader)))))"

section \<open>The cursor stays inside the blob\<close>

definition reader_ok :: "Reader \<Rightarrow> bool" where
  "reader_ok reader \<longleftrightarrow> position reader \<le> length (blob reader)"

text \<open>\<open>advances\<close>: the same blob, a cursor that has moved by at least \<open>n\<close> and is still inside.\<close>

definition advances :: "nat \<Rightarrow> Reader \<Rightarrow> Reader \<Rightarrow> bool" where
  "advances n reader reader' \<longleftrightarrow>
    blob reader' = blob reader \<and> position reader + n \<le> position reader' \<and> reader_ok reader'"

named_theorems reader_advances

lemma advances_trans: "advances m r r' \<Longrightarrow> advances n r' r'' \<Longrightarrow> advances (m + n) r r''"
  by (auto simp: advances_def)

lemma advances_mono: "advances m r r' \<Longrightarrow> n \<le> m \<Longrightarrow> advances n r r'"
  by (auto simp: advances_def)

lemma advances_ok: "advances n r r' \<Longrightarrow> reader_ok r'"
  by (simp add: advances_def)

lemma read_slice_advances [reader_advances]:
  "reader_read_slice r n = Inr (bs, r') \<Longrightarrow> reader_ok r \<Longrightarrow> advances n r r' \<and> length bs = n"
  by (auto simp: reader_read_slice_def slice_get_to_def advances_def reader_ok_def Let_def split: if_splits)

lemma read_slice_as_range_advances [reader_advances]:
  "read_slice_as_range r n = Inr (rng, r') \<Longrightarrow> reader_ok r \<Longrightarrow> advances n r r'"
  by (auto simp: read_slice_as_range_def advances_def reader_ok_def Let_def split: if_splits)

lemma read_byte_advances [reader_advances]:
  "read_byte r = Inr (b, r') \<Longrightarrow> reader_ok r \<Longrightarrow> advances 1 r r'"
  by (auto simp: read_byte_def and_then_Inr_iff dest: read_slice_advances)

lemma reader_read_varint_advances [reader_advances]:
  assumes "reader_read_varint r = Inr (v, r')" "reader_ok r"
  shows "advances 1 r r'"
proof -
  obtain b r1 len where b: "read_byte r = Inr (b, r1)"
    "read_varint (drop (position r1) (blob r1)) b = Some (len, v)"
    "r' = r1\<lparr>position := position r1 + len\<rparr>"
    using assms(1) unfolding reader_read_varint_def and_then_Inr_iff by (force split: option.splits)
  then show ?thesis
    using read_byte_advances [OF b(1) assms(2)] read_varint_length [OF b(2)]
    by (auto simp: advances_def reader_ok_def)
qed

lemma read_skip_advances [reader_advances]:
  "read_skip r n = Inr r' \<Longrightarrow> reader_ok r \<Longrightarrow> advances n r r'"
  by (auto simp: read_skip_def and_then_Inr_iff dest: read_slice_as_range_advances)

lemma read_slice_as_bytes_advances [reader_advances]:
  "read_slice_as_bytes r n = Inr (bs, r') \<Longrightarrow> reader_ok r \<Longrightarrow> advances n r r'"
  by (auto simp: read_slice_as_bytes_def and_then_Inr_iff dest: read_slice_as_range_advances)

lemma read_bytes_with_length_advances [reader_advances]:
  assumes "read_bytes_with_length r = Inr (bs, r')" "reader_ok r"
  shows "advances 1 r r'"
proof -
  obtain v r1 where v: "reader_read_varint r = Inr (v, r1)" "reader_read_slice r1 (unat v) = Inr (bs, r')"
    using assms(1) by (auto simp: read_bytes_with_length_def and_then_Inr_iff)
  note a1 = reader_read_varint_advances [OF v(1) assms(2)]
  show ?thesis
    using advances_trans [OF a1] read_slice_advances [OF v(2) advances_ok [OF a1]]
    by (blast intro: advances_mono le_add1)
qed

text \<open>A read moves forward even without the invariant, which makes loops over sections end.\<close>

lemma read_byte_progress:
  "read_byte r = Inr (b, r') \<Longrightarrow>
    blob r' = blob r \<and> position r < length (blob r) \<and> position r' = position r + 1"
  by (auto simp: read_byte_def and_then_Inr_iff reader_read_slice_def slice_get_to_def Let_def
      split: if_splits)

lemma reader_read_varint_progress:
  assumes "reader_read_varint r = Inr (v, r')"
  shows "blob r' = blob r \<and> position r < length (blob r) \<and> position r < position r'"
proof -
  obtain b r1 where "read_byte r = Inr (b, r1)" "blob r' = blob r1" "position r1 \<le> position r'"
    using assms unfolding reader_read_varint_def and_then_Inr_iff by (force split: option.splits)
  then show ?thesis using read_byte_progress by fastforce
qed

lemma read_skip_progress: "read_skip r n = Inr r' \<Longrightarrow> blob r' = blob r \<and> position r' = position r + n"
  by (auto simp: read_skip_def read_slice_as_range_def Let_def split: if_splits)

section \<open>Codecs\<close>

text \<open>The bytes of a varint. \<open>write_varint\<close> never fails on a buffer of five bytes.\<close>

definition varint :: "u32 \<Rightarrow> bytes" where
  "varint v = (case varint_bytes v of Some bs \<Rightarrow> bs | None \<Rightarrow> [])"

lemma varint_bytes_varint: "varint_bytes v = Some (varint v)" "varint v \<noteq> []" "length (varint v) \<le> 5"
  using varint_length_bound [of v "get_varint_length (leading_zeros v)"]
  by (auto simp: varint_def varint_bytes_alt Let_def)

text \<open>A cursor between what has been read and what follows.\<close>

definition cursor :: "bytes \<Rightarrow> bytes \<Rightarrow> Reader" where
  "cursor pre rest = \<lparr>blob = pre @ rest, position = length pre\<rparr>"

lemma cursor_simps [simp]:
  "blob (cursor pre rest) = pre @ rest" "position (cursor pre rest) = length pre"
  "cursor pre (xs @ rest) \<lparr>position := length pre + length xs\<rparr> = cursor (pre @ xs) rest"
  "cursor pre (x # rest) \<lparr>position := Suc (length pre)\<rparr> = cursor (pre @ [x]) rest"
  by (simp_all add: cursor_def)

lemma cursor_ok: "reader_ok (cursor pre rest)"
  by (simp add: reader_ok_def)

primrec read_many :: "(Reader \<Rightarrow> ('v \<times> Reader) parse_result) \<Rightarrow> nat \<Rightarrow> Reader \<Rightarrow> ('v list \<times> Reader) parse_result" where
  "read_many dec 0 reader = Inr ([], reader)"
| "read_many dec (Suc n) reader =
    and_then (dec reader) (\<lambda>(v, reader).
    and_then (read_many dec n reader) (\<lambda>(vs, reader). Inr (v # vs, reader)))"

locale codec =
  fixes enc :: "'v \<Rightarrow> bytes"
    and dec :: "Reader \<Rightarrow> ('v \<times> Reader) parse_result"
    and valid :: "'v \<Rightarrow> bool"
  assumes dec_enc: "valid v \<Longrightarrow> dec (cursor pre (enc v @ rest)) = Inr (v, cursor (pre @ enc v) rest)"
begin

lemma read_many_enc:
  "list_all valid vs \<Longrightarrow> read_many dec (length vs) (cursor pre (concat (map enc vs) @ rest)) =
    Inr (vs, cursor (pre @ concat (map enc vs)) rest)"
proof (induction vs arbitrary: pre)
  case (Cons v vs)
  then show ?case using Cons.IH [of "pre @ enc v"] by (simp add: dec_enc)
qed simp

lemma enc_inj: "valid v \<Longrightarrow> valid w \<Longrightarrow> enc v @ rest = enc w @ rest' \<Longrightarrow> v = w"
  using dec_enc [of v "[]" rest] dec_enc [of w "[]" rest'] by simp

end

definition enc_pair :: "('v \<Rightarrow> bytes) \<Rightarrow> ('w \<Rightarrow> bytes) \<Rightarrow> 'v \<times> 'w \<Rightarrow> bytes" where
  "enc_pair enc1 enc2 p = enc1 (fst p) @ enc2 (snd p)"

definition dec_pair ::
  "(Reader \<Rightarrow> ('v \<times> Reader) parse_result) \<Rightarrow> (Reader \<Rightarrow> ('w \<times> Reader) parse_result) \<Rightarrow>
    Reader \<Rightarrow> (('v \<times> 'w) \<times> Reader) parse_result" where
  "dec_pair dec1 dec2 reader =
    and_then (dec1 reader) (\<lambda>(v, reader). and_then (dec2 reader) (\<lambda>(w, reader). Inr ((v, w), reader)))"

locale codec_pair = fst: codec enc1 dec1 valid1 + snd: codec enc2 dec2 valid2
  for enc1 :: "'v \<Rightarrow> bytes" and dec1 valid1 and enc2 :: "'w \<Rightarrow> bytes" and dec2 valid2

sublocale codec_pair \<subseteq> pair: codec "enc_pair enc1 enc2" "dec_pair dec1 dec2" "\<lambda>(v, w). valid1 v \<and> valid2 w"
  by unfold_locales (auto simp: enc_pair_def dec_pair_def fst.dec_enc snd.dec_enc)

lemma read_slice_cursor:
  "n = length xs \<Longrightarrow> reader_read_slice (cursor pre (xs @ rest)) n = Inr (xs, cursor (pre @ xs) rest)"
  by (simp add: reader_read_slice_def slice_get_to_def)

lemma read_slice_as_bytes_cursor:
  "n = length xs \<Longrightarrow> read_slice_as_bytes (cursor pre (xs @ rest)) n = Inr (xs, cursor (pre @ xs) rest)"
  by (simp add: read_slice_as_bytes_def read_slice_as_range_def subslice_def)

lemma read_byte_cursor: "read_byte (cursor pre (b # rest)) = Inr (b, cursor (pre @ [b]) rest)"
  using read_slice_cursor [of 1 "[b]" pre rest] by (simp add: read_byte_def)

lemma read_varint_cursor:
  "reader_read_varint (cursor pre (varint v @ rest)) = Inr (v, cursor (pre @ varint v) rest)"
proof -
  obtain b bs where bs: "varint v = b # bs" using varint_bytes_varint(2) [of v] by (cases "varint v") auto
  then have "read_varint (bs @ rest) b = Some (length bs, v)"
    using read_varint_bytes [OF varint_bytes_varint(1), of v rest] by simp
  then show ?thesis
    using cursor_simps(3) [of "pre @ [b]" bs rest]
    by (simp add: reader_read_varint_def bs read_byte_cursor)
qed

text \<open>Bytes preceded by their length.\<close>

definition sized :: "bytes \<Rightarrow> bytes" where
  "sized bs = varint (word_of_nat (length bs)) @ bs"

definition fits_u32 :: "'a list \<Rightarrow> bool" where
  "fits_u32 xs \<longleftrightarrow> length xs < 2 ^ 32"

lemma unat_length_u32 [simp]: "fits_u32 xs \<Longrightarrow> unat (word_of_nat (length xs) :: u32) = length xs"
  by (simp add: fits_u32_def unsigned_of_nat take_bit_nat_eq_self)

interpretation byte: codec "\<lambda>b. [b]" read_byte "\<lambda>_. True"
  by unfold_locales (simp add: read_byte_cursor)

interpretation vint: codec varint reader_read_varint "\<lambda>_. True"
  by unfold_locales (simp add: read_varint_cursor)

interpretation sized: codec sized read_bytes_with_length fits_u32
  by unfold_locales (simp add: sized_def read_bytes_with_length_def read_varint_cursor read_slice_cursor)

end
