(* ===== verification/Blob.thy ===== *)
theory Blob
  imports Reader Memory_Map Code_Walk
begin

text \<open>
  Program blobs, \<open>crates/polkavm-common/src/program.rs\<close>: the container of sections
  (\<open>ProgramParts::from_bytes\<close>), the checks that turn it into a program (\<open>ProgramBlob::from_parts\<close>), and
  the accessors of what it holds: the jump table, the imports and the exports. \<open>Inl\<close> is the error that
  is returned. The counter behind \<open>unique_id\<close> and the hash of a blob are left out.
\<close>

section \<open>The container\<close>

definition BLOB_MAGIC :: bytes where
  "BLOB_MAGIC = [0x50, 0x56, 0x4D, 0]"

definition BLOB_LEN_SIZE :: nat where
  "BLOB_LEN_SIZE = 8"

definition BLOB_LEN_OFFSET :: nat where
  "BLOB_LEN_OFFSET = length BLOB_MAGIC + 1"

definition SECTION_MEMORY_CONFIG :: u8 where "SECTION_MEMORY_CONFIG = 1"
definition SECTION_RO_DATA :: u8 where "SECTION_RO_DATA = 2"
definition SECTION_RW_DATA :: u8 where "SECTION_RW_DATA = 3"
definition SECTION_IMPORTS :: u8 where "SECTION_IMPORTS = 4"
definition SECTION_EXPORTS :: u8 where "SECTION_EXPORTS = 5"
definition SECTION_CODE_AND_JUMP_TABLE :: u8 where "SECTION_CODE_AND_JUMP_TABLE = 6"
definition SECTION_OPT_DEBUG_STRINGS :: u8 where "SECTION_OPT_DEBUG_STRINGS = 128"
definition SECTION_OPT_DEBUG_LINE_PROGRAMS :: u8 where "SECTION_OPT_DEBUG_LINE_PROGRAMS = 129"
definition SECTION_OPT_DEBUG_LINE_PROGRAM_RANGES :: u8 where "SECTION_OPT_DEBUG_LINE_PROGRAM_RANGES = 130"
definition SECTION_OPT_METADATA_HASH :: u8 where "SECTION_OPT_METADATA_HASH = 131"
definition SECTION_END_OF_FILE :: u8 where "SECTION_END_OF_FILE = 0"

lemmas section_defs =
  SECTION_MEMORY_CONFIG_def SECTION_RO_DATA_def SECTION_RW_DATA_def SECTION_IMPORTS_def SECTION_EXPORTS_def
  SECTION_CODE_AND_JUMP_TABLE_def SECTION_OPT_DEBUG_STRINGS_def SECTION_OPT_DEBUG_LINE_PROGRAMS_def
  SECTION_OPT_DEBUG_LINE_PROGRAM_RANGES_def SECTION_OPT_METADATA_HASH_def SECTION_END_OF_FILE_def

record ProgramParts =
  pp_isa :: InstructionSetKind
  pp_ro_data_size :: u32
  pp_rw_data_size :: u32
  pp_stack_size :: u32
  pp_ro_data :: bytes
  pp_rw_data :: bytes
  pp_code_and_jump_table :: bytes
  pp_import_offsets :: bytes
  pp_import_symbols :: bytes
  pp_exports :: bytes
  pp_debug_strings :: bytes
  pp_debug_line_program_ranges :: bytes
  pp_debug_line_programs :: bytes
  pp_metadata_hash :: bytes

definition ProgramParts_empty :: "InstructionSetKind \<Rightarrow> ProgramParts" where
  "ProgramParts_empty isa =
    \<lparr>pp_isa = isa, pp_ro_data_size = 0, pp_rw_data_size = 0, pp_stack_size = 0, pp_ro_data = [],
     pp_rw_data = [], pp_code_and_jump_table = [], pp_import_offsets = [], pp_import_symbols = [],
     pp_exports = [], pp_debug_strings = [], pp_debug_line_program_ranges = [],
     pp_debug_line_programs = [], pp_metadata_hash = []\<rparr>"

definition read_memory_config :: "Reader \<Rightarrow> u8 \<Rightarrow> ProgramParts \<Rightarrow> ((ProgramParts \<times> u8) \<times> Reader) parse_result" where
  "read_memory_config reader section parts =
    (if section = SECTION_MEMORY_CONFIG then
       and_then (reader_read_varint reader) (\<lambda>(section_length, reader).
       let start = position reader in
       and_then (reader_read_varint reader) (\<lambda>(ro_data_size, reader).
       and_then (reader_read_varint reader) (\<lambda>(rw_data_size, reader).
       and_then (reader_read_varint reader) (\<lambda>(stack_size, reader).
       if start + unat section_length \<noteq> position reader then
         Inl (Other ''the memory config section contains more data than expected'')
       else
         and_then (read_byte reader) (\<lambda>(section, reader).
         Inr ((parts\<lparr>pp_ro_data_size := ro_data_size, pp_rw_data_size := rw_data_size,
                      pp_stack_size := stack_size\<rparr>, section), reader))))))
     else Inr ((parts, section), reader))"

definition read_imports :: "Reader \<Rightarrow> u8 \<Rightarrow> ProgramParts \<Rightarrow> ((ProgramParts \<times> u8) \<times> Reader) parse_result" where
  "read_imports reader section parts =
    (if section = SECTION_IMPORTS then
       and_then (reader_read_varint reader) (\<lambda>(section_length, reader).
       let section_start = position reader in
       and_then (reader_read_varint reader) (\<lambda>(import_count, reader).
       if import_count > VM_MAXIMUM_IMPORT_COUNT then Inl (Other ''too many imports'')
       else if \<not> unat import_count * 4 < 2 ^ 32 then Inl (Other ''the imports section is invalid'')
       else
         and_then (read_slice_as_bytes reader (unat import_count * 4)) (\<lambda>(import_offsets, reader).
         if unat section_length < position reader - section_start then
           Inl (Other ''the imports section is invalid'')
         else
           and_then (read_slice_as_bytes reader (unat section_length - (position reader - section_start)))
             (\<lambda>(import_symbols, reader).
           and_then (read_byte reader) (\<lambda>(section, reader).
           Inr ((parts\<lparr>pp_import_offsets := import_offsets, pp_import_symbols := import_symbols\<rparr>, section),
                reader))))))
     else Inr ((parts, section), reader))"

text \<open>The loop over optional sections: each turn consumes at least two of the remaining bytes.\<close>

function skip_optional_sections :: "Reader \<Rightarrow> u8 \<Rightarrow> (u8 \<times> Reader) parse_result" where
  "skip_optional_sections reader section =
    (if section AND 0x80 \<noteq> 0 then
       and_then (reader_read_varint reader) (\<lambda>(section_length, reader).
       and_then (read_skip reader (unat section_length)) (\<lambda>reader.
       and_then (read_byte reader) (\<lambda>(section, reader).
       skip_optional_sections reader section)))
     else Inr (section, reader))"
  by pat_completeness auto

termination
  by (relation "measure (\<lambda>(reader, _). length (blob reader) - position reader)")
    (auto dest!: reader_read_varint_progress read_skip_progress read_byte_progress)

declare skip_optional_sections.simps [simp del]

text \<open>The sections in the order in which \<open>from_bytes\<close> expects them.\<close>

definition read_parts :: "Reader \<Rightarrow> u8 \<Rightarrow> ProgramParts \<Rightarrow> ProgramParts parse_result" where
  "read_parts reader section parts =
    and_then (read_memory_config reader section parts) (\<lambda>((parts, section), reader).
    and_then (read_section_as_bytes reader section SECTION_RO_DATA) (\<lambda>((ro_data, section), reader).
    and_then (read_section_as_bytes reader section SECTION_RW_DATA) (\<lambda>((rw_data, section), reader).
    let parts = parts\<lparr>pp_ro_data := ro_data, pp_rw_data := rw_data\<rparr> in
    and_then (read_imports reader section parts) (\<lambda>((parts, section), reader).
    and_then (read_section_as_bytes reader section SECTION_EXPORTS) (\<lambda>((exports, section), reader).
    and_then (read_section_as_bytes reader section SECTION_CODE_AND_JUMP_TABLE) (\<lambda>((code, section), reader).
    and_then (read_section_as_bytes reader section SECTION_OPT_DEBUG_STRINGS) (\<lambda>((strings, section), reader).
    and_then (read_section_as_bytes reader section SECTION_OPT_DEBUG_LINE_PROGRAMS) (\<lambda>((programs, section), reader).
    and_then (read_section_as_bytes reader section SECTION_OPT_DEBUG_LINE_PROGRAM_RANGES) (\<lambda>((ranges, section), reader).
    and_then (read_section_as_bytes reader section SECTION_OPT_METADATA_HASH) (\<lambda>((hash, section), reader).
    and_then (skip_optional_sections reader section) (\<lambda>(section, reader).
    if section \<noteq> SECTION_END_OF_FILE then Inl (UnexpectedSection (position reader - 1) section)
    else Inr (parts\<lparr>pp_exports := exports, pp_code_and_jump_table := code, pp_debug_strings := strings,
           pp_debug_line_programs := programs, pp_debug_line_program_ranges := ranges,
           pp_metadata_hash := hash\<rparr>))))))))))))"

definition from_bytes :: "bytes \<Rightarrow> ProgramParts parse_result" where
  "from_bytes bs =
    (if take (length BLOB_MAGIC) bs \<noteq> BLOB_MAGIC then
       Inl (Other ''blob doesn't start with the expected magic bytes'')
     else
       let reader = \<lparr>blob = bs, position = length BLOB_MAGIC\<rparr> in
       and_then (read_byte reader) (\<lambda>(version, reader).
       case from_blob_version version of
         None \<Rightarrow> Inl (UnsupportedVersion version)
       | Some isa \<Rightarrow>
       and_then (reader_read_slice reader BLOB_LEN_SIZE) (\<lambda>(len_bytes, reader).
       if unat (from_le_bytes len_bytes :: u64) \<noteq> length bs then
         Inl (Other ''blob size doesn't match the blob length metadata'')
       else
       and_then (read_byte reader) (\<lambda>(section, reader).
       read_parts reader section (ProgramParts_empty isa)))))"

definition blob_length :: "bytes \<Rightarrow> u64 option" where
  "blob_length raw_blob =
    (let len_end = BLOB_LEN_OFFSET + BLOB_LEN_SIZE
     in if length raw_blob < len_end then None
        else Some (from_le_bytes (take (len_end - BLOB_LEN_OFFSET) (drop BLOB_LEN_OFFSET raw_blob))))"

section \<open>The program\<close>

record ProgramBlob =
  pb_isa :: InstructionSetKind
  pb_ro_data_size :: u32
  pb_rw_data_size :: u32
  pb_stack_size :: u32
  pb_ro_data :: bytes
  pb_rw_data :: bytes
  pb_code :: bytes
  pb_jump_table :: bytes
  pb_jump_table_entry_size :: u8
  pb_bitmask :: bytes
  pb_import_offsets :: bytes
  pb_import_symbols :: bytes
  pb_exports :: bytes
  pb_debug_strings :: bytes
  pb_debug_line_program_ranges :: bytes
  pb_debug_line_programs :: bytes
  pb_metadata_hash :: bytes

definition padding_mask :: "nat \<Rightarrow> u8" where
  "padding_mask padding_bits = signed_drop_bit (padding_bits - 1) (0x80 :: u8)"

definition check_bitmask :: "bytes \<Rightarrow> bytes \<Rightarrow> unit parse_result" where
  "check_bitmask code bitmask =
    (let is_bitmask_padded = (length code mod 8 \<noteq> 0);
         expected_bitmask_length = length code div 8 + of_bool is_bitmask_padded
     in if length bitmask \<noteq> expected_bitmask_length then
          Inl (Other ''the bitmask length doesn't match the code length'')
        else if is_bitmask_padded \<and>
          last bitmask AND padding_mask (length bitmask * 8 - length code) \<noteq> 0 then
          Inl (Other ''the bitmask is padded with non-zero bits'')
        else Inr ())"

text \<open>The block of \<open>from_parts\<close> that reads the code section: entry size, jump table, code, bitmask.\<close>

definition read_code :: "bytes \<Rightarrow> (u8 \<times> bytes \<times> bytes \<times> bytes) parse_result" where
  "read_code code_and_jump_table =
    (let reader = \<lparr>blob = code_and_jump_table, position = 0\<rparr>;
         initial_position = position reader in
     and_then (reader_read_varint reader) (\<lambda>(jump_table_entry_count, reader).
     if jump_table_entry_count > VM_MAXIMUM_JUMP_TABLE_ENTRIES then
       Inl (Other ''the jump table section is too long'')
     else
     and_then (read_byte reader) (\<lambda>(jump_table_entry_size, reader).
     and_then (reader_read_varint reader) (\<lambda>(code_length, reader).
     if code_length > VM_MAXIMUM_CODE_SIZE then Inl (Other ''the code section is too long'')
     else if \<not> jump_table_entry_size \<le> 4 then Inl (Other ''invalid jump table entry size'')
     else if \<not> unat jump_table_entry_count * unat jump_table_entry_size < 2 ^ 32 then
       Inl (Other ''the jump table is too long'')
     else
     and_then (read_slice_as_bytes reader (unat jump_table_entry_count * unat jump_table_entry_size))
       (\<lambda>(jump_table, reader).
     and_then (read_slice_as_bytes reader (unat code_length)) (\<lambda>(code, reader).
     let bitmask_length = length code_and_jump_table - (position reader - initial_position) in
     and_then (read_slice_as_bytes reader bitmask_length) (\<lambda>(bitmask, reader).
     and_then (check_bitmask code bitmask) (\<lambda>_.
     Inr (jump_table_entry_size, jump_table, code, bitmask)))))))))"

definition from_parts :: "ProgramParts \<Rightarrow> ProgramBlob parse_result" where
  "from_parts parts =
    (if length (pp_ro_data parts) > unat (pp_ro_data_size parts) then
       Inl (Other ''size of the read-only data payload exceeds the declared size of the section'')
     else if length (pp_rw_data parts) > unat (pp_rw_data_size parts) then
       Inl (Other ''size of the read-write data payload exceeds the declared size of the section'')
     else if pp_code_and_jump_table parts = [] then Inl (Other ''no code found'')
     else
       and_then (read_code (pp_code_and_jump_table parts)) (\<lambda>(jump_table_entry_size, jump_table, code, bitmask).
         Inr \<lparr>pb_isa = pp_isa parts, pb_ro_data_size = pp_ro_data_size parts,
           pb_rw_data_size = pp_rw_data_size parts, pb_stack_size = pp_stack_size parts,
           pb_ro_data = pp_ro_data parts, pb_rw_data = pp_rw_data parts, pb_code = code,
           pb_jump_table = jump_table, pb_jump_table_entry_size = jump_table_entry_size,
           pb_bitmask = bitmask, pb_import_offsets = pp_import_offsets parts,
           pb_import_symbols = pp_import_symbols parts, pb_exports = pp_exports parts,
           pb_debug_strings = pp_debug_strings parts,
           pb_debug_line_program_ranges = pp_debug_line_program_ranges parts,
           pb_debug_line_programs = pp_debug_line_programs parts,
           pb_metadata_hash = pp_metadata_hash parts\<rparr>))"

definition parse :: "bytes \<Rightarrow> ProgramBlob parse_result" where
  "parse bs = and_then (from_bytes bs) from_parts"

section \<open>Accessors\<close>

text \<open>Arithmetic on \<open>u32\<close> that returns nothing on overflow.\<close>

definition checked_mul :: "u32 \<Rightarrow> u32 \<Rightarrow> u32 option" where
  "checked_mul a b = (if unat a * unat b < 2 ^ 32 then Some (a * b) else None)"

definition checked_add :: "u32 \<Rightarrow> u32 \<Rightarrow> u32 option" where
  "checked_add a b = (if unat a + unat b < 2 ^ 32 then Some (a + b) else None)"

record JumpTable =
  jt_blob :: bytes
  jt_entry_size :: u32

definition jump_table :: "ProgramBlob \<Rightarrow> JumpTable" where
  "jump_table b = \<lparr>jt_blob = pb_jump_table b, jt_entry_size = ucast (pb_jump_table_entry_size b)\<rparr>"

definition JumpTable_len :: "JumpTable \<Rightarrow> u32" where
  "JumpTable_len jt =
    (if jt_entry_size jt = 0 then 0 else word_of_nat (length (jt_blob jt)) div jt_entry_size jt)"

text \<open>The outer \<open>None\<close> is the \<open>unreachable!\<close> for entries of more than four bytes.\<close>

definition table_entry :: "bytes \<Rightarrow> u32 option option" where
  "table_entry xs =
    (if length xs = 1 then Some (Some (ucast (xs ! 0)))
     else if length xs = 2 then Some (Some (ucast (from_le_bytes [xs ! 0, xs ! 1] :: u16)))
     else if length xs = 3 then Some (Some (from_le_bytes [xs ! 0, xs ! 1, xs ! 2, 0]))
     else if length xs = 4 then Some (Some (from_le_bytes [xs ! 0, xs ! 1, xs ! 2, xs ! 3]))
     else None)"

definition get_by_index :: "JumpTable \<Rightarrow> u32 \<Rightarrow> u32 option option" where
  "get_by_index jt index =
    (if jt_entry_size jt = 0 then Some None
     else
       case checked_mul index (jt_entry_size jt) of None \<Rightarrow> Some None | Some start \<Rightarrow>
       case checked_add start (jt_entry_size jt) of None \<Rightarrow> Some None | Some stop \<Rightarrow>
       case slice_get (jt_blob jt) (unat start) (unat stop) of None \<Rightarrow> Some None | Some xs \<Rightarrow>
         table_entry xs)"

definition get_by_address :: "JumpTable \<Rightarrow> u32 \<Rightarrow> u32 option option" where
  "get_by_address jt address =
    (if address AND (VM_CODE_ADDRESS_ALIGNMENT - 1) \<noteq> 0 \<or> address = 0 then Some None
     else get_by_index jt ((address - VM_CODE_ADDRESS_ALIGNMENT) div VM_CODE_ADDRESS_ALIGNMENT))"

record JumpTableIter =
  ji_jump_table :: JumpTable
  ji_index :: u32

definition JumpTableIter_next :: "JumpTableIter \<Rightarrow> (u32 option \<times> JumpTableIter) option" where
  "JumpTableIter_next it =
    (case get_by_index (ji_jump_table it) (ji_index it) of
       None \<Rightarrow> None
     | Some None \<Rightarrow> Some (None, it)
     | Some (Some target) \<Rightarrow> Some (Some target, it\<lparr>ji_index := ji_index it + 1\<rparr>))"

record Imports =
  im_offsets :: bytes
  im_symbols :: bytes

definition blob_imports :: "ProgramBlob \<Rightarrow> Imports" where
  "blob_imports b = \<lparr>im_offsets = pb_import_offsets b, im_symbols = pb_import_symbols b\<rparr>"

definition Imports_len :: "Imports \<Rightarrow> u32" where
  "Imports_len im = word_of_nat (length (im_offsets im) div 4)"

definition Imports_get :: "Imports \<Rightarrow> u32 \<Rightarrow> bytes option" where
  "Imports_get im index =
    (case checked_mul index 4 of None \<Rightarrow> None | Some offset_start \<Rightarrow>
     case checked_add offset_start 4 of None \<Rightarrow> None | Some offset_end \<Rightarrow>
     case slice_get (im_offsets im) (unat offset_start) (unat offset_end) of None \<Rightarrow> None | Some xs \<Rightarrow>
       let offset = unat (from_le_bytes [xs ! 0, xs ! 1, xs ! 2, xs ! 3] :: u32);
           next_offset =
             (case checked_add offset_end 4 of
                None \<Rightarrow> length (im_symbols im)
              | Some next_offset_end \<Rightarrow>
                  (case slice_get (im_offsets im) (unat offset_end) (unat next_offset_end) of
                     None \<Rightarrow> length (im_symbols im)
                   | Some xs \<Rightarrow> unat (from_le_bytes [xs ! 0, xs ! 1, xs ! 2, xs ! 3] :: u32)))
       in slice_get (im_symbols im) offset next_offset)"

record ImportsIter =
  ii_imports :: Imports
  ii_index :: u32

definition ImportsIter_next :: "ImportsIter \<Rightarrow> bytes option option \<times> ImportsIter" where
  "ImportsIter_next it =
    (if ii_index it \<ge> Imports_len (ii_imports it) then (None, it)
     else (Some (Imports_get (ii_imports it) (ii_index it)), it\<lparr>ii_index := ii_index it + 1\<rparr>))"

datatype ExportState = Uninitialized | Pending u32 | Finished

record ExportIterator =
  ex_state :: ExportState
  ex_reader :: Reader

record ProgramExport =
  program_counter :: u32
  symbol :: bytes

definition blob_exports :: "ProgramBlob \<Rightarrow> ExportIterator" where
  "blob_exports b =
    \<lparr>ex_state = (if pb_exports b \<noteq> [] then Uninitialized else Finished),
     ex_reader = \<lparr>blob = pb_exports b, position = 0\<rparr>\<rparr>"

definition ExportIterator_next :: "ExportIterator \<Rightarrow> ProgramExport option \<times> ExportIterator" where
  "ExportIterator_next it =
    (let state = ex_state it; it = it\<lparr>ex_state := Finished\<rparr>;
         start =
           (case state of
              Uninitialized \<Rightarrow>
                (case reader_read_varint (ex_reader it) of
                   Inl _ \<Rightarrow> None | Inr (remaining, reader) \<Rightarrow> Some (remaining, it\<lparr>ex_reader := reader\<rparr>))
            | Pending remaining \<Rightarrow> Some (remaining, it)
            | Finished \<Rightarrow> None)
     in case start of
          None \<Rightarrow> (None, it)
        | Some (remaining, it) \<Rightarrow>
            if remaining = 0 then (None, it)
            else
              (case reader_read_varint (ex_reader it) of
                 Inl _ \<Rightarrow> (None, it)
               | Inr (target_code_offset, reader) \<Rightarrow>
                   (case read_bytes_with_length reader of
                      Inl _ \<Rightarrow> (None, it\<lparr>ex_reader := reader\<rparr>)
                    | Inr (name, reader) \<Rightarrow>
                        (Some \<lparr>program_counter = target_code_offset, symbol = name\<rparr>,
                         it\<lparr>ex_state := Pending (remaining - 1), ex_reader := reader\<rparr>))))"

text \<open>What a loop over the exports sees, with fuel for the number of items.\<close>

fun exports_collect :: "nat \<Rightarrow> ExportIterator \<Rightarrow> ProgramExport list option" where
  "exports_collect 0 it = None"
| "exports_collect (Suc n) it =
    (case ExportIterator_next it of
       (None, it) \<Rightarrow> Some []
     | (Some e, it) \<Rightarrow> map_option ((#) e) (exports_collect n it))"

section \<open>What a parsed program guarantees\<close>

definition blob_ok :: "ProgramBlob \<Rightarrow> bool" where
  "blob_ok b \<longleftrightarrow>
    length (pb_ro_data b) \<le> unat (pb_ro_data_size b) \<and>
    length (pb_rw_data b) \<le> unat (pb_rw_data_size b) \<and>
    length (pb_code b) \<le> unat VM_MAXIMUM_CODE_SIZE \<and>
    code_ok (pb_code b) (pb_bitmask b) \<and>
    (\<forall>i. bit_at (pb_bitmask b) i \<longrightarrow> i < length (pb_code b)) \<and>
    unat (pb_jump_table_entry_size b) \<le> 4 \<and>
    (\<exists>count \<le> unat VM_MAXIMUM_JUMP_TABLE_ENTRIES.
      length (pb_jump_table b) = count * unat (pb_jump_table_entry_size b))"

lemma bit_padding_mask:
  assumes "1 \<le> k" "k \<le> 8"
  shows "bit (padding_mask k) i \<longleftrightarrow> i < 8 \<and> 8 - k \<le> i"
proof -
  have "bit (0x80 :: u8) n \<longleftrightarrow> n = 7" for n
    using bit_push_bit_iff [of 7 "1 :: u8" n] by (auto simp: bit_1_iff)
  then have "bit (padding_mask k) i \<longleftrightarrow> (if 8 - (k - 1) \<le> i \<and> i < 8 then (7 :: nat) else k - 1 + i) = 7"
    unfolding padding_mask_def bit_signed_drop_bit_iff by simp
  also have "\<dots> \<longleftrightarrow> i < 8 \<and> 8 - k \<le> i" using assms by (cases "8 - (k - 1) \<le> i \<and> i < 8") auto
  finally show ?thesis .
qed

lemma padding_bits_clear:
  assumes len: "length bm = length code div 8 + 1" and pad: "length code mod 8 \<noteq> 0"
    and clear: "last bm AND padding_mask (length bm * 8 - length code) = 0"
    and bit: "bit_at bm i"
  shows "i < length code"
proof (rule ccontr)
  assume "\<not> i < length code"
  define q m where "q = length code div 8" and "m = length code mod 8"
  have code: "length code = 8 * q + m" "0 < m" "m < 8" using pad by (simp_all add: q_def m_def)
  have "i div 8 < q + 1" using bit len by (simp add: bit_at_def q_def)
  moreover have "q \<le> i div 8" using \<open>\<not> i < length code\<close> code by linarith
  ultimately have i: "i div 8 = q" by simp
  then have "m \<le> i mod 8"
    using \<open>\<not> i < length code\<close> code(1) mult_div_mod_eq [of 8 i] by linarith
  have "bm \<noteq> []" using len by auto
  then have "last bm = bm ! q" using len by (simp add: last_conv_nth q_def)
  have "length bm = q + 1" using len by (simp add: q_def)
  then have k: "length bm * 8 - length code = 8 - m" using code(1) by simp
  have "bit (last bm AND padding_mask (8 - m)) (i mod 8)"
    using bit i \<open>last bm = bm ! q\<close> \<open>m \<le> i mod 8\<close> code(2,3)
    by (simp add: bit_and_iff bit_padding_mask bit_at_def)
  then show False using clear unfolding k by simp
qed

lemma read_slice_as_bytes_length: "read_slice_as_bytes r n = Inr (bs, r') \<Longrightarrow> length bs = n"
  by (auto simp: read_slice_as_bytes_def and_then_Inr_iff read_slice_as_range_def subslice_def Let_def
      split: if_splits)

lemma div_ceil_8: "n div 8 + of_bool (n mod 8 \<noteq> 0) = (n + 7) div 8" for n :: nat
proof -
  define q r where "q = n div 8" and "r = n mod 8"
  have "(n + 7) div 8 = q + (r + 7) div 8"
    using offset_add_div_mod(1) [of n 7] by (simp add: q_def r_def)
  moreover have "(r + 7) div 8 = of_bool (r \<noteq> 0)"
  proof (cases r)
    case (Suc m)
    moreover have "r < 8" by (simp add: r_def)
    ultimately have "r + 7 = m + 8" "m < 8" by simp_all
    then show ?thesis using Suc by simp
  qed simp
  ultimately show ?thesis by (simp add: q_def r_def)
qed

lemma check_bitmask_iff:
  "check_bitmask code bm = Inr () \<longleftrightarrow> code_ok code bm \<and>
    (length code mod 8 \<noteq> 0 \<longrightarrow> last bm AND padding_mask (length bm * 8 - length code) = 0)"
  unfolding check_bitmask_def Let_def div_ceil_8 code_ok_def by simp

lemma check_bitmask_marks:
  assumes "check_bitmask code bm = Inr ()" "bit_at bm i"
  shows "i < length code"
proof (cases "length code mod 8 = 0")
  case True
  then have "8 * length bm = length code"
    using assms(1) mult_div_mod_eq [of 8 "length code"]
    unfolding check_bitmask_iff code_ok_def div_ceil_8 [symmetric] by simp
  then show ?thesis using bit_at_less [OF assms(2)] by simp
next
  case False
  with assms(1) have len: "length bm = length code div 8 + 1"
    unfolding check_bitmask_iff code_ok_def div_ceil_8 [symmetric] by simp
  have clear: "last bm AND padding_mask (length bm * 8 - length code) = 0"
    using assms(1) False unfolding check_bitmask_iff by blast
  show ?thesis using len False clear assms(2) by (rule padding_bits_clear)
qed

lemma read_code_yields:
  "yields (read_code bs) (\<lambda>(sz, table, code, bm). unat sz \<le> 4 \<and> length code \<le> unat VM_MAXIMUM_CODE_SIZE \<and>
    check_bitmask code bm = Inr () \<and>
    (\<exists>count \<le> unat VM_MAXIMUM_JUMP_TABLE_ENTRIES. length table = count * unat sz))"
  unfolding read_code_def
  by (intro yields_rules)
    (auto simp: not_less word_le_nat_alt dest!: read_slice_as_bytes_length)

lemma from_parts_ok:
  assumes "from_parts parts = Inr b"
  shows "blob_ok b"
proof -
  have data: "length (pp_ro_data parts) \<le> unat (pp_ro_data_size parts)"
    "length (pp_rw_data parts) \<le> unat (pp_rw_data_size parts)"
    using assms by (auto simp: from_parts_def split: if_splits)
  obtain sz table code bm where code: "read_code (pp_code_and_jump_table parts) = Inr (sz, table, code, bm)"
    and b: "pb_ro_data b = pp_ro_data parts" "pb_ro_data_size b = pp_ro_data_size parts"
      "pb_rw_data b = pp_rw_data parts" "pb_rw_data_size b = pp_rw_data_size parts"
      "pb_code b = code" "pb_bitmask b = bm" "pb_jump_table b = table" "pb_jump_table_entry_size b = sz"
    using assms by (auto simp: from_parts_def and_then_Inr_iff split: if_splits)
  note inner = yieldsD [OF read_code_yields code, simplified]
  show ?thesis
    unfolding blob_ok_def b using data inner check_bitmask_marks [of code bm]
    by (simp add: check_bitmask_iff)
qed

text \<open>C21: A program that parses is well formed: its data fits the declared sizes, the code is at most
  32 MiB, the bitmask has exactly one bit per code byte and marks nothing beyond the code, and the jump
  table is a whole number of entries of at most four bytes. These are the assumptions of the code walk
  and of the jump table lookups.\<close>
theorem parse_ok:
  assumes "parse bs = Inr b"
  shows "blob_ok b"
  using assms from_parts_ok by (auto simp: parse_def and_then_Inr_iff)

section \<open>The jump table\<close>

lemma table_entry_value:
  assumes "length xs \<in> {1, 2, 3, 4}"
  shows "table_entry xs = Some (Some (from_le_bytes xs))"
proof -
  have "from_le_bytes [a, b, c, 0] = (from_le_bytes [a, b, c] :: u32)" for a b c
    using from_le_bytes_append_zeros [of "[a, b, c]" 1] by simp
  moreover have "from_le_bytes [a] = (ucast a :: u32)" for a by simp
  ultimately show ?thesis
    using assms by (cases xs rule: list_cases_4)
      (simp_all del: from_le_bytes.simps add: table_entry_def ucast_from_le_bytes_16 nth_Cons')
qed

lemma jump_table_len:
  assumes "blob_ok b"
  shows "unat (JumpTable_len (jump_table b)) =
    length (pb_jump_table b) div unat (pb_jump_table_entry_size b)"
    and "length (pb_jump_table b) < 2 ^ 32"
proof -
  obtain count where count: "count \<le> 16777216" "length (pb_jump_table b) = count * unat (pb_jump_table_entry_size b)"
    "unat (pb_jump_table_entry_size b) \<le> 4"
    using assms by (auto simp: blob_ok_def VM_MAXIMUM_JUMP_TABLE_ENTRIES_def)
  have "count * unat (pb_jump_table_entry_size b) \<le> 16777216 * 4" using count(1,3) by (rule mult_le_mono)
  then show small: "length (pb_jump_table b) < 2 ^ 32" using count(2) by simp
  have sz: "unat (ucast (pb_jump_table_entry_size b) :: u32) = unat (pb_jump_table_entry_size b)"
    by (simp add: unat_ucast_up)
  have zero: "(ucast (pb_jump_table_entry_size b) :: u32) = 0 \<longleftrightarrow> unat (pb_jump_table_entry_size b) = 0"
    unfolding sz [symmetric] by (simp only: unat_eq_zero)
  show "unat (JumpTable_len (jump_table b)) = length (pb_jump_table b) div unat (pb_jump_table_entry_size b)"
    using small sz
    by (simp add: JumpTable_len_def jump_table_def unat_div zero unsigned_of_nat take_bit_nat_eq_self)
qed

lemma checked_mul_of_nat:
  "unat i * n < 2 ^ 32 \<Longrightarrow> unat k = n \<Longrightarrow> checked_mul i k = Some (word_of_nat (unat i * n))"
  by (auto simp: checked_mul_def)

lemma checked_add_of_nat:
  "m + n < 2 ^ 32 \<Longrightarrow> unat k = n \<Longrightarrow> checked_add (word_of_nat m) k = Some (word_of_nat (m + n))"
  by (auto simp: checked_add_def unsigned_of_nat take_bit_nat_eq_self)

lemma get_by_index_eq:
  assumes size: "unat (jt_entry_size jt) = sz" "0 < sz" "sz \<le> 4"
    and table: "length (jt_blob jt) = count * sz" "length (jt_blob jt) < 2 ^ 32"
  shows "get_by_index jt i =
    Some (if unat i < count then Some (from_le_bytes (take sz (drop (unat i * sz) (jt_blob jt)))) else None)"
proof -
  have nz: "jt_entry_size jt \<noteq> 0" using size(1,2) by auto
  have fits: "unat i * sz + sz \<le> length (jt_blob jt) \<longleftrightarrow> unat i < count"
    using mult_le_cancel2 [of "Suc (unat i)" sz count] table(1) size(2) by (simp add: Suc_le_eq add.commute)
  have nat32: "n < 2 ^ 32 \<Longrightarrow> unat (word_of_nat n :: u32) = n" for n
    by (simp add: unsigned_of_nat take_bit_nat_eq_self)
  show ?thesis
  proof (cases "unat i * sz + sz < 2 ^ 32")
    case True
    have get: "slice_get (jt_blob jt) (unat i * sz) (unat i * sz + sz) =
      (if unat i < count then Some (take sz (drop (unat i * sz) (jt_blob jt))) else None)"
      using fits by (simp add: slice_get_def)
    have len: "unat i < count \<Longrightarrow> length (take sz (drop (unat i * sz) (jt_blob jt))) \<in> {1, 2, 3, 4}"
      using fits size(2,3) by auto
    have mul: "checked_mul i (jt_entry_size jt) = Some (word_of_nat (unat i * sz))"
      using True size(1) by (intro checked_mul_of_nat) simp_all
    have start: "unat (word_of_nat (unat i * sz) :: u32) = unat i * sz" using True by (intro nat32) simp
    have stop: "unat (word_of_nat (unat i * sz + sz) :: u32) = unat i * sz + sz" using True by (rule nat32)
    have "get_by_index jt i = (case slice_get (jt_blob jt) (unat i * sz) (unat i * sz + sz) of
      None \<Rightarrow> Some None | Some xs \<Rightarrow> table_entry xs)"
      unfolding get_by_index_def
      by (simp only: nz if_False mul checked_add_of_nat [OF True size(1)] option.case start stop)
    then show ?thesis using get table_entry_value [OF len] by simp
  next
    case False
    then have "\<not> unat i < count" using fits table(2) by linarith
    moreover have "get_by_index jt i = Some None"
    proof (cases "unat i * sz < 2 ^ 32")
      case True
      then have "unat (i * jt_entry_size jt) = unat i * sz" using size(1) by (simp add: unat_word_ariths)
      then have "checked_add (i * jt_entry_size jt) (jt_entry_size jt) = None"
        using False size(1) by (simp add: checked_add_def)
      then show ?thesis using True size(1) by (simp add: get_by_index_def checked_mul_def)
    next
      case False
      then show ?thesis using size(1) by (simp add: get_by_index_def checked_mul_def)
    qed
    ultimately show ?thesis by simp
  qed
qed

lemma get_by_address_eq:
  "get_by_address jt a =
    (if even (unat a) \<and> a \<noteq> 0 then get_by_index jt (word_of_nat (unat a div 2 - 1)) else Some None)"
proof -
  have odd_iff: "a AND 1 \<noteq> 0 \<longleftrightarrow> odd (unat a)"
    using bit_0 [of a] bit_0 [of "unat a"] bit_unsigned_iff [of a 0, where 'a = nat]
    by (simp add: and_one_eq odd_iff_mod_2_eq_one)
  have "(a - 2) div 2 = word_of_nat (unat a div 2 - 1)" if "even (unat a)" "a \<noteq> 0"
  proof -
    have "0 < unat a" using that(2) by (simp add: unat_gt_0)
    then have "2 \<le> unat a" using that(1) by (cases "unat a = 1") simp_all
    then have "unat (a - 2) = unat a - 2" by (simp add: unat_sub word_le_nat_alt)
    then have "unat ((a - 2) div 2) = unat a div 2 - 1" by (simp add: unat_div)
    then show ?thesis by (metis of_nat_unat ucast_id)
  qed
  then show ?thesis using odd_iff unfolding get_by_address_def VM_CODE_ADDRESS_ALIGNMENT_def
    by (cases "even (unat a)"; cases "a = 0") simp_all
qed

text \<open>C36: In a parsed program a lookup in the jump table never panics: entry \<open>i\<close> is the little-endian value of
  the \<open>i\<close>-th group of bytes for every \<open>i\<close> below \<open>len\<close>, nothing otherwise, also where the byte offset
  overflows 32 bits; an address selects entry \<open>address / 2 - 1\<close> if it is even and not zero.\<close>
theorem jump_table_lookup:
  assumes "blob_ok b"
  shows "get_by_index (jump_table b) i = Some
      (if unat i < unat (JumpTable_len (jump_table b))
       then let sz = unat (pb_jump_table_entry_size b)
            in Some (from_le_bytes (take sz (drop (unat i * sz) (pb_jump_table b))))
       else None) \<and>
    get_by_address (jump_table b) a =
      (if even (unat a) \<and> a \<noteq> 0 then get_by_index (jump_table b) (word_of_nat (unat a div 2 - 1)) else Some None)"
proof -
  define sz where "sz = unat (pb_jump_table_entry_size b)"
  obtain count where count: "length (pb_jump_table b) = count * sz" and sz4: "sz \<le> 4"
    using assms by (auto simp: blob_ok_def sz_def)
  have size: "unat (jt_entry_size (jump_table b)) = sz" by (simp add: jump_table_def sz_def unat_ucast_up)
  note len = jump_table_len [OF assms, folded sz_def]
  have "get_by_index (jump_table b) i = Some
    (if unat i < length (pb_jump_table b) div sz
     then Some (from_le_bytes (take sz (drop (unat i * sz) (pb_jump_table b)))) else None)"
  proof (cases "sz = 0")
    case True
    then show ?thesis using size by (simp add: get_by_index_def unat_eq_zero)
  next
    case False
    then show ?thesis
      using get_by_index_eq [OF size _ sz4, of count i] count len(2) by (simp add: jump_table_def)
  qed
  then show ?thesis by (simp add: len(1) get_by_address_eq sz_def Let_def)
qed

lemma jump_table_lookup_witness:
  "let b = \<lparr>pb_isa = Latest32, pb_ro_data_size = 0, pb_rw_data_size = 0, pb_stack_size = 0, pb_ro_data = [],
     pb_rw_data = [], pb_code = [0], pb_jump_table = [0, 0, 0, 1], pb_jump_table_entry_size = 2,
     pb_bitmask = [1], pb_import_offsets = [], pb_import_symbols = [], pb_exports = [], pb_debug_strings = [],
     pb_debug_line_program_ranges = [], pb_debug_line_programs = [], pb_metadata_hash = []\<rparr>
   in blob_ok b \<and> get_by_address (jump_table b) 4 = Some (Some 256) \<and> get_by_index (jump_table b) 2 = Some None"
proof -
  define b where "b = \<lparr>pb_isa = Latest32, pb_ro_data_size = 0, pb_rw_data_size = 0, pb_stack_size = 0,
     pb_ro_data = [], pb_rw_data = [], pb_code = [0], pb_jump_table = [0, 0, 0, 1], pb_jump_table_entry_size = 2,
     pb_bitmask = [1], pb_import_offsets = [], pb_import_symbols = [], pb_exports = [], pb_debug_strings = [],
     pb_debug_line_program_ranges = [], pb_debug_line_programs = [], pb_metadata_hash = []\<rparr>"
  have marks: "bit_at [1] i \<Longrightarrow> i = 0" for i
    by (auto simp: bit_at_def bit_1_iff nth_Cons' split: if_splits)
  have ok: "blob_ok b"
    using marks by (auto simp: blob_ok_def b_def code_ok_def VM_MAXIMUM_CODE_SIZE_def VM_MAXIMUM_JUMP_TABLE_ENTRIES_def
        intro!: exI [of _ "2 :: nat"])
  have "unat (JumpTable_len (jump_table b)) = 2"
    by (simp add: JumpTable_len_def jump_table_def b_def)
  then show ?thesis
    using ok jump_table_lookup [OF ok, of 1 4] jump_table_lookup [OF ok, of 2 4]
    by (simp add: Let_def b_def)
qed

end
