(* ===== verification/Writer.thy ===== *)
theory Writer
  imports Blob
begin

text \<open>
  Writing a program blob, \<open>crates/polkavm-common/src/writer.rs\<close>: the byte writer \<open>Writer\<close> and the part
  of \<open>ProgramBlobBuilder::to_vec\<close> that lays out the sections, with the proof that
  \<open>ProgramParts::from_bytes\<close> reads back what was written. A writing operation takes the buffer and
  returns it extended; \<open>None\<close> is a panic (\<open>expect\<close>).
\<close>

section \<open>The writer\<close>

definition push_raw_bytes :: "bytes \<Rightarrow> bytes \<Rightarrow> bytes option" where
  "push_raw_bytes sl buffer = Some (buffer @ sl)"

definition push_byte :: "u8 \<Rightarrow> bytes \<Rightarrow> bytes option" where
  "push_byte b buffer = Some (buffer @ [b])"

definition push_u32 :: "u32 \<Rightarrow> bytes \<Rightarrow> bytes option" where
  "push_u32 value buffer = push_raw_bytes (le_bytes 4 value) buffer"

definition push_varint :: "u32 \<Rightarrow> bytes \<Rightarrow> bytes option" where
  "push_varint value buffer =
    (case write_varint value (replicate MAX_VARINT_LENGTH 0xff) of
       None \<Rightarrow> None
     | Some (len, bytes) \<Rightarrow> push_raw_bytes (take len bytes) buffer)"

text \<open>\<open>try_into().expect()\<close> of a length.\<close>

definition u32_length :: "'a list \<Rightarrow> u32 option" where
  "u32_length xs = (if length xs < 2 ^ 32 then Some (word_of_nat (length xs)) else None)"

definition push_bytes_with_length :: "bytes \<Rightarrow> bytes \<Rightarrow> bytes option" where
  "push_bytes_with_length sl buffer =
    Option.bind (u32_length sl) (\<lambda>len. Option.bind (push_varint len buffer) (push_raw_bytes sl))"

definition push_section :: "u8 \<Rightarrow> bytes \<Rightarrow> bytes \<Rightarrow> bytes option" where
  "push_section section contents buffer =
    (if contents = [] then Some buffer
     else
       Option.bind (push_byte section buffer) (\<lambda>buffer.
       Option.bind (u32_length contents) (\<lambda>len.
       Option.bind (push_varint len buffer) (push_raw_bytes contents))))"

definition push_section_inplace :: "u8 \<Rightarrow> (bytes \<Rightarrow> bytes option) \<Rightarrow> bytes \<Rightarrow> bytes option" where
  "push_section_inplace section callback buffer =
    (let section_position = length buffer;
         buffer = buffer @ [section];
         length_position = length buffer;
         buffer = buffer @ replicate MAX_VARINT_LENGTH 0xff;
         payload_position = length buffer
     in Option.bind (callback buffer) (\<lambda>buffer.
        Option.bind (u32_length (drop payload_position buffer)) (\<lambda>payload_length.
        if payload_length = 0 then Some (take section_position buffer)
        else
          Option.bind (write_varint payload_length (drop length_position buffer)) (\<lambda>(length_length, tail).
            let buffer = take length_position buffer @ tail
            in Some (take (length_position + length_length) buffer @
                     drop (length_position + MAX_VARINT_LENGTH) buffer)))))"

section \<open>The builder\<close>

datatype Export = ByBlock u32 | ByInstruction u32

record ProgramBlobBuilder =
  w_isa :: InstructionSetKind
  w_ro_data_size :: u32
  w_rw_data_size :: u32
  w_stack_size :: u32
  w_ro_data :: bytes
  w_rw_data :: bytes
  w_imports :: "bytes list"
  w_exports :: "(Export \<times> bytes) list"
  w_code :: "Instruction list"
  w_jump_table :: "u32 list"
  w_custom :: "(u8 \<times> bytes) list"
  w_dispatch_table :: "bytes list"
  w_ignore_instruction_set_incompatibility :: bool

definition ProgramBlobBuilder_new :: "InstructionSetKind \<Rightarrow> ProgramBlobBuilder" where
  "ProgramBlobBuilder_new isa =
    \<lparr>w_isa = isa, w_ro_data_size = 0, w_rw_data_size = 0, w_stack_size = 0, w_ro_data = [], w_rw_data = [],
     w_imports = [], w_exports = [], w_code = [], w_jump_table = [], w_custom = [], w_dispatch_table = [],
     w_ignore_instruction_set_incompatibility = False\<rparr>"

definition set_ignore_instruction_set_incompatibility :: "bool \<Rightarrow> ProgramBlobBuilder \<Rightarrow> ProgramBlobBuilder" where
  "set_ignore_instruction_set_incompatibility v b = b\<lparr>w_ignore_instruction_set_incompatibility := v\<rparr>"

definition set_ro_data_size :: "u32 \<Rightarrow> ProgramBlobBuilder \<Rightarrow> ProgramBlobBuilder" where
  "set_ro_data_size sz b = b\<lparr>w_ro_data_size := sz\<rparr>"

definition set_rw_data_size :: "u32 \<Rightarrow> ProgramBlobBuilder \<Rightarrow> ProgramBlobBuilder" where
  "set_rw_data_size sz b = b\<lparr>w_rw_data_size := sz\<rparr>"

definition set_stack_size :: "u32 \<Rightarrow> ProgramBlobBuilder \<Rightarrow> ProgramBlobBuilder" where
  "set_stack_size sz b = b\<lparr>w_stack_size := sz\<rparr>"

definition set_ro_data :: "bytes \<Rightarrow> ProgramBlobBuilder \<Rightarrow> ProgramBlobBuilder" where
  "set_ro_data data b = b\<lparr>w_ro_data := data\<rparr>"

definition set_rw_data :: "bytes \<Rightarrow> ProgramBlobBuilder \<Rightarrow> ProgramBlobBuilder" where
  "set_rw_data data b = b\<lparr>w_rw_data := data\<rparr>"

definition add_import :: "bytes \<Rightarrow> ProgramBlobBuilder \<Rightarrow> ProgramBlobBuilder" where
  "add_import import_symbol b = b\<lparr>w_imports := w_imports b @ [import_symbol]\<rparr>"

definition add_export_by_basic_block :: "u32 \<Rightarrow> bytes \<Rightarrow> ProgramBlobBuilder \<Rightarrow> ProgramBlobBuilder" where
  "add_export_by_basic_block target name b = b\<lparr>w_exports := w_exports b @ [(ByBlock target, name)]\<rparr>"

definition add_export_by_instruction :: "u32 \<Rightarrow> bytes \<Rightarrow> ProgramBlobBuilder \<Rightarrow> ProgramBlobBuilder" where
  "add_export_by_instruction target name b = b\<lparr>w_exports := w_exports b @ [(ByInstruction target, name)]\<rparr>"

definition add_dispatch_table_entry :: "bytes \<Rightarrow> ProgramBlobBuilder \<Rightarrow> ProgramBlobBuilder" where
  "add_dispatch_table_entry name b = b\<lparr>w_dispatch_table := w_dispatch_table b @ [name]\<rparr>"

definition set_code :: "Instruction list \<Rightarrow> u32 list \<Rightarrow> ProgramBlobBuilder \<Rightarrow> ProgramBlobBuilder" where
  "set_code code table b = b\<lparr>w_code := code, w_jump_table := table\<rparr>"

definition add_custom_section :: "u8 \<Rightarrow> bytes \<Rightarrow> ProgramBlobBuilder \<Rightarrow> ProgramBlobBuilder" where
  "add_custom_section sec contents b = b\<lparr>w_custom := w_custom b @ [(sec, contents)]\<rparr>"

record SerializedCode =
  sc_jump_table :: bytes
  sc_jump_table_entry_count :: u32
  sc_jump_table_entry_size :: u8
  sc_code :: bytes
  sc_bitmask :: bytes
  sc_exports :: "(u32 \<times> bytes) list"

primrec push_all :: "('a \<Rightarrow> bytes \<Rightarrow> bytes option) \<Rightarrow> 'a list \<Rightarrow> bytes \<Rightarrow> bytes option" where
  "push_all push [] buffer = Some buffer"
| "push_all push (x # xs) buffer = Option.bind (push x buffer) (push_all push xs)"

definition push_memory_config :: "ProgramBlobBuilder \<Rightarrow> bytes \<Rightarrow> bytes option" where
  "push_memory_config b buffer =
    Option.bind (push_varint (w_ro_data_size b) buffer) (\<lambda>buffer.
    Option.bind (push_varint (w_rw_data_size b) buffer) (push_varint (w_stack_size b)))"

primrec import_blobs :: "bytes list \<Rightarrow> bytes \<Rightarrow> bytes \<Rightarrow> bytes \<times> bytes" where
  "import_blobs [] offsets_blob symbols_blob = (offsets_blob, symbols_blob)"
| "import_blobs (name # names) offsets_blob symbols_blob =
    import_blobs names (offsets_blob @ le_bytes 4 (word_of_nat (length symbols_blob) :: u32)) (symbols_blob @ name)"

definition push_imports :: "bytes list \<Rightarrow> bytes \<Rightarrow> bytes option" where
  "push_imports names buffer =
    (let (offsets_blob, symbols_blob) = import_blobs names [] []
     in Option.bind (u32_length names) (\<lambda>count.
        Option.bind (push_varint count buffer) (\<lambda>buffer.
        Option.bind (push_raw_bytes offsets_blob buffer) (push_raw_bytes symbols_blob))))"

definition push_export :: "u32 \<times> bytes \<Rightarrow> bytes \<Rightarrow> bytes option" where
  "push_export e buffer =
    Option.bind (push_varint (fst e) buffer) (push_bytes_with_length (snd e))"

definition push_exports :: "(u32 \<times> bytes) list \<Rightarrow> bytes \<Rightarrow> bytes option" where
  "push_exports es buffer =
    Option.bind (u32_length es) (\<lambda>count.
    Option.bind (push_varint count buffer) (push_all push_export es))"

definition push_code :: "SerializedCode \<Rightarrow> bytes \<Rightarrow> bytes option" where
  "push_code code buffer =
    Option.bind (push_varint (sc_jump_table_entry_count code) buffer) (\<lambda>buffer.
    Option.bind (push_byte (sc_jump_table_entry_size code) buffer) (\<lambda>buffer.
    Option.bind (push_varint (word_of_nat (length (sc_code code))) buffer) (\<lambda>buffer.
    Option.bind (push_raw_bytes (sc_jump_table code) buffer) (\<lambda>buffer.
    Option.bind (push_raw_bytes (sc_code code) buffer) (push_raw_bytes (sc_bitmask code))))))"

definition to_vec_with :: "ProgramBlobBuilder \<Rightarrow> SerializedCode \<Rightarrow> bytes option" where
  "to_vec_with b code =
    Option.bind (push_raw_bytes BLOB_MAGIC []) (\<lambda>output.
    Option.bind (push_byte (blob_version (w_isa b)) output) (\<lambda>output.
    Option.bind (push_raw_bytes (replicate BLOB_LEN_SIZE 0) output) (\<lambda>output.
    Option.bind
      (if w_ro_data_size b > 0 \<or> w_rw_data_size b > 0 \<or> w_stack_size b > 0
       then push_section_inplace SECTION_MEMORY_CONFIG (push_memory_config b) output
       else Some output) (\<lambda>output.
    Option.bind (push_section SECTION_RO_DATA (w_ro_data b) output) (\<lambda>output.
    Option.bind (push_section SECTION_RW_DATA (w_rw_data b) output) (\<lambda>output.
    Option.bind
      (if w_imports b \<noteq> [] then push_section_inplace SECTION_IMPORTS (push_imports (w_imports b)) output
       else Some output) (\<lambda>output.
    Option.bind
      (if sc_exports code \<noteq> [] then push_section_inplace SECTION_EXPORTS (push_exports (sc_exports code)) output
       else Some output) (\<lambda>output.
    Option.bind (push_section_inplace SECTION_CODE_AND_JUMP_TABLE (push_code code) output) (\<lambda>output.
    Option.bind (push_all (\<lambda>(section, contents). push_section section contents) (w_custom b) output) (\<lambda>output.
    Option.bind (push_raw_bytes [SECTION_END_OF_FILE] output) (\<lambda>output.
    let blob_len = le_bytes 8 (word_of_nat (length output) :: u64)
    in Some (take BLOB_LEN_OFFSET output @ blob_len @ drop (BLOB_LEN_OFFSET + BLOB_LEN_SIZE) output))))))))))))"

section \<open>What is written\<close>

definition section_bytes :: "u8 \<Rightarrow> bytes \<Rightarrow> bytes" where
  "section_bytes sec contents = (if contents = [] then [] else sec # sized contents)"

text \<open>\<open>writes P push out\<close>: the operation appends \<open>out\<close> to any buffer if \<open>P\<close>, and panics otherwise.\<close>

definition writes :: "bool \<Rightarrow> (bytes \<Rightarrow> bytes option) \<Rightarrow> bytes \<Rightarrow> bool" where
  "writes P push out \<longleftrightarrow> (\<forall>buffer. push buffer = (if P then Some (buffer @ out) else None))"

named_theorems writes_rules

lemma writesD: "writes P push out \<Longrightarrow> push buffer = (if P then Some (buffer @ out) else None)"
  by (simp add: writes_def)

lemma writes_raw_bytes [writes_rules]: "writes True (push_raw_bytes bs) bs"
  by (simp add: writes_def push_raw_bytes_def)

lemma writes_byte [writes_rules]: "writes True (push_byte b) [b]"
  by (simp add: writes_def push_byte_def)

lemma length_varint: "length (varint v) = Suc (get_varint_length (leading_zeros v))"
  by (simp add: varint_def varint_bytes_alt Let_def)

lemma write_varint_prefix:
  assumes "5 \<le> length buffer"
  shows "write_varint v buffer = Some (length (varint v), varint v @ drop (length (varint v)) buffer)"
  using assms varint_bytes_varint [of v]
  by (simp add: write_varint_def write_prefix_def length_varint [symmetric])

lemma writes_varint [writes_rules]: "writes True (push_varint v) (varint v)"
  by (simp add: writes_def push_varint_def write_varint_prefix MAX_VARINT_LENGTH_def
      push_raw_bytes_def)

lemma writes_bind:
  "writes P f out \<Longrightarrow> writes Q g out' \<Longrightarrow> writes (P \<and> Q) (\<lambda>buffer. Option.bind (f buffer) g) (out @ out')"
  by (simp add: writes_def)

lemma u32_length_eq: "u32_length xs = (if fits_u32 xs then Some (word_of_nat (length xs)) else None)"
  by (simp add: u32_length_def fits_u32_def)

lemma writes_bytes_with_length [writes_rules]:
  "writes (fits_u32 bs) (push_bytes_with_length bs) (sized bs)"
  using writesD [OF writes_varint] writesD [OF writes_raw_bytes]
  by (simp add: writes_def push_bytes_with_length_def u32_length_eq sized_def)

lemma writes_section [writes_rules]:
  "writes (fits_u32 contents) (push_section sec contents) (section_bytes sec contents)"
  using writesD [OF writes_varint] writesD [OF writes_raw_bytes] writesD [OF writes_byte]
  by (simp add: writes_def push_section_def u32_length_eq section_bytes_def sized_def fits_u32_def)

lemma word_of_length_zero:
  "fits_u32 xs \<Longrightarrow> (word_of_nat (length xs) :: u32) = 0 \<longleftrightarrow> xs = []"
  by (metis length_0_conv unat_length_u32 unsigned_0 unsigned_word_eqI)

lemma writes_section_inplace:
  assumes "writes P callback payload"
  shows "writes (P \<and> fits_u32 payload) (push_section_inplace sec callback) (section_bytes sec payload)"
proof -
  have "push_section_inplace sec callback buffer =
      (if P \<and> fits_u32 payload then Some (buffer @ section_bytes sec payload) else None)" for buffer
  proof (cases "P \<and> fits_u32 payload")
    case False
    then show ?thesis
      using writesD [OF assms] by (auto simp: push_section_inplace_def Let_def u32_length_eq)
  next
    case True
    define len where "len = (word_of_nat (length payload) :: u32)"
    have "payload = [] \<longleftrightarrow> len = 0" using True word_of_length_zero by (auto simp: len_def)
    moreover have "write_varint len (replicate 5 0xff @ payload) =
        Some (length (varint len), varint len @ drop (length (varint len)) (replicate 5 0xff @ payload))"
      by (simp add: write_varint_prefix)
    moreover have "drop (5 - length (varint len)) (drop (length (varint len)) (replicate 5 0xff @ payload)) = payload"
      using varint_bytes_varint(3) [of len] by simp
    ultimately show ?thesis
      using True writesD [OF assms] varint_bytes_varint(3) [of len]
      by (simp add: push_section_inplace_def Let_def u32_length_eq MAX_VARINT_LENGTH_def section_bytes_def
          sized_def len_def [symmetric])
  qed
  then show ?thesis by (simp add: writes_def)
qed

lemma writes_all:
  assumes "\<And>x. x \<in> set xs \<Longrightarrow> writes (P x) (push x) (out x)"
  shows "writes (list_all P xs) (push_all push xs) (concat (map out xs))"
  using assms
proof (induction xs)
  case (Cons x xs)
  then have "writes (P x) (push x) (out x)" "writes (list_all P xs) (push_all push xs) (concat (map out xs))"
    by simp_all
  then show ?case by (simp add: writes_def)
qed (simp add: writes_def)

lemma writes_if: "writes P push out \<Longrightarrow> writes (c \<longrightarrow> P) (\<lambda>buffer. if c then push buffer else Some buffer) (if c then out else [])"
  by (simp add: writes_def)

definition memory_config_payload :: "ProgramBlobBuilder \<Rightarrow> bytes" where
  "memory_config_payload b = varint (w_ro_data_size b) @ varint (w_rw_data_size b) @ varint (w_stack_size b)"

definition imports_payload :: "bytes list \<Rightarrow> bytes" where
  "imports_payload names =
    varint (word_of_nat (length names)) @ fst (import_blobs names [] []) @ snd (import_blobs names [] [])"

definition exports_payload :: "(u32 \<times> bytes) list \<Rightarrow> bytes" where
  "exports_payload es = varint (word_of_nat (length es)) @ concat (map (enc_pair varint sized) es)"

definition code_payload :: "SerializedCode \<Rightarrow> bytes" where
  "code_payload code =
    varint (sc_jump_table_entry_count code) @ [sc_jump_table_entry_size code] @
    varint (word_of_nat (length (sc_code code))) @ sc_jump_table code @ sc_code code @ sc_bitmask code"

definition custom_bytes :: "(u8 \<times> bytes) list \<Rightarrow> bytes" where
  "custom_bytes custom = concat (map (\<lambda>(sec, contents). section_bytes sec contents) custom)"

definition has_memory_config :: "ProgramBlobBuilder \<Rightarrow> bool" where
  "has_memory_config b \<longleftrightarrow> w_ro_data_size b > 0 \<or> w_rw_data_size b > 0 \<or> w_stack_size b > 0"

definition optional_section :: "bool \<Rightarrow> u8 \<Rightarrow> bytes \<Rightarrow> bytes" where
  "optional_section c sec payload = (if c then section_bytes sec payload else [])"

definition sections :: "ProgramBlobBuilder \<Rightarrow> SerializedCode \<Rightarrow> bytes" where
  "sections b code =
    optional_section (has_memory_config b) SECTION_MEMORY_CONFIG (memory_config_payload b) @
    section_bytes SECTION_RO_DATA (w_ro_data b) @
    section_bytes SECTION_RW_DATA (w_rw_data b) @
    optional_section (w_imports b \<noteq> []) SECTION_IMPORTS (imports_payload (w_imports b)) @
    optional_section (sc_exports code \<noteq> []) SECTION_EXPORTS (exports_payload (sc_exports code)) @
    section_bytes SECTION_CODE_AND_JUMP_TABLE (code_payload code) @
    custom_bytes (w_custom b) @ [SECTION_END_OF_FILE]"

definition container :: "ProgramBlobBuilder \<Rightarrow> SerializedCode \<Rightarrow> bytes" where
  "container b code =
    BLOB_MAGIC @ [blob_version (w_isa b)] @
    le_bytes 8 (word_of_nat (length (sections b code) + 13) :: u64) @ sections b code"

text \<open>The lengths that are converted to \<open>u32\<close>.\<close>

definition lengths_fit :: "ProgramBlobBuilder \<Rightarrow> SerializedCode \<Rightarrow> bool" where
  "lengths_fit b code \<longleftrightarrow>
    fits_u32 (w_ro_data b) \<and> fits_u32 (w_rw_data b) \<and>
    (w_imports b \<noteq> [] \<longrightarrow> fits_u32 (w_imports b) \<and> fits_u32 (imports_payload (w_imports b))) \<and>
    (sc_exports code \<noteq> [] \<longrightarrow> fits_u32 (sc_exports code) \<and>
      list_all (\<lambda>e. fits_u32 (snd e)) (sc_exports code) \<and> fits_u32 (exports_payload (sc_exports code))) \<and>
    fits_u32 (code_payload code) \<and> list_all (\<lambda>c. fits_u32 (snd c)) (w_custom b)"

lemma writes_memory_config: "writes True (push_memory_config b) (memory_config_payload b)"
  using writesD [OF writes_varint]
  by (simp add: writes_def push_memory_config_def memory_config_payload_def)

lemma writes_imports: "writes (fits_u32 names) (push_imports names) (imports_payload names)"
  using writesD [OF writes_varint] writesD [OF writes_raw_bytes]
  by (simp add: writes_def push_imports_def imports_payload_def u32_length_eq case_prod_beta)

lemma writes_export: "writes (fits_u32 (snd e)) (push_export e) (enc_pair varint sized e)"
  using writesD [OF writes_varint] writesD [OF writes_bytes_with_length]
  by (simp add: writes_def push_export_def enc_pair_def)

lemma writes_exports:
  "writes (fits_u32 es \<and> list_all (\<lambda>e. fits_u32 (snd e)) es) (push_exports es) (exports_payload es)"
  using writesD [OF writes_varint] writesD [OF writes_all [OF writes_export], of _ es]
  by (simp add: writes_def push_exports_def exports_payload_def u32_length_eq)

lemma writes_code: "writes True (push_code code) (code_payload code)"
  using writesD [OF writes_varint] writesD [OF writes_raw_bytes] writesD [OF writes_byte]
  by (simp add: writes_def push_code_def code_payload_def)

lemma writes_custom:
  "writes (list_all (\<lambda>c. fits_u32 (snd c)) custom)
    (push_all (\<lambda>(section, contents). push_section section contents) custom) (custom_bytes custom)"
  unfolding custom_bytes_def by (rule writes_all) (auto simp: writes_section)

lemma fits_memory_config: "fits_u32 (memory_config_payload b)"
  using varint_bytes_varint(3) [of "w_ro_data_size b"] varint_bytes_varint(3) [of "w_rw_data_size b"]
    varint_bytes_varint(3) [of "w_stack_size b"]
  by (simp add: fits_u32_def memory_config_payload_def)

lemma option_if_simps:
  "Option.bind (if P then Some x else None) g = (if P then g x else None)"
  "(if P then if Q then y else None else None) = (if P \<and> Q then y else None)"
  "(if c then if P then Some (buffer @ out) else None else Some buffer) =
    (if c \<longrightarrow> P then Some (buffer @ (if c then out else [])) else None)"
  by auto

lemma to_vec_with_eq: "to_vec_with b code = (if lengths_fit b code then Some (container b code) else None)"
proof -
  note push = writesD [OF writes_raw_bytes] writesD [OF writes_byte] writesD [OF writes_section]
    writesD [OF writes_section_inplace [OF writes_memory_config]]
    writesD [OF writes_section_inplace [OF writes_imports]]
    writesD [OF writes_section_inplace [OF writes_exports]]
    writesD [OF writes_section_inplace [OF writes_code]] writesD [OF writes_custom]
  define out where
    "out = BLOB_MAGIC @ [blob_version (w_isa b)] @ replicate BLOB_LEN_SIZE 0 @ sections b code"
  have "to_vec_with b code = (if lengths_fit b code then
      Some (take BLOB_LEN_OFFSET out @ le_bytes 8 (word_of_nat (length out) :: u64) @
            drop (BLOB_LEN_OFFSET + BLOB_LEN_SIZE) out) else None)"
    unfolding to_vec_with_def has_memory_config_def [symmetric] out_def sections_def optional_section_def
      lengths_fit_def
    by (simp only: push option_if_simps fits_memory_config Let_def append_assoc append_Nil simp_thms
        bind.bind_lunit conj_assoc)
  moreover have "length out = length (sections b code) + 13" "take BLOB_LEN_OFFSET out = BLOB_MAGIC @ [blob_version (w_isa b)]"
    "drop (BLOB_LEN_OFFSET + BLOB_LEN_SIZE) out = sections b code"
    by (simp_all add: out_def BLOB_LEN_OFFSET_def BLOB_LEN_SIZE_def BLOB_MAGIC_def)
  ultimately show ?thesis by (simp add: container_def)
qed

section \<open>Reading it back\<close>

text \<open>The cursor after the byte that says which section comes next.\<close>

definition at_section :: "bytes \<Rightarrow> bytes \<Rightarrow> Reader" where
  "at_section pre stream = cursor (pre @ [hd stream]) (tl stream)"

lemma read_byte_at_section:
  "stream \<noteq> [] \<Longrightarrow> read_byte (cursor pre stream) = Inr (hd stream, at_section pre stream)"
  using read_byte_cursor [of pre "hd stream" "tl stream"] by (simp add: at_section_def)

lemma sized_cursor:
  "fits_u32 contents \<Longrightarrow> reader_read_varint (cursor pre (sized contents @ rest)) =
    Inr (word_of_nat (length contents), cursor (pre @ varint (word_of_nat (length contents))) (contents @ rest))"
  by (simp add: sized_def read_varint_cursor)

lemma read_slice_as_range_cursor:
  "n = length xs \<Longrightarrow> read_slice_as_range (cursor pre (xs @ rest)) n =
    Inr ((length pre, length pre + length xs), cursor (pre @ xs) rest)"
  by (simp add: read_slice_as_range_def)

lemma hd_section_bytes [simp]:
  "hd (section_bytes sec contents @ tail) = (if contents = [] then hd tail else sec)"
  by (simp add: section_bytes_def)

lemma hd_optional_section [simp]:
  "payload \<noteq> [] \<Longrightarrow> hd (optional_section c sec payload @ tail) = (if c then sec else hd tail)"
  by (simp add: optional_section_def section_bytes_def)

lemma hd_section_in: "hd (section_bytes sec contents @ tail) \<in> {sec, hd tail}"
  by simp

lemma hd_optional_in: "payload \<noteq> [] \<Longrightarrow> hd (optional_section c sec payload @ tail) \<in> {sec, hd tail}"
  by simp

lemma at_section_Cons: "at_section pre (sec # rest) = cursor (pre @ [sec]) rest"
  by (simp add: at_section_def)

lemma read_section_at:
  assumes "tail \<noteq> []" "fits_u32 contents" "contents = [] \<Longrightarrow> hd tail \<noteq> sec"
  shows "read_section_as_bytes (at_section pre (section_bytes sec contents @ tail))
      (hd (section_bytes sec contents @ tail)) sec =
    Inr ((contents, hd tail), at_section (pre @ section_bytes sec contents) tail)"
proof (cases "contents = []")
  case True
  then show ?thesis using assms(3) by (simp add: read_section_as_bytes_def section_bytes_def)
next
  case False
  then show ?thesis
    using assms(1,2) read_byte_at_section [OF assms(1)]
    by (simp add: read_section_as_bytes_def section_bytes_def at_section_Cons sized_cursor
        read_slice_as_range_cursor subslice_def) (simp add: at_section_def sized_def)
qed

lemma read_memory_config_at:
  assumes "tail \<noteq> []" "hd tail \<noteq> SECTION_MEMORY_CONFIG"
  shows "read_memory_config
      (at_section pre (optional_section (has_memory_config b) SECTION_MEMORY_CONFIG (memory_config_payload b) @ tail))
      (hd (optional_section (has_memory_config b) SECTION_MEMORY_CONFIG (memory_config_payload b) @ tail))
      (ProgramParts_empty isa) =
    Inr (((ProgramParts_empty isa)\<lparr>pp_ro_data_size := w_ro_data_size b, pp_rw_data_size := w_rw_data_size b,
        pp_stack_size := w_stack_size b\<rparr>, hd tail),
      at_section (pre @ optional_section (has_memory_config b) SECTION_MEMORY_CONFIG (memory_config_payload b)) tail)"
proof (cases "has_memory_config b")
  case False
  then have "w_ro_data_size b = 0" "w_rw_data_size b = 0" "w_stack_size b = 0"
    by (auto simp: has_memory_config_def word_gt_0)
  with False show ?thesis
    using assms(2) by (simp add: read_memory_config_def optional_section_def ProgramParts_empty_def)
next
  case True
  have ne: "memory_config_payload b \<noteq> []"
    using varint_bytes_varint(2) by (simp add: memory_config_payload_def)
  with True show ?thesis
    using read_byte_at_section [OF assms(1)] sized_cursor [OF fits_memory_config, of _ b tail] fits_memory_config
    by (simp add: read_memory_config_def optional_section_def section_bytes_def at_section_Cons)
      (simp add: memory_config_payload_def read_varint_cursor read_byte_at_section [OF assms(1)],
       simp add: at_section_def sized_def memory_config_payload_def)
qed

text \<open>The import offsets: each is the length of the names before it.\<close>

definition import_offset :: "bytes list \<Rightarrow> nat \<Rightarrow> nat" where
  "import_offset names i = length (concat (take i names))"

lemma import_blobs_eq:
  "import_blobs names offs syms =
    (offs @ concat (map (\<lambda>i. le_bytes 4 (word_of_nat (length syms + import_offset names i) :: u32)) [0..<length names]),
     syms @ concat names)"
proof (induction names arbitrary: offs syms)
  case (Cons name names)
  have "[0..<length (name # names)] = 0 # map Suc [0..<length names]"
    by (simp add: upt_conv_Cons map_Suc_upt del: upt_Suc)
  then show ?case by (simp add: Cons.IH import_offset_def comp_def add.assoc del: upt_Suc)
qed simp

lemma length_import_offsets: "length (fst (import_blobs names [] [])) = 4 * length names"
  by (simp add: import_blobs_eq length_concat comp_def sum_list_triv)

lemma imports_payload_ne: "imports_payload names \<noteq> []"
  using varint_bytes_varint(2) by (simp add: imports_payload_def)

lemma read_imports_at:
  assumes "tail \<noteq> []" "hd tail \<noteq> SECTION_IMPORTS" "length names \<le> 1024"
    and "names \<noteq> [] \<Longrightarrow> fits_u32 (imports_payload names)"
    and "pp_import_offsets parts = []" "pp_import_symbols parts = []"
  shows "read_imports
      (at_section pre (optional_section (names \<noteq> []) SECTION_IMPORTS (imports_payload names) @ tail))
      (hd (optional_section (names \<noteq> []) SECTION_IMPORTS (imports_payload names) @ tail)) parts =
    Inr ((parts\<lparr>pp_import_offsets := fst (import_blobs names [] []),
        pp_import_symbols := snd (import_blobs names [] [])\<rparr>, hd tail),
      at_section (pre @ optional_section (names \<noteq> []) SECTION_IMPORTS (imports_payload names)) tail)"
proof (cases "names = []")
  case True
  then show ?thesis
    using assms(2,5,6) by (simp add: read_imports_def optional_section_def)
next
  case False
  define count where "count = (word_of_nat (length names) :: u32)"
  define offs syms where "offs = fst (import_blobs names [] [])" and "syms = snd (import_blobs names [] [])"
  have count: "unat count = length names" using assms(3) by (simp add: count_def unsigned_of_nat take_bit_nat_eq_self)
  have payload: "imports_payload names = varint count @ offs @ syms"
    by (simp add: imports_payload_def count_def offs_def syms_def)
  have offs: "length offs = length names * 4" by (simp add: offs_def length_import_offsets)
  have bounds: "\<not> count > VM_MAXIMUM_IMPORT_COUNT" "length names * 4 < 4294967296"
    using assms(3) count by (simp_all add: VM_MAXIMUM_IMPORT_COUNT_def word_less_nat_alt not_less)
  have len: "unat (word_of_nat (length (imports_payload names)) :: u32) = length (varint count @ offs @ syms)"
    using unat_length_u32 [OF assms(4) [OF False]] by (simp only: payload)
  show ?thesis
    unfolding offs_def [symmetric] syms_def [symmetric]
    using False sized_cursor [OF assms(4) [OF False], of _ tail] imports_payload_ne [of names] bounds len
    by (simp add: read_imports_def optional_section_def section_bytes_def at_section_Cons count offs)
      (simp add: payload read_varint_cursor bounds count read_slice_as_bytes_cursor offs
        read_byte_at_section [OF assms(1)], simp add: at_section_def sized_def payload offs)
qed

text \<open>Optional sections that the parser does not know.\<close>

definition is_optional :: "u8 \<Rightarrow> bool" where
  "is_optional sec \<longleftrightarrow> sec AND 0x80 \<noteq> 0"

lemma skip_optional_at:
  assumes "list_all (\<lambda>(sec, contents). is_optional sec \<and> fits_u32 contents) custom"
  shows "skip_optional_sections (at_section pre (custom_bytes custom @ [SECTION_END_OF_FILE]))
      (hd (custom_bytes custom @ [SECTION_END_OF_FILE])) =
    Inr (SECTION_END_OF_FILE, cursor (pre @ custom_bytes custom @ [SECTION_END_OF_FILE]) [])"
  using assms
proof (induction custom arbitrary: pre)
  case Nil
  then show ?case
    by (subst skip_optional_sections.simps) (simp add: custom_bytes_def SECTION_END_OF_FILE_def at_section_def)
next
  case (Cons c custom)
  obtain sec contents where c: "c = (sec, contents)" by fastforce
  define tail where "tail = custom_bytes custom @ [SECTION_END_OF_FILE]"
  have tail: "tail \<noteq> []" by (simp add: tail_def)
  show ?case
  proof (cases "contents = []")
    case True
    then show ?thesis using Cons by (simp add: c custom_bytes_def section_bytes_def)
  next
    case False
    have ok: "is_optional sec" "fits_u32 contents" using Cons.prems by (simp_all add: c)
    have bytes: "custom_bytes (c # custom) @ [SECTION_END_OF_FILE] = sec # sized contents @ tail"
      using False by (simp add: c custom_bytes_def section_bytes_def tail_def)
    have "skip_optional_sections (at_section pre (sec # sized contents @ tail)) sec =
        skip_optional_sections (at_section (pre @ sec # sized contents) tail) (hd tail)"
      using ok read_slice_as_range_cursor [of "length contents" contents _ tail]
      by (subst skip_optional_sections.simps)
        (simp add: is_optional_def at_section_Cons sized_cursor read_skip_def read_byte_at_section [OF tail],
         simp add: sized_def)
    also have "\<dots> = Inr (SECTION_END_OF_FILE, cursor ((pre @ sec # sized contents) @ tail) [])"
      using Cons.IH [of "pre @ sec # sized contents"] Cons.prems by (simp add: tail_def)
    finally show ?thesis unfolding bytes by (simp add: c)
  qed
qed

lemma optional_section_eq: "optional_section c sec payload = section_bytes sec (if c then payload else [])"
  by (simp add: optional_section_def section_bytes_def)

lemma custom_bytes_Cons: "custom_bytes (c # custom) = section_bytes (fst c) (snd c) @ custom_bytes custom"
  by (simp add: custom_bytes_def case_prod_beta)

lemma hd_custom_bytes:
  "hd (custom_bytes custom @ [SECTION_END_OF_FILE]) \<in> insert SECTION_END_OF_FILE (fst ` set custom)"
proof (induction custom)
  case (Cons c custom)
  then show ?case by (auto simp: custom_bytes_Cons)
qed (simp add: custom_bytes_def)

lemma large_is_optional: "128 \<le> unat sec \<Longrightarrow> is_optional sec"
proof (rule ccontr)
  assume large: "128 \<le> unat sec" and not: "\<not> is_optional sec"
  have "bit (0x80 :: u8) 7" by simp
  then have "\<not> bit sec 7" using not unfolding is_optional_def by (metis bit_and_iff bit_0_eq bot_apply bot_bool_def)
  have "i < 7" if "bit sec i" for i
    using that bit_imp_le_length [OF that] \<open>\<not> bit sec 7\<close> by (cases "i = 7") auto
  then have "unat sec < 2 ^ 7" unfolding unat_less_power_iff_bit by blast
  with large show False by simp
qed

text \<open>What is read back from a builder: \<open>strings\<close>, \<open>programs\<close>, \<open>ranges\<close> and \<open>hash\<close> are the contents of its
  debug and metadata sections.\<close>

definition builder_parts ::
  "ProgramBlobBuilder \<Rightarrow> SerializedCode \<Rightarrow> bytes \<Rightarrow> bytes \<Rightarrow> bytes \<Rightarrow> bytes \<Rightarrow> ProgramParts" where
  "builder_parts b code strings programs ranges hash =
    \<lparr>pp_isa = w_isa b, pp_ro_data_size = w_ro_data_size b, pp_rw_data_size = w_rw_data_size b,
     pp_stack_size = w_stack_size b, pp_ro_data = w_ro_data b, pp_rw_data = w_rw_data b,
     pp_code_and_jump_table = code_payload code,
     pp_import_offsets = fst (import_blobs (w_imports b) [] []),
     pp_import_symbols = snd (import_blobs (w_imports b) [] []),
     pp_exports = (if sc_exports code = [] then [] else exports_payload (sc_exports code)),
     pp_debug_strings = strings, pp_debug_line_program_ranges = ranges, pp_debug_line_programs = programs,
     pp_metadata_hash = hash\<rparr>"

text \<open>Custom sections in the order in which the parser expects the ones it knows; an empty section is
  not written.\<close>

definition debug_sections :: "bytes \<Rightarrow> bytes \<Rightarrow> bytes \<Rightarrow> bytes \<Rightarrow> (u8 \<times> bytes) list" where
  "debug_sections strings programs ranges hash =
    [(SECTION_OPT_DEBUG_STRINGS, strings), (SECTION_OPT_DEBUG_LINE_PROGRAMS, programs),
     (SECTION_OPT_DEBUG_LINE_PROGRAM_RANGES, ranges), (SECTION_OPT_METADATA_HASH, hash)]"

lemma code_payload_ne: "code_payload code \<noteq> []"
  by (simp add: code_payload_def)

lemma exports_payload_ne: "exports_payload es \<noteq> []"
  using varint_bytes_varint(2) by (simp add: exports_payload_def)

lemma read_parts_sections:
  assumes fit: "lengths_fit b code" and names: "length (w_imports b) \<le> 1024"
    and custom: "w_custom b = debug_sections strings programs ranges hash @ unknown"
    and unknown: "list_all (\<lambda>c. 132 \<le> unat (fst c)) unknown"
  shows "read_parts (at_section pre (sections b code)) (hd (sections b code)) (ProgramParts_empty (w_isa b)) =
    Inr (builder_parts b code strings programs ranges hash)"
proof -
  define rest where "rest = custom_bytes unknown @ [SECTION_END_OF_FILE]"
  have rest: "rest \<noteq> []" by (simp add: rest_def)
  have hd: "hd rest = 0 \<or> 132 \<le> unat (hd rest)"
    using hd_custom_bytes [of unknown] unknown by (auto simp: rest_def list_all_iff SECTION_END_OF_FILE_def)
  then have hd: "hd rest \<notin> {1, 2, 3, 4, 5, 6, 128, 129, 130, 131}" by auto
  have fits: "fits_u32 strings" "fits_u32 programs" "fits_u32 ranges" "fits_u32 hash" "fits_u32 (w_ro_data b)"
    "fits_u32 (w_rw_data b)" "fits_u32 (code_payload code)"
    "fits_u32 (if sc_exports code \<noteq> [] then exports_payload (sc_exports code) else [])"
    "w_imports b \<noteq> [] \<Longrightarrow> fits_u32 (imports_payload (w_imports b))"
    using fit by (simp_all add: lengths_fit_def custom debug_sections_def fits_u32_def)
  have "list_all (\<lambda>c. fits_u32 (snd c)) unknown" using fit by (simp add: lengths_fit_def custom)
  then have opt: "list_all (\<lambda>(sec, contents). is_optional sec \<and> fits_u32 contents) unknown"
    using unknown by (auto simp: list_all_iff intro!: large_is_optional)
  define ex where "ex = (if sc_exports code \<noteq> [] then exports_payload (sc_exports code) else [])"
  define t9 where "t9 = section_bytes SECTION_OPT_METADATA_HASH hash @ rest"
  define t8 where "t8 = section_bytes SECTION_OPT_DEBUG_LINE_PROGRAM_RANGES ranges @ t9"
  define t7 where "t7 = section_bytes SECTION_OPT_DEBUG_LINE_PROGRAMS programs @ t8"
  define t6 where "t6 = section_bytes SECTION_OPT_DEBUG_STRINGS strings @ t7"
  define t5 where "t5 = section_bytes SECTION_CODE_AND_JUMP_TABLE (code_payload code) @ t6"
  define t4 where "t4 = section_bytes SECTION_EXPORTS ex @ t5"
  define t3 where "t3 = optional_section (w_imports b \<noteq> []) SECTION_IMPORTS (imports_payload (w_imports b)) @ t4"
  define t2 where "t2 = section_bytes SECTION_RW_DATA (w_rw_data b) @ t3"
  define t1 where "t1 = section_bytes SECTION_RO_DATA (w_ro_data b) @ t2"
  have sections: "sections b code =
      optional_section (has_memory_config b) SECTION_MEMORY_CONFIG (memory_config_payload b) @ t1"
    by (simp add: sections_def custom debug_sections_def custom_bytes_def rest_def optional_section_eq t1_def
        t2_def t3_def t4_def t5_def t6_def t7_def t8_def t9_def ex_def)
  have ne: "t9 \<noteq> []" "t8 \<noteq> []" "t7 \<noteq> []" "t6 \<noteq> []" "t5 \<noteq> []" "t4 \<noteq> []" "t3 \<noteq> []" "t2 \<noteq> []" "t1 \<noteq> []"
    using rest by (simp_all add: t1_def t2_def t3_def t4_def t5_def t6_def t7_def t8_def t9_def)
  have h9: "hd t9 \<in> {131, hd rest}" unfolding t9_def section_defs by (rule hd_section_in)
  have h8: "hd t8 \<in> {130, hd t9}" unfolding t8_def section_defs by (rule hd_section_in)
  have h7: "hd t7 \<in> {129, hd t8}" unfolding t7_def section_defs by (rule hd_section_in)
  have h6: "hd t6 \<in> {128, hd t7}" unfolding t6_def section_defs by (rule hd_section_in)
  have h5: "hd t5 = 6" using code_payload_ne [of code] by (simp add: t5_def section_defs)
  have h4: "hd t4 \<in> {5, hd t5}" unfolding t4_def section_defs by (rule hd_section_in)
  have h3: "hd t3 \<in> {4, hd t4}" unfolding t3_def section_defs by (rule hd_optional_in [OF imports_payload_ne])
  have h2: "hd t2 \<in> {3, hd t3}" unfolding t2_def section_defs by (rule hd_section_in)
  have h1: "hd t1 \<in> {2, hd t2}" unfolding t1_def section_defs by (rule hd_section_in)
  have r9: "read_section_as_bytes (at_section pre t9) (hd t9) SECTION_OPT_METADATA_HASH =
      Inr ((hash, hd rest), at_section (pre @ section_bytes SECTION_OPT_METADATA_HASH hash) rest)" for pre
    unfolding t9_def using rest fits(4) by (rule read_section_at) (use hd in \<open>simp add: section_defs\<close>)
  have r8: "read_section_as_bytes (at_section pre t8) (hd t8) SECTION_OPT_DEBUG_LINE_PROGRAM_RANGES =
      Inr ((ranges, hd t9), at_section (pre @ section_bytes SECTION_OPT_DEBUG_LINE_PROGRAM_RANGES ranges) t9)" for pre
    unfolding t8_def using ne(1) fits(3) by (rule read_section_at) (use hd h9 in \<open>auto simp: section_defs\<close>)
  have r7: "read_section_as_bytes (at_section pre t7) (hd t7) SECTION_OPT_DEBUG_LINE_PROGRAMS =
      Inr ((programs, hd t8), at_section (pre @ section_bytes SECTION_OPT_DEBUG_LINE_PROGRAMS programs) t8)" for pre
    unfolding t7_def using ne(2) fits(2) by (rule read_section_at) (use hd h9 h8 in \<open>auto simp: section_defs\<close>)
  have r6: "read_section_as_bytes (at_section pre t6) (hd t6) SECTION_OPT_DEBUG_STRINGS =
      Inr ((strings, hd t7), at_section (pre @ section_bytes SECTION_OPT_DEBUG_STRINGS strings) t7)" for pre
    unfolding t6_def using ne(3) fits(1) by (rule read_section_at) (use hd h9 h8 h7 in \<open>auto simp: section_defs\<close>)
  have r5: "read_section_as_bytes (at_section pre t5) (hd t5) SECTION_CODE_AND_JUMP_TABLE =
      Inr ((code_payload code, hd t6), at_section (pre @ section_bytes SECTION_CODE_AND_JUMP_TABLE (code_payload code)) t6)" for pre
    unfolding t5_def using ne(4) fits(7) by (rule read_section_at) (simp add: code_payload_ne)
  have r4: "read_section_as_bytes (at_section pre t4) (hd t4) SECTION_EXPORTS =
      Inr ((ex, hd t5), at_section (pre @ section_bytes SECTION_EXPORTS ex) t5)" for pre
    unfolding t4_def using ne(5) fits(8) [folded ex_def] by (rule read_section_at) (simp add: section_defs h5)
  have r3: "read_imports (at_section pre t3) (hd t3) parts =
      Inr ((parts\<lparr>pp_import_offsets := fst (import_blobs (w_imports b) [] []),
          pp_import_symbols := snd (import_blobs (w_imports b) [] [])\<rparr>, hd t4),
        at_section (pre @ optional_section (w_imports b \<noteq> []) SECTION_IMPORTS (imports_payload (w_imports b))) t4)"
    if "pp_import_offsets parts = []" "pp_import_symbols parts = []" for pre parts
    unfolding t3_def using ne(6) _ names fits(9) that
    by (rule read_imports_at) (use h4 h5 in \<open>auto simp: section_defs\<close>)
  have r2: "read_section_as_bytes (at_section pre t2) (hd t2) SECTION_RW_DATA =
      Inr ((w_rw_data b, hd t3), at_section (pre @ section_bytes SECTION_RW_DATA (w_rw_data b)) t3)" for pre
    unfolding t2_def using ne(7) fits(6) by (rule read_section_at) (use h3 h4 h5 in \<open>auto simp: section_defs\<close>)
  have r1: "read_section_as_bytes (at_section pre t1) (hd t1) SECTION_RO_DATA =
      Inr ((w_ro_data b, hd t2), at_section (pre @ section_bytes SECTION_RO_DATA (w_ro_data b)) t2)" for pre
    unfolding t1_def using ne(8) fits(5) by (rule read_section_at) (use h2 h3 h4 h5 in \<open>auto simp: section_defs\<close>)
  have r0: "read_memory_config (at_section pre (sections b code)) (hd (sections b code)) (ProgramParts_empty isa) =
      Inr (((ProgramParts_empty isa)\<lparr>pp_ro_data_size := w_ro_data_size b, pp_rw_data_size := w_rw_data_size b,
          pp_stack_size := w_stack_size b\<rparr>, hd t1),
        at_section (pre @ optional_section (has_memory_config b) SECTION_MEMORY_CONFIG (memory_config_payload b)) t1)"
    for pre isa
    unfolding sections using ne(9)
    by (rule read_memory_config_at) (use h1 h2 h3 h4 h5 in \<open>auto simp: section_defs\<close>)
  have skip: "skip_optional_sections (at_section pre rest) (hd rest) =
      Inr (SECTION_END_OF_FILE, cursor (pre @ rest) [])" for pre
    using skip_optional_at [OF opt, of pre] by (simp add: rest_def)
  show ?thesis
    unfolding read_parts_def
    by (simp add: r0 [unfolded ProgramParts_empty_def] r1 r2 r3 r4 r5 r6 r7 r8 r9 skip
        ProgramParts_empty_def builder_parts_def ex_def Let_def)
qed

lemma from_bytes_container:
  assumes fit: "lengths_fit b code" and size: "length (container b code) < 2 ^ 64"
    and names: "length (w_imports b) \<le> 1024"
    and custom: "w_custom b = debug_sections strings programs ranges hash @ unknown"
    and unknown: "list_all (\<lambda>c. 132 \<le> unat (fst c)) unknown"
  shows "from_bytes (container b code) = Inr (builder_parts b code strings programs ranges hash)"
proof -
  have len: "length (container b code) = length (sections b code) + 13"
    by (simp add: container_def BLOB_MAGIC_def)
  define lenb where "lenb = le_bytes 8 (word_of_nat (length (sections b code) + 13) :: u64)"
  have magic: "take (length BLOB_MAGIC) (container b code) = BLOB_MAGIC"
    by (simp add: container_def)
  have reader: "\<lparr>blob = container b code, position = length BLOB_MAGIC\<rparr> =
      cursor BLOB_MAGIC (blob_version (w_isa b) # lenb @ sections b code)"
    by (simp add: cursor_def container_def lenb_def)
  have lenb: "unat (from_le_bytes lenb :: u64) = length (container b code)" "length lenb = BLOB_LEN_SIZE"
    using size unfolding len lenb_def from_le_bytes_le_bytes
    by (simp_all add: take_bit_word_self unsigned_of_nat take_bit_nat_eq_self BLOB_LEN_SIZE_def del: of_nat_add)
  have version: "from_blob_version (blob_version k) = Some k" for k
    by (cases k) (simp_all add: from_blob_version_def)
  have first: "read_byte (cursor pre (sections b code)) =
      Inr (hd (sections b code), at_section pre (sections b code))" for pre
    by (rule read_byte_at_section) (simp add: sections_def)
  show ?thesis
    unfolding from_bytes_def magic reader
    by (simp add: read_byte_cursor version read_slice_cursor lenb first
        read_parts_sections [OF fit names custom unknown])
qed

section \<open>The program that is read back\<close>

definition serialized_ok :: "SerializedCode \<Rightarrow> bool" where
  "serialized_ok code \<longleftrightarrow>
    sc_jump_table_entry_count code \<le> VM_MAXIMUM_JUMP_TABLE_ENTRIES \<and>
    sc_jump_table_entry_size code \<le> 4 \<and>
    length (sc_jump_table code) = unat (sc_jump_table_entry_count code) * unat (sc_jump_table_entry_size code) \<and>
    length (sc_code code) \<le> unat VM_MAXIMUM_CODE_SIZE \<and>
    check_bitmask (sc_code code) (sc_bitmask code) = Inr ()"

lemma cursor_0: "\<lparr>blob = bs, position = 0\<rparr> = cursor [] bs"
  by (simp add: cursor_def)

lemma read_code_payload:
  assumes "serialized_ok code"
  shows "read_code (code_payload code) =
    Inr (sc_jump_table_entry_size code, sc_jump_table code, sc_code code, sc_bitmask code)"
proof -
  define count sz where "count = sc_jump_table_entry_count code" and "sz = sc_jump_table_entry_size code"
  define len where "len = (word_of_nat (length (sc_code code)) :: u32)"
  note ok = assms [unfolded serialized_ok_def, folded count_def sz_def]
  have len: "unat len = length (sc_code code)" "\<not> len > VM_MAXIMUM_CODE_SIZE"
  proof -
    have "length (sc_code code) < 2 ^ 32" using ok by (simp add: VM_MAXIMUM_CODE_SIZE_def)
    then show "unat len = length (sc_code code)"
      by (simp add: len_def unsigned_of_nat take_bit_nat_eq_self)
    then show "\<not> len > VM_MAXIMUM_CODE_SIZE" using ok by (simp add: word_less_nat_alt)
  qed
  have "unat count \<le> 16777216" "unat sz \<le> 4"
    using ok by (simp_all add: word_le_nat_alt VM_MAXIMUM_JUMP_TABLE_ENTRIES_def)
  then have "unat count * unat sz \<le> 16777216 * 4" by (rule mult_le_mono)
  then have small: "unat count * unat sz < 4294967296" by simp
  have payload: "code_payload code =
      varint count @ sz # varint len @ sc_jump_table code @ sc_code code @ sc_bitmask code"
    by (simp add: code_payload_def count_def sz_def len_def)
  have "\<not> VM_MAXIMUM_JUMP_TABLE_ENTRIES < count" using ok by (simp add: not_less)
  then show ?thesis
    using ok small len read_slice_as_bytes_cursor [of "length (sc_bitmask code)" "sc_bitmask code" _ "[]"]
    unfolding read_code_def Let_def cursor_0 payload sz_def [symmetric]
    by (simp add: read_varint_cursor read_byte_cursor read_slice_as_bytes_cursor)
qed

text \<open>A loop over the exports of a program that was written sees them all.\<close>

interpretation export_entry: codec_pair varint reader_read_varint "\<lambda>_. True" sized read_bytes_with_length fits_u32
  by unfold_locales

lemma exports_next_pending:
  assumes "fits_u32 name" "remaining \<noteq> 0"
  shows "ExportIterator_next \<lparr>ex_state = Pending remaining, ex_reader = cursor pre (enc_pair varint sized (pc, name) @ rest)\<rparr> =
    (Some \<lparr>program_counter = pc, symbol = name\<rparr>,
     \<lparr>ex_state = Pending (remaining - 1), ex_reader = cursor (pre @ enc_pair varint sized (pc, name)) rest\<rparr>)"
  using assms sized.dec_enc [OF assms(1)]
  by (simp add: ExportIterator_next_def Let_def enc_pair_def read_varint_cursor)

lemma exports_collect_pending:
  assumes "list_all (\<lambda>e. fits_u32 (snd e)) es" "length es < 2 ^ 32"
  shows "exports_collect (Suc (length es))
    \<lparr>ex_state = Pending (word_of_nat (length es)), ex_reader = cursor pre (concat (map (enc_pair varint sized) es))\<rparr> =
    Some (map (\<lambda>(pc, name). \<lparr>program_counter = pc, symbol = name\<rparr>) es)"
  using assms
proof (induction es arbitrary: pre)
  case Nil
  then show ?case by (simp add: ExportIterator_next_def)
next
  case (Cons e es)
  obtain pc name where e: "e = (pc, name)" by fastforce
  have count: "(word_of_nat (length (e # es)) :: u32) \<noteq> 0"
    using word_of_length_zero [of "e # es"] Cons.prems(2) by (simp add: fits_u32_def)
  show ?case
    using exports_next_pending [of name "word_of_nat (length (e # es))" pre pc "concat (map (enc_pair varint sized) es)"]
      Cons.prems Cons.IH [of "pre @ enc_pair varint sized (pc, name)"] count
    by (simp add: e)
qed

lemma exports_collect_payload:
  assumes "list_all (\<lambda>e. fits_u32 (snd e)) es" "fits_u32 es"
  shows "exports_collect (length es + 1)
    \<lparr>ex_state = (if es \<noteq> [] then Uninitialized else Finished),
     ex_reader = \<lparr>blob = (if es = [] then [] else exports_payload es), position = 0\<rparr>\<rparr> =
    Some (map (\<lambda>(pc, name). \<lparr>program_counter = pc, symbol = name\<rparr>) es)"
proof (cases "es = []")
  case True
  then show ?thesis by (simp add: ExportIterator_next_def)
next
  case False
  define body where "body = concat (map (enc_pair varint sized) es)"
  have "ExportIterator_next \<lparr>ex_state = Uninitialized, ex_reader = cursor [] (varint (word_of_nat (length es)) @ body)\<rparr> =
      ExportIterator_next \<lparr>ex_state = Pending (word_of_nat (length es)),
        ex_reader = cursor (varint (word_of_nat (length es))) body\<rparr>"
    using read_varint_cursor [of "[]" "word_of_nat (length es)" body]
    by (simp add: ExportIterator_next_def Let_def)
  then show ?thesis
    using False exports_collect_pending [of es "varint (word_of_nat (length es))"] assms
    by (simp add: exports_payload_def cursor_0 body_def fits_u32_def)
qed

lemma take_drop_chunk:
  "list_all (\<lambda>x. length (f x) = k) xs \<Longrightarrow> i < length xs \<Longrightarrow> take k (drop (k * i) (concat (map f xs))) = f (xs ! i)"
proof (induction xs arbitrary: i)
  case (Cons x xs)
  then show ?case by (cases i) (simp_all add: add.commute)
qed simp

lemma length_chunks: "list_all (\<lambda>x. length (f x) = k) xs \<Longrightarrow> length (concat (map f xs)) = k * length xs"
  by (induction xs) simp_all

lemma import_offset_Suc: "i < length names \<Longrightarrow> import_offset names (Suc i) = import_offset names i + length (names ! i)"
  by (simp add: import_offset_def take_Suc_conv_app_nth)

lemma import_offset_mono: "i \<le> j \<Longrightarrow> import_offset names i \<le> import_offset names j"
  by (metis concat_append import_offset_def le_add1 length_append min.absorb1 take_add take_all_iff
      take_take nat_le_iff_add)

lemma import_name:
  assumes "i < length names"
  shows "slice_get (concat names) (import_offset names i) (import_offset names (Suc i)) = Some (names ! i)"
proof -
  have "concat names = concat (take i names) @ names ! i @ concat (drop (Suc i) names)"
    by (metis assms concat_append concat.simps(2) id_take_nth_drop)
  moreover from this have "import_offset names (Suc i) \<le> length (concat names)"
    using assms by (simp add: import_offset_Suc) (simp add: import_offset_def)
  ultimately show ?thesis
    using assms by (simp add: slice_get_def import_offset_Suc) (simp add: import_offset_def)
qed

lemma Imports_get_written:
  assumes "length names \<le> 1024" "length (concat names) < 2 ^ 32" "i < length names"
  shows "Imports_get \<lparr>im_offsets = fst (import_blobs names [] []), im_symbols = snd (import_blobs names [] [])\<rparr>
    (word_of_nat i) = Some (names ! i)"
proof -
  define offs where "offs = fst (import_blobs names [] [])"
  define w where "w j = (word_of_nat (import_offset names j) :: u32)" for j
  have i: "unat (word_of_nat i :: u32) = i" "i < 1024"
    using assms by (simp_all add: unsigned_of_nat take_bit_nat_eq_self)
  have offs: "offs = concat (map (\<lambda>j. le_bytes 4 (w j)) [0..<length names])"
    by (simp add: offs_def import_blobs_eq w_def)
  have entry: "slice_get offs (4 * j) (4 * j + 4) =
      (if j < length names then Some (le_bytes 4 (w j)) else None)" for j
    using take_drop_chunk [of "\<lambda>j. le_bytes 4 (w j)" 4 "[0..<length names]" j]
      length_chunks [of "\<lambda>j. le_bytes 4 (w j)" 4 "[0..<length names]"]
    by (auto simp: slice_get_def offs list_all_iff)
  have four: "[xs ! 0, xs ! 1, xs ! 2, xs ! 3] = xs" if "length xs = 4" for xs :: bytes
    using that by (intro nth_equalityI) (auto simp: less_Suc_eq eval_nat_numeral nth_Cons')
  have w: "unat (from_le_bytes (le_bytes 4 (w j)) :: u32) = import_offset names j" if "j \<le> length names" for j
    using import_offset_mono [OF that, of names] assms(2)
    by (simp add: from_le_bytes_le_bytes take_bit_word_self w_def unsigned_of_nat take_bit_nat_eq_self import_offset_def)
  have nat: "unat (word_of_nat n :: u32) = n" if "n < 5000" for n
    using that by (simp add: unsigned_of_nat take_bit_nat_eq_self)
  have idx: "checked_mul (word_of_nat i) 4 = Some (word_of_nat (4 * i))"
    "checked_add (word_of_nat (4 * i)) 4 = Some (word_of_nat (4 * i + 4))"
    "checked_add (word_of_nat (4 * i + 4)) 4 = Some (word_of_nat (4 * Suc i + 4))"
    using i nat [of "4 * i"] nat [of "4 * i + 4"]
    by (simp_all add: checked_mul_def checked_add_def mult.commute del: of_nat_add) (simp_all add: algebra_simps)
  have idx': "unat (word_of_nat (4 * i) :: u32) = 4 * i" "unat (word_of_nat (4 * i + 4) :: u32) = 4 * i + 4"
    "unat (word_of_nat (4 * Suc i + 4) :: u32) = 4 * Suc i + 4"
    by (rule nat, use i(2) in simp)+
  have last: "slice_get offs (4 * i + 4) (4 * Suc i + 4) =
      (if Suc i < length names then Some (le_bytes 4 (w (Suc i))) else None)"
    using entry [of "Suc i"] by (simp add: add.commute)
  have "length (snd (import_blobs names [] [])) = import_offset names (Suc i)" if "\<not> Suc i < length names"
    using that assms(3) by (simp add: import_blobs_eq import_offset_def)
  then show ?thesis
    unfolding Imports_get_def offs_def [symmetric] idx option.case
    using entry [of i] last assms(3) w [of i] w [of "Suc i"] import_name [OF assms(3)]
    by (simp only: idx' Imports.simps option.case if_True Let_def four [OF length_le_bytes])
      (cases "Suc i < length names"; simp only: four [OF length_le_bytes] option.case if_True if_False;
       simp add: import_blobs_eq)
qed

definition builder_blob ::
  "ProgramBlobBuilder \<Rightarrow> SerializedCode \<Rightarrow> bytes \<Rightarrow> bytes \<Rightarrow> bytes \<Rightarrow> bytes \<Rightarrow> ProgramBlob" where
  "builder_blob b code strings programs ranges hash =
    \<lparr>pb_isa = w_isa b, pb_ro_data_size = w_ro_data_size b, pb_rw_data_size = w_rw_data_size b,
     pb_stack_size = w_stack_size b, pb_ro_data = w_ro_data b, pb_rw_data = w_rw_data b,
     pb_code = sc_code code, pb_jump_table = sc_jump_table code,
     pb_jump_table_entry_size = sc_jump_table_entry_size code, pb_bitmask = sc_bitmask code,
     pb_import_offsets = fst (import_blobs (w_imports b) [] []),
     pb_import_symbols = snd (import_blobs (w_imports b) [] []),
     pb_exports = (if sc_exports code = [] then [] else exports_payload (sc_exports code)),
     pb_debug_strings = strings, pb_debug_line_program_ranges = ranges, pb_debug_line_programs = programs,
     pb_metadata_hash = hash\<rparr>"

lemma parse_container:
  assumes fit: "lengths_fit b code" and size: "length (container b code) < 2 ^ 64"
    and names: "length (w_imports b) \<le> 1024"
    and custom: "w_custom b = debug_sections strings programs ranges hash @ unknown"
      "list_all (\<lambda>c. 132 \<le> unat (fst c)) unknown"
    and data: "length (w_ro_data b) \<le> unat (w_ro_data_size b)" "length (w_rw_data b) \<le> unat (w_rw_data_size b)"
    and code: "serialized_ok code"
  shows "parse (container b code) = Inr (builder_blob b code strings programs ranges hash)"
  using data
  by (simp add: parse_def from_bytes_container [OF fit size names custom] from_parts_def builder_parts_def
      builder_blob_def read_code_payload [OF code] code_payload_ne)

lemma concat_names_fit:
  "lengths_fit b code \<Longrightarrow> length (concat (w_imports b)) < 2 ^ 32"
  by (cases "w_imports b = []")
    (auto simp: lengths_fit_def fits_u32_def imports_payload_def import_blobs_eq)

lemma exports_written:
  "lengths_fit b code \<Longrightarrow>
    exports_collect (length (sc_exports code) + 1) (blob_exports (builder_blob b code strings programs ranges hash)) =
    Some (map (\<lambda>(pc, name). \<lparr>program_counter = pc, symbol = name\<rparr>) (sc_exports code))"
  using exports_collect_payload [of "sc_exports code"] exports_payload_ne [of "sc_exports code"]
  by (cases "sc_exports code = []") (auto simp: blob_exports_def builder_blob_def lengths_fit_def fits_u32_def)

text \<open>C20: Writing a program and parsing the bytes gives it back. For a builder whose data fits the declared sizes,
  with at most 1024 imports, whose custom sections are the four known ones followed by others
  with ids from 132, and for serialized code that is well formed, \<open>parse\<close> of the bytes of \<open>to_vec\<close> succeeds;
  every field is that of the builder, the iterator over the exports yields exactly the exports that were added,
  and every import index yields the import symbol that was added there.\<close>
theorem blob_roundtrip:
  assumes "to_vec_with b code = Some bs" "length bs < 2 ^ 64" "length (w_imports b) \<le> 1024"
    and "w_custom b = debug_sections strings programs ranges hash @ unknown"
    and "list_all (\<lambda>c. 132 \<le> unat (fst c)) unknown"
    and "length (w_ro_data b) \<le> unat (w_ro_data_size b)" "length (w_rw_data b) \<le> unat (w_rw_data_size b)"
    and "serialized_ok code"
  shows "\<exists>p. parse bs = Inr p \<and>
    pb_isa p = w_isa b \<and> pb_ro_data_size p = w_ro_data_size b \<and> pb_rw_data_size p = w_rw_data_size b \<and>
    pb_stack_size p = w_stack_size b \<and> pb_ro_data p = w_ro_data b \<and> pb_rw_data p = w_rw_data b \<and>
    pb_code p = sc_code code \<and> pb_bitmask p = sc_bitmask code \<and>
    pb_jump_table p = sc_jump_table code \<and> pb_jump_table_entry_size p = sc_jump_table_entry_size code \<and>
    pb_debug_strings p = strings \<and> pb_debug_line_programs p = programs \<and>
    pb_debug_line_program_ranges p = ranges \<and> pb_metadata_hash p = hash \<and>
    exports_collect (length (sc_exports code) + 1) (blob_exports p) =
      Some (map (\<lambda>(pc, name). \<lparr>program_counter = pc, symbol = name\<rparr>) (sc_exports code)) \<and>
    unat (Imports_len (blob_imports p)) = length (w_imports b) \<and>
    (\<forall>i < length (w_imports b). Imports_get (blob_imports p) (word_of_nat i) = Some (w_imports b ! i))"
proof -
  have fit: "lengths_fit b code" and bs: "bs = container b code"
    using assms(1) by (simp_all add: to_vec_with_eq split: if_splits)
  define p where "p = builder_blob b code strings programs ranges hash"
  have "parse bs = Inr p"
    unfolding bs p_def using fit assms(2-) by (intro parse_container) (simp_all add: bs)
  moreover have "Imports_get (blob_imports p) (word_of_nat i) = Some (w_imports b ! i)" if "i < length (w_imports b)" for i
    using Imports_get_written [OF assms(3) concat_names_fit [OF fit] that]
    by (simp add: p_def blob_imports_def builder_blob_def)
  moreover have "unat (Imports_len (blob_imports p)) = length (w_imports b)"
    using assms(3)
    by (simp add: p_def blob_imports_def builder_blob_def Imports_len_def length_import_offsets unsigned_of_nat take_bit_nat_eq_self)
  ultimately show ?thesis
    using exports_written [OF fit, of strings programs ranges hash, folded p_def]
    by (intro exI [of _ p]) (simp add: p_def builder_blob_def)
qed

section \<open>An example\<close>

definition example_builder :: ProgramBlobBuilder where
  "example_builder = (ProgramBlobBuilder_new Latest64)
    \<lparr>w_ro_data_size := 4096, w_ro_data := [1, 2], w_stack_size := 8192,
     w_imports := [[104, 111], [116]], w_custom := debug_sections [] [] [] [7] @ [(200, [1])]\<rparr>"

definition example_code :: SerializedCode where
  "example_code = \<lparr>sc_jump_table = [0], sc_jump_table_entry_count = 1, sc_jump_table_entry_size = 1,
     sc_code = [0, 1, 2], sc_bitmask = [5], sc_exports = [(0, [109])]\<rparr>"

lemmas example_payloads =
  example_builder_def example_code_def ProgramBlobBuilder_new_def imports_payload_def exports_payload_def
  code_payload_def memory_config_payload_def enc_pair_def sized_def debug_sections_def
  length_varint varint_length_cases fits_u32_def

lemma example_written: "lengths_fit example_builder example_code"
  "length (container example_builder example_code) < 2 ^ 64"
  by (simp_all add: example_payloads lengths_fit_def container_def sections_def optional_section_def section_bytes_def
      custom_bytes_def BLOB_MAGIC_def)

lemma example_serialized: "serialized_ok example_code"
proof -
  have "padding_mask 5 AND 5 = 0"
    using unat_less_imp_bit [of "5 :: u8" 3] by (intro bit_word_eqI) (force simp: bit_and_iff bit_padding_mask)
  then show ?thesis
    by (simp add: serialized_ok_def example_code_def check_bitmask_def VM_MAXIMUM_JUMP_TABLE_ENTRIES_def
        VM_MAXIMUM_CODE_SIZE_def and.commute)
qed

lemma example_builder_ok:
  "length (w_imports example_builder) \<le> 1024"
  "w_custom example_builder = debug_sections [] [] [] [7] @ [(200, [1])]"
  "list_all (\<lambda>c. 132 \<le> unat (fst c)) [(200 :: u8, [1 :: u8])]"
  "length (w_ro_data example_builder) \<le> unat (w_ro_data_size example_builder)"
  "length (w_rw_data example_builder) \<le> unat (w_rw_data_size example_builder)"
  by (simp_all add: example_builder_def ProgramBlobBuilder_new_def)

lemma blob_roundtrip_witness:
  "\<exists>bs p. to_vec_with example_builder example_code = Some bs \<and> parse bs = Inr p \<and>
    pb_metadata_hash p = [7] \<and> pb_code p = [0, 1, 2] \<and> Imports_get (blob_imports p) 1 = Some [116]"
proof -
  have bs: "to_vec_with example_builder example_code = Some (container example_builder example_code)"
    by (simp add: to_vec_with_eq example_written)
  obtain p where p: "parse (container example_builder example_code) = Inr p" "pb_code p = sc_code example_code"
    "pb_metadata_hash p = [7]"
    "\<forall>i < length (w_imports example_builder). Imports_get (blob_imports p) (word_of_nat i) = Some (w_imports example_builder ! i)"
    using blob_roundtrip [OF bs example_written(2) example_builder_ok example_serialized]
    by (elim exE conjE) (rule that)
  have "Imports_get (blob_imports p) 1 = Some [116]"
    using p(4) [rule_format, of 1] by (simp add: example_builder_def)
  then show ?thesis using bs p by (auto simp: example_code_def)
qed

lemma parse_ok_witness:
  "\<exists>p. parse (container example_builder example_code) = Inr p \<and> blob_ok p \<and> pb_code p = [0, 1, 2]"
proof -
  have p: "parse (container example_builder example_code) = Inr (builder_blob example_builder example_code [] [] [] [7])"
    by (rule parse_container [OF example_written example_builder_ok example_serialized])
  show ?thesis using p parse_ok [OF p] by (simp add: builder_blob_def example_code_def)
qed

end
