(* ===== verification/Code_Writer.thy ===== *)
theory Code_Writer
  imports Writer
begin

text \<open>
  \<open>ProgramBlobBuilder::serialize_code\<close> of \<open>crates/polkavm-common/src/writer.rs\<close>: the dispatch table and the
  code become one list of instructions, jump targets given as basic block numbers become byte offsets, the
  offsets are adjusted until nothing changes, and the code, its bitmask, the jump table and the exports
  are written out. \<open>None\<close> is a panic or a loop that does not end; \<open>Inl\<close> is an error that is returned.

  The proofs show that a result is well formed and is read back, instruction by instruction, with every jump
  and every export at the instruction it names, and every jump table entry too, as far as the entry size holds it.
\<close>

section \<open>Instructions in a buffer\<close>

record InstructionBuffer =
  ib_bytes :: bytes
  ib_length :: u8

definition InstructionBuffer_default :: InstructionBuffer where
  "InstructionBuffer_default = \<lparr>ib_bytes = replicate MAX_INSTRUCTION_LENGTH 0, ib_length = 0\<rparr>"

definition InstructionBuffer_len :: "InstructionBuffer \<Rightarrow> nat" where
  "InstructionBuffer_len buffer = unat (ib_length buffer)"

definition InstructionBuffer_deref :: "InstructionBuffer \<Rightarrow> bytes" where
  "InstructionBuffer_deref buffer = take (unat (ib_length buffer)) (ib_bytes buffer)"

definition InstructionBuffer_new ::
  "InstructionSetKind \<Rightarrow> u32 \<Rightarrow> u8 \<Rightarrow> Instruction \<Rightarrow> InstructionBuffer option" where
  "InstructionBuffer_new isa pos minimum_size instruction =
    (let minimum_size = unat minimum_size in
     case serialize_into (isa_of isa) pos instruction (replicate MAX_INSTRUCTION_LENGTH 0) of
       None \<Rightarrow> None
     | Some (len, bs) \<Rightarrow>
         if len < minimum_size then
           (case instruction of
              I_offset jump target \<Rightarrow>
                if minimum_size \<ge> 1 \<and> minimum_size \<le> 5 then
                  Some \<lparr>ib_bytes = take 1 bs @ take (minimum_size - 1) (le_bytes 4 (target - pos)) @
                      drop minimum_size bs,
                    ib_length = word_of_nat minimum_size\<rparr>
                else None
            | _ \<Rightarrow> None)
         else Some \<lparr>ib_bytes = bs, ib_length = word_of_nat len\<rparr>)"

text \<open>\<open>target_mut\<close> as a getter and a setter.\<close>

fun target_of :: "Instruction \<Rightarrow> u32 option" where
  "target_of (I_offset jump t) = Some t"
| "target_of (I_reg_imm_offset _ _ _ t) = Some t"
| "target_of (I_reg_reg_offset _ _ _ t) = Some t"
| "target_of _ = None"

fun with_target :: "u32 \<Rightarrow> Instruction \<Rightarrow> Instruction" where
  "with_target t (I_offset jump _) = I_offset jump t"
| "with_target t (I_reg_imm_offset op reg imm _) = I_reg_imm_offset op reg imm t"
| "with_target t (I_reg_reg_offset op reg1 reg2 _) = I_reg_reg_offset op reg1 reg2 t"
| "with_target t i = i"

record SerializedInstruction =
  si_instruction :: Instruction
  si_bytes :: InstructionBuffer
  si_target_nth_instruction :: "nat option"
  si_position :: u32
  si_minimum_size :: u8

datatype SerializeError =
    SymbolNotFound bytes
  | NotBasicBlockBased bytes
  | InstructionNotAvailable Opcode InstructionSetKind

section \<open>The list of instructions\<close>

definition basic_block_shift :: "ProgramBlobBuilder \<Rightarrow> u32" where
  "basic_block_shift b = word_of_nat (length (w_dispatch_table b))"

definition dispatch_entry :: "ProgramBlobBuilder \<Rightarrow> nat \<Rightarrow> bytes \<Rightarrow> SerializeError + SerializedInstruction" where
  "dispatch_entry b n name =
    (case find (\<lambda>(_, export_symbol). name = export_symbol) (w_exports b) of
       None \<Rightarrow> Inl (SymbolNotFound name)
     | Some (target, _) \<Rightarrow>
         let minimum_size = (if n + 1 = length (w_dispatch_table b) then 0 else 5) in
         (case target of
            ByInstruction _ \<Rightarrow> Inl (NotBasicBlockBased name)
          | ByBlock target_basic_block \<Rightarrow>
              Inr \<lparr>si_instruction = I_offset jump (target_basic_block + basic_block_shift b),
                si_bytes = InstructionBuffer_default, si_target_nth_instruction = None, si_position = 0,
                si_minimum_size = minimum_size\<rparr>))"

definition code_entry :: "ProgramBlobBuilder \<Rightarrow> Instruction \<Rightarrow> SerializeError + SerializedInstruction" where
  "code_entry b instruction =
    (let instruction =
       (case target_of instruction of
          None \<Rightarrow> instruction
        | Some target \<Rightarrow> with_target (target + basic_block_shift b) instruction)
     in if \<not> w_ignore_instruction_set_incompatibility b \<and> \<not> supports_opcode (isa_of (w_isa b)) (opcode instruction)
        then Inl (InstructionNotAvailable (opcode instruction) (w_isa b))
        else Inr \<lparr>si_instruction = instruction, si_bytes = InstructionBuffer_default,
          si_target_nth_instruction = None, si_position = 0, si_minimum_size = 0\<rparr>)"

text \<open>A loop that pushes what each turn yields and returns the first error.\<close>

primrec collect_ok :: "('e + 'a) list \<Rightarrow> 'e + 'a list" where
  "collect_ok [] = Inr []"
| "collect_ok (r # rs) =
    (case r of Inl e \<Rightarrow> Inl e | Inr x \<Rightarrow> (case collect_ok rs of Inl e \<Rightarrow> Inl e | Inr xs \<Rightarrow> Inr (x # xs)))"

definition initial_instructions :: "ProgramBlobBuilder \<Rightarrow> SerializeError + SerializedInstruction list" where
  "initial_instructions b =
    collect_ok (map (\<lambda>(n, name). dispatch_entry b n name) (enumerate 0 (w_dispatch_table b)) @
      map (code_entry b) (w_code b))"

definition block_starts :: "SerializedInstruction list \<Rightarrow> nat list" where
  "block_starts instructions =
    0 # map (\<lambda>(n, _). n + 1)
      (filter (\<lambda>(_, entry). starts_new_basic_block (opcode (si_instruction entry))) (enumerate 0 instructions))"

text \<open>\<open>xs[i]\<close>, which panics past the end, and \<open>u32::checked_add\<close> with a length.\<close>

definition index :: "'a list \<Rightarrow> nat \<Rightarrow> 'a option" where
  "index xs i = (if i < length xs then Some (xs ! i) else None)"

definition advance :: "u32 \<Rightarrow> InstructionBuffer \<Rightarrow> u32 option" where
  "advance pos buffer = checked_add pos (word_of_nat (InstructionBuffer_len buffer))"

section \<open>Targets and positions\<close>

definition guess_target :: "nat list \<Rightarrow> nat \<Rightarrow> u32 \<Rightarrow> SerializedInstruction \<Rightarrow> SerializedInstruction option" where
  "guess_target blocks n pos entry =
    (case target_of (si_instruction entry) of
       None \<Rightarrow> Some (entry\<lparr>si_target_nth_instruction := None\<rparr>)
     | Some target \<Rightarrow>
         Option.bind (index blocks (unat target)) (\<lambda>target_nth_instruction.
         Some (entry\<lparr>si_instruction :=
             with_target (pos + (word_of_nat target_nth_instruction - word_of_nat n)) (si_instruction entry),
           si_target_nth_instruction := Some target_nth_instruction\<rparr>)))"

fun place_instructions ::
  "InstructionSetKind \<Rightarrow> nat list \<Rightarrow> nat \<Rightarrow> u32 \<Rightarrow> SerializedInstruction list \<Rightarrow> SerializedInstruction list option" where
  "place_instructions isa blocks n pos [] = Some []"
| "place_instructions isa blocks n pos (entry # entries) =
    Option.bind (guess_target blocks n pos entry) (\<lambda>entry.
    let entry = entry\<lparr>si_position := pos\<rparr> in
    Option.bind (InstructionBuffer_new isa pos (si_minimum_size entry) (si_instruction entry)) (\<lambda>buffer.
    let entry = entry\<lparr>si_bytes := buffer\<rparr> in
    Option.bind (advance pos buffer) (\<lambda>pos.
    Option.bind (place_instructions isa blocks (n + 1) pos entries) (\<lambda>entries.
    Some (entry # entries)))))"

text \<open>One instruction of a turn of the loop: the instructions after it, whether anything changed, and the
  position of the next one.\<close>

definition adjust_instruction ::
  "InstructionSetKind \<Rightarrow> nat \<Rightarrow> u32 \<Rightarrow> SerializedInstruction list \<Rightarrow> (SerializedInstruction list \<times> bool \<times> u32) option" where
  "adjust_instruction isa n pos instructions =
    Option.bind (index instructions n) (\<lambda>entry.
    let self_modified = (si_position entry \<noteq> pos);
        entry = entry\<lparr>si_position := pos\<rparr>;
        instructions = instructions[n := entry] in
    Option.bind
      (case si_target_nth_instruction entry of
         None \<Rightarrow> Some (entry, self_modified)
       | Some target_nth_instruction \<Rightarrow>
           Option.bind (index instructions target_nth_instruction) (\<lambda>target_entry.
           let new_target = si_position target_entry in
           Option.bind (target_of (si_instruction entry)) (\<lambda>old_target.
           let self_modified = (self_modified \<or> old_target \<noteq> new_target);
               entry = entry\<lparr>si_instruction := with_target new_target (si_instruction entry)\<rparr> in
           if self_modified then
             Option.bind (InstructionBuffer_new isa pos (si_minimum_size entry) (si_instruction entry)) (\<lambda>buffer.
             Some (entry\<lparr>si_bytes := buffer\<rparr>, self_modified))
           else Some (entry, self_modified))))
      (\<lambda>(entry, self_modified).
        Option.bind (advance pos (si_bytes entry)) (\<lambda>pos.
        Some (instructions[n := entry], self_modified, pos))))"

fun adjust_instructions ::
  "InstructionSetKind \<Rightarrow> nat \<Rightarrow> nat \<Rightarrow> u32 \<Rightarrow> bool \<Rightarrow> SerializedInstruction list \<Rightarrow> (SerializedInstruction list \<times> bool) option" where
  "adjust_instructions isa n 0 pos any_modified instructions = Some (instructions, any_modified)"
| "adjust_instructions isa n (Suc count) pos any_modified instructions =
    Option.bind (adjust_instruction isa n pos instructions) (\<lambda>(instructions, self_modified, pos).
    adjust_instructions isa (n + 1) count pos (any_modified \<or> self_modified) instructions)"

definition adjust_turn ::
  "InstructionSetKind \<Rightarrow> SerializedInstruction list \<Rightarrow> (SerializedInstruction list \<times> bool) option" where
  "adjust_turn isa instructions = adjust_instructions isa 0 (length instructions) 0 False instructions"

partial_function (option) adjust_loop ::
  "InstructionSetKind \<Rightarrow> SerializedInstruction list \<Rightarrow> SerializedInstruction list option" where
  "adjust_loop isa instructions =
    Option.bind (adjust_turn isa instructions) (\<lambda>(instructions, any_modified).
    if any_modified then adjust_loop isa instructions else Some instructions)"

section \<open>The output\<close>

definition jump_table_entry ::
  "ProgramBlobBuilder \<Rightarrow> nat list \<Rightarrow> SerializedInstruction list \<Rightarrow> u32 \<Rightarrow> bytes option" where
  "jump_table_entry b blocks instructions target =
    (let target = target + basic_block_shift b in
     Option.bind (index blocks (unat target)) (\<lambda>target_nth_instruction.
     Option.bind (index instructions target_nth_instruction) (\<lambda>entry.
     Some (le_bytes 4 (si_position entry)))))"

definition entry_size :: "bytes list \<Rightarrow> nat" where
  "entry_size entries = foldl (\<lambda>m offset. max m (length (takeWhile (\<lambda>b. b \<noteq> 0) offset))) 0 entries"

record BitVec =
  bv_bytes :: bytes
  bv_current :: u64
  bv_bits :: nat

definition BitVec_with_capacity :: BitVec where
  "BitVec_with_capacity = \<lparr>bv_bytes = [], bv_current = 0, bv_bits = 0\<rparr>"

definition BitVec_push :: "bool \<Rightarrow> BitVec \<Rightarrow> BitVec" where
  "BitVec_push value v =
    (let v = v\<lparr>bv_current := bv_current v OR push_bit (bv_bits v) (of_bool value), bv_bits := bv_bits v + 1\<rparr>
     in if bv_bits v = 8 then v\<lparr>bv_bytes := bv_bytes v @ [ucast (bv_current v)], bv_current := 0, bv_bits := 0\<rparr>
        else v)"

partial_function (option) BitVec_finish :: "BitVec \<Rightarrow> bytes option" where
  "BitVec_finish v = (if bv_bits v > 0 then BitVec_finish (BitVec_push False v) else Some (bv_bytes v))"

definition push_marks :: "SerializedInstruction \<Rightarrow> BitVec \<Rightarrow> BitVec" where
  "push_marks entry v =
    ((BitVec_push False) ^^ (InstructionBuffer_len (si_bytes entry) - 1)) (BitVec_push True v)"

definition export_offset ::
  "ProgramBlobBuilder \<Rightarrow> nat list \<Rightarrow> SerializedInstruction list \<Rightarrow> Export \<Rightarrow> u32 option" where
  "export_offset b blocks instructions target =
    Option.bind
      (case target of
         ByBlock target_basic_block \<Rightarrow> index blocks (unat target_basic_block + unat (basic_block_shift b))
       | ByInstruction nth_instruction \<Rightarrow> Some (unat nth_instruction)) (\<lambda>nth_instruction.
    Option.bind (index instructions nth_instruction) (\<lambda>entry. Some (si_position entry)))"

text \<open>The value of a loop that may panic in each turn.\<close>

primrec collect_some :: "'a option list \<Rightarrow> 'a list option" where
  "collect_some [] = Some []"
| "collect_some (r # rs) = Option.bind r (\<lambda>x. Option.bind (collect_some rs) (\<lambda>xs. Some (x # xs)))"

definition write_code ::
  "ProgramBlobBuilder \<Rightarrow> nat list \<Rightarrow> SerializedInstruction list \<Rightarrow> SerializedCode option" where
  "write_code b blocks instructions =
    Option.bind (collect_some (map (jump_table_entry b blocks instructions) (w_jump_table b))) (\<lambda>jump_table_entries.
    let jump_table_entry_size = entry_size jump_table_entries in
    Option.bind (BitVec_finish (fold push_marks instructions BitVec_with_capacity)) (\<lambda>bitmask.
    Option.bind (collect_some (map (\<lambda>(target, name). map_option (\<lambda>offset. (offset, name))
        (export_offset b blocks instructions target)) (w_exports b))) (\<lambda>exports.
    Some \<lparr>sc_jump_table = concat (map (take jump_table_entry_size) jump_table_entries),
      sc_jump_table_entry_count = word_of_nat (length jump_table_entries),
      sc_jump_table_entry_size = word_of_nat jump_table_entry_size,
      sc_code = concat (map (\<lambda>entry. InstructionBuffer_deref (si_bytes entry)) instructions),
      sc_bitmask = bitmask, sc_exports = exports\<rparr>)))"

definition serialize_code :: "ProgramBlobBuilder \<Rightarrow> (SerializeError + SerializedCode) option" where
  "serialize_code b =
    (case initial_instructions b of
       Inl e \<Rightarrow> Some (Inl e)
     | Inr instructions \<Rightarrow>
         let blocks = block_starts instructions in
         Option.bind (place_instructions (w_isa b) blocks 0 0 instructions) (\<lambda>instructions.
         Option.bind (adjust_loop (w_isa b) instructions) (\<lambda>instructions.
         map_option Inr (write_code b blocks instructions))))"

definition to_vec :: "ProgramBlobBuilder \<Rightarrow> (SerializeError + bytes) option" where
  "to_vec b =
    (case serialize_code b of
       None \<Rightarrow> None
     | Some (Inl e) \<Rightarrow> Some (Inl e)
     | Some (Inr code) \<Rightarrow> map_option Inr (to_vec_with b code))"

section \<open>The bytes of an instruction\<close>

definition encoding :: "InstructionSetKind \<Rightarrow> u32 \<Rightarrow> nat \<Rightarrow> Instruction \<Rightarrow> bytes" where
  "encoding isa p m i =
    (let bs = serialize (isa_of isa) p i
     in if length bs < m then take 1 bs @ le_bytes (m - 1) (the (target_of i) - p) else bs)"

lemma length_encoding: "m \<le> 5 \<Longrightarrow> 1 \<le> length (encoding isa p m i) \<and> length (encoding isa p m i) \<le> 11"
  using length_serialize [of "isa_of isa" p i] by (auto simp: encoding_def Let_def)

lemma InstructionBuffer_new_eq:
  assumes "InstructionBuffer_new isa p m i = Some buffer"
  shows "InstructionBuffer_deref buffer = encoding isa p (unat m) i"
    and "InstructionBuffer_len buffer = length (encoding isa p (unat m) i)"
    and "length (serialize (isa_of isa) p i) < unat m \<Longrightarrow> unat m \<le> 5 \<and> (\<exists>t. i = I_offset jump t)"
proof -
  let ?bs = "serialize (isa_of isa) p i"
  note len = length_serialize [of "isa_of isa" p i]
  have into: "serialize_into (isa_of isa) p i (replicate MAX_INSTRUCTION_LENGTH 0) =
      Some (length ?bs, ?bs @ replicate (MAX_INSTRUCTION_LENGTH - length ?bs) 0)"
    using len by (simp add: serialize_into_def write_prefix_def Let_def MAX_INSTRUCTION_LENGTH_def MAX_VARINT_LENGTH_def)
  have "InstructionBuffer_deref buffer = encoding isa p (unat m) i \<and>
    InstructionBuffer_len buffer = length (encoding isa p (unat m) i) \<and>
    (length ?bs < unat m \<longrightarrow> unat m \<le> 5 \<and> (\<exists>t. i = I_offset jump t))"
  proof (cases "length ?bs < unat m")
    case True
    then obtain t where t: "i = I_offset jump t" "unat m \<le> 5"
      and buffer: "buffer = \<lparr>ib_bytes = take 1 ?bs @ take (unat m - 1) (le_bytes 4 (t - p)) @
          drop (unat m) (?bs @ replicate (MAX_INSTRUCTION_LENGTH - length ?bs) 0), ib_length = word_of_nat (unat m)\<rparr>"
      using assms len(1) by (auto simp: InstructionBuffer_new_def into Let_def split: Instruction.splits op_offset.splits if_splits)
    then show ?thesis
      using True len(1) by (simp add: InstructionBuffer_deref_def InstructionBuffer_len_def encoding_def Let_def)
  next
    case False
    then have "buffer = \<lparr>ib_bytes = ?bs @ replicate (MAX_INSTRUCTION_LENGTH - length ?bs) 0, ib_length = word_of_nat (length ?bs)\<rparr>"
      using assms by (simp add: InstructionBuffer_new_def into Let_def)
    moreover have "unat (word_of_nat (length ?bs) :: u8) = length ?bs"
      using len(2) by (simp add: unsigned_of_nat take_bit_nat_eq_self)
    ultimately show ?thesis using False
      by (simp add: InstructionBuffer_deref_def InstructionBuffer_len_def encoding_def Let_def)
  qed
  then show "InstructionBuffer_deref buffer = encoding isa p (unat m) i"
    and "InstructionBuffer_len buffer = length (encoding isa p (unat m) i)"
    and "length ?bs < unat m \<Longrightarrow> unat m \<le> 5 \<and> (\<exists>t. i = I_offset jump t)"
    by blast+
qed

lemma InstructionBuffer_new_no_target:
  "target_of i = None \<Longrightarrow> InstructionBuffer_new isa p m i = InstructionBuffer_new isa q m i"
  by (cases i rule: target_of.cases) (simp_all add: InstructionBuffer_new_def serialize_into_def Let_def split: option.split)

lemma read_padded_offset:
  assumes "get_bytes_required (t - p) \<le> k" "k \<le> 4"
  shows "read_args_offset (from_le_bytes (le_bytes k (t - p) @ rest)) p k = t"
proof -
  have "read_simple_varint (ucast (from_le_bytes (le_bytes k (t - p) @ rest) :: u128)) k = read_simple_varint (t - p) k"
    by (rule read_simple_varint_cong [OF assms(2)], rule bit_word_eqI)
      (auto simp: bit_take_bit_iff bit_unsigned_iff bit_from_le_bytes nth_append div_less_iff_less_mult mult.commute
        bit_le_bytes_nth bit_drop_bit_eq simp del: from_le_bytes.simps)
  then show ?thesis
    using assms get_bytes_required_le_iff [OF assms(2), of "t - p"]
    by (simp add: read_args_offset_def read_args_imm_eq arg_imm_def)
qed

lemma decode_encoding:
  assumes "supports_opcode (isa_of isa) (opcode i)" "small_regs i" "i \<noteq> invalid"
    and padded: "length (serialize (isa_of isa) p i) < m \<Longrightarrow> m \<le> 5 \<and> (\<exists>t. i = I_offset jump t)"
  shows "normalize (parse_instruction (isa_of isa) (unat (hd (encoding isa p m i)))
    (from_le_bytes (tl (encoding isa p m i) @ rest)) p (length (encoding isa p m i) - 1)) = normalize i"
proof (cases "length (serialize (isa_of isa) p i) < m")
  case True
  then obtain t where i: "i = I_offset jump t" and m: "m \<le> 5" using padded by blast
  have ser: "serialize (isa_of isa) p i = raw_opcode (isa_of isa) (O_offset jump) # simple_varint (t - p)"
    by (simp add: i serialize_offset_def)
  then have req: "get_bytes_required (t - p) \<le> m - 1" "m - 1 \<le> 4"
    using True m by (simp_all add: length_simple_varint)
  have enc: "encoding isa p m i = raw_opcode (isa_of isa) (O_offset jump) # le_bytes (m - 1) (t - p)"
    using True unfolding encoding_def Let_def ser by (simp add: i)
  have "matching_arm (isa_of isa) (unat (raw_opcode (isa_of isa) (O_offset jump))) = Some (O_offset jump)"
    using assms(1) instruction_set.matching_arm_raw_opcode [OF instruction_set_isa_of] by (simp add: i)
  then show ?thesis using read_padded_offset [OF req, of rest]
    unfolding enc parse_instruction_def by (simp add: i)
next
  case False
  then show ?thesis
    using instruction_set.parse_serialize [OF instruction_set_isa_of assms(1-3), of p rest]
    by (simp add: encoding_def Let_def)
qed

section \<open>Adjusting the targets\<close>

text \<open>What every turn keeps: the bytes of an entry are those of its instruction, and only positions and
  targets change.\<close>

definition entry_ok :: "InstructionSetKind \<Rightarrow> SerializedInstruction \<Rightarrow> bool" where
  "entry_ok isa e \<longleftrightarrow>
    InstructionBuffer_new isa (si_position e) (si_minimum_size e) (si_instruction e) = Some (si_bytes e) \<and>
    (si_target_nth_instruction e = None \<longleftrightarrow> target_of (si_instruction e) = None)"

definition shape :: "SerializedInstruction \<Rightarrow> Instruction \<times> u8 \<times> nat option" where
  "shape e = (with_target 0 (si_instruction e), si_minimum_size e, si_target_nth_instruction e)"

text \<open>What a turn without a change shows of an entry, and of the positions.\<close>

definition settled :: "SerializedInstruction list \<Rightarrow> SerializedInstruction \<Rightarrow> bool" where
  "settled es e \<longleftrightarrow>
    (\<forall>t. si_target_nth_instruction e = Some t \<longrightarrow>
      t < length es \<and> target_of (si_instruction e) = Some (si_position (es ! t)))"

fun chained :: "u32 \<Rightarrow> SerializedInstruction list \<Rightarrow> bool" where
  "chained p [] = True"
| "chained p (e # es) = (si_position e = p \<and> (\<exists>q. advance p (si_bytes e) = Some q \<and> chained q es))"

lemma target_of_with_target [simp]:
  "target_of (with_target t i) = (if target_of i = None then None else Some t)"
  by (cases i rule: target_of.cases) simp_all

lemma with_target_with_target [simp]: "with_target t (with_target u i) = with_target t i"
  by (cases i rule: target_of.cases) simp_all

lemma with_target_same: "target_of i = Some t \<Longrightarrow> with_target t i = i"
  by (cases i rule: target_of.cases) simp_all

lemma with_target_none: "target_of i = None \<Longrightarrow> with_target t i = i"
  by (cases i rule: target_of.cases) simp_all

lemma opcode_with_target [simp]: "opcode (with_target t i) = opcode i"
  by (cases i rule: target_of.cases) simp_all

lemma small_regs_with_target [simp]: "small_regs (with_target t i) = small_regs i"
  by (cases i rule: target_of.cases) simp_all

lemma with_target_invalid [simp]: "with_target t i = invalid \<longleftrightarrow> i = invalid"
  by (cases i rule: target_of.cases) simp_all

lemma index_Some [simp]: "index xs i = Some x \<longleftrightarrow> i < length xs \<and> x = xs ! i"
  by (auto simp: index_def)

lemma list_all_update: "list_all P xs \<Longrightarrow> P x \<Longrightarrow> list_all P (xs[i := x])"
  by (auto simp: list_all_iff dest!: set_update_subset_insert [THEN subsetD])

lemma adjust_instruction_entry:
  assumes "adjust_instruction isa n pos es = Some (es', modified, pos')" "list_all (entry_ok isa) es"
  obtains e' where "n < length es" "es' = es[n := e']" "entry_ok isa e'" "shape e' = shape (es ! n)"
    "si_position e' = pos" "advance pos (si_bytes e') = Some pos'"
    "\<not> modified \<longrightarrow> e' = es ! n \<and> settled es e'" "settled es' e'"
proof -
  define e e1 where "e = es ! n" and "e1 = e\<lparr>si_position := pos\<rparr>"
  have n: "n < length es" using assms(1) by (auto simp: adjust_instruction_def index_def split: if_splits)
  have e: "entry_ok isa e" using assms(2) n by (simp add: e_def list_all_length)
  have same: "si_position e = pos \<Longrightarrow> e1 = e" by (simp add: e1_def)
  show ?thesis
  proof (cases "si_target_nth_instruction e")
    case None
    then have "entry_ok isa e1"
      using e InstructionBuffer_new_no_target [of "si_instruction e" isa pos "si_minimum_size e" "si_position e"]
      by (auto simp: entry_ok_def e1_def)
    moreover have "es' = es[n := e1]" "modified \<longleftrightarrow> si_position e \<noteq> pos" "advance pos (si_bytes e1) = Some pos'"
      using assms(1) n None
      by (simp_all add: adjust_instruction_def index_def Let_def e_def [symmetric] e1_def [symmetric]
          Option.bind_eq_Some_conv)
    ultimately show ?thesis
      using n None by (intro that [of e1]) (auto simp: shape_def e1_def e_def settled_def)
  next
    case (Some t)
    define new_target where "new_target = si_position (es[n := e1] ! t)"
    define e2 where "e2 = e1\<lparr>si_instruction := with_target new_target (si_instruction e)\<rparr>"
    obtain old where old: "target_of (si_instruction e) = Some old" using e Some by (auto simp: entry_ok_def)
    define m where "m \<longleftrightarrow> si_position e \<noteq> pos \<or> old \<noteq> new_target"
    have "adjust_instruction isa n pos es = (if t < length es then Option.bind
        (if m then Option.bind (InstructionBuffer_new isa pos (si_minimum_size e2) (si_instruction e2)) (\<lambda>buffer.
             Some (e2\<lparr>si_bytes := buffer\<rparr>, m)) else Some (e2, m))
        (\<lambda>(entry, m). Option.bind (advance pos (si_bytes entry)) (\<lambda>pos. Some (es[n := entry], m, pos))) else None)"
      using n Some old
      unfolding adjust_instruction_def index_def Let_def e2_def m_def new_target_def e1_def e_def
      by (simp cong: if_cong)
    then have t: "t < length es" and res: "Option.bind
        (if m then Option.bind (InstructionBuffer_new isa pos (si_minimum_size e2) (si_instruction e2)) (\<lambda>buffer.
             Some (e2\<lparr>si_bytes := buffer\<rparr>, m)) else Some (e2, m))
        (\<lambda>(entry, m). Option.bind (advance pos (si_bytes entry)) (\<lambda>pos. Some (es[n := entry], m, pos))) =
        Some (es', modified, pos')"
      using assms(1) by (simp_all only: split: if_splits) simp_all
    show ?thesis
    proof (cases m)
      case True
      obtain buffer where buffer: "InstructionBuffer_new isa pos (si_minimum_size e2) (si_instruction e2) = Some buffer"
        using res True by (cases "InstructionBuffer_new isa pos (si_minimum_size e2) (si_instruction e2)") auto
      then have "es' = es[n := e2\<lparr>si_bytes := buffer\<rparr>]" "modified" "advance pos buffer = Some pos'"
        using res True by (auto simp: Option.bind_eq_Some_conv)
      moreover have "entry_ok isa (e2\<lparr>si_bytes := buffer\<rparr>)"
        using buffer old Some by (simp add: entry_ok_def e2_def e1_def)
      moreover have "settled (es[n := e2\<lparr>si_bytes := buffer\<rparr>]) (e2\<lparr>si_bytes := buffer\<rparr>)"
        using t n old Some by (auto simp: settled_def e2_def e1_def new_target_def nth_list_update)
      ultimately show ?thesis
        using n by (intro that [of "e2\<lparr>si_bytes := buffer\<rparr>"]) (simp_all add: shape_def e2_def e1_def e_def)
    next
      case False
      then have e1: "e1 = e" and "old = new_target" by (auto simp: m_def same)
      then have e2: "e2 = e" using old by (simp add: e2_def with_target_same)
      have es: "es[n := e] = es" by (simp add: e_def)
      have "es' = es[n := e]" "\<not> modified" "advance pos (si_bytes e) = Some pos'"
        using res False es by (auto simp: e2 e1 Option.bind_eq_Some_conv)
      moreover have "settled es e"
        using t old \<open>old = new_target\<close> Some by (simp add: settled_def new_target_def e1 es)
      ultimately show ?thesis
        using n e False es by (intro that [of e]) (auto simp: e_def m_def)
    qed
  qed
qed

lemma adjust_instruction_shape:
  assumes "adjust_instruction isa n pos es = Some (es', modified, pos')" "list_all (entry_ok isa) es"
  shows "list_all (entry_ok isa) es'" "map shape es' = map shape es"
proof -
  obtain e' where "n < length es" "es' = es[n := e']" "entry_ok isa e'" "shape e' = shape (es ! n)"
    using adjust_instruction_entry [OF assms] by metis
  then show "list_all (entry_ok isa) es'" "map shape es' = map shape es"
    using assms(2) by (simp_all add: list_all_update map_update list_update_same_conv)
qed

lemma adjust_instructions_shape:
  assumes "adjust_instructions isa n count pos any es = Some (es', modified)" "list_all (entry_ok isa) es"
  shows "list_all (entry_ok isa) es' \<and> map shape es' = map shape es"
  using assms
proof (induction isa n count pos any es rule: adjust_instructions.induct)
  case (2 isa n count pos any es)
  obtain es1 m1 pos1 where one: "adjust_instruction isa n pos es = Some (es1, m1, pos1)"
    and rest: "adjust_instructions isa (n + 1) count pos1 (any \<or> m1) es1 = Some (es', modified)"
    using 2(2) by (auto simp: Option.bind_eq_Some_conv)
  show ?case
    using 2(1) [OF one refl refl rest] adjust_instruction_shape [OF one 2(3)] by simp
qed simp

lemma adjust_instructions_any: "adjust_instructions isa n count pos True es = Some (es', modified) \<Longrightarrow> modified"
proof (induction count arbitrary: n pos es)
  case (Suc count)
  then show ?case by (auto simp: Option.bind_eq_Some_conv)
qed simp

lemma adjust_instructions_steady:
  assumes "adjust_instructions isa n count pos any es = Some (es', False)" "list_all (entry_ok isa) es"
    "length es = n + count"
  shows "es' = es \<and> chained pos (drop n es) \<and> list_all (settled es) (drop n es)"
  using assms
proof (induction isa n count pos any es rule: adjust_instructions.induct)
  case (1 isa n pos any es)
  then show ?case by simp
next
  case (2 isa n count pos any es)
  obtain es1 m1 pos1 where one: "adjust_instruction isa n pos es = Some (es1, m1, pos1)"
    and rest: "adjust_instructions isa (n + 1) count pos1 (any \<or> m1) es1 = Some (es', False)"
    using 2(2) by (auto simp: Option.bind_eq_Some_conv)
  have m1: "\<not> m1" using rest adjust_instructions_any by fastforce
  obtain e' where e': "n < length es" "es1 = es[n := e']" "entry_ok isa e'" "shape e' = shape (es ! n)"
    "si_position e' = pos" "advance pos (si_bytes e') = Some pos1" "\<not> m1 \<longrightarrow> e' = es ! n \<and> settled es e'"
    "settled es1 e'"
    using one 2(3) by (rule adjust_instruction_entry)
  then have es1: "es1 = es" "e' = es ! n" "settled es (es ! n)" using m1 by auto
  have "es' = es \<and> chained pos1 (drop (Suc n) es) \<and> list_all (settled es) (drop (Suc n) es)"
    using 2(1) [OF one refl refl rest] 2(3,4) es1(1) by simp
  moreover have "drop n es = es ! n # drop (Suc n) es" using e'(1) by (simp add: Cons_nth_drop_Suc)
  ultimately show ?case using e'(5,6) es1(2,3) by auto
qed

definition laid_out :: "InstructionSetKind \<Rightarrow> SerializedInstruction list \<Rightarrow> bool" where
  "laid_out isa es \<longleftrightarrow> list_all (entry_ok isa) es \<and> chained 0 es \<and> list_all (settled es) es"

lemma adjust_loop_laid_out:
  assumes "adjust_loop isa es = Some es'" "list_all (entry_ok isa) es"
  shows "laid_out isa es' \<and> map shape es' = map shape es"
proof -
  have "list_all (entry_ok isa) es \<longrightarrow> laid_out isa es' \<and> map shape es' = map shape es"
  proof (rule adjust_loop.raw_induct [where P = "\<lambda>isa es es'. list_all (entry_ok isa) es \<longrightarrow>
      laid_out isa es' \<and> map shape es' = map shape es", OF _ assms(1)], rule impI)
    fix loop isa es es'
    assume IH: "\<And>isa es es'. loop isa es = Some es' \<Longrightarrow>
        list_all (entry_ok isa) es \<longrightarrow> laid_out isa es' \<and> map shape es' = map shape es"
      and step: "Option.bind (adjust_turn isa es) (\<lambda>(es, any). if any then loop isa es else Some es) = Some es'"
      and ok: "list_all (entry_ok isa) es"
    obtain es1 any where turn: "adjust_instructions isa 0 (length es) 0 False es = Some (es1, any)"
      and rest: "(if any then loop isa es1 else Some es1) = Some es'"
      using step by (auto simp: Option.bind_eq_Some_conv adjust_turn_def)
    note es1 = adjust_instructions_shape [OF turn ok]
    show "laid_out isa es' \<and> map shape es' = map shape es"
    proof (cases any)
      case True
      then show ?thesis using IH [of isa es1 es'] rest es1 by simp
    next
      case False
      then show ?thesis
        using adjust_instructions_steady [of isa 0 "length es" 0 False es es1] turn rest ok by (simp add: laid_out_def)
    qed
  qed
  then show ?thesis using assms(2) by blast
qed

text \<open>The first placement finds the instruction of every target.\<close>

definition placed :: "nat list \<Rightarrow> SerializedInstruction \<Rightarrow> SerializedInstruction \<Rightarrow> bool" where
  "placed blocks e e' \<longleftrightarrow>
    with_target 0 (si_instruction e') = with_target 0 (si_instruction e) \<and>
    si_minimum_size e' = si_minimum_size e \<and>
    (case target_of (si_instruction e) of
       None \<Rightarrow> si_target_nth_instruction e' = None
     | Some t \<Rightarrow> unat t < length blocks \<and> si_target_nth_instruction e' = Some (blocks ! unat t))"

lemma guess_target_placed:
  assumes "guess_target blocks n pos e = Some e1"
  shows "placed blocks e e1 \<and> (si_target_nth_instruction e1 = None \<longleftrightarrow> target_of (si_instruction e1) = None)"
  using assms by (auto simp: guess_target_def placed_def Option.bind_eq_Some_conv split: option.splits)

lemma place_instructions_placed:
  "place_instructions isa blocks n pos es = Some es' \<Longrightarrow>
    list_all (entry_ok isa) es' \<and> list_all2 (placed blocks) es es'"
proof (induction isa blocks n pos es arbitrary: es' rule: place_instructions.induct)
  case (2 isa blocks n pos e es)
  obtain e1 buffer pos1 rest where
    e1: "guess_target blocks n pos e = Some e1"
    and buffer: "InstructionBuffer_new isa pos (si_minimum_size e1) (si_instruction e1) = Some buffer"
    and pos1: "advance pos buffer = Some pos1"
    and rest: "place_instructions isa blocks (n + 1) pos1 es = Some rest"
    and es': "es' = e1\<lparr>si_position := pos, si_bytes := buffer\<rparr> # rest"
    using 2(2) by (auto simp: Option.bind_eq_Some_conv Let_def)
  have "entry_ok isa (e1\<lparr>si_position := pos, si_bytes := buffer\<rparr>)"
    using buffer guess_target_placed [OF e1] by (simp add: entry_ok_def)
  moreover have "placed blocks e (e1\<lparr>si_position := pos, si_bytes := buffer\<rparr>)"
    using guess_target_placed [OF e1] by (cases "target_of (si_instruction e)") (simp_all add: placed_def)
  moreover have "list_all (entry_ok isa) rest \<and> list_all2 (placed blocks) es rest"
    using 2(1) [OF e1 refl, of buffer _ pos1 rest] buffer pos1 rest by simp
  ultimately show ?case by (simp add: es')
qed simp

section \<open>Positions\<close>

definition entry_len :: "SerializedInstruction \<Rightarrow> nat" where
  "entry_len e = InstructionBuffer_len (si_bytes e)"

definition offset_of :: "SerializedInstruction list \<Rightarrow> nat \<Rightarrow> nat" where
  "offset_of es i = sum_list (map entry_len (take i es))"

definition code_of :: "SerializedInstruction list \<Rightarrow> bytes" where
  "code_of es = concat (map (\<lambda>e. InstructionBuffer_deref (si_bytes e)) es)"

lemma offset_of_0 [simp]: "offset_of es 0 = 0"
  by (simp add: offset_of_def)

lemma offset_of_Suc: "i < length es \<Longrightarrow> offset_of es (Suc i) = offset_of es i + entry_len (es ! i)"
  by (simp add: offset_of_def take_Suc_conv_app_nth)

lemma offset_of_Cons_Suc [simp]: "offset_of (e # es) (Suc i) = entry_len e + offset_of es i"
  by (simp add: offset_of_def)

lemma advance_Some: "advance p buffer = Some q \<longleftrightarrow> unat p + InstructionBuffer_len buffer < 2 ^ 32 \<and>
    q = p + word_of_nat (InstructionBuffer_len buffer)"
proof -
  have "InstructionBuffer_len buffer < 256" using unsigned_less [of "ib_length buffer", where 'a = nat] by (simp add: InstructionBuffer_len_def)
  then show ?thesis
    by (auto simp: advance_def checked_add_def unsigned_of_nat take_bit_nat_eq_self)
qed

lemma unat_advance: "advance p buffer = Some q \<Longrightarrow> unat q = unat p + InstructionBuffer_len buffer"
  by (auto simp: advance_Some unat_word_ariths unsigned_of_nat take_bit_nat_eq_self)

lemma chained_position:
  assumes "chained p es"
  shows "i < length es \<Longrightarrow> unat (si_position (es ! i)) = unat p + offset_of es i"
    and "unat p + offset_of es (length es) < 2 ^ 32"
proof -
  have "(i < length es \<longrightarrow> unat (si_position (es ! i)) = unat p + offset_of es i) \<and>
    unat p + offset_of es (length es) < 2 ^ 32"
    using assms
  proof (induction es arbitrary: p i)
    case Nil
    then show ?case using unsigned_less [of p, where 'a = nat] by simp
  next
    case (Cons e es)
    then obtain q where "si_position e = p" "advance p (si_bytes e) = Some q" "chained q es" by auto
    then show ?case
      using Cons.IH [of q "i - 1"] unat_advance [of p "si_bytes e" q] by (cases i) (auto simp: entry_len_def)
  qed
  then show "i < length es \<Longrightarrow> unat (si_position (es ! i)) = unat p + offset_of es i"
    and "unat p + offset_of es (length es) < 2 ^ 32" by blast+
qed

lemma entry_ok_encoding:
  assumes "entry_ok isa e"
  shows "InstructionBuffer_deref (si_bytes e) = encoding isa (si_position e) (unat (si_minimum_size e)) (si_instruction e)"
    and "length (InstructionBuffer_deref (si_bytes e)) = entry_len e"
    and "1 \<le> entry_len e" "entry_len e \<le> 11"
proof -
  have new: "InstructionBuffer_new isa (si_position e) (si_minimum_size e) (si_instruction e) = Some (si_bytes e)"
    using assms by (simp add: entry_ok_def)
  note eq = InstructionBuffer_new_eq [OF new]
  show "InstructionBuffer_deref (si_bytes e) = encoding isa (si_position e) (unat (si_minimum_size e)) (si_instruction e)"
    by (rule eq(1))
  show len: "length (InstructionBuffer_deref (si_bytes e)) = entry_len e" using eq(1,2) by (simp add: entry_len_def)
  have "1 \<le> length (encoding isa (si_position e) (unat (si_minimum_size e)) (si_instruction e)) \<and>
    length (encoding isa (si_position e) (unat (si_minimum_size e)) (si_instruction e)) \<le> 11"
    using eq(3) length_encoding length_serialize [of "isa_of isa" "si_position e" "si_instruction e"]
    by (cases "length (serialize (isa_of isa) (si_position e) (si_instruction e)) < unat (si_minimum_size e)")
      (auto simp: encoding_def Let_def)
  then show "1 \<le> entry_len e" "entry_len e \<le> 11" using eq(1) len by simp_all
qed

lemma length_code_of: "list_all (entry_ok isa) es \<Longrightarrow> length (code_of es) = offset_of es (length es)"
  by (induction es) (simp_all add: code_of_def entry_ok_encoding(2) [of isa])

lemma drop_code_of:
  assumes "list_all (entry_ok isa) es" "i < length es"
  shows "drop (offset_of es i) (code_of es) = InstructionBuffer_deref (si_bytes (es ! i)) @ code_of (drop (Suc i) es)"
  using assms
proof (induction es arbitrary: i)
  case (Cons e es)
  then show ?case by (cases i) (simp_all add: code_of_def entry_ok_encoding(2) [of isa])
qed simp

lemma offset_of_strict_mono:
  assumes "list_all (entry_ok isa) es" "i < j" "j \<le> length es"
  shows "offset_of es i < offset_of es j"
  using assms(2,3)
proof (induction j)
  case (Suc j)
  have "1 \<le> entry_len (es ! j)" using assms(1) Suc.prems(2) entry_ok_encoding(3) [of isa] by (simp add: list_all_length)
  then show ?case using Suc by (cases "i = j") (auto simp: offset_of_Suc)
qed simp

section \<open>The bitmask\<close>

text \<open>A bit vector represents the list of the bits that were pushed.\<close>

definition represents :: "BitVec \<Rightarrow> bool list \<Rightarrow> bool" where
  "represents v bs \<longleftrightarrow>
    bv_bits v < 8 \<and> length bs = 8 * length (bv_bytes v) + bv_bits v \<and>
    (\<forall>i < length (bv_bytes v). \<forall>j < 8. bit (bv_bytes v ! i) j = bs ! (8 * i + j)) \<and>
    (\<forall>j. bit (bv_current v) j \<longleftrightarrow> j < bv_bits v \<and> bs ! (8 * length (bv_bytes v) + j))"

lemma represents_empty: "represents BitVec_with_capacity []"
  by (simp add: represents_def BitVec_with_capacity_def)

lemma represents_push:
  assumes "represents v bs"
  shows "represents (BitVec_push b v) (bs @ [b])"
proof -
  define L r where "L = length (bv_bytes v)" and "r = bv_bits v"
  note v = assms [unfolded represents_def, folded L_def r_def]
  define cur where "cur = bv_current v OR push_bit r (of_bool b)"
  have cur: "bit cur j \<longleftrightarrow> j < Suc r \<and> (bs @ [b]) ! (8 * L + j)" for j
    using v by (auto simp: cur_def bit_or_iff bit_push_bit_iff bit_of_bool_iff bit_1_iff nth_append less_Suc_eq)
  have old: "bit (bv_bytes v ! i) j = (bs @ [b]) ! (8 * i + j)" if "i < L" "j < 8" for i j
    using v that by (simp add: nth_append)
  show ?thesis
  proof (cases "r = 7")
    case True
    have eq: "BitVec_push b v = v\<lparr>bv_bytes := bv_bytes v @ [ucast cur], bv_current := 0, bv_bits := 0\<rparr>"
      using True by (simp add: BitVec_push_def Let_def cur_def r_def)
    have "bit (ucast cur :: u8) j = (bs @ [b]) ! (8 * L + j)" if "j < 8" for j
      using that cur [of j] True by (simp add: bit_unsigned_iff)
    then show ?thesis
      unfolding eq represents_def using v True old by (auto simp: nth_append L_def [symmetric] less_Suc_eq)
  next
    case False
    have eq: "BitVec_push b v = v\<lparr>bv_current := cur, bv_bits := Suc r\<rparr>"
      using False by (simp add: BitVec_push_def Let_def cur_def r_def)
    show ?thesis unfolding eq represents_def using v False old cur by (simp add: L_def [symmetric])
  qed
qed

lemma represents_push_many:
  "represents v bs \<Longrightarrow> represents ((BitVec_push b ^^ n) v) (bs @ replicate n b)"
proof (induction n)
  case (Suc n)
  then have "represents (BitVec_push b ((BitVec_push b ^^ n) v)) ((bs @ replicate n b) @ [b])"
    by (intro represents_push) simp
  then show ?case by (simp add: replicate_append_same)
qed simp

lemma BitVec_finish_represents:
  assumes "represents v bs"
  shows "\<exists>bm. BitVec_finish v = Some bm \<and> length bm = (length bs + 7) div 8 \<and>
    (\<forall>i. bit_at bm i \<longleftrightarrow> i < length bs \<and> bs ! i)"
proof -
  have full: "BitVec_finish v = Some (bv_bytes v) \<and> length (bv_bytes v) = (length bs + 7) div 8 \<and>
      (\<forall>i. bit_at (bv_bytes v) i \<longleftrightarrow> i < length bs \<and> bs ! i)"
    if "represents v bs" "bv_bits v = 0" for v bs
  proof -
    have "bit_at (bv_bytes v) i \<longleftrightarrow> i < length bs \<and> bs ! i" for i
      using that(1)[unfolded represents_def] that(2)
      by (auto simp: bit_at_def div_less_iff_less_mult mult.commute)
    then show ?thesis
      using that BitVec_finish.simps [of v] by (simp add: represents_def)
  qed
  show ?thesis using assms
  proof (induction "8 - bv_bits v" arbitrary: v bs rule: less_induct)
    case less
    show ?case
    proof (cases "bv_bits v = 0")
      case True
      then show ?thesis using full [OF less.prems] by blast
    next
      case False
      have rep: "represents (BitVec_push False v) (bs @ [False])" using less.prems by (rule represents_push)
      have step: "BitVec_finish v = BitVec_finish (BitVec_push False v)" using False BitVec_finish.simps [of v] by simp
      have pad: "(length bs + 8) div 8 = (length bs + 7) div 8"
      proof -
        obtain k r where "length bs = 8 * k + r" "0 < r" "r < 8" using less.prems False by (auto simp: represents_def)
        then have "(length bs + 8) div 8 = k + 1" "(length bs + 7) div 8 = k + 1" by auto
        then show ?thesis by simp
      qed
      have "\<exists>bm. BitVec_finish v = Some bm \<and> length bm = (length bs + 8) div 8 \<and>
          (\<forall>i. bit_at bm i \<longleftrightarrow> i < length (bs @ [False]) \<and> (bs @ [False]) ! i)"
      proof (cases "bv_bits v = 7")
        case True
        then have "bv_bits (BitVec_push False v) = 0" by (simp add: BitVec_push_def Let_def)
        then show ?thesis using full [OF rep] step by simp
      next
        case False
        then have "bv_bits (BitVec_push False v) = Suc (bv_bits v)" "bv_bits v < 7"
          using less.prems by (simp_all add: BitVec_push_def Let_def represents_def)
        then have "8 - bv_bits (BitVec_push False v) < 8 - bv_bits v" by simp
        from less.hyps [OF this rep] show ?thesis using step by (simp add: add.commute)
      qed
      moreover have "i < length (bs @ [False]) \<and> (bs @ [False]) ! i \<longleftrightarrow> i < length bs \<and> bs ! i" for i
        by (auto simp: nth_append less_Suc_eq)
      ultimately show ?thesis using pad by simp
    qed
  qed
qed

definition marks :: "SerializedInstruction list \<Rightarrow> bool list" where
  "marks es = concat (map (\<lambda>e. True # replicate (entry_len e - 1) False) es)"

lemma represents_marks: "represents v bs \<Longrightarrow> represents (fold push_marks es v) (bs @ marks es)"
proof (induction es arbitrary: v bs)
  case (Cons e es)
  have "represents (push_marks e v) (bs @ True # replicate (entry_len e - 1) False)"
    using represents_push_many [OF represents_push [OF Cons.prems]] by (simp add: push_marks_def entry_len_def)
  then show ?case using Cons.IH [of "push_marks e v" "bs @ True # replicate (entry_len e - 1) False"] by (simp add: marks_def)
qed (simp add: marks_def)

lemma marks_offsets:
  assumes "list_all (entry_ok isa) es"
  shows "length (marks es) = length (code_of es)"
    and "i < length (marks es) \<and> marks es ! i \<longleftrightarrow> (\<exists>k < length es. i = offset_of es k)"
proof -
  have "length (marks es) = offset_of es (length es) \<and>
    (i < length (marks es) \<and> marks es ! i \<longleftrightarrow> (\<exists>k < length es. i = offset_of es k))"
    using assms
  proof (induction es arbitrary: i)
    case (Cons e es)
    then have pos: "1 \<le> entry_len e" using entry_ok_encoding(3) by auto
    have ex: "(\<exists>k < length (e # es). i = offset_of (e # es) k) \<longleftrightarrow>
        i = 0 \<or> (\<exists>k < length es. i = entry_len e + offset_of es k)"
      by (auto simp: less_Suc_eq_0_disj)
    have "marks (e # es) = True # replicate (entry_len e - 1) False @ marks es" by (simp add: marks_def)
    then show ?case
      using Cons.IH [of "i - entry_len e"] Cons.prems pos unfolding ex
      by (cases "i < entry_len e") (auto simp: nth_Cons' nth_append)
  qed (simp add: marks_def)
  then show "length (marks es) = length (code_of es)"
    and "i < length (marks es) \<and> marks es ! i \<longleftrightarrow> (\<exists>k < length es. i = offset_of es k)"
    by (auto simp only: length_code_of [OF assms])
qed

lemma bitmask_marks:
  assumes "list_all (entry_ok isa) es"
  shows "\<exists>bm. BitVec_finish (fold push_marks es BitVec_with_capacity) = Some bm \<and> code_ok (code_of es) bm \<and>
    (\<forall>i. bit_at bm i \<longleftrightarrow> (\<exists>k < length es. i = offset_of es k))"
  using BitVec_finish_represents [OF represents_marks [OF represents_empty, of es]] marks_offsets [OF assms]
  by (simp add: code_ok_def)

section \<open>Reading the code back\<close>

text \<open>The layout of the written code: the entries, and a bitmask that marks their offsets.\<close>

definition layout :: "InstructionSetKind \<Rightarrow> SerializedInstruction list \<Rightarrow> bytes \<Rightarrow> bool" where
  "layout isa es bm \<longleftrightarrow>
    laid_out isa es \<and> code_ok (code_of es) bm \<and> (\<forall>i. bit_at bm i \<longleftrightarrow> (\<exists>k < length es. i = offset_of es k))"

lemma from_le_bytes_take_16: "(from_le_bytes (take 16 xs) :: u128) = from_le_bytes xs"
  by (rule bit_word_eqI) (auto simp: bit_from_le_bytes div_less_iff_less_mult)

lemma next_start_layout:
  assumes "layout isa es bm" "k < length es"
  shows "next_start bm (offset_of es k + 1) = (if Suc k < length es then Some (offset_of es (Suc k)) else None)"
proof -
  have ok: "list_all (entry_ok isa) es" using assms(1) by (simp add: layout_def laid_out_def)
  have marks: "bit_at bm i \<longleftrightarrow> (\<exists>j < length es. i = offset_of es j)" for i using assms(1) by (simp add: layout_def)
  have between: "\<not> bit_at bm i" if "offset_of es k < i" "Suc k < length es \<longrightarrow> i < offset_of es (Suc k)" for i
  proof
    assume "bit_at bm i"
    then obtain j where j: "j < length es" "i = offset_of es j" using marks by blast
    have "k < j"
      using that(1) j offset_of_strict_mono [OF ok, of j k] assms(2) by (cases "j < k"; cases "j = k") auto
    then have "Suc k < length es" using j(1) by simp
    then have "offset_of es j < offset_of es (Suc k)" using that(2) j(2) by simp
    then show False
      using \<open>k < j\<close> offset_of_strict_mono [OF ok, of "Suc k" j] j(1) by (cases "j = Suc k") auto
  qed
  show ?thesis
  proof (cases "Suc k < length es")
    case True
    moreover have "bit_at bm (offset_of es (Suc k))" using marks True by blast
    moreover have "offset_of es k < offset_of es (Suc k)" using offset_of_strict_mono [OF ok] True by simp
    ultimately show ?thesis using between by (simp add: next_start_Some)
  next
    case False
    then show ?thesis using between by (simp add: next_start_None)
  qed
qed

lemma instruction_layout:
  assumes lay: "layout isa es bm" and k: "k < length es"
  shows "offset_of es k + skip_at (code_of es) bm (offset_of es k) + 1 = offset_of es (Suc k)"
    and "supports_opcode (isa_of isa) (opcode (si_instruction (es ! k))) \<Longrightarrow> small_regs (si_instruction (es ! k)) \<Longrightarrow>
      si_instruction (es ! k) \<noteq> invalid \<Longrightarrow>
      normalize (instruction_at (isa_of isa) (code_of es) bm (offset_of es k)) = normalize (si_instruction (es ! k))"
proof -
  define e where "e = es ! k"
  have ok: "list_all (entry_ok isa) es" and chained: "chained 0 es" using lay by (simp_all add: layout_def laid_out_def)
  then have e: "entry_ok isa e" using k by (simp add: e_def list_all_length)
  note enc = entry_ok_encoding [OF e]
  have len: "length (code_of es) = offset_of es (length es)" by (rule length_code_of [OF ok])
  have end_le: "offset_of es (Suc k) \<le> length (code_of es)"
    using offset_of_strict_mono [OF ok, of "Suc k" "length es"] k len by (cases "Suc k = length es") auto
  have step: "offset_of es (Suc k) = offset_of es k + entry_len e" using k by (simp add: offset_of_Suc e_def)
  have last: "\<not> Suc k < length es \<Longrightarrow> offset_of es (Suc k) = length (code_of es)"
    using k len by (metis Suc_lessI)
  have skip: "skip_at (code_of es) bm (offset_of es k) = entry_len e - 1"
    using next_start_layout [OF lay k] enc(3,4) step last end_le
    by (auto simp: skip_at_def skip_to_next_def BITMASK_MAX_def)
  then show "offset_of es k + skip_at (code_of es) bm (offset_of es k) + 1 = offset_of es (Suc k)"
    using enc(3) step by simp
  define bs rest where "bs = InstructionBuffer_deref (si_bytes e)" and "rest = code_of (drop (Suc k) es)"
  have bs: "length bs = entry_len e" "bs \<noteq> []" using enc(2,3) by (auto simp: bs_def)
  have "drop (offset_of es k) (code_of es) = bs @ rest" using drop_code_of [OF ok k] by (simp add: bs_def e_def rest_def)
  then have first: "code_of es ! offset_of es k = hd bs" and args: "drop (offset_of es k + 1) (code_of es) = tl bs @ rest"
    using bs(2) end_le step enc(3)
    by (simp_all add: hd_drop_conv_nth [symmetric] drop_Suc tl_drop [symmetric])
  have pos: "si_position e = word_of_nat (offset_of es k)"
    using chained_position(1) [OF chained k] by (metis add_0 e_def of_nat_unat ucast_id unsigned_0)
  assume "supports_opcode (isa_of isa) (opcode (si_instruction (es ! k)))" "small_regs (si_instruction (es ! k))"
    "si_instruction (es ! k) \<noteq> invalid"
  then show "normalize (instruction_at (isa_of isa) (code_of es) bm (offset_of es k)) = normalize (si_instruction (es ! k))"
    using decode_encoding [of isa "si_instruction e" "si_position e" "unat (si_minimum_size e)" rest]
      InstructionBuffer_new_eq(3) [of isa "si_position e" "si_minimum_size e" "si_instruction e" "si_bytes e"] e bs(1)
    unfolding instruction_at_def args_chunk_def args first skip from_le_bytes_take_16 pos [symmetric]
    by (simp add: e_def [symmetric] enc(1) bs_def entry_ok_def)
qed

section \<open>What serialize_code returns\<close>

text \<open>The instructions of a builder with targets that are still basic block numbers, shifted by the size of
  the dispatch table, and the instruction at which each basic block starts.\<close>

definition dispatch_target :: "ProgramBlobBuilder \<Rightarrow> bytes \<Rightarrow> u32" where
  "dispatch_target b name =
    (case find (\<lambda>(_, export_symbol). name = export_symbol) (w_exports b) of Some (ByBlock t, _) \<Rightarrow> t | _ \<Rightarrow> 0)"

definition shift_target :: "ProgramBlobBuilder \<Rightarrow> Instruction \<Rightarrow> Instruction" where
  "shift_target b i = (case target_of i of None \<Rightarrow> i | Some t \<Rightarrow> with_target (t + basic_block_shift b) i)"

definition linked_instructions :: "ProgramBlobBuilder \<Rightarrow> Instruction list" where
  "linked_instructions b =
    map (\<lambda>name. I_offset jump (dispatch_target b name + basic_block_shift b)) (w_dispatch_table b) @
    map (shift_target b) (w_code b)"

fun starts_from :: "nat \<Rightarrow> Instruction list \<Rightarrow> nat list" where
  "starts_from n [] = []"
| "starts_from n (i # is) = (if starts_new_basic_block (opcode i) then [n + 1] else []) @ starts_from (n + 1) is"

definition starts :: "ProgramBlobBuilder \<Rightarrow> nat list" where
  "starts b = 0 # starts_from 0 (linked_instructions b)"

definition instruction_offsets :: "SerializedCode \<Rightarrow> nat list" where
  "instruction_offsets code = filter (bit_at (sc_bitmask code)) [0..<length (sc_code code)]"

definition export_index :: "ProgramBlobBuilder \<Rightarrow> Export \<Rightarrow> nat" where
  "export_index b target =
    (case target of
       ByBlock t \<Rightarrow> starts b ! (unat t + unat (basic_block_shift b))
     | ByInstruction n \<Rightarrow> unat n)"

text \<open>An instruction with its target resolved to the offset of the instruction it names.\<close>

definition resolve :: "ProgramBlobBuilder \<Rightarrow> nat list \<Rightarrow> Instruction \<Rightarrow> Instruction" where
  "resolve b offsets i =
    (case target_of i of None \<Rightarrow> i | Some t \<Rightarrow> with_target (word_of_nat (offsets ! (starts b ! unat t))) i)"

lemma collect_ok_Inr: "collect_ok rs = Inr xs \<longleftrightarrow> rs = map Inr xs"
proof
  show "rs = map Inr xs" if "collect_ok rs = Inr xs"
    using that by (induction rs arbitrary: xs) (auto split: sum.splits)
  have "collect_ok (map Inr xs) = (Inr xs :: 'a + 'b list)" by (induction xs) simp_all
  then show "collect_ok rs = Inr xs" if "rs = map Inr xs" using that by simp
qed

lemma collect_some_Some: "collect_some rs = Some xs \<longleftrightarrow> rs = map Some xs"
  by (induction rs arbitrary: xs) (auto simp: Option.bind_eq_Some_conv)

lemma initial_instructions_linked:
  assumes "initial_instructions b = Inr es"
  shows "map si_instruction es = linked_instructions b"
proof -
  have dispatch: "dispatch_entry b n name = Inr e \<Longrightarrow>
      si_instruction e = I_offset jump (dispatch_target b name + basic_block_shift b)" for n name e
    by (auto simp: dispatch_entry_def dispatch_target_def Let_def split: option.splits Export.splits)
  have code: "code_entry b i = Inr e \<Longrightarrow> si_instruction e = shift_target b i" for i e
    by (auto simp: code_entry_def shift_target_def Let_def split: option.splits if_splits)
  obtain es1 es2 where es: "es = es1 @ es2"
    and es1: "map (\<lambda>(n, name). dispatch_entry b n name) (enumerate 0 (w_dispatch_table b)) = map Inr es1"
    and es2: "map (code_entry b) (w_code b) = map Inr es2"
    using assms by (auto simp: initial_instructions_def collect_ok_Inr append_eq_map_conv)
  have "map si_instruction es1 = map (\<lambda>name. I_offset jump (dispatch_target b name + basic_block_shift b)) (w_dispatch_table b)"
    using map_eq_imp_length_eq [OF es1] es1 dispatch
    by (auto simp: list_eq_iff_nth_eq nth_enumerate_eq)
  moreover have "map si_instruction es2 = map (shift_target b) (w_code b)"
    using map_eq_imp_length_eq [OF es2] es2 code by (auto simp: list_eq_iff_nth_eq)
  ultimately show ?thesis by (simp add: es linked_instructions_def)
qed

lemma starts_from_enumerate:
  "map (\<lambda>(n, _). n + 1) (filter (\<lambda>(_, entry). starts_new_basic_block (opcode (si_instruction entry))) (enumerate n es)) =
    starts_from n (map si_instruction es)"
  by (induction es arbitrary: n) simp_all

lemma block_starts_linked: "initial_instructions b = Inr es \<Longrightarrow> block_starts es = starts b"
  unfolding block_starts_def starts_def starts_from_enumerate by (simp add: initial_instructions_linked)

text \<open>The entries behind a result.\<close>

definition entries_of :: "ProgramBlobBuilder \<Rightarrow> SerializedCode \<Rightarrow> SerializedInstruction list \<Rightarrow> bool" where
  "entries_of b out es \<longleftrightarrow>
    layout (w_isa b) es (sc_bitmask out) \<and> sc_code out = code_of es \<and> write_code b (starts b) es = Some out \<and>
    length es = length (linked_instructions b) \<and>
    (\<forall>k < length es. case target_of (linked_instructions b ! k) of
       None \<Rightarrow> si_instruction (es ! k) = linked_instructions b ! k
     | Some t \<Rightarrow> unat t < length (starts b) \<and> starts b ! unat t < length es \<and>
         si_instruction (es ! k) = with_target (si_position (es ! (starts b ! unat t))) (linked_instructions b ! k))"

lemma resolved_entry:
  assumes "placed blocks e e1" "shape e2 = shape e1" "entry_ok isa e2" "settled es e2"
  shows "case target_of (si_instruction e) of
       None \<Rightarrow> si_instruction e2 = si_instruction e
     | Some t \<Rightarrow> unat t < length blocks \<and> blocks ! unat t < length es \<and>
         si_instruction e2 = with_target (si_position (es ! (blocks ! unat t))) (si_instruction e)"
proof (cases "target_of (si_instruction e)")
  case None
  then have "si_target_nth_instruction e2 = None" "with_target 0 (si_instruction e2) = with_target 0 (si_instruction e)"
    using assms(1,2) by (simp_all add: placed_def shape_def)
  then show ?thesis using None assms(3) by (simp add: entry_ok_def with_target_none)
next
  case (Some t)
  then have nth: "unat t < length blocks" "si_target_nth_instruction e2 = Some (blocks ! unat t)"
    and eq: "with_target 0 (si_instruction e2) = with_target 0 (si_instruction e)"
    using assms(1,2) by (simp_all add: placed_def shape_def)
  then have "blocks ! unat t < length es" and target: "target_of (si_instruction e2) = Some (si_position (es ! (blocks ! unat t)))"
    using assms(4) by (simp_all add: settled_def)
  moreover have "si_instruction e2 = with_target (si_position (es ! (blocks ! unat t))) (si_instruction e2)"
    by (rule with_target_same [OF target, symmetric])
  then have "si_instruction e2 = with_target (si_position (es ! (blocks ! unat t))) (si_instruction e)"
    using eq by (metis with_target_with_target)
  ultimately show ?thesis using Some nth(1) by simp
qed

lemma serialize_code_entries:
  assumes "serialize_code b = Some (Inr out)"
  shows "\<exists>es. entries_of b out es"
proof -
  obtain es0 es1 es where es0: "initial_instructions b = Inr es0"
    and es1: "place_instructions (w_isa b) (block_starts es0) 0 0 es0 = Some es1"
    and es: "adjust_loop (w_isa b) es1 = Some es" and out: "write_code b (block_starts es0) es = Some out"
    using assms by (auto simp: serialize_code_def Let_def Option.bind_eq_Some_conv split: sum.splits)
  note blocks = block_starts_linked [OF es0]
  have placed: "list_all (entry_ok (w_isa b)) es1" "list_all2 (placed (starts b)) es0 es1"
    using place_instructions_placed [OF es1] by (simp_all add: blocks)
  have laid: "laid_out (w_isa b) es" and shape: "map shape es = map shape es1"
    using adjust_loop_laid_out [OF es placed(1)] by simp_all
  then have ok: "list_all (entry_ok (w_isa b)) es" by (simp add: laid_out_def)
  have len: "length es = length es1" "length es1 = length es0"
    using map_eq_imp_length_eq [OF shape] list_all2_lengthD [OF placed(2)] by simp_all
  have linked: "map si_instruction es0 = linked_instructions b" by (rule initial_instructions_linked [OF es0])
  obtain bm where bm: "BitVec_finish (fold push_marks es BitVec_with_capacity) = Some bm" "code_ok (code_of es) bm"
    "\<forall>i. bit_at bm i \<longleftrightarrow> (\<exists>k < length es. i = offset_of es k)"
    using bitmask_marks [OF ok] by blast
  then have "sc_bitmask out = bm" "sc_code out = code_of es"
    using out by (auto simp: write_code_def Let_def Option.bind_eq_Some_conv code_of_def)
  moreover have "case target_of (linked_instructions b ! k) of
       None \<Rightarrow> si_instruction (es ! k) = linked_instructions b ! k
     | Some t \<Rightarrow> unat t < length (starts b) \<and> starts b ! unat t < length es \<and>
         si_instruction (es ! k) = with_target (si_position (es ! (starts b ! unat t))) (linked_instructions b ! k)"
    if "k < length es" for k
  proof -
    have "linked_instructions b ! k = si_instruction (es0 ! k)" using that len linked by (metis nth_map)
    moreover have "placed (starts b) (es0 ! k) (es1 ! k)" using that len placed(2) by (simp add: list_all2_conv_all_nth)
    moreover have "shape (es ! k) = shape (es1 ! k)" using that len shape by (metis nth_map)
    moreover have "entry_ok (w_isa b) (es ! k)" "settled es (es ! k)"
      using that laid by (simp_all add: laid_out_def list_all_length)
    ultimately show ?thesis using resolved_entry [of "starts b" "es0 ! k" "es1 ! k" "es ! k" "w_isa b" es]
      by (simp only:)
  qed
  moreover have "length es = length (linked_instructions b)" using len linked by (metis length_map)
  ultimately show ?thesis
    unfolding entries_of_def layout_def using laid bm out by (intro exI [of _ es]) (simp add: blocks)
qed

lemma instruction_offsets_eq:
  assumes "entries_of b out es"
  shows "instruction_offsets out = map (offset_of es) [0..<length es]"
proof -
  have lay: "layout (w_isa b) es (sc_bitmask out)" and code: "sc_code out = code_of es"
    using assms by (simp_all add: entries_of_def)
  then have ok: "list_all (entry_ok (w_isa b)) es" by (simp add: layout_def laid_out_def)
  have "sorted_wrt (<) (map (offset_of es) [0..<length es])"
    using offset_of_strict_mono [OF ok] by (simp add: sorted_wrt_iff_nth_less)
  moreover have "sorted_wrt (<) (instruction_offsets out)"
    by (simp add: instruction_offsets_def sorted_wrt_filter)
  moreover have "set (instruction_offsets out) = set (map (offset_of es) [0..<length es])"
    using lay offset_of_strict_mono [OF ok] length_code_of [OF ok] code
    by (auto simp: instruction_offsets_def layout_def)
  ultimately show ?thesis by (metis strict_sorted_equal)
qed

lemma position_offset:
  assumes "entries_of b out es" "k < length es"
  shows "si_position (es ! k) = word_of_nat (instruction_offsets out ! k)"
    and "unat (word_of_nat (instruction_offsets out ! k) :: u32) = instruction_offsets out ! k"
proof -
  have "chained 0 es" using assms(1) by (simp add: entries_of_def layout_def laid_out_def)
  then have pos: "unat (si_position (es ! k)) = instruction_offsets out ! k"
    using chained_position(1) [of 0 es k] assms(2) by (simp add: instruction_offsets_eq [OF assms(1)])
  then show "si_position (es ! k) = word_of_nat (instruction_offsets out ! k)" by (metis of_nat_unat ucast_id)
  then show "unat (word_of_nat (instruction_offsets out ! k) :: u32) = instruction_offsets out ! k" using pos by simp
qed

lemma resolve_entry:
  assumes "entries_of b out es" "k < length es"
  shows "si_instruction (es ! k) = resolve b (instruction_offsets out) (linked_instructions b ! k)"
    and "target_of (linked_instructions b ! k) = Some t \<Longrightarrow> unat t < length (starts b) \<and> starts b ! unat t < length es"
  using assms(1)[unfolded entries_of_def] assms(2) position_offset(1) [OF assms(1)]
  by (auto simp: resolve_def split: option.splits)

lemma supports_jump: "supports_opcode (isa_of isa) (O_offset jump)"
  by (cases isa) (simp_all add: supports_opcode_def ISA_ReviveV1_defs ISA_Latest32_defs ISA_Latest64_defs ISA_JamV1_defs)

definition encodable :: "InstructionSetKind \<Rightarrow> Instruction \<Rightarrow> bool" where
  "encodable isa i \<longleftrightarrow> supports_opcode (isa_of isa) (opcode i) \<and> small_regs i \<and> i \<noteq> invalid"

lemma linked_encodable:
  "list_all (encodable (w_isa b)) (w_code b) \<Longrightarrow> list_all (encodable (w_isa b)) (linked_instructions b)"
  by (auto simp: linked_instructions_def list_all_iff encodable_def shift_target_def supports_jump split: option.splits)

lemma resolve_encodable: "encodable isa (resolve b offsets i) \<longleftrightarrow> encodable isa i"
  by (simp add: encodable_def resolve_def split: option.splits)

lemma decoded_entry:
  assumes es: "entries_of b out es" and "list_all (encodable (w_isa b)) (w_code b)" "k < length es"
  shows "normalize (instruction_at (isa_of (w_isa b)) (sc_code out) (sc_bitmask out) (instruction_offsets out ! k)) =
    normalize (resolve b (instruction_offsets out) (linked_instructions b ! k))"
proof -
  have lay: "layout (w_isa b) es (sc_bitmask out)" "sc_code out = code_of es" and len: "length es = length (linked_instructions b)"
    using es by (simp_all add: entries_of_def)
  note instr = resolve_entry(1) [OF es assms(3)]
  have "encodable (w_isa b) (si_instruction (es ! k))"
    using linked_encodable [OF assms(2)] assms(3) instr by (simp add: resolve_encodable list_all_length len)
  then show ?thesis
    using instruction_layout(2) [OF lay(1) assms(3)] assms(3) instr
    by (simp add: encodable_def lay(2) instruction_offsets_eq [OF es])
qed

text \<open>C3: The code that \<open>serialize_code\<close> returns is read back, instruction by instruction. The bitmask has one mark per
  instruction of the dispatch table and of the builder's code, and no other; the instruction at the \<open>k\<close>-th
  mark reaches to the next mark, and it decodes to the \<open>k\<close>-th instruction with its basic block number
  replaced by the offset at which that block starts. This is what the sanity check of debug builds asserts.\<close>
theorem serialize_code_decodes:
  assumes "serialize_code b = Some (Inr out)" "list_all (encodable (w_isa b)) (w_code b)"
  shows "code_ok (sc_code out) (sc_bitmask out) \<and>
    length (instruction_offsets out) = length (w_dispatch_table b) + length (w_code b) \<and>
    (\<forall>k < length (linked_instructions b).
      normalize (instruction_at (isa_of (w_isa b)) (sc_code out) (sc_bitmask out) (instruction_offsets out ! k)) =
        normalize (resolve b (instruction_offsets out) (linked_instructions b ! k)) \<and>
      instruction_offsets out ! k + skip_at (sc_code out) (sc_bitmask out) (instruction_offsets out ! k) + 1 =
        (if Suc k < length (linked_instructions b) then instruction_offsets out ! Suc k else length (sc_code out)) \<and>
      (\<forall>t. target_of (linked_instructions b ! k) = Some t \<longrightarrow>
        unat t < length (starts b) \<and> starts b ! unat t < length (linked_instructions b)))"
proof -
  obtain es where es: "entries_of b out es" using serialize_code_entries [OF assms(1)] by blast
  then have lay: "layout (w_isa b) es (sc_bitmask out)" and code: "sc_code out = code_of es"
    and len: "length es = length (linked_instructions b)" by (simp_all add: entries_of_def)
  then have len_code: "length (sc_code out) = offset_of es (length es)"
    using length_code_of by (auto simp: layout_def laid_out_def)
  note offs = instruction_offsets_eq [OF es]
  have "normalize (instruction_at (isa_of (w_isa b)) (sc_code out) (sc_bitmask out) (instruction_offsets out ! k)) =
        normalize (resolve b (instruction_offsets out) (linked_instructions b ! k)) \<and>
      instruction_offsets out ! k + skip_at (sc_code out) (sc_bitmask out) (instruction_offsets out ! k) + 1 =
        (if Suc k < length (linked_instructions b) then instruction_offsets out ! Suc k else length (sc_code out)) \<and>
      (\<forall>t. target_of (linked_instructions b ! k) = Some t \<longrightarrow>
        unat t < length (starts b) \<and> starts b ! unat t < length (linked_instructions b))"
    if k: "k < length (linked_instructions b)" for k
  proof -
    note instr = resolve_entry [OF es, unfolded len, OF k]
    note decoded_entry [OF es assms(2), unfolded len, OF k]
    moreover have "offset_of es k + skip_at (code_of es) (sc_bitmask out) (offset_of es k) + 1 = offset_of es (Suc k)"
      using instruction_layout(1) [OF lay, unfolded len, OF k] .
    moreover have "instruction_offsets out ! k = offset_of es k" using k by (simp add: offs len)
    moreover have "Suc k < length (linked_instructions b) \<Longrightarrow> instruction_offsets out ! Suc k = offset_of es (Suc k)"
      using k by (simp add: offs len)
    moreover have "\<not> Suc k < length (linked_instructions b) \<Longrightarrow> length (sc_code out) = offset_of es (Suc k)"
      using k len len_code by (metis Suc_lessI)
    ultimately show ?thesis using instr code by (simp add: len)
  qed
  moreover have "code_ok (sc_code out) (sc_bitmask out)" using lay code by (simp add: layout_def)
  moreover have "length (instruction_offsets out) = length (w_dispatch_table b) + length (w_code b)"
    by (simp add: offs len linked_instructions_def)
  ultimately show ?thesis by blast
qed

lemma jump_table_entry_Some:
  "jump_table_entry b blocks es t = Some bs \<longleftrightarrow>
    unat (t + basic_block_shift b) < length blocks \<and> blocks ! unat (t + basic_block_shift b) < length es \<and>
    bs = le_bytes 4 (si_position (es ! (blocks ! unat (t + basic_block_shift b))))"
  by (auto simp: jump_table_entry_def Let_def Option.bind_eq_Some_conv)

lemma export_offset_Some:
  "export_offset b (starts b) es t = Some offset \<longleftrightarrow>
    (case t of ByBlock n \<Rightarrow> unat n + unat (basic_block_shift b) < length (starts b) | ByInstruction _ \<Rightarrow> True) \<and>
    export_index b t < length es \<and> offset = si_position (es ! export_index b t)"
  by (cases t) (auto simp: export_offset_def export_index_def Option.bind_eq_Some_conv)

lemma entry_size_le: "list_all (\<lambda>bs. length bs = 4) entries \<Longrightarrow> entry_size entries \<le> 4"
proof -
  have "foldl (\<lambda>m offset. max m (length (takeWhile (\<lambda>b. b \<noteq> 0) offset))) n entries \<le> 4"
    if "list_all (\<lambda>bs. length bs = 4) entries" "n \<le> 4" for n and entries :: "bytes list"
    using that
  proof (induction entries arbitrary: n)
    case (Cons bs entries)
    then show ?case using length_takeWhile_le [of "\<lambda>b. b \<noteq> 0" bs] by simp
  qed simp
  then show "list_all (\<lambda>bs. length bs = 4) entries \<Longrightarrow> entry_size entries \<le> 4"
    by (simp add: entry_size_def)
qed

lemma tables_written:
  assumes es: "entries_of b out es"
  shows "list_all (\<lambda>(target, _). export_index b target < length (linked_instructions b)) (w_exports b) \<and>
    sc_exports out =
      map (\<lambda>(target, name). (word_of_nat (instruction_offsets out ! export_index b target), name)) (w_exports b) \<and>
    list_all (\<lambda>t. unat (t + basic_block_shift b) < length (starts b) \<and>
      starts b ! unat (t + basic_block_shift b) < length (linked_instructions b)) (w_jump_table b) \<and>
    unat (sc_jump_table_entry_size out) \<le> 4 \<and>
    unat (sc_jump_table_entry_size out) = entry_size (map (\<lambda>t. le_bytes 4
      (word_of_nat (instruction_offsets out ! (starts b ! unat (t + basic_block_shift b))) :: u32)) (w_jump_table b)) \<and>
    sc_jump_table_entry_count out = word_of_nat (length (w_jump_table b)) \<and>
    sc_jump_table out = concat (map (\<lambda>t. le_bytes (unat (sc_jump_table_entry_size out))
      (word_of_nat (instruction_offsets out ! (starts b ! unat (t + basic_block_shift b))) :: u32)) (w_jump_table b))"
proof -
  have len: "length es = length (linked_instructions b)" using es by (simp add: entries_of_def)
  note pos = position_offset(1) [OF es]
  obtain jt exports where
    jt: "map (jump_table_entry b (starts b) es) (w_jump_table b) = map Some jt"
    and exports: "map (\<lambda>(target, name). map_option (\<lambda>offset. (offset, name)) (export_offset b (starts b) es target))
      (w_exports b) = map Some exports"
    and out: "sc_exports out = exports" "sc_jump_table out = concat (map (take (entry_size jt)) jt)"
      "sc_jump_table_entry_size out = word_of_nat (entry_size jt)" "sc_jump_table_entry_count out = word_of_nat (length jt)"
    using es by (auto simp: entries_of_def write_code_def Let_def Option.bind_eq_Some_conv collect_some_Some)
  have jt_len: "length jt = length (w_jump_table b)" using jt by (metis length_map)
  have jt_entry: "unat (t + basic_block_shift b) < length (starts b) \<and>
      starts b ! unat (t + basic_block_shift b) < length es \<and>
      jt ! i = le_bytes 4 (si_position (es ! (starts b ! unat (t + basic_block_shift b))))"
    if "i < length (w_jump_table b)" "t = w_jump_table b ! i" for i t
  proof -
    have "jump_table_entry b (starts b) es t = Some (jt ! i)" using jt that jt_len by (metis nth_map)
    then show ?thesis by (simp only: jump_table_entry_Some)
  qed
  have "list_all (\<lambda>bs. length bs = 4) jt" using jt_entry jt_len by (simp add: list_all_length)
  then have sz: "entry_size jt \<le> 4" by (rule entry_size_le)
  then have sz': "unat (sc_jump_table_entry_size out) = entry_size jt"
    by (simp add: out(3) unsigned_of_nat take_bit_nat_eq_self)
  have jt_eq: "jt = map (\<lambda>t. le_bytes 4
      (word_of_nat (instruction_offsets out ! (starts b ! unat (t + basic_block_shift b))) :: u32)) (w_jump_table b)"
    using jt_entry jt_len pos by (intro nth_equalityI) simp_all
  have "map (take (entry_size jt)) jt = map (\<lambda>t. le_bytes (entry_size jt)
      (word_of_nat (instruction_offsets out ! (starts b ! unat (t + basic_block_shift b))) :: u32)) (w_jump_table b)"
    using jt_entry jt_len pos sz by (intro nth_equalityI) simp_all
  moreover have export: "export_index b target < length es \<and>
      exports ! i = (word_of_nat (instruction_offsets out ! export_index b target), name)"
    if "i < length (w_exports b)" "w_exports b ! i = (target, name)" for i target name
  proof -
    have "length exports = length (w_exports b)" using exports by (metis length_map)
    then have "map_option (\<lambda>offset. (offset, name)) (export_offset b (starts b) es target) = Some (exports ! i)"
      using arg_cong [OF exports, of "\<lambda>xs. xs ! i"] that by simp
    then show ?thesis using pos by (auto simp: export_offset_Some)
  qed
  then have "exports = map (\<lambda>(target, name). (word_of_nat (instruction_offsets out ! export_index b target), name)) (w_exports b)"
    using map_eq_imp_length_eq [OF exports] by (intro nth_equalityI) (auto split: prod.split)
  moreover have "list_all (\<lambda>(target, _). export_index b target < length es) (w_exports b)"
    using export by (auto simp: list_all_length split: prod.split)
  ultimately show ?thesis
    using jt_entry sz out unfolding sz' len [symmetric] jt_eq [symmetric] by (auto simp: list_all_length jt_len)
qed

text \<open>C11: The exports and the jump table name the right instructions. Every export is written with the offset of the
  instruction it was added for; the entries of the jump table are the offsets at which the basic blocks
  start, cut to the entry size, which is at most four bytes.\<close>
theorem serialize_code_tables:
  assumes "serialize_code b = Some (Inr out)"
  shows "list_all (\<lambda>(target, _). export_index b target < length (linked_instructions b)) (w_exports b) \<and>
    sc_exports out =
      map (\<lambda>(target, name). (word_of_nat (instruction_offsets out ! export_index b target), name)) (w_exports b) \<and>
    list_all (\<lambda>t. unat (t + basic_block_shift b) < length (starts b) \<and>
      starts b ! unat (t + basic_block_shift b) < length (linked_instructions b)) (w_jump_table b) \<and>
    unat (sc_jump_table_entry_size out) \<le> 4 \<and>
    sc_jump_table_entry_count out = word_of_nat (length (w_jump_table b)) \<and>
    sc_jump_table out = concat (map (\<lambda>t. le_bytes (unat (sc_jump_table_entry_size out))
      (word_of_nat (instruction_offsets out ! (starts b ! unat (t + basic_block_shift b))) :: u32)) (w_jump_table b))"
  using serialize_code_entries [OF assms] tables_written by blast

section \<open>Jump targets\<close>

lemma prev_start_layout:
  assumes "layout isa es bm" "Suc k < length es"
  shows "prev_start bm (offset_of es (Suc k)) = Some (offset_of es k)"
proof -
  have ok: "list_all (entry_ok isa) es" using assms(1) by (simp add: layout_def laid_out_def)
  have "next_start bm (offset_of es k + 1) = Some (offset_of es (Suc k))"
    using next_start_layout [OF assms(1), of k] assms(2) by simp
  then have "\<not> bit_at bm i" if "offset_of es k < i" "i < offset_of es (Suc k)" for i
    using that by (simp add: next_start_Some)
  moreover have "offset_of es k < offset_of es (Suc k)" using offset_of_strict_mono [OF ok] assms(2) by simp
  moreover have "bit_at bm (offset_of es k)" using assms by (auto simp: layout_def intro!: exI [of _ k])
  ultimately show ?thesis by (simp add: prev_start_Some)
qed

lemma first_byte_layout:
  assumes "layout isa es bm" "k < length es"
  shows "code_of es ! offset_of es k = raw_opcode (isa_of isa) (opcode (si_instruction (es ! k)))"
proof -
  define e bs where "e = es ! k" and "bs = InstructionBuffer_deref (si_bytes e)"
  have ok: "list_all (entry_ok isa) es" using assms(1) by (simp add: layout_def laid_out_def)
  then have e: "entry_ok isa e" using assms(2) by (simp add: e_def list_all_length)
  note enc = entry_ok_encoding [OF e]
  have bs: "bs \<noteq> []" using enc(2,3) by (auto simp: bs_def)
  have "length (code_of es) = offset_of es (length es)" by (rule length_code_of [OF ok])
  then have "offset_of es k < length (code_of es)" using offset_of_strict_mono [OF ok assms(2)] by simp
  then have "code_of es ! offset_of es k = hd bs"
    using drop_code_of [OF ok assms(2)] bs by (simp add: hd_drop_conv_nth [symmetric] e_def bs_def)
  also have "\<dots> = raw_opcode (isa_of isa) (opcode (si_instruction e))"
    using length_serialize(1) [of "isa_of isa" "si_position e" "si_instruction e"]
      hd_serialize [of "isa_of isa" "si_position e" "si_instruction e"]
    by (cases "serialize (isa_of isa) (si_position e) (si_instruction e)") (auto simp: bs_def enc(1) encoding_def Let_def)
  finally show ?thesis by (simp add: e_def)
qed

lemma block_start_valid:
  assumes "layout isa es bm" "j < length es"
    and "j = 0 \<or> (\<exists>k. j = Suc k \<and> starts_new_basic_block (opcode (si_instruction (es ! k))) \<and>
      supports_opcode (isa_of isa) (opcode (si_instruction (es ! k))))"
  shows "is_jump_target_valid (isa_of isa) (code_of es) bm (offset_of es j)"
proof -
  have ok: "list_all (entry_ok isa) es" using assms(1) by (simp add: layout_def laid_out_def)
  have mark: "bit_at bm (offset_of es j)" using assms(1,2) by (auto simp: layout_def intro!: exI [of _ j])
  have le: "offset_of es j \<le> length (code_of es)"
    using offset_of_strict_mono [OF ok assms(2)] length_code_of [OF ok] by simp
  show ?thesis
  proof (cases j)
    case 0
    then show ?thesis using mark by (intro is_jump_target_validI) simp_all
  next
    case (Suc k)
    then have k: "starts_new_basic_block (opcode (si_instruction (es ! k)))"
      "supports_opcode (isa_of isa) (opcode (si_instruction (es ! k)))" using assms(3) by auto
    have "entry_len (es ! k) \<le> 11" using ok Suc assms(2) entry_ok_encoding(4) [of isa] by (simp add: list_all_length)
    then have "offset_of es j - offset_of es k - 1 < BITMASK_MAX"
      using Suc assms(2) by (simp add: offset_of_Suc BITMASK_MAX_def)
    moreover have "opcode_from_u8 (isa_of isa) (code_of es ! offset_of es k) = Some (opcode (si_instruction (es ! k)))"
      using first_byte_layout [OF assms(1), of k] Suc assms(2) k(2)
        instruction_set.matching_arm_raw_opcode [OF instruction_set_isa_of]
      by (simp add: instruction_set.matching_arm_from_u8 [OF instruction_set_isa_of])
    ultimately show ?thesis
      using mark le prev_start_layout [OF assms(1), of k] Suc assms(2) k(1) by (intro is_jump_target_validI) auto
  qed
qed

lemma starts_from_cases: "j \<in> set (starts_from n is) \<Longrightarrow>
    \<exists>k < length is. j = Suc (n + k) \<and> starts_new_basic_block (opcode (is ! k))"
proof (induction "is" arbitrary: n)
  case (Cons i "is")
  show ?case
  proof (cases "j = Suc n \<and> starts_new_basic_block (opcode i)")
    case True
    then show ?thesis by (intro exI [of _ 0]) simp
  next
    case False
    then have "j \<in> set (starts_from (n + 1) is)" using Cons.prems by (auto split: if_splits)
    then obtain k where "k < length is" "j = Suc (n + 1 + k)" "starts_new_basic_block (opcode (is ! k))"
      using Cons.IH by blast
    then show ?thesis by (intro exI [of _ "Suc k"]) simp
  qed
qed simp

lemma starts_valid:
  assumes es: "entries_of b out es" and "list_all (encodable (w_isa b)) (w_code b)"
    and "n < length (starts b)" "starts b ! n < length es"
  shows "is_jump_target_valid (isa_of (w_isa b)) (sc_code out) (sc_bitmask out) (instruction_offsets out ! (starts b ! n))"
proof -
  define j where "j = starts b ! n"
  have lay: "layout (w_isa b) es (sc_bitmask out)" "sc_code out = code_of es" and len: "length es = length (linked_instructions b)"
    using es by (simp_all add: entries_of_def)
  have "j \<in> set (starts b)" using assms(3) by (simp add: j_def)
  then have "j = 0 \<or> (\<exists>k < length es. j = Suc k \<and> starts_new_basic_block (opcode (linked_instructions b ! k)))"
    using starts_from_cases [of j 0 "linked_instructions b"] len by (auto simp: starts_def)
  moreover have "opcode (si_instruction (es ! k)) = opcode (linked_instructions b ! k)" if "k < length es" for k
    using resolve_entry(1) [OF es that] by (simp add: resolve_def split: option.split)
  moreover have "supports_opcode (isa_of (w_isa b)) (opcode (linked_instructions b ! k))" if "k < length es" for k
    using linked_encodable [OF assms(2)] that len by (simp add: list_all_length encodable_def)
  ultimately have "j = 0 \<or> (\<exists>k. j = Suc k \<and> starts_new_basic_block (opcode (si_instruction (es ! k))) \<and>
      supports_opcode (isa_of (w_isa b)) (opcode (si_instruction (es ! k))))"
    by metis
  then show ?thesis
    using block_start_valid [OF lay(1), of j] assms(4)
    by (simp add: j_def lay(2) instruction_offsets_eq [OF es])
qed

lemma exports_in_blocks:
  assumes "entries_of b out es" "(ByBlock n, name) \<in> set (w_exports b)"
  shows "unat n + unat (basic_block_shift b) < length (starts b)"
proof -
  obtain exports where exports: "map (\<lambda>(target, name). map_option (\<lambda>offset. (offset, name))
      (export_offset b (starts b) es target)) (w_exports b) = map Some exports"
    using assms(1) by (auto simp: entries_of_def write_code_def Let_def Option.bind_eq_Some_conv collect_some_Some)
  have "map_option (\<lambda>offset. (offset, name)) (export_offset b (starts b) es (ByBlock n)) \<in> set (map Some exports)"
    using assms(2) unfolding exports [symmetric] by force
  then show ?thesis by (auto simp: export_offset_Some)
qed

lemma target_of_normalize [simp]: "target_of (normalize i) = target_of i"
  by (cases i) simp_all

lemma decoded_target_valid:
  assumes es: "entries_of b out es" and "list_all (encodable (w_isa b)) (w_code b)"
    and "offset < length (sc_code out)" "bit_at (sc_bitmask out) offset"
    and t: "target_of (instruction_at (isa_of (w_isa b)) (sc_code out) (sc_bitmask out) offset) = Some t"
  shows "is_jump_target_valid (isa_of (w_isa b)) (sc_code out) (sc_bitmask out) (unat t)"
proof -
  have "offset \<in> set (instruction_offsets out)" using assms(3,4) by (simp add: instruction_offsets_def)
  then obtain k where k: "k < length es" "offset = instruction_offsets out ! k"
    by (auto simp: in_set_conv_nth instruction_offsets_eq [OF es])
  have "target_of (resolve b (instruction_offsets out) (linked_instructions b ! k)) = Some t"
    using t arg_cong [OF decoded_entry [OF es assms(2) k(1)], of target_of] by (simp add: k(2))
  then obtain u where u: "target_of (linked_instructions b ! k) = Some u"
    "t = word_of_nat (instruction_offsets out ! (starts b ! unat u))"
    by (auto simp: resolve_def split: option.splits)
  note block = resolve_entry(2) [OF es k(1) u(1)]
  show ?thesis
    using starts_valid [OF es assms(2)] position_offset(2) [OF es] block by (simp add: u(2))
qed

subsection \<open>The jump table that is read back\<close>

definition written_table :: "SerializedCode \<Rightarrow> JumpTable" where
  "written_table out = \<lparr>jt_blob = sc_jump_table out, jt_entry_size = ucast (sc_jump_table_entry_size out)\<rparr>"

text \<open>The offset at which the basic block of the \<open>i\<close>-th entry starts.\<close>

definition table_offset :: "ProgramBlobBuilder \<Rightarrow> SerializedCode \<Rightarrow> nat \<Rightarrow> nat" where
  "table_offset b out i = instruction_offsets out ! (starts b ! unat (w_jump_table b ! i + basic_block_shift b))"

lemma slice_concat:
  assumes "\<And>x. x \<in> set xs \<Longrightarrow> length (f x) = n" "i < length xs"
  shows "take n (drop (i * n) (concat (map f xs))) = f (xs ! i)"
  using assms
proof (induction xs arbitrary: i)
  case (Cons x xs)
  then show ?case by (cases i) simp_all
qed simp

lemma cut_offset: "from_le_bytes (le_bytes n (word_of_nat m :: u32)) = (word_of_nat (m mod 256 ^ n) :: u32)"
proof -
  have "m mod 256 ^ n = take_bit (8 * n) m" by (simp add: take_bit_nat_def power_mult)
  then show ?thesis by (simp add: from_le_bytes_le_bytes take_bit_of_nat)
qed

lemma written_table_lookup:
  assumes es: "entries_of b out es" and "length (w_jump_table b) \<le> unat VM_MAXIMUM_JUMP_TABLE_ENTRIES"
  defines "sz \<equiv> unat (sc_jump_table_entry_size out)"
  shows "get_by_index (written_table out) i =
    Some (if unat i < length (w_jump_table b) \<and> 0 < sz
      then Some (word_of_nat (table_offset b out (unat i) mod 256 ^ sz)) else None)"
proof (cases "sz = 0")
  case True
  then have "sc_jump_table_entry_size out = 0" unfolding sz_def by (simp only: unsigned_eq_0_iff)
  then show ?thesis using True by (simp add: get_by_index_def written_table_def)
next
  case False
  note tables = tables_written [OF es, folded sz_def]
  then have table: "sc_jump_table out = concat (map (\<lambda>t. le_bytes sz
      (word_of_nat (instruction_offsets out ! (starts b ! unat (t + basic_block_shift b))) :: u32)) (w_jump_table b))"
    and le: "sz \<le> 4" by simp_all
  have len: "length (sc_jump_table out) = length (w_jump_table b) * sz"
    by (simp add: table length_concat comp_def sum_list_triv)
  also have "\<dots> \<le> unat VM_MAXIMUM_JUMP_TABLE_ENTRIES * 4" using assms(2) le by (rule mult_le_mono)
  finally have small: "length (sc_jump_table out) < 2 ^ 32" by (simp add: VM_MAXIMUM_JUMP_TABLE_ENTRIES_def)
  have cut: "take sz (drop (unat i * sz) (sc_jump_table out)) = le_bytes sz (word_of_nat (table_offset b out (unat i)) :: u32)"
    if "unat i < length (w_jump_table b)"
    unfolding table table_offset_def by (rule slice_concat [OF _ that]) simp
  have "unat (jt_entry_size (written_table out)) = sz" by (simp add: written_table_def sz_def unat_ucast_up)
  then have "get_by_index (written_table out) i =
      Some (if unat i < length (w_jump_table b) then Some (from_le_bytes (take sz (drop (unat i * sz) (sc_jump_table out)))) else None)"
    using get_by_index_eq [of "written_table out" sz "length (w_jump_table b)" i] False le len small by (simp add: written_table_def)
  then show ?thesis using False cut by (simp add: cut_offset)
qed

lemma table_offset_valid:
  assumes es: "entries_of b out es" and "list_all (encodable (w_isa b)) (w_code b)" "i < length (w_jump_table b)"
  shows "is_jump_target_valid (isa_of (w_isa b)) (sc_code out) (sc_bitmask out) (table_offset b out i)"
    and "unat (word_of_nat (table_offset b out i) :: u32) = table_offset b out i"
  using tables_written [OF es] starts_valid [OF es assms(2)] position_offset(2) [OF es] assms(3) es
  by (simp_all add: table_offset_def list_all_length entries_of_def)

lemma export_valid:
  assumes es: "entries_of b out es" and "list_all (encodable (w_isa b)) (w_code b)"
    and "i < length (w_exports b)" "fst (w_exports b ! i) = ByBlock n"
  shows "is_jump_target_valid (isa_of (w_isa b)) (sc_code out) (sc_bitmask out) (unat (fst (sc_exports out ! i)))"
proof -
  obtain name where e: "w_exports b ! i = (ByBlock n, name)" using assms(4) by (cases "w_exports b ! i") simp
  note tables = tables_written [OF es]
  have "export_index b (ByBlock n) < length es"
    using tables assms(3) e es by (auto simp: list_all_length entries_of_def dest!: spec [of _ i])
  moreover have "sc_exports out ! i = (word_of_nat (instruction_offsets out ! export_index b (ByBlock n)), name)"
    using tables assms(3) e by simp
  moreover have "unat n + unat (basic_block_shift b) < length (starts b)"
    using exports_in_blocks [OF es, of n name] assms(3) e by (metis nth_mem)
  ultimately show ?thesis
    using starts_valid [OF es assms(2)] position_offset(2) [OF es] by (simp add: export_index_def)
qed

text \<open>C2: The targets in written code are ones that the virtual machine accepts: read back from the bytes, they pass
  \<open>is_jump_target_valid\<close> on the code and the bitmask that were written. This holds of the target of every jump and branch that
  is decoded at a marked offset, of every export that was added by its basic block, and of every entry that a lookup in the jump
  table returns, if the offset of its block fits into the entry size. A lookup finds nothing when the entry size is zero, and returns the
  offset reduced to the entry size when it does not fit.\<close>
theorem serialize_code_targets_valid:
  assumes "serialize_code b = Some (Inr out)" "list_all (encodable (w_isa b)) (w_code b)"
    and "length (w_jump_table b) \<le> unat VM_MAXIMUM_JUMP_TABLE_ENTRIES"
  shows "(\<forall>offset < length (sc_code out). bit_at (sc_bitmask out) offset \<longrightarrow>
      (\<forall>t. target_of (instruction_at (isa_of (w_isa b)) (sc_code out) (sc_bitmask out) offset) = Some t \<longrightarrow>
        is_jump_target_valid (isa_of (w_isa b)) (sc_code out) (sc_bitmask out) (unat t))) \<and>
    (\<forall>i. get_by_index (written_table out) i =
      Some (if unat i < length (w_jump_table b) \<and> 0 < unat (sc_jump_table_entry_size out)
        then Some (word_of_nat (table_offset b out (unat i) mod 256 ^ unat (sc_jump_table_entry_size out))) else None)) \<and>
    (\<forall>i pc. get_by_index (written_table out) i = Some (Some pc) \<longrightarrow>
      table_offset b out (unat i) < 256 ^ unat (sc_jump_table_entry_size out) \<longrightarrow>
      unat pc = table_offset b out (unat i) \<and> is_jump_target_valid (isa_of (w_isa b)) (sc_code out) (sc_bitmask out) (unat pc)) \<and>
    length (sc_exports out) = length (w_exports b) \<and>
    (\<forall>i < length (w_exports b). \<forall>n. fst (w_exports b ! i) = ByBlock n \<longrightarrow>
      is_jump_target_valid (isa_of (w_isa b)) (sc_code out) (sc_bitmask out) (unat (fst (sc_exports out ! i))))"
proof -
  obtain es where es: "entries_of b out es" using serialize_code_entries [OF assms(1)] by blast
  note lookup = written_table_lookup [OF es assms(3)]
  note entry = table_offset_valid [OF es assms(2)]
  have "unat pc = table_offset b out (unat i) \<and> is_jump_target_valid (isa_of (w_isa b)) (sc_code out) (sc_bitmask out) (unat pc)"
    if "get_by_index (written_table out) i = Some (Some pc)" "table_offset b out (unat i) < 256 ^ unat (sc_jump_table_entry_size out)" for i pc
    using that lookup [of i] entry [of "unat i"] by (auto split: if_splits)
  moreover have "length (sc_exports out) = length (w_exports b)" using tables_written [OF es] by simp
  ultimately show ?thesis using decoded_target_valid [OF es assms(2)] lookup export_valid [OF es assms(2)] by blast
qed

end
