(* ===== verification/Code_Settle.thy ===== *)
theory Code_Settle
  imports Code_Writer
begin

text \<open>
  When the loop of \<open>ProgramBlobBuilder::serialize_code\<close> that adjusts the targets ends, and concrete programs: a
  program without forward jumps is written after two turns, and a jump table whose entries are cut short.
\<close>

section \<open>Code without forward jumps\<close>

text \<open>A turn settles every jump whose target is not after it, and a second turn then changes nothing. Forward
  jumps read the position that the previous turn gave to their target, and may need more turns.\<close>

definition bufferable :: "u8 \<Rightarrow> Instruction \<Rightarrow> bool" where
  "bufferable m i \<longleftrightarrow> m = 0 \<or> unat m \<le> 5 \<and> (\<exists>t. i = I_offset jump t)"

lemma InstructionBuffer_new_total: "bufferable m i \<Longrightarrow> \<exists>buffer. InstructionBuffer_new isa p m i = Some buffer"
proof -
  let ?bs = "serialize (isa_of isa) p i"
  have "serialize_into (isa_of isa) p i (replicate MAX_INSTRUCTION_LENGTH 0) =
      Some (length ?bs, ?bs @ replicate (MAX_INSTRUCTION_LENGTH - length ?bs) 0)"
    using length_serialize [of "isa_of isa" p i]
    by (simp add: serialize_into_def write_prefix_def Let_def MAX_INSTRUCTION_LENGTH_def MAX_VARINT_LENGTH_def)
  then show "bufferable m i \<Longrightarrow> ?thesis"
    by (auto simp: bufferable_def InstructionBuffer_new_def Let_def)
qed

lemma bufferable_with_target [simp]: "bufferable m (with_target t i) = bufferable m i"
  by (cases i rule: target_of.cases) (simp_all add: bufferable_def)

lemma bufferable_shape: "shape e = shape e' \<Longrightarrow> bufferable (si_minimum_size e) (si_instruction e) =
    bufferable (si_minimum_size e') (si_instruction e')"
  by (metis bufferable_with_target fst_conv shape_def snd_conv)

lemma advance_total: "entry_ok isa e \<Longrightarrow> unat p + 11 < 2 ^ 32 \<Longrightarrow> \<exists>q. advance p (si_bytes e) = Some q \<and> unat q \<le> unat p + 11"
  using entry_ok_encoding(4) [of isa e] unat_advance [of p "si_bytes e"] by (auto simp: advance_Some entry_len_def)

definition adjustable :: "InstructionSetKind \<Rightarrow> SerializedInstruction list \<Rightarrow> bool" where
  "adjustable isa es \<longleftrightarrow> list_all (entry_ok isa) es \<and>
    list_all (\<lambda>e. bufferable (si_minimum_size e) (si_instruction e)) es \<and>
    (\<forall>k < length es. \<forall>t. si_target_nth_instruction (es ! k) = Some t \<longrightarrow> t \<le> k)"

lemma adjustable_shape:
  assumes "adjustable isa es" "map shape es' = map shape es" "list_all (entry_ok isa) es'"
  shows "adjustable isa es'"
proof -
  have len: "length es' = length es" using assms(2) by (metis length_map)
  have nth: "k < length es \<Longrightarrow> shape (es' ! k) = shape (es ! k)" for k using assms(2) len by (metis nth_map)
  then have "k < length es \<Longrightarrow> si_target_nth_instruction (es' ! k) = si_target_nth_instruction (es ! k)" for k
    by (simp add: shape_def)
  then show ?thesis
    using assms(1,3) bufferable_shape [OF nth] len by (simp add: adjustable_def list_all_length)
qed

lemma adjust_instruction_total:
  assumes "adjustable isa es" "n < length es" "unat pos + 11 < 2 ^ 32"
  shows "\<exists>es' modified pos'. adjust_instruction isa n pos es = Some (es', modified, pos') \<and> unat pos' \<le> unat pos + 11"
proof -
  define e where "e = es ! n"
  have e: "entry_ok isa e" "bufferable (si_minimum_size e) (si_instruction e)"
    using assms(1,2) by (simp_all add: e_def adjustable_def list_all_length)
  show ?thesis
  proof (cases "si_target_nth_instruction e")
    case None
    then show ?thesis
      using advance_total [OF e(1) assms(3)] assms(2) by (auto simp: adjust_instruction_def index_def Let_def e_def)
  next
    case (Some t)
    then have t: "t < length es" using assms(1,2) by (fastforce simp: adjustable_def e_def)
    obtain old where old: "target_of (si_instruction e) = Some old" using e(1) Some by (auto simp: entry_ok_def)
    define new where "new = si_position (es[n := e\<lparr>si_position := pos\<rparr>] ! t)"
    define i where "i = with_target new (si_instruction e)"
    obtain buffer where buffer: "InstructionBuffer_new isa pos (si_minimum_size e) i = Some buffer"
      using InstructionBuffer_new_total [of "si_minimum_size e" i isa pos] e(2) by (auto simp: i_def)
    have "entry_ok isa (e\<lparr>si_position := pos, si_instruction := i, si_bytes := buffer\<rparr>)"
      using buffer Some old by (simp add: entry_ok_def i_def)
    then obtain q where "advance pos buffer = Some q" "unat q \<le> unat pos + 11"
      using advance_total assms(3) by fastforce
    moreover obtain q' where "advance pos (si_bytes e) = Some q'" "unat q' \<le> unat pos + 11"
      using advance_total [OF e(1) assms(3)] by blast
    ultimately show ?thesis
      using Some old t assms(2) buffer
      by (cases "si_position e = pos \<and> old = new")
        (auto simp: adjust_instruction_def index_def Let_def e_def [symmetric] new_def [symmetric] i_def [symmetric])
  qed
qed

lemma adjust_instructions_backward:
  assumes "adjustable isa es" "length es = n + count" "unat pos + 11 * count < 2 ^ 32"
  shows "\<exists>es' modified. adjust_instructions isa n count pos any es = Some (es', modified) \<and>
    take n es' = take n es \<and> chained pos (drop n es') \<and> list_all (settled es') (drop n es')"
  using assms
proof (induction count arbitrary: n pos any es)
  case (Suc count)
  have n: "n < length es" using Suc.prems(2) by simp
  obtain es1 m1 pos1 where one: "adjust_instruction isa n pos es = Some (es1, m1, pos1)" "unat pos1 \<le> unat pos + 11"
    using adjust_instruction_total [OF Suc.prems(1) n, of pos] Suc.prems(3) by auto
  have ok: "list_all (entry_ok isa) es" using Suc.prems(1) by (simp add: adjustable_def)
  obtain e' where e': "n < length es" "es1 = es[n := e']" "entry_ok isa e'" "shape e' = shape (es ! n)"
    "si_position e' = pos" "advance pos (si_bytes e') = Some pos1" "\<not> m1 \<longrightarrow> e' = es ! n \<and> settled es e'"
    "settled es1 e'"
    using one(1) ok by (rule adjust_instruction_entry)
  have "adjustable isa es1"
    using adjust_instruction_shape [OF one(1) ok] by (intro adjustable_shape [OF Suc.prems(1)]) simp_all
  moreover have "length es1 = n + 1 + count" using Suc.prems(2) e'(2) by simp
  moreover have "unat pos1 + 11 * count < 2 ^ 32" using Suc.prems(3) one(2) by simp
  ultimately obtain es' m' where rest: "adjust_instructions isa (n + 1) count pos1 (any \<or> m1) es1 = Some (es', m')"
    "take (n + 1) es' = take (n + 1) es1" "chained pos1 (drop (n + 1) es')" "list_all (settled es') (drop (n + 1) es')"
    using Suc.IH [of es1 "n + 1" pos1 "any \<or> m1"] by blast
  have len: "length es' = length es"
    using adjust_instructions_shape [OF rest(1)] adjust_instruction_shape [OF one(1) ok] by (metis length_map)
  have same: "es' ! k = es1 ! k" if "k \<le> n" for k
    using that rest(2) by (metis le_imp_less_Suc nth_take Suc_eq_plus1)
  have n': "es' ! n = e'" using same [of n] e'(1,2) by simp
  have "si_target_nth_instruction e' = si_target_nth_instruction (es ! n)" using e'(4) by (simp add: shape_def)
  then have "t \<le> n" if "si_target_nth_instruction e' = Some t" for t
    using that Suc.prems(1) n by (simp add: adjustable_def)
  then have "settled es' e'" using e'(8) len e'(2) same by (auto simp: settled_def)
  moreover have "drop n es' = e' # drop (n + 1) es'" using Cons_nth_drop_Suc [of n es'] n' e'(1) len by simp
  moreover have "take n es' = take n es"
    using rest(2) e'(2) by (metis (no_types) le_add1 min_def take_take take_update_cancel order_refl)
  ultimately show ?case using rest one(1) e'(5,6) by auto
qed simp

lemma adjust_instructions_unmodified:
  assumes "list_all (entry_ok isa) es" "length es = n + count" "chained pos (drop n es)" "list_all (settled es) (drop n es)"
  shows "adjust_instructions isa n count pos any es = Some (es, any)"
  using assms
proof (induction count arbitrary: n pos any)
  case (Suc count)
  define e where "e = es ! n"
  have n: "n < length es" using Suc.prems(2) by simp
  have drop: "drop n es = e # drop (Suc n) es" using n by (simp add: e_def Cons_nth_drop_Suc)
  obtain q where e: "si_position e = pos" "advance pos (si_bytes e) = Some q" "chained q (drop (Suc n) es)" "settled es e"
    using Suc.prems(3,4) by (auto simp: drop)
  have ok: "entry_ok isa e" using Suc.prems(1) n by (simp add: e_def list_all_length)
  have same: "e\<lparr>si_position := pos\<rparr> = e" "es[n := e] = es" using e(1) by (simp_all add: e_def)
  have "adjust_instruction isa n pos es = Some (es, False, q)"
  proof (cases "si_target_nth_instruction e")
    case None
    then show ?thesis using n e(1,2) by (simp add: adjust_instruction_def index_def Let_def e_def [symmetric] same)
  next
    case (Some t)
    then have t: "t < length es" "target_of (si_instruction e) = Some (si_position (es ! t))"
      using e(4) by (simp_all add: settled_def)
    then show ?thesis
      using n e(1,2) Some with_target_same [OF t(2)]
      by (simp add: adjust_instruction_def index_def Let_def e_def [symmetric] same)
  qed
  then show ?case using Suc.IH [of "Suc n" q any] Suc.prems e(3) by (simp add: drop)
qed simp

lemma adjust_loop_backward:
  assumes "adjustable isa es" "11 * length es < 2 ^ 32"
  shows "\<exists>es'. adjust_loop isa es = Some es'"
proof -
  obtain es' modified where turn: "adjust_instructions isa 0 (length es) 0 False es = Some (es', modified)"
    "chained 0 es'" "list_all (settled es') es'"
    using adjust_instructions_backward [OF assms(1), of 0 "length es" 0 False] assms(2) by auto
  have ok: "list_all (entry_ok isa) es'"
    using adjust_instructions_shape [OF turn(1)] assms(1) by (simp add: adjustable_def)
  have "adjust_turn isa es' = Some (es', False)"
    using adjust_instructions_unmodified [OF ok, of 0 "length es'" 0 False] turn(2,3) by (simp add: adjust_turn_def)
  then have "adjust_loop isa es' = Some es'" by (subst adjust_loop.simps) simp
  then show ?thesis using turn(1) by (subst adjust_loop.simps) (simp add: adjust_turn_def)
qed

lemma place_instructions_total:
  assumes "list_all (\<lambda>e. bufferable (si_minimum_size e) (si_instruction e) \<and>
      (\<forall>t. target_of (si_instruction e) = Some t \<longrightarrow> unat t < length blocks)) es"
    and "unat pos + 11 * length es < 2 ^ 32"
  shows "\<exists>es'. place_instructions isa blocks n pos es = Some es'"
  using assms
proof (induction es arbitrary: n pos)
  case (Cons e es)
  obtain e1 where e1: "guess_target blocks n pos e = Some e1"
    using Cons.prems(1) by (cases "target_of (si_instruction e)") (auto simp: guess_target_def index_def)
  have same: "with_target 0 (si_instruction e1) = with_target 0 (si_instruction e)" "si_minimum_size e1 = si_minimum_size e"
    using guess_target_placed [OF e1] by (simp_all add: placed_def)
  have "bufferable (si_minimum_size e1) (with_target 0 (si_instruction e1))"
    using Cons.prems(1) unfolding same by simp
  then have "bufferable (si_minimum_size e1) (si_instruction e1)" by simp
  then obtain buffer where buffer: "InstructionBuffer_new isa pos (si_minimum_size e1) (si_instruction e1) = Some buffer"
    using InstructionBuffer_new_total by blast
  have "entry_ok isa (e1\<lparr>si_position := pos, si_bytes := buffer\<rparr>)"
    using buffer guess_target_placed [OF e1] by (simp add: entry_ok_def)
  then obtain q where q: "advance pos buffer = Some q" "unat q \<le> unat pos + 11"
    using advance_total [of isa "e1\<lparr>si_position := pos, si_bytes := buffer\<rparr>" pos] Cons.prems(2) by auto
  obtain es' where "place_instructions isa blocks (n + 1) q es = Some es'"
    using Cons.IH [of q "n + 1"] Cons.prems q(2) by auto
  then show ?case using e1 buffer q(1) by (simp add: Let_def)
qed simp

lemma collect_some_total: "list_all (\<lambda>r. r \<noteq> None) rs \<Longrightarrow> \<exists>xs. collect_some rs = Some xs"
  by (induction rs) auto

definition valid_index :: "ProgramBlobBuilder \<Rightarrow> u32 \<Rightarrow> bool" where
  "valid_index b t \<longleftrightarrow> unat t < length (starts b) \<and> starts b ! unat t < length (w_code b)"

lemma shift_none: "w_dispatch_table b = [] \<Longrightarrow> linked_instructions b = w_code b"
  by (auto simp: linked_instructions_def shift_target_def basic_block_shift_def with_target_same
      intro!: map_idI split: option.split)

lemma serialize_code_total:
  assumes "w_dispatch_table b = []"
    and supported: "list_all (\<lambda>i. supports_opcode (isa_of (w_isa b)) (opcode i)) (w_code b)"
    and backward: "\<forall>k < length (w_code b). \<forall>t. target_of (w_code b ! k) = Some t \<longrightarrow>
      unat t < length (starts b) \<and> starts b ! unat t \<le> k"
    and "list_all (valid_index b) (w_jump_table b)"
    and "list_all (\<lambda>(target, _). case target of ByBlock t \<Rightarrow> valid_index b t | ByInstruction n \<Rightarrow> unat n < length (w_code b)) (w_exports b)"
    and size: "11 * length (w_code b) < 2 ^ 32"
  shows "\<exists>out. serialize_code b = Some (Inr out)"
proof -
  have shift: "basic_block_shift b = 0" using assms(1) by (simp add: basic_block_shift_def)
  define new_entry where "new_entry i = \<lparr>si_instruction = i, si_bytes = InstructionBuffer_default,
      si_target_nth_instruction = None, si_position = 0, si_minimum_size = 0\<rparr>" for i
  have "code_entry b i = Inr (new_entry i)" if "i \<in> set (w_code b)" for i
    using that supported
    by (auto simp: code_entry_def new_entry_def Let_def shift with_target_same list_all_iff split: option.split)
  then have es0: "initial_instructions b = Inr (map new_entry (w_code b))"
    by (simp add: initial_instructions_def assms(1) collect_ok_Inr)
  note blocks = block_starts_linked [OF es0] and linked = shift_none [OF assms(1)]
  have "list_all (\<lambda>e. bufferable (si_minimum_size e) (si_instruction e) \<and>
      (\<forall>t. target_of (si_instruction e) = Some t \<longrightarrow> unat t < length (starts b))) (map new_entry (w_code b))"
    using backward by (auto simp: list_all_length new_entry_def bufferable_def)
  then obtain es1 where es1: "place_instructions (w_isa b) (starts b) 0 0 (map new_entry (w_code b)) = Some es1"
    using place_instructions_total [of "starts b" "map new_entry (w_code b)" 0] size by auto
  note placed = place_instructions_placed [OF es1]
  then have len1: "length es1 = length (w_code b)" by (metis list_all2_lengthD length_map)
  have entry: "placed (starts b) (new_entry (w_code b ! k)) (es1 ! k)" if "k < length (w_code b)" for k
    using placed that by (auto simp: list_all2_conv_all_nth)
  have "adjustable (w_isa b) es1"
    unfolding adjustable_def
  proof (intro conjI allI impI)
    show "list_all (entry_ok (w_isa b)) es1" using placed by simp
    show "list_all (\<lambda>e. bufferable (si_minimum_size e) (si_instruction e)) es1"
      using entry by (simp add: list_all_length len1 placed_def new_entry_def bufferable_def)
    show "t \<le> k" if "k < length es1" "si_target_nth_instruction (es1 ! k) = Some t" for k t
      using entry [of k] that backward len1 by (auto simp: placed_def new_entry_def split: option.splits)
  qed
  then obtain es where es: "adjust_loop (w_isa b) es1 = Some es" using adjust_loop_backward size len1 by metis
  note laid = adjust_loop_laid_out [OF es]
  have ok: "list_all (entry_ok (w_isa b)) es" and len: "length es = length (w_code b)"
    using laid placed len1 by (auto simp: laid_out_def dest: map_eq_imp_length_eq)
  have "list_all (\<lambda>r. r \<noteq> None) (map (jump_table_entry b (starts b) es) (w_jump_table b))"
    using assms(4) by (auto simp: list_all_iff jump_table_entry_def index_def valid_index_def shift len)
  then obtain jt where jt: "collect_some (map (jump_table_entry b (starts b) es) (w_jump_table b)) = Some jt"
    using collect_some_total by blast
  have "list_all (\<lambda>r. r \<noteq> None) (map (\<lambda>(target, name). map_option (\<lambda>offset. (offset, name))
      (export_offset b (starts b) es target)) (w_exports b))"
    using assms(5) by (fastforce simp: list_all_iff export_offset_def index_def valid_index_def shift len split: Export.splits)
  then obtain exports where exports: "collect_some (map (\<lambda>(target, name). map_option (\<lambda>offset. (offset, name))
      (export_offset b (starts b) es target)) (w_exports b)) = Some exports"
    using collect_some_total by blast
  obtain bm where "BitVec_finish (fold push_marks es BitVec_with_capacity) = Some bm" using bitmask_marks [OF ok] by blast
  then obtain out where "write_code b (starts b) es = Some out" using jt exports by (simp add: write_code_def Let_def)
  then show ?thesis using es0 es1 es by (simp add: serialize_code_def blocks Let_def)
qed

text \<open>C4: Without forward jumps \<open>serialize_code\<close> returns: if there is no dispatch table, every instruction is
  available, every jump goes to a basic block that starts at or before it, the jump table and the exports
  name existing instructions, and the code cannot exceed 4 GiB, the loop over the targets ends and the code is
  written.\<close>
theorem serialize_code_returns:
  assumes "w_dispatch_table b = []"
    and supported: "list_all (\<lambda>i. supports_opcode (isa_of (w_isa b)) (opcode i)) (w_code b)"
    and backward: "\<forall>k < length (w_code b). \<forall>t. target_of (w_code b ! k) = Some t \<longrightarrow>
      unat t < length (starts b) \<and> starts b ! unat t \<le> k"
    and "list_all (valid_index b) (w_jump_table b)"
    and "list_all (\<lambda>(target, _). case target of ByBlock t \<Rightarrow> valid_index b t | ByInstruction n \<Rightarrow> unat n < length (w_code b)) (w_exports b)"
    and size: "11 * length (w_code b) < 2 ^ 32"
  shows "\<exists>out. serialize_code b = Some (Inr out)"
  using assms by (rule serialize_code_total)

section \<open>Examples\<close>

definition loop_builder :: ProgramBlobBuilder where
  "loop_builder = fold (\<lambda>(sec, contents). add_custom_section sec contents) (debug_sections [] [] [] [7])
    (add_export_by_instruction 1 [98] (add_export_by_basic_block 1 [97]
      (set_code [I_argless fallthrough, I_reg_imm load_imm (Reg_raw A0) 7, I_offset jump 1, I_argless trap] [1]
        (ProgramBlobBuilder_new Latest64))))"

lemma loop_fields:
  "w_isa loop_builder = Latest64" "w_dispatch_table loop_builder = []" "w_jump_table loop_builder = [1]"
  "w_exports loop_builder = [(ByBlock 1, [97]), (ByInstruction 1, [98])]"
  "w_code loop_builder = [I_argless fallthrough, I_reg_imm load_imm (Reg_raw A0) 7, I_offset jump 1, I_argless trap]"
  "w_imports loop_builder = []" "w_ro_data loop_builder = []" "w_rw_data loop_builder = []"
  "w_custom loop_builder = debug_sections [] [] [] [7]"
  by (simp_all add: loop_builder_def debug_sections_def add_custom_section_def add_export_by_instruction_def add_export_by_basic_block_def set_code_def
      ProgramBlobBuilder_new_def)

lemma loop_linked: "linked_instructions loop_builder = w_code loop_builder"
  by (rule shift_none) (simp add: loop_fields)

lemma loop_starts: "starts loop_builder = [0, 1, 3, 4]"
  by (simp add: starts_def loop_linked loop_fields)

lemma loop_encodable: "list_all (encodable (w_isa loop_builder)) (w_code loop_builder)"
  by (simp add: loop_fields encodable_def supports_opcode_def ISA_Latest64_defs small_reg_def Reg_raw_def)

lemma loop_serialized: "\<exists>out. serialize_code loop_builder = Some (Inr out)"
proof (rule serialize_code_total)
  show "list_all (\<lambda>i. supports_opcode (isa_of (w_isa loop_builder)) (opcode i)) (w_code loop_builder)"
    using loop_encodable by (simp add: encodable_def list_all_iff)
  show "\<forall>k < length (w_code loop_builder). \<forall>t. target_of (w_code loop_builder ! k) = Some t \<longrightarrow>
      unat t < length (starts loop_builder) \<and> starts loop_builder ! unat t \<le> k"
    by (auto simp: loop_starts loop_fields less_Suc_eq numeral_eq_Suc)
qed (auto simp: valid_index_def loop_starts loop_fields)

lemma loop_shift: "basic_block_shift loop_builder = 0"
  by (simp add: basic_block_shift_def loop_fields)

lemma serialize_code_decodes_witness:
  "\<exists>out. serialize_code loop_builder = Some (Inr out) \<and> length (instruction_offsets out) = 4 \<and>
    normalize (instruction_at (isa_of Latest64) (sc_code out) (sc_bitmask out) (instruction_offsets out ! 2)) =
      I_offset jump (word_of_nat (instruction_offsets out ! 1))"
proof -
  obtain out where out: "serialize_code loop_builder = Some (Inr out)" using loop_serialized by blast
  show ?thesis
    using out serialize_code_decodes [OF out loop_encodable]
    by (intro exI [of _ out]) (auto simp: loop_linked loop_fields loop_starts resolve_def dest!: spec [of _ 2])
qed

lemma serialize_code_tables_witness:
  "\<exists>out. serialize_code loop_builder = Some (Inr out) \<and>
    sc_exports out = [(word_of_nat (instruction_offsets out ! 1), [97]), (word_of_nat (instruction_offsets out ! 1), [98])]"
proof -
  obtain out where out: "serialize_code loop_builder = Some (Inr out)" using loop_serialized by blast
  show ?thesis
    using out serialize_code_tables [OF out]
    by (intro exI [of _ out]) (simp add: loop_fields export_index_def loop_starts loop_shift)
qed

lemma serialize_code_returns_witness: "\<exists>out. serialize_code loop_builder = Some (Inr out)"
proof (rule serialize_code_returns)
  show "list_all (\<lambda>i. supports_opcode (isa_of (w_isa loop_builder)) (opcode i)) (w_code loop_builder)"
    using loop_encodable by (simp add: encodable_def list_all_iff)
  show "\<forall>k < length (w_code loop_builder). \<forall>t. target_of (w_code loop_builder ! k) = Some t \<longrightarrow>
      unat t < length (starts loop_builder) \<and> starts loop_builder ! unat t \<le> k"
    by (auto simp: loop_starts loop_fields less_Suc_eq numeral_eq_Suc)
qed (auto simp: valid_index_def loop_starts loop_fields)

lemma argless_entry_len:
  assumes es: "entries_of b out es" and "k < length es" "linked_instructions b ! k = I_argless op"
  shows "entry_len (es ! k) = 1"
proof -
  define e where "e = es ! k"
  have op: "si_instruction e = I_argless op"
    using resolve_entry(1) [OF es assms(2)] assms(3) by (auto simp: e_def resolve_def)
  have e: "entry_ok (w_isa b) e"
    using es assms(2) by (simp add: e_def list_all_length entries_of_def layout_def laid_out_def)
  then have "\<not> 1 < unat (si_minimum_size e)"
    using InstructionBuffer_new_eq(3) [of "w_isa b" "si_position e" "si_minimum_size e" "si_instruction e"]
    by (auto simp: entry_ok_def op serialize_argless_def)
  then show ?thesis
    using entry_ok_encoding(1,2) [OF e] by (simp add: op encoding_def Let_def serialize_argless_def e_def [symmetric])
qed

text \<open>The block after the first instruction is at offset 1, which a lookup in the written jump table finds.\<close>

lemma loop_table:
  assumes "serialize_code loop_builder = Some (Inr out)"
  shows "table_offset loop_builder out 0 = 1" "sc_jump_table_entry_size out = 1"
proof -
  obtain es where es: "entries_of loop_builder out es" using serialize_code_entries [OF assms] by blast
  then have len: "length es = 4" by (simp add: entries_of_def loop_linked loop_fields)
  have "entry_len (es ! 0) = 1" by (rule argless_entry_len [OF es]) (simp_all add: len loop_linked loop_fields)
  then have "offset_of es 1 = 1" using offset_of_Suc [of 0 es] len by simp
  then have one: "instruction_offsets out ! 1 = 1" by (simp add: instruction_offsets_eq [OF es] len)
  then show "table_offset loop_builder out 0 = 1"
    by (simp add: table_offset_def loop_fields loop_starts loop_shift)
  have "entry_size [le_bytes 4 (1 :: u32)] = 1" by code_simp
  then have "unat (sc_jump_table_entry_size out) = 1"
    using tables_written [OF es] one by (simp add: loop_fields loop_starts loop_shift)
  then show "sc_jump_table_entry_size out = 1" by (simp add: word_unat_eq_iff)
qed

lemma serialize_code_targets_valid_witness:
  "\<exists>out. serialize_code loop_builder = Some (Inr out) \<and> get_by_index (written_table out) 0 = Some (Some 1) \<and>
    is_jump_target_valid (isa_of Latest64) (sc_code out) (sc_bitmask out) 1"
proof -
  obtain out where out: "serialize_code loop_builder = Some (Inr out)" using loop_serialized by blast
  have table: "length (w_jump_table loop_builder) \<le> unat VM_MAXIMUM_JUMP_TABLE_ENTRIES"
    by (simp add: loop_fields VM_MAXIMUM_JUMP_TABLE_ENTRIES_def)
  note targets = serialize_code_targets_valid [OF out loop_encodable table]
  have lookup: "get_by_index (written_table out) 0 = Some (Some 1)"
    using targets by (simp add: loop_fields loop_table [OF out])
  have "table_offset loop_builder out (unat (0 :: u32)) < 256 ^ unat (sc_jump_table_entry_size out)"
    by (simp add: loop_table [OF out])
  then have "is_jump_target_valid (isa_of Latest64) (sc_code out) (sc_bitmask out) (unat (1 :: u32))"
    using targets lookup unfolding loop_fields(1) by blast
  then show ?thesis using out lookup by auto
qed

definition far_builder :: ProgramBlobBuilder where
  "far_builder = set_code (replicate 256 (I_argless fallthrough) @ [I_argless trap]) [256] (ProgramBlobBuilder_new Latest64)"

lemma far_fields:
  "w_isa far_builder = Latest64" "w_dispatch_table far_builder = []" "w_jump_table far_builder = [256]"
  "w_exports far_builder = []" "w_code far_builder = replicate 256 (I_argless fallthrough) @ [I_argless trap]"
  by (simp_all add: far_builder_def set_code_def ProgramBlobBuilder_new_def)

lemma far_linked: "linked_instructions far_builder = w_code far_builder"
  by (rule shift_none) (simp add: far_fields)

lemma starts_from_append: "starts_from n (is @ js) = starts_from n is @ starts_from (n + length is) js"
  by (induction "is" arbitrary: n) simp_all

lemma starts_from_replicate: "starts_from n (replicate m (I_argless fallthrough)) = [Suc n..<Suc n + m]"
  by (induction m arbitrary: n) (simp_all add: upt_conv_Cons del: upt_Suc)

lemma far_starts: "starts far_builder = [0..<258]"
proof -
  have "starts far_builder = 0 # [Suc 0..<Suc 0 + 256] @ [257]"
    by (simp add: starts_def far_linked far_fields starts_from_append starts_from_replicate del: upt_Suc)
  also have "\<dots> = [0..<258]" by (simp add: upt_rec [of 0] upt_conv_Cons flip: upt_Suc_append del: upt_Suc)
  finally show ?thesis .
qed

lemma far_serialized: "\<exists>out. serialize_code far_builder = Some (Inr out)"
proof (rule serialize_code_total)
  show "list_all (\<lambda>i. supports_opcode (isa_of (w_isa far_builder)) (opcode i)) (w_code far_builder)"
    by (simp add: far_fields supports_opcode_def ISA_Latest64_defs list_all_iff)
  show "\<forall>k < length (w_code far_builder). \<forall>t. target_of (w_code far_builder ! k) = Some t \<longrightarrow>
      unat t < length (starts far_builder) \<and> starts far_builder ! unat t \<le> k"
    by (auto simp: far_fields nth_append split: if_splits)
  show "list_all (valid_index far_builder) (w_jump_table far_builder)"
    by (simp add: far_fields valid_index_def far_starts del: upt_Suc)
qed (simp_all add: far_fields)

lemma offset_of_one_byte: "(\<forall>k < length es. entry_len (es ! k) = 1) \<Longrightarrow> n \<le> length es \<Longrightarrow> offset_of es n = n"
  by (induction n) (simp_all add: offset_of_Suc)

lemma far_offsets:
  assumes "entries_of far_builder out es"
  shows "instruction_offsets out ! 256 = 256"
proof -
  have len: "length es = 257" using assms by (simp add: entries_of_def far_linked far_fields)
  have "entry_len (es ! k) = 1" if k: "k < length es" for k
  proof -
    have "\<exists>op. linked_instructions far_builder ! k = I_argless op"
      using k len by (simp add: far_linked far_fields nth_append)
    then show ?thesis using argless_entry_len [OF assms k] by blast
  qed
  then have "offset_of es 256 = 256" using offset_of_one_byte [of es 256] len by simp
  then show ?thesis by (simp add: instruction_offsets_eq [OF assms] len del: upt_Suc)
qed

text \<open>C12: The entry size of the jump table is too small for some tables. It is computed by counting the bytes of an
  offset up to the first zero byte, starting with the least significant one: for 256 instructions of one byte and
  a jump table with the basic block after them, at offset 256, it is zero, and the lookup in
  the table that was written finds nothing.\<close>
theorem jump_table_truncated:
  "\<exists>out. serialize_code far_builder = Some (Inr out) \<and> instruction_offsets out ! 256 = 256 \<and>
    sc_jump_table_entry_count out = 1 \<and> sc_jump_table_entry_size out = 0 \<and> sc_jump_table out = [] \<and>
    get_by_index \<lparr>jt_blob = sc_jump_table out, jt_entry_size = ucast (sc_jump_table_entry_size out)\<rparr> 0 = Some None"
proof -
  obtain out where out: "serialize_code far_builder = Some (Inr out)" using far_serialized by blast
  obtain es where es: "entries_of far_builder out es" using serialize_code_entries [OF out] by blast
  note far = far_offsets [OF es]
  have target: "starts far_builder ! unat (256 + basic_block_shift far_builder) = 256"
    by (simp add: far_starts basic_block_shift_def far_fields del: upt_Suc)
  have "entry_size [le_bytes 4 (256 :: u32)] = 0" by code_simp
  then have "unat (sc_jump_table_entry_size out) = 0"
    using tables_written [OF es] by (simp add: far_fields target far)
  then have "sc_jump_table_entry_size out = 0" by (simp add: unat_eq_zero)
  moreover from this have "sc_jump_table out = []" "sc_jump_table_entry_count out = 1"
    using tables_written [OF es] by (simp_all add: far_fields)
  ultimately show ?thesis using out far by (simp add: get_by_index_def)
qed

end
