(* ===== verification/Gas.thy ===== *)
theory Gas
  imports Code_Walk
begin

text \<open>
  Gas costs, \<open>crates/polkavm/src/gas.rs\<close>: the simple cost model with its byte encoding, the visitor that adds
  up the cost of a basic block, and \<open>calculate_for_block\<close>. A cost model is one cost per opcode and one for
  invalid instructions. The lemmas show what a block costs, and what \<open>CostModel::deserialize\<close> does.
\<close>

section \<open>Cost models\<close>

record CostModel =
  cost_for_opcode :: "Opcode \<Rightarrow> u32"
  cost_invalid :: u32

definition CostModel_naive :: CostModel where
  "CostModel_naive = \<lparr>cost_for_opcode = (\<lambda>_. 1), cost_invalid = 1\<rparr>"

text \<open>The fields in the order of the struct, and their number as the macro counts it.\<close>

definition cost_model_fields :: "Opcode list" where
  "cost_model_fields = [
    O_reg_reg_reg add_32, O_reg_reg_reg add_64, O_reg_reg_imm add_imm_32, O_reg_reg_imm add_imm_64,
    O_reg_reg_reg and_op, O_reg_reg_imm and_imm, O_reg_reg_reg and_inverted, O_reg_reg_offset branch_eq,
    O_reg_imm_offset branch_eq_imm, O_reg_reg_offset branch_greater_or_equal_signed,
    O_reg_imm_offset branch_greater_or_equal_signed_imm, O_reg_reg_offset branch_greater_or_equal_unsigned,
    O_reg_imm_offset branch_greater_or_equal_unsigned_imm, O_reg_imm_offset branch_greater_signed_imm,
    O_reg_imm_offset branch_greater_unsigned_imm, O_reg_imm_offset branch_less_or_equal_signed_imm,
    O_reg_imm_offset branch_less_or_equal_unsigned_imm, O_reg_reg_offset branch_less_signed,
    O_reg_imm_offset branch_less_signed_imm, O_reg_reg_offset branch_less_unsigned,
    O_reg_imm_offset branch_less_unsigned_imm, O_reg_reg_offset branch_not_eq,
    O_reg_imm_offset branch_not_eq_imm, O_reg_reg_reg cmov_if_not_zero, O_reg_reg_imm cmov_if_not_zero_imm,
    O_reg_reg_reg cmov_if_zero, O_reg_reg_imm cmov_if_zero_imm, O_reg_reg count_leading_zero_bits_32,
    O_reg_reg count_leading_zero_bits_64, O_reg_reg count_set_bits_32, O_reg_reg count_set_bits_64,
    O_reg_reg count_trailing_zero_bits_32, O_reg_reg count_trailing_zero_bits_64, O_reg_reg_reg div_signed_32,
    O_reg_reg_reg div_signed_64, O_reg_reg_reg div_unsigned_32, O_reg_reg_reg div_unsigned_64, O_imm ecalli,
    O_argless fallthrough, O_offset jump, O_reg_imm jump_indirect, O_reg_imm load_i16, O_reg_imm load_i32,
    O_reg_imm load_i8, O_reg_imm load_imm, O_reg_imm64 load_imm64, O_reg_imm_offset load_imm_and_jump,
    O_reg_reg_imm_imm load_imm_and_jump_indirect, O_reg_reg_imm load_indirect_i16,
    O_reg_reg_imm load_indirect_i32, O_reg_reg_imm load_indirect_i8, O_reg_reg_imm load_indirect_u16,
    O_reg_reg_imm load_indirect_u32, O_reg_reg_imm load_indirect_u64, O_reg_reg_imm load_indirect_u8,
    O_reg_imm load_u16, O_reg_imm load_u32, O_reg_imm load_u64, O_reg_imm load_u8, O_reg_reg_reg maximum,
    O_reg_reg_reg maximum_unsigned, O_argless memset, O_reg_reg_reg minimum, O_reg_reg_reg minimum_unsigned,
    O_reg_reg move_reg, O_reg_reg_reg mul_32, O_reg_reg_reg mul_64, O_reg_reg_imm mul_imm_32,
    O_reg_reg_imm mul_imm_64, O_reg_reg_reg mul_upper_signed_signed, O_reg_reg_reg mul_upper_signed_unsigned,
    O_reg_reg_reg mul_upper_unsigned_unsigned, O_reg_reg_imm negate_and_add_imm_32,
    O_reg_reg_imm negate_and_add_imm_64, O_reg_reg_reg or_op, O_reg_reg_imm or_imm, O_reg_reg_reg or_inverted,
    O_reg_reg_reg rem_signed_32, O_reg_reg_reg rem_signed_64, O_reg_reg_reg rem_unsigned_32,
    O_reg_reg_reg rem_unsigned_64, O_reg_reg reverse_byte, O_reg_reg_reg rotate_left_32,
    O_reg_reg_reg rotate_left_64, O_reg_reg_reg rotate_right_32, O_reg_reg_reg rotate_right_64,
    O_reg_reg_imm rotate_right_imm_32, O_reg_reg_imm rotate_right_imm_64,
    O_reg_reg_imm rotate_right_imm_alt_32, O_reg_reg_imm rotate_right_imm_alt_64, O_reg_reg sbrk,
    O_reg_reg_imm set_greater_than_signed_imm, O_reg_reg_imm set_greater_than_unsigned_imm,
    O_reg_reg_reg set_less_than_signed, O_reg_reg_imm set_less_than_signed_imm,
    O_reg_reg_reg set_less_than_unsigned, O_reg_reg_imm set_less_than_unsigned_imm,
    O_reg_reg_reg shift_arithmetic_right_32, O_reg_reg_reg shift_arithmetic_right_64,
    O_reg_reg_imm shift_arithmetic_right_imm_32, O_reg_reg_imm shift_arithmetic_right_imm_64,
    O_reg_reg_imm shift_arithmetic_right_imm_alt_32, O_reg_reg_imm shift_arithmetic_right_imm_alt_64,
    O_reg_reg_reg shift_logical_left_32, O_reg_reg_reg shift_logical_left_64,
    O_reg_reg_imm shift_logical_left_imm_32, O_reg_reg_imm shift_logical_left_imm_64,
    O_reg_reg_imm shift_logical_left_imm_alt_32, O_reg_reg_imm shift_logical_left_imm_alt_64,
    O_reg_reg_reg shift_logical_right_32, O_reg_reg_reg shift_logical_right_64,
    O_reg_reg_imm shift_logical_right_imm_32, O_reg_reg_imm shift_logical_right_imm_64,
    O_reg_reg_imm shift_logical_right_imm_alt_32, O_reg_reg_imm shift_logical_right_imm_alt_64,
    O_reg_reg sign_extend_16, O_reg_reg sign_extend_8, O_reg_imm_imm store_imm_indirect_u16,
    O_reg_imm_imm store_imm_indirect_u32, O_reg_imm_imm store_imm_indirect_u64,
    O_reg_imm_imm store_imm_indirect_u8, O_imm_imm store_imm_u16, O_imm_imm store_imm_u32,
    O_imm_imm store_imm_u64, O_imm_imm store_imm_u8, O_reg_reg_imm store_indirect_u16,
    O_reg_reg_imm store_indirect_u32, O_reg_reg_imm store_indirect_u64, O_reg_reg_imm store_indirect_u8,
    O_reg_imm store_u16, O_reg_imm store_u32, O_reg_imm store_u64, O_reg_imm store_u8, O_reg_reg_reg sub_32,
    O_reg_reg_reg sub_64, O_argless trap, O_argless unlikely, O_reg_reg_reg xnor, O_reg_reg_reg xor_op,
    O_reg_reg_imm xor_imm, O_reg_reg zero_extend_16]"

definition COST_MODEL_FIELDS :: nat where
  "COST_MODEL_FIELDS = length cost_model_fields + 1"

definition COST_MODEL_VERSION :: u32 where
  "COST_MODEL_VERSION = 2"

definition CostModel_serialize :: "CostModel \<Rightarrow> bytes" where
  "CostModel_serialize model =
    le_bytes 4 COST_MODEL_VERSION @
    concat (map (\<lambda>field. le_bytes 4 (cost_for_opcode model field)) cost_model_fields) @
    le_bytes 4 (cost_invalid model)"

text \<open>A word read at a position of the blob, \<open>None\<close> past its end.\<close>

definition word_at :: "bytes \<Rightarrow> nat \<Rightarrow> u32 option" where
  "word_at blob pos = map_option from_le_bytes (slice_get blob pos (pos + 4))"

fun read_fields :: "bytes \<Rightarrow> Opcode list \<Rightarrow> nat \<Rightarrow> CostModel \<Rightarrow> (CostModel \<times> nat) option" where
  "read_fields blob [] pos model = Some (model, pos)"
| "read_fields blob (field # rest) pos model =
    Option.bind (word_at blob pos) (\<lambda>cost.
    read_fields blob rest (pos + 4) (model\<lparr>cost_for_opcode := (cost_for_opcode model)(field := cost)\<rparr>))"

text \<open>The outer \<open>None\<close> is a panic: an index past the end or the assertion on the position.\<close>

definition CostModel_deserialize :: "bytes \<Rightarrow> CostModel option option" where
  "CostModel_deserialize blob =
    (if length blob mod 4 \<noteq> 0 \<or> length blob div 4 \<noteq> COST_MODEL_FIELDS + 2 then Some None
     else
       Option.bind (word_at blob 0) (\<lambda>version.
       if version \<noteq> COST_MODEL_VERSION then Some None
       else
         Option.bind (read_fields blob cost_model_fields 4 CostModel_naive) (\<lambda>(model, pos).
         Option.bind (word_at blob pos) (\<lambda>cost.
         let model = model\<lparr>cost_invalid := cost\<rparr> in
         if pos = (COST_MODEL_FIELDS + 2) * 4 then Some (Some model) else None))))"

section \<open>The visitor\<close>

record GasVisitor =
  gv_cost_model :: CostModel
  gv_cost :: u32
  gv_last_block_cost :: "u32 option"

definition GasVisitor_new :: "CostModel \<Rightarrow> GasVisitor" where
  "GasVisitor_new cost_model = \<lparr>gv_cost_model = cost_model, gv_cost = 0, gv_last_block_cost = None\<rparr>"

definition start_new_basic_block :: "GasVisitor \<Rightarrow> GasVisitor" where
  "start_new_basic_block v = v\<lparr>gv_last_block_cost := Some (gv_cost v), gv_cost := 0\<rparr>"

definition take_block_cost :: "GasVisitor \<Rightarrow> u32 option \<times> GasVisitor" where
  "take_block_cost v = (gv_last_block_cost v, v\<lparr>gv_last_block_cost := None\<rparr>)"

definition is_at_start_of_basic_block :: "GasVisitor \<Rightarrow> bool" where
  "is_at_start_of_basic_block v \<longleftrightarrow> gv_cost v = 0"

definition add_cost :: "Opcode \<Rightarrow> GasVisitor \<Rightarrow> GasVisitor" where
  "add_cost op v = v\<lparr>gv_cost := gv_cost v + cost_for_opcode (gv_cost_model v) op\<rparr>"

definition gas_invalid :: "GasVisitor \<Rightarrow> GasVisitor" where
  "gas_invalid v = start_new_basic_block (v\<lparr>gv_cost := gv_cost v + cost_invalid (gv_cost_model v)\<rparr>)"

definition gas_trap :: "GasVisitor \<Rightarrow> GasVisitor" where
  "gas_trap v = start_new_basic_block (add_cost (O_argless trap) v)"

fun gas_argless :: "op_argless \<Rightarrow> GasVisitor \<Rightarrow> GasVisitor" where
  "gas_argless trap v = gas_trap v"
| "gas_argless fallthrough v = start_new_basic_block (add_cost (O_argless fallthrough) v)"
| "gas_argless unlikely v = add_cost (O_argless unlikely) v"
| "gas_argless memset v = add_cost (O_argless memset) v"

definition gas_imm :: "op_imm \<Rightarrow> GasVisitor \<Rightarrow> GasVisitor" where
  "gas_imm op v = add_cost (O_imm op) v"

definition gas_reg_reg_reg :: "op_reg_reg_reg \<Rightarrow> GasVisitor \<Rightarrow> GasVisitor" where
  "gas_reg_reg_reg op v = add_cost (O_reg_reg_reg op) v"

definition gas_reg_reg_imm :: "op_reg_reg_imm \<Rightarrow> GasVisitor \<Rightarrow> GasVisitor" where
  "gas_reg_reg_imm op v = add_cost (O_reg_reg_imm op) v"

definition gas_reg_reg :: "op_reg_reg \<Rightarrow> GasVisitor \<Rightarrow> GasVisitor" where
  "gas_reg_reg op v = add_cost (O_reg_reg op) v"

definition gas_reg_imm_imm :: "op_reg_imm_imm \<Rightarrow> GasVisitor \<Rightarrow> GasVisitor" where
  "gas_reg_imm_imm op v = add_cost (O_reg_imm_imm op) v"

definition gas_imm_imm :: "op_imm_imm \<Rightarrow> GasVisitor \<Rightarrow> GasVisitor" where
  "gas_imm_imm op v = add_cost (O_imm_imm op) v"

definition gas_reg_imm :: "op_reg_imm \<Rightarrow> GasVisitor \<Rightarrow> GasVisitor" where
  "gas_reg_imm op v =
    (let v = add_cost (O_reg_imm op) v in if op = jump_indirect then start_new_basic_block v else v)"

definition gas_reg_imm64 :: "op_reg_imm64 \<Rightarrow> GasVisitor \<Rightarrow> GasVisitor" where
  "gas_reg_imm64 op v = add_cost (O_reg_imm64 op) v"

definition gas_reg_reg_offset :: "op_reg_reg_offset \<Rightarrow> GasVisitor \<Rightarrow> GasVisitor" where
  "gas_reg_reg_offset op v = start_new_basic_block (add_cost (O_reg_reg_offset op) v)"

definition gas_reg_imm_offset :: "op_reg_imm_offset \<Rightarrow> GasVisitor \<Rightarrow> GasVisitor" where
  "gas_reg_imm_offset op v = start_new_basic_block (add_cost (O_reg_imm_offset op) v)"

definition gas_reg_reg_imm_imm :: "op_reg_reg_imm_imm \<Rightarrow> GasVisitor \<Rightarrow> GasVisitor" where
  "gas_reg_reg_imm_imm op v = start_new_basic_block (add_cost (O_reg_reg_imm_imm op) v)"

definition gas_offset :: "op_offset \<Rightarrow> GasVisitor \<Rightarrow> GasVisitor" where
  "gas_offset op v = start_new_basic_block (add_cost (O_offset op) v)"

fun GasVisitor_visit :: "Instruction \<Rightarrow> GasVisitor \<Rightarrow> GasVisitor" where
  "GasVisitor_visit (I_argless op) v = gas_argless op v"
| "GasVisitor_visit (I_reg_imm op _ _) v = gas_reg_imm op v"
| "GasVisitor_visit (I_reg_imm_offset op _ _ _) v = gas_reg_imm_offset op v"
| "GasVisitor_visit (I_reg_imm_imm op _ _ _) v = gas_reg_imm_imm op v"
| "GasVisitor_visit (I_reg_reg_imm op _ _ _) v = gas_reg_reg_imm op v"
| "GasVisitor_visit (I_reg_reg_offset op _ _ _) v = gas_reg_reg_offset op v"
| "GasVisitor_visit (I_reg_reg_reg op _ _ _) v = gas_reg_reg_reg op v"
| "GasVisitor_visit (I_offset op _) v = gas_offset op v"
| "GasVisitor_visit (I_imm op _) v = gas_imm op v"
| "GasVisitor_visit (I_imm_imm op _ _) v = gas_imm_imm op v"
| "GasVisitor_visit (I_reg_reg op _ _) v = gas_reg_reg op v"
| "GasVisitor_visit (I_reg_reg_imm_imm op _ _ _ _) v = gas_reg_reg_imm_imm op v"
| "GasVisitor_visit (I_reg_imm64 op _ _) v = gas_reg_imm64 op v"
| "GasVisitor_visit invalid v = gas_invalid v"

section \<open>The cost of a block\<close>

text \<open>The loop of \<open>calculate_for_block\<close>: the visitor, and the cost of the block if one ended.\<close>

partial_function (option) block_loop :: "GasVisitor \<Rightarrow> Instructions \<Rightarrow> (GasVisitor \<times> u32 option) option" where
  "block_loop visitor instructions =
    Option.bind (Instructions_next instructions) (\<lambda>(item, instructions).
    case item of
      None \<Rightarrow> Some (visitor, None)
    | Some instruction \<Rightarrow>
        let visitor = GasVisitor_visit (kind instruction) visitor in
        (case take_block_cost visitor of
           (Some cost, visitor) \<Rightarrow> Some (visitor, Some cost)
         | (None, visitor) \<Rightarrow> block_loop visitor instructions))"

definition calculate_for_block :: "GasVisitor \<Rightarrow> Instructions \<Rightarrow> (u32 \<times> bool) option" where
  "calculate_for_block visitor instructions =
    Option.bind (block_loop visitor instructions) (\<lambda>(visitor, ended).
    case ended of
      Some cost \<Rightarrow> Some (cost, False)
    | None \<Rightarrow>
        (case take_block_cost visitor of
           (Some cost, _) \<Rightarrow> Some (cost, False)
         | (None, visitor) \<Rightarrow>
             let started_out_of_bounds = is_at_start_of_basic_block visitor in
             map_option (\<lambda>cost. (cost, started_out_of_bounds)) (fst (take_block_cost (gas_trap visitor)))))"

section \<open>What a block costs\<close>

definition ends_block :: "Instruction \<Rightarrow> bool" where
  "ends_block i \<longleftrightarrow> i = invalid \<or> starts_new_basic_block (opcode i)"

definition instruction_cost :: "CostModel \<Rightarrow> Instruction \<Rightarrow> u32" where
  "instruction_cost model i = (if i = invalid then cost_invalid model else cost_for_opcode model (opcode i))"

lemma GasVisitor_visit_eq:
  "GasVisitor_visit i v =
    (let v = v\<lparr>gv_cost := gv_cost v + instruction_cost (gv_cost_model v) i\<rparr> in
     if ends_block i then start_new_basic_block v else v)"
proof (cases i)
  case (I_argless op)
  then show ?thesis
    by (cases op) (simp_all add: instruction_cost_def ends_block_def gas_trap_def add_cost_def Let_def)
next
  case (I_reg_imm_offset op r a b)
  then show ?thesis
    by (cases op) (simp_all add: instruction_cost_def ends_block_def gas_reg_imm_offset_def add_cost_def Let_def)
next
  case (I_reg_reg_offset op r s a)
  then show ?thesis
    by (cases op) (simp_all add: instruction_cost_def ends_block_def gas_reg_reg_offset_def add_cost_def Let_def)
next
  case (I_offset op a)
  then show ?thesis
    by (cases op) (simp_all add: instruction_cost_def ends_block_def gas_offset_def add_cost_def Let_def)
next
  case (I_reg_reg_imm_imm op r s a b)
  then show ?thesis
    by (cases op) (simp_all add: instruction_cost_def ends_block_def gas_reg_reg_imm_imm_def add_cost_def Let_def)
qed (simp_all add: instruction_cost_def ends_block_def add_cost_def gas_invalid_def gas_reg_imm_def gas_reg_imm_imm_def
    gas_reg_reg_imm_def gas_reg_reg_reg_def gas_imm_def gas_imm_imm_def gas_reg_reg_def gas_reg_imm64_def Let_def)

text \<open>The block of a list of instructions ends with the first one that ends a block. If none does, there
  is an implicit trap after them.\<close>

fun block_cost :: "CostModel \<Rightarrow> Instruction list \<Rightarrow> u32" where
  "block_cost model [] = cost_for_opcode model (O_argless trap)"
| "block_cost model (i # is) =
    (if ends_block i then instruction_cost model i else instruction_cost model i + block_cost model is)"

lemma block_loop_collect:
  assumes "Instructions_collect n it = Some items" "gv_last_block_cost v = None"
  shows "\<exists>v' ended. block_loop v it = Some (v', ended) \<and>
    (if list_ex ends_block (map kind items)
     then ended = Some (gv_cost v + block_cost (gv_cost_model v) (map kind items))
     else ended = None \<and> gv_last_block_cost v' = None \<and> gv_cost_model v' = gv_cost_model v \<and>
       gv_cost v' + cost_for_opcode (gv_cost_model v) (O_argless trap) =
         gv_cost v + block_cost (gv_cost_model v) (map kind items))"
  using assms
proof (induction n it arbitrary: items v rule: Instructions_collect.induct)
  case (2 n it)
  obtain item it' where step: "Instructions_next it = Some (item, it')"
    using "2.prems"(1) by (auto split: option.splits)
  show ?case
  proof (cases item)
    case None
    then show ?thesis using step "2.prems" by (subst block_loop.simps) auto
  next
    case (Some p)
    then obtain rest where rest: "Instructions_collect n it' = Some rest" "items = p # rest"
      using step "2.prems"(1) by auto
    define v1 where "v1 = GasVisitor_visit (kind p) v"
    show ?thesis
    proof (cases "ends_block (kind p)")
      case True
      then show ?thesis
        using step rest Some
        by (subst block_loop.simps) (simp add: GasVisitor_visit_eq take_block_cost_def start_new_basic_block_def Let_def)
    next
      case False
      define v2 where "v2 = v\<lparr>gv_cost := gv_cost v + instruction_cost (gv_cost_model v) (kind p)\<rparr>"
      have fields: "gv_cost v2 = gv_cost v + instruction_cost (gv_cost_model v) (kind p)" "gv_cost_model v2 = gv_cost_model v"
        by (simp_all add: v2_def)
      have v2: "gv_last_block_cost v2 = None" using "2.prems"(2) by (simp add: v2_def)
      have same: "v2\<lparr>gv_last_block_cost := None\<rparr> = v2" using v2 by (cases v2) simp
      have "block_loop v it = block_loop v2 it'"
        using step Some False v2
        by (subst block_loop.simps) (simp add: GasVisitor_visit_eq take_block_cost_def same v2_def [symmetric])
      then show ?thesis
        using "2.IH" [OF step [unfolded Some] refl refl rest(1) v2] rest(2) False
        by (cases "list_ex ends_block (map kind rest)") (auto simp: fields algebra_simps)
    qed
  qed
qed simp

lemma calculate_for_block_collect:
  assumes "Instructions_collect n it = Some items"
  shows "\<exists>flag. calculate_for_block (GasVisitor_new model) it = Some (block_cost model (map kind items), flag)"
proof -
  have "gv_last_block_cost (GasVisitor_new model) = None" by (simp add: GasVisitor_new_def)
  from block_loop_collect [OF assms this] show ?thesis
    by (auto simp: calculate_for_block_def GasVisitor_new_def take_block_cost_def gas_trap_def start_new_basic_block_def
        add_cost_def Let_def split: if_splits)
qed

section \<open>Reading a cost model back\<close>

lemma read_fields_position:
  "read_fields blob fs pos model = Some (model', pos') \<Longrightarrow> pos' = pos + 4 * length fs"
  by (induction fs arbitrary: pos model) (fastforce simp: Option.bind_eq_Some_conv)+

lemma length_CostModel_serialize: "length (CostModel_serialize model) = 4 * (length cost_model_fields + 2)"
  by (simp add: CostModel_serialize_def length_concat comp_def sum_list_triv)

text \<open>C19: \<open>CostModel::deserialize\<close> never returns a cost model. The length it asks for is one word more than
  \<open>serialize\<close> writes, so every serialized model is rejected; on a blob of the length it asks for, the
  assertion on the final position fails.\<close>
theorem cost_model_never_deserialized:
  "CostModel_deserialize (CostModel_serialize model) = Some None \<and> CostModel_deserialize blob \<noteq> Some (Some model)"
proof -
  have "CostModel_deserialize (CostModel_serialize model) = Some None"
    by (simp add: CostModel_deserialize_def length_CostModel_serialize COST_MODEL_FIELDS_def)
  moreover have "CostModel_deserialize blob \<noteq> Some (Some model)"
    by (auto simp: CostModel_deserialize_def Option.bind_eq_Some_conv COST_MODEL_FIELDS_def Let_def
        dest!: read_fields_position split: if_splits)
  ultimately show ?thesis by blast
qed

end
