(* ===== verification/VM_Module.thy ===== *)
theory VM_Module
  imports Blob Gas Memory_Map
begin

text \<open>
  A module as the virtual machine runs it, \<open>crates/polkavm/src/api.rs\<close>: the parsed program, its memory map and
  the options it was created with. The model has the simple cost models only.
\<close>

datatype GasMeteringKind = Sync | Async

record Module =
  m_blob :: ProgramBlob
  m_memory_map :: MemoryMap
  m_gas_metering :: "GasMeteringKind option"
  m_step_tracing :: bool
  m_dynamic_paging :: bool
  m_page_size_mask :: u32
  m_page_shift :: nat
  m_cost_model :: CostModel
  m_is_per_instruction_metering :: bool

definition module_is_64_bit :: "Module \<Rightarrow> bool" where
  "module_is_64_bit m = is_64_bit (pb_isa (m_blob m))"

definition module_code_len :: "Module \<Rightarrow> u32" where
  "module_code_len m = word_of_nat (length (pb_code (m_blob m)))"

definition module_instructions_bounded_at :: "Module \<Rightarrow> u32 \<Rightarrow> Instructions option" where
  "module_instructions_bounded_at m offset =
    Instructions_new (isa_of (pb_isa (m_blob m))) (pb_code (m_blob m)) (pb_bitmask (m_blob m)) (unat offset) True"

definition module_is_jump_target_valid :: "Module \<Rightarrow> u32 \<Rightarrow> bool" where
  "module_is_jump_target_valid m offset =
    is_jump_target_valid (isa_of (pb_isa (m_blob m))) (pb_code (m_blob m)) (pb_bitmask (m_blob m)) (unat offset)"

definition module_find_start_of_basic_block :: "Module \<Rightarrow> u32 \<Rightarrow> u32 option" where
  "module_find_start_of_basic_block m offset =
    map_option word_of_nat
      (find_start_of_basic_block (isa_of (pb_isa (m_blob m))) (pb_code (m_blob m)) (pb_bitmask (m_blob m)) (unat offset))"

definition module_jump_table :: "Module \<Rightarrow> JumpTable" where
  "module_jump_table m = jump_table (m_blob m)"

definition is_multiple_of_page_size :: "Module \<Rightarrow> u32 \<Rightarrow> bool" where
  "is_multiple_of_page_size m value \<longleftrightarrow> value AND m_page_size_mask m = 0"

definition round_to_page_size_down :: "Module \<Rightarrow> u32 \<Rightarrow> u32" where
  "round_to_page_size_down m value = value AND NOT (m_page_size_mask m)"

definition round_to_page_size_up :: "Module \<Rightarrow> u32 \<Rightarrow> u32" where
  "round_to_page_size_up m value =
    round_to_page_size_down m value + push_bit (m_page_shift m) (of_bool (value AND m_page_size_mask m \<noteq> 0))"

definition default_sp :: "Module \<Rightarrow> u64" where
  "default_sp m = ucast (stack_address_high (m_memory_map m))"

definition calculate_gas_cost_for :: "Module \<Rightarrow> u32 \<Rightarrow> u64 option option" where
  "calculate_gas_cost_for m code_offset =
    (if \<not> module_is_jump_target_valid m code_offset \<and> code_offset < module_code_len m then Some None
     else
       Option.bind (module_instructions_bounded_at m code_offset) (\<lambda>instructions.
       Option.bind (calculate_for_block (GasVisitor_new (m_cost_model m)) instructions) (\<lambda>(gas, _).
       Some (Some (ucast gas)))))"

end
