(* ===== verification/Std_Memory.thy ===== *)
theory Std_Memory
  imports VM_Module
begin

text \<open>
  The memory of a guest without dynamic paging, \<open>StandardMemory\<close> of \<open>crates/polkavm/src/interpreter.rs\<close>: four
  regions of which only a part is resident. Read-write data is resident as a prefix, the stack as a suffix; what
  is not resident reads as the program's initial data or as zeros. A \<open>usize\<close> is a natural number, with the
  wrap-around of the subtractions that can underflow written out; \<open>None\<close> is a panic. A vector has its
  bytes and its capacity, and \<open>Vec::reserve_exact\<close> allocates exactly what it is asked for.
\<close>

section \<open>Vectors\<close>

record ByteVec =
  v_bytes :: bytes
  v_capacity :: nat

definition Vec_new :: ByteVec where
  "Vec_new = \<lparr>v_bytes = [], v_capacity = 0\<rparr>"

abbreviation v_len :: "ByteVec \<Rightarrow> nat" where
  "v_len v \<equiv> length (v_bytes v)"

definition reserve_exact :: "nat \<Rightarrow> ByteVec \<Rightarrow> ByteVec" where
  "reserve_exact additional v =
    (if v_capacity v - v_len v \<ge> additional then v else v\<lparr>v_capacity := v_len v + additional\<rparr>)"

text \<open>\<open>resize\<close> within the capacity, \<open>truncate\<close> and \<open>clear\<close>.\<close>

definition resize :: "nat \<Rightarrow> ByteVec \<Rightarrow> ByteVec" where
  "resize n v = v\<lparr>v_bytes := take n (v_bytes v) @ replicate (n - v_len v) 0\<rparr>"

definition truncate_vec :: "nat \<Rightarrow> ByteVec \<Rightarrow> ByteVec" where
  "truncate_vec n v = v\<lparr>v_bytes := take n (v_bytes v)\<rparr>"

definition clear :: "ByteVec \<Rightarrow> ByteVec" where
  "clear v = v\<lparr>v_bytes := []\<rparr>"

text \<open>\<open>get_mut\<close> of a range followed by a write of the same length.\<close>

definition put_slice :: "bytes \<Rightarrow> nat \<Rightarrow> bytes \<Rightarrow> bytes option" where
  "put_slice xs start contents =
    (if start + length contents \<le> length xs
     then Some (take start xs @ contents @ drop (start + length contents) xs) else None)"

text \<open>Arithmetic on \<open>usize\<close>: a subtraction that wraps around, \<open>next_power_of_two\<close>, \<open>next_multiple_of\<close>.\<close>

definition usize_MAX :: nat where
  "usize_MAX = 2 ^ 64 - 1"

definition usize_sub :: "nat \<Rightarrow> nat \<Rightarrow> nat" where
  "usize_sub a b = (if b \<le> a then a - b else 2 ^ 64 + a - b)"

definition next_power_of_two :: "nat \<Rightarrow> nat" where
  "next_power_of_two n = 2 ^ bit_width (n - 1)"

definition next_multiple_of :: "nat \<Rightarrow> nat \<Rightarrow> nat" where
  "next_multiple_of n k = (if n mod k = 0 then n else n + (k - n mod k))"

section \<open>The state\<close>

record StandardMemory =
  sm_ro_data_size :: nat
  sm_rw_data_original :: bytes
  sm_rw_data_size :: nat
  sm_heap_size :: u32
  sm_stack_size :: nat
  sm_accessible_aux_size :: nat
  sm_max_allocation_size :: nat
  sm_guest_memory_limit :: nat
  sm_stack_address_low :: u32
  sm_stack_address_high :: u32
  sm_aux_data_address :: u32
  sm_stack_address_low_resident :: u32
  sm_rw_data_address :: u32
  sm_ro_data_address :: u32
  sm_stack :: ByteVec
  sm_rw_data :: ByteVec
  sm_ro_data :: bytes
  sm_aux :: ByteVec

definition StandardMemory_new :: StandardMemory where
  "StandardMemory_new = \<lparr>
    sm_ro_data_size = 0, sm_rw_data_original = [], sm_rw_data_size = 0, sm_heap_size = 0, sm_stack_size = 0,
    sm_accessible_aux_size = usize_MAX, sm_max_allocation_size = usize_MAX, sm_guest_memory_limit = usize_MAX,
    sm_stack_address_low = 0, sm_stack_address_high = 0, sm_aux_data_address = 0,
    sm_stack_address_low_resident = 0, sm_rw_data_address = 0, sm_ro_data_address = 0,
    sm_stack = Vec_new, sm_rw_data = Vec_new, sm_ro_data = [], sm_aux = Vec_new\<rparr>"

datatype MemoryAccessError = OutOfRangeAccess u32 nat | MemoryLimitReached

datatype SliceOrLength = Slice bytes | Length nat

fun contents_len :: "SliceOrLength \<Rightarrow> nat" where
  "contents_len (Slice xs) = length xs"
| "contents_len (Length n) = n"

fun contents_bytes :: "SliceOrLength \<Rightarrow> bytes" where
  "contents_bytes (Slice xs) = xs"
| "contents_bytes (Length n) = replicate n 0"

section \<open>Growing a region\<close>

definition RESIZE_GRANULARITY :: nat where
  "RESIZE_GRANULARITY = 4096"

definition reserve_memory :: "ByteVec \<Rightarrow> nat \<Rightarrow> nat \<Rightarrow> nat \<Rightarrow> nat \<Rightarrow> bool \<times> ByteVec" where
  "reserve_memory vec minimum_length maximum_allocation_size_in_bytes memory_limit memory_used =
    (if v_capacity vec \<ge> minimum_length then (True, vec)
     else
       let memory_used = memory_used + v_capacity vec;
           minimum_bytes = minimum_length
       in if minimum_bytes > maximum_allocation_size_in_bytes \<or> memory_used \<ge> memory_limit then (False, vec)
       else
         let target_bytes = min (max (next_power_of_two minimum_bytes) RESIZE_GRANULARITY) maximum_allocation_size_in_bytes;
             extra_bytes = target_bytes - v_capacity vec
         in if extra_bytes > memory_limit - memory_used then (False, vec)
         else
           let vec = reserve_exact (target_bytes - v_len vec) vec
           in (v_capacity vec \<ge> minimum_length, vec))"

definition rw_data_resize :: "nat \<Rightarrow> StandardMemory \<Rightarrow> bool \<times> StandardMemory" where
  "rw_data_resize required_size m =
    (case reserve_memory (sm_rw_data m) required_size (sm_max_allocation_size m) (sm_guest_memory_limit m)
        (v_capacity (sm_stack m) + v_capacity (sm_aux m)) of
       (False, vec) \<Rightarrow> (False, m\<lparr>sm_rw_data := vec\<rparr>)
     | (True, vec) \<Rightarrow>
         let new_length = min (v_capacity vec) (next_multiple_of required_size RESIZE_GRANULARITY);
             original = sm_rw_data_original m;
             vec =
               (if v_len vec < length original then
                  let new_length_partial = min new_length (length original)
                  in vec\<lparr>v_bytes := v_bytes vec @ drop (v_len vec) (take new_length_partial original)\<rparr>
                else vec)
         in (True, m\<lparr>sm_rw_data := resize new_length vec\<rparr>))"

definition stack_resize :: "nat \<Rightarrow> StandardMemory \<Rightarrow> bool \<times> StandardMemory" where
  "stack_resize required_size m =
    (case reserve_memory Vec_new required_size (sm_max_allocation_size m) (sm_guest_memory_limit m)
        (v_capacity (sm_rw_data m) + v_capacity (sm_aux m)) of
       (False, _) \<Rightarrow> (False, m)
     | (True, new_stack) \<Rightarrow>
         let new_size = v_capacity new_stack;
             new_space = new_size - v_len (sm_stack m);
             new_stack = new_stack\<lparr>v_bytes := replicate new_space 0 @ v_bytes (sm_stack m)\<rparr>
         in (True, m\<lparr>sm_stack := new_stack,
               sm_stack_address_low_resident := sm_stack_address_high m - word_of_nat (v_len new_stack)\<rparr>))"

definition aux_resize :: "nat \<Rightarrow> StandardMemory \<Rightarrow> bool \<times> StandardMemory" where
  "aux_resize required_size m =
    (case reserve_memory (sm_aux m) required_size (sm_max_allocation_size m) (sm_guest_memory_limit m)
        (v_capacity (sm_rw_data m) + v_capacity (sm_stack m)) of
       (False, vec) \<Rightarrow> (False, m\<lparr>sm_aux := vec\<rparr>)
     | (True, vec) \<Rightarrow>
         let new_length = min (v_capacity vec) (next_multiple_of required_size RESIZE_GRANULARITY)
         in (True, m\<lparr>sm_aux := resize new_length vec\<rparr>))"

datatype PrepareWriteResult = Prepared nat nat | PrepareOutOfRange | PrepareLimitReached

definition prepare_stack_write :: "nat \<Rightarrow> nat \<Rightarrow> StandardMemory \<Rightarrow> PrepareWriteResult \<times> StandardMemory" where
  "prepare_stack_write address len m =
    (let stack_hi = unat (sm_stack_address_high m) in
     if address + len > stack_hi then (PrepareOutOfRange, m)
     else
       let required_size = stack_hi - address;
           prepared = (\<lambda>m. let stack_lo = usize_sub stack_hi (v_len (sm_stack m));
                            offset = usize_sub address stack_lo
                        in (Prepared offset (offset + len), m))
       in if required_size > v_len (sm_stack m) then
            (if required_size > sm_stack_size m then (PrepareOutOfRange, m)
             else
               (case stack_resize required_size m of
                  (False, m) \<Rightarrow> (PrepareLimitReached, m)
                | (True, m) \<Rightarrow> prepared m))
          else prepared m)"

section \<open>Access by the host\<close>

definition accessible_aux_size :: "StandardMemory \<Rightarrow> u32" where
  "accessible_aux_size m = word_of_nat (sm_accessible_aux_size m)"

definition set_accessible_aux_size :: "u32 \<Rightarrow> StandardMemory \<Rightarrow> StandardMemory" where
  "set_accessible_aux_size sz m =
    m\<lparr>sm_accessible_aux_size := unat sz, sm_aux := truncate_vec (unat sz) (sm_aux m)\<rparr>"

text \<open>The four branches of \<open>read_memory_into\<close>, on a buffer of \<open>n\<close> bytes at an offset of the region.\<close>

definition read_aux :: "nat \<Rightarrow> nat \<Rightarrow> StandardMemory \<Rightarrow> bytes option" where
  "read_aux offset n m =
    (let offset_end = offset + n; len = v_len (sm_aux m) in
     Option.bind (slice_get (v_bytes (sm_aux m)) (min offset len) (min offset_end len)) (\<lambda>resident.
     Some (resident @ replicate (n - length resident) 0)))"

definition read_stack :: "nat \<Rightarrow> nat \<Rightarrow> StandardMemory \<Rightarrow> bytes option" where
  "read_stack offset n m =
    (let offset_end = offset + n;
         resident_offset = usize_sub (sm_stack_size m) (v_len (sm_stack m));
         non_resident = min offset_end resident_offset - min offset resident_offset in
     Option.bind (slice_get (v_bytes (sm_stack m)) (max offset resident_offset - resident_offset)
       (max offset_end resident_offset - resident_offset)) (\<lambda>resident.
     if length resident = n - non_resident then Some (replicate non_resident 0 @ resident) else None))"

definition read_rw_data :: "nat \<Rightarrow> nat \<Rightarrow> StandardMemory \<Rightarrow> bytes option" where
  "read_rw_data offset n m =
    (let offset_end = offset + n; len = v_len (sm_rw_data m); original = sm_rw_data_original m in
     Option.bind (slice_get (v_bytes (sm_rw_data m)) (min offset len) (min offset_end len)) (\<lambda>resident.
     Option.bind (slice_get original (min (offset + length resident) (length original)) (min offset_end (length original)))
       (\<lambda>non_resident.
     Some (resident @ non_resident @ replicate (n - length resident - length non_resident) 0))))"

definition read_ro_data :: "nat \<Rightarrow> nat \<Rightarrow> StandardMemory \<Rightarrow> bytes option" where
  "read_ro_data offset n m =
    (let offset_end = offset + n; len = length (sm_ro_data m) in
     Option.bind (slice_get (sm_ro_data m) (min offset len) (min offset_end len)) (\<lambda>src.
     Some (src @ replicate (n - length src) 0)))"

definition read_memory_into :: "u32 \<Rightarrow> nat \<Rightarrow> StandardMemory \<Rightarrow> (MemoryAccessError + bytes) option" where
  "read_memory_into address n m =
    (let out_of_range = Some (Inl (OutOfRangeAccess address n)) in
     if address \<ge> sm_aux_data_address m then
       (let offset = unat (address - sm_aux_data_address m) in
        if offset + n \<le> sm_accessible_aux_size m then map_option Inr (read_aux offset n m) else out_of_range)
     else if address \<ge> sm_stack_address_low m then
       (let offset = unat (address - sm_stack_address_low m) in
        if offset + n \<le> sm_stack_size m then map_option Inr (read_stack offset n m) else out_of_range)
     else if address \<ge> sm_rw_data_address m then
       (let offset = unat (address - sm_rw_data_address m) in
        if offset + n \<le> sm_rw_data_size m then map_option Inr (read_rw_data offset n m) else out_of_range)
     else if address \<ge> sm_ro_data_address m then
       (let offset = unat (address - sm_ro_data_address m) in
        if offset + n \<le> sm_ro_data_size m then map_option Inr (read_ro_data offset n m) else out_of_range)
     else out_of_range)"

definition zero_or_write_memory ::
  "u32 \<Rightarrow> SliceOrLength \<Rightarrow> StandardMemory \<Rightarrow> ((MemoryAccessError + unit) \<times> StandardMemory) option" where
  "zero_or_write_memory address contents m =
    (let out_of_range = (\<lambda>m. Some (Inl (OutOfRangeAccess address (contents_len contents)), m)) in
     if address \<ge> sm_aux_data_address m then
       (let offset = unat (address - sm_aux_data_address m) in
        case put_slice (v_bytes (sm_aux m)) offset (contents_bytes contents) of
          Some bs \<Rightarrow> Some (Inr (), m\<lparr>sm_aux := (sm_aux m)\<lparr>v_bytes := bs\<rparr>\<rparr>)
        | None \<Rightarrow>
            if offset + contents_len contents \<le> sm_accessible_aux_size m then
              (case aux_resize (offset + contents_len contents) m of
                 (False, m) \<Rightarrow> Some (Inl MemoryLimitReached, m)
               | (True, m) \<Rightarrow>
                   (case put_slice (v_bytes (sm_aux m)) offset (contents_bytes contents) of
                      Some bs \<Rightarrow> Some (Inr (), m\<lparr>sm_aux := (sm_aux m)\<lparr>v_bytes := bs\<rparr>\<rparr>)
                    | None \<Rightarrow> out_of_range m))
            else out_of_range m)
     else if address \<ge> sm_stack_address_low m then
       (case prepare_stack_write (unat address) (contents_len contents) m of
          (Prepared start _, m) \<Rightarrow>
            (case put_slice (v_bytes (sm_stack m)) start (contents_bytes contents) of
               Some bs \<Rightarrow> Some (Inr (), m\<lparr>sm_stack := (sm_stack m)\<lparr>v_bytes := bs\<rparr>\<rparr>)
             | None \<Rightarrow> out_of_range m)
        | (PrepareLimitReached, m) \<Rightarrow> Some (Inl MemoryLimitReached, m)
        | (PrepareOutOfRange, m) \<Rightarrow> out_of_range m)
     else if address \<ge> sm_rw_data_address m then
       (let offset = unat (address - sm_rw_data_address m) in
        case put_slice (v_bytes (sm_rw_data m)) offset (contents_bytes contents) of
          Some bs \<Rightarrow> Some (Inr (), m\<lparr>sm_rw_data := (sm_rw_data m)\<lparr>v_bytes := bs\<rparr>\<rparr>)
        | None \<Rightarrow>
            if offset + contents_len contents \<le> sm_rw_data_size m then
              (case rw_data_resize (offset + contents_len contents) m of
                 (False, m) \<Rightarrow> Some (Inl MemoryLimitReached, m)
               | (True, m) \<Rightarrow>
                   map_option (\<lambda>bs. (Inr (), m\<lparr>sm_rw_data := (sm_rw_data m)\<lparr>v_bytes := bs\<rparr>\<rparr>))
                     (put_slice (v_bytes (sm_rw_data m)) offset (contents_bytes contents)))
            else out_of_range m)
     else out_of_range m)"

definition std_write_memory ::
  "u32 \<Rightarrow> bytes \<Rightarrow> StandardMemory \<Rightarrow> ((MemoryAccessError + unit) \<times> StandardMemory) option" where
  "std_write_memory address data m = zero_or_write_memory address (Slice data) m"

definition std_zero_memory ::
  "u32 \<Rightarrow> u32 \<Rightarrow> StandardMemory \<Rightarrow> ((MemoryAccessError + unit) \<times> StandardMemory) option" where
  "std_zero_memory address len m = zero_or_write_memory address (Length (unat len)) m"

section \<open>The heap and the initial state\<close>

definition sbrk :: "Module \<Rightarrow> u32 \<Rightarrow> StandardMemory \<Rightarrow> (u32 option \<times> StandardMemory) option" where
  "sbrk md sz m =
    (case checked_add (sm_heap_size m) sz of
       None \<Rightarrow> Some (None, m)
     | Some new_heap_size \<Rightarrow>
         let memory_map = m_memory_map md in
         if new_heap_size > max_heap_size memory_map then Some (None, m)
         else
           let m = m\<lparr>sm_heap_size := new_heap_size\<rparr>;
               heap_top = heap_base memory_map + new_heap_size
           in if unat heap_top > unat (rw_data_address memory_map) + sm_rw_data_size m then
                (case align_to_next_page (ucast (page_size memory_map) :: u64) (ucast heap_top) of
                   Some (Some aligned_top) \<Rightarrow>
                     Some (Some heap_top, m\<lparr>sm_rw_data_size := usize_sub (unat aligned_top) (unat (rw_data_address memory_map))\<rparr>)
                 | _ \<Rightarrow> None)
              else Some (Some heap_top, m))"

definition reset_memory :: "Module \<Rightarrow> StandardMemory \<Rightarrow> StandardMemory" where
  "reset_memory md m =
    (let memory_map = m_memory_map md in
     m\<lparr>sm_ro_data := pb_ro_data (m_blob md),
       sm_ro_data_size := unat (ro_data_size memory_map),
       sm_rw_data := clear (sm_rw_data m),
       sm_rw_data_original := pb_rw_data (m_blob md),
       sm_rw_data_size := unat (rw_data_size memory_map),
       sm_heap_size := 0,
       sm_stack := clear (sm_stack m),
       sm_stack_size := unat (stack_size memory_map),
       sm_aux := clear (sm_aux m),
       sm_accessible_aux_size := unat (aux_data_size memory_map),
       sm_aux_data_address := aux_data_address memory_map,
       sm_stack_address_low := stack_address_low memory_map,
       sm_stack_address_high := stack_address_high memory_map,
       sm_stack_address_low_resident := stack_address_high memory_map,
       sm_rw_data_address := rw_data_address memory_map,
       sm_ro_data_address := ro_data_address memory_map\<rparr>)"

end
