(* ===== verification/Memory_Spec.thy ===== *)
theory Memory_Spec
  imports Std_Memory
begin

text \<open>
  What \<open>StandardMemory\<close> promises: a map from addresses to bytes that does not depend on what is resident. The
  lemmas show that a read returns the bytes of the map, that a write changes exactly the bytes it names, that
  growing a region changes nothing, and that every operation keeps the invariant \<open>memory_ok\<close>, which
  holds after \<open>reset_memory\<close> with a memory map from \<open>MemoryMapBuilder::build\<close>.
\<close>

section \<open>The abstract memory\<close>

definition byte_or_0 :: "bytes \<Rightarrow> nat \<Rightarrow> u8" where
  "byte_or_0 xs i = (if i < length xs then xs ! i else 0)"

definition aux_byte :: "StandardMemory \<Rightarrow> nat \<Rightarrow> u8" where
  "aux_byte m offset = byte_or_0 (v_bytes (sm_aux m)) offset"

definition stack_byte :: "StandardMemory \<Rightarrow> nat \<Rightarrow> u8" where
  "stack_byte m offset =
    (let resident_offset = sm_stack_size m - v_len (sm_stack m)
     in if offset < resident_offset then 0 else v_bytes (sm_stack m) ! (offset - resident_offset))"

definition rw_byte :: "StandardMemory \<Rightarrow> nat \<Rightarrow> u8" where
  "rw_byte m offset =
    (if offset < v_len (sm_rw_data m) then v_bytes (sm_rw_data m) ! offset
     else byte_or_0 (sm_rw_data_original m) offset)"

definition ro_byte :: "StandardMemory \<Rightarrow> nat \<Rightarrow> u8" where
  "ro_byte m offset = byte_or_0 (sm_ro_data m) offset"

text \<open>The byte at an address: a region is looked up by its start, from the highest to the lowest.\<close>

definition peek :: "StandardMemory \<Rightarrow> nat \<Rightarrow> u8 option" where
  "peek m a =
    (if a \<ge> unat (sm_aux_data_address m) then
       (let offset = a - unat (sm_aux_data_address m)
        in if offset < sm_accessible_aux_size m then Some (aux_byte m offset) else None)
     else if a \<ge> unat (sm_stack_address_low m) then
       (let offset = a - unat (sm_stack_address_low m)
        in if offset < sm_stack_size m then Some (stack_byte m offset) else None)
     else if a \<ge> unat (sm_rw_data_address m) then
       (let offset = a - unat (sm_rw_data_address m)
        in if offset < sm_rw_data_size m then Some (rw_byte m offset) else None)
     else if a \<ge> unat (sm_ro_data_address m) then
       (let offset = a - unat (sm_ro_data_address m)
        in if offset < sm_ro_data_size m then Some (ro_byte m offset) else None)
     else None)"

section \<open>Reading within a region\<close>

lemma slice_get_eq_map: "a \<le> b \<Longrightarrow> b \<le> length xs \<Longrightarrow> slice_get xs a b = Some (map ((!) xs) [a..<b])"
  by (auto simp: slice_get_def intro!: nth_equalityI)

lemma slice_get_clip:
  "a \<le> e \<Longrightarrow> slice_get xs (min a (length xs)) (min e (length xs)) = Some (map ((!) xs) [a..<min e (max a (length xs))])"
  by (simp add: slice_get_eq_map min_def max_def)

lemma replicate_eq_map: "replicate n x = map (\<lambda>_. x) [a..<a + n]"
  by (simp add: map_replicate_const)

lemma map_upt_split:
  assumes "a \<le> b" "b \<le> c" "\<And>i. a \<le> i \<Longrightarrow> i < b \<Longrightarrow> f i = h i" "\<And>i. b \<le> i \<Longrightarrow> i < c \<Longrightarrow> g i = h i"
  shows "map f [a..<b] @ map g [b..<c] = map h [a..<c]"
proof -
  have "[a..<c] = [a..<b] @ [b..<c]" using assms(1,2) upt_add_eq_append [of a b "c - b"] by simp
  then show ?thesis using assms(3,4) by simp
qed

lemma clip_zeros:
  "map ((!) xs) [a..<min (a + n) (max a (length xs))] @
    replicate (n - (min (a + n) (max a (length xs)) - a)) 0 = map (byte_or_0 xs) [a..<a + n]"
proof -
  define b where "b = min (a + n) (max a (length xs))"
  have b: "a \<le> b" "b \<le> a + n" by (simp_all add: b_def)
  then have "replicate (n - (b - a)) (0 :: u8) = map (\<lambda>_. 0) [b..<a + n]"
    using replicate_eq_map [of "n - (b - a)" "0 :: u8" b] by (simp add: add.commute)
  moreover have "map ((!) xs) [a..<b] @ map (\<lambda>_. 0) [b..<a + n] = map (byte_or_0 xs) [a..<a + n]"
    using b by (intro map_upt_split) (auto simp: byte_or_0_def b_def)
  ultimately show ?thesis by (simp add: b_def)
qed

lemma read_aux_eq: "read_aux offset n m = Some (map (aux_byte m) [offset..<offset + n])"
  using clip_zeros [of "v_bytes (sm_aux m)" offset n]
  by (simp add: read_aux_def Let_def slice_get_clip aux_byte_def [abs_def])

lemma read_ro_data_eq: "read_ro_data offset n m = Some (map (ro_byte m) [offset..<offset + n])"
  using clip_zeros [of "sm_ro_data m" offset n]
  by (simp add: read_ro_data_def Let_def slice_get_clip ro_byte_def [abs_def])

lemma read_rw_data_eq: "read_rw_data offset n m = Some (map (rw_byte m) [offset..<offset + n])"
proof -
  define e where "e = offset + n"
  then have n: "n = e - offset" "offset \<le> e" by simp_all
  define b where "b = min e (max offset (v_len (sm_rw_data m)))"
  have b: "offset \<le> b" "b \<le> e" using n(2) by (simp_all add: b_def)
  have "read_rw_data offset n m =
      Some (map ((!) (v_bytes (sm_rw_data m))) [offset..<b] @ map (byte_or_0 (sm_rw_data_original m)) [b..<e])"
    using b n(2) clip_zeros [of "sm_rw_data_original m" b "e - b"]
    by (simp add: read_rw_data_def Let_def slice_get_clip b_def [symmetric] n(1))
  also have "\<dots> = Some (map (rw_byte m) [offset..<e])"
    using b by (intro arg_cong [of _ _ Some] map_upt_split) (auto simp: rw_byte_def b_def)
  finally show ?thesis by (simp add: e_def)
qed

lemma read_stack_eq:
  assumes "v_len (sm_stack m) \<le> sm_stack_size m" "offset + n \<le> sm_stack_size m"
  shows "read_stack offset n m = Some (map (stack_byte m) [offset..<offset + n])"
proof -
  define r p where "r = sm_stack_size m - v_len (sm_stack m)" and "p = min (offset + n) (max offset r)"
  have r: "usize_sub (sm_stack_size m) (v_len (sm_stack m)) = r" "sm_stack_size m = r + v_len (sm_stack m)"
    using assms(1) by (simp_all add: usize_sub_def r_def)
  have p: "offset \<le> p" "p \<le> offset + n" by (simp_all add: p_def)
  have "slice_get (v_bytes (sm_stack m)) (max offset r - r) (max (offset + n) r - r) =
      Some (map ((!) (v_bytes (sm_stack m))) [max offset r - r..<max (offset + n) r - r])"
    using assms(2) r(2) by (intro slice_get_eq_map) auto
  also have "map ((!) (v_bytes (sm_stack m))) [max offset r - r..<max (offset + n) r - r] =
      map (\<lambda>i. v_bytes (sm_stack m) ! (i - r)) [p..<offset + n]"
    by (auto simp: p_def max_def min_def intro!: nth_equalityI)
  moreover have "min (offset + n) r - min offset r = p - offset" by (auto simp: p_def)
  moreover have "replicate (p - offset) 0 = map (\<lambda>_. 0) [offset..<p]"
    using replicate_eq_map [of "p - offset" 0 offset] p(1) by simp
  ultimately have "read_stack offset n m =
      Some (map (\<lambda>_. 0) [offset..<p] @ map (\<lambda>i. v_bytes (sm_stack m) ! (i - r)) [p..<offset + n])"
    using p by (simp add: read_stack_def r(1) Let_def add.commute)
  also have "\<dots> = Some (map (stack_byte m) [offset..<offset + n])"
    using p by (intro arg_cong [of _ _ Some] map_upt_split) (auto simp: stack_byte_def r_def [symmetric] p_def)
  finally show ?thesis .
qed

section \<open>The invariant\<close>

text \<open>The regions are in order with a gap after each of them, what is resident fits into its region, and the
  sizes are such that growing a region never leaves it: multiples of the granularity for the regions that
  grow upwards, a power of two for the stack.\<close>

definition regions_ok :: "StandardMemory \<Rightarrow> bool" where
  "regions_ok m \<longleftrightarrow>
    unat (sm_ro_data_address m) + sm_ro_data_size m < unat (sm_rw_data_address m) \<and>
    unat (sm_rw_data_address m) + sm_rw_data_size m < unat (sm_stack_address_low m) \<and>
    unat (sm_stack_address_low m) + sm_stack_size m = unat (sm_stack_address_high m) \<and>
    unat (sm_stack_address_high m) < unat (sm_aux_data_address m) \<and>
    unat (sm_aux_data_address m) + sm_accessible_aux_size m \<le> 2 ^ 32"

definition resident_ok :: "StandardMemory \<Rightarrow> bool" where
  "resident_ok m \<longleftrightarrow>
    length (sm_ro_data m) \<le> sm_ro_data_size m \<and> length (sm_rw_data_original m) \<le> sm_rw_data_size m \<and>
    v_len (sm_rw_data m) \<le> sm_rw_data_size m \<and> v_len (sm_stack m) \<le> sm_stack_size m \<and>
    v_len (sm_aux m) \<le> sm_accessible_aux_size m \<and>
    sm_stack_address_low_resident m = sm_stack_address_high m - word_of_nat (v_len (sm_stack m)) \<and>
    v_len (sm_rw_data m) \<le> v_capacity (sm_rw_data m) \<and> v_len (sm_aux m) \<le> v_capacity (sm_aux m) \<and>
    v_capacity (sm_rw_data m) \<le> 2 ^ 33 \<and> v_capacity (sm_stack m) \<le> 2 ^ 33 \<and> v_capacity (sm_aux m) \<le> 2 ^ 33"

definition stack_size_ok :: "nat \<Rightarrow> bool" where
  "stack_size_ok n \<longleftrightarrow> n = 0 \<or> (\<exists>k. 12 \<le> k \<and> n = 2 ^ k)"

definition memory_ok :: "StandardMemory \<Rightarrow> bool" where
  "memory_ok m \<longleftrightarrow> regions_ok m \<and> resident_ok m \<and> stack_size_ok (sm_stack_size m) \<and>
    RESIZE_GRANULARITY dvd sm_rw_data_size m \<and> RESIZE_GRANULARITY dvd sm_accessible_aux_size m"

section \<open>Reads\<close>

definition peeks :: "StandardMemory \<Rightarrow> nat \<Rightarrow> nat \<Rightarrow> bytes option" where
  "peeks m a n = those (map (peek m) [a..<a + n])"

lemma those_map_Some: "those (map (\<lambda>i. Some (f i)) xs) = Some (map f xs)"
  by (induction xs) simp_all

lemma those_None: "x \<in> set xs \<Longrightarrow> f x = None \<Longrightarrow> those (map f xs) = None"
  by (induction xs) (auto split: option.split)

lemma peeks_region:
  assumes region: "\<And>i. b \<le> i \<Longrightarrow> i < l \<Longrightarrow> peek m i = (if i - b < s then Some (f (i - b)) else None)"
    and "b \<le> a" "a < l" "b + s < l" "0 < n"
  shows "peeks m a n = (if a - b + n \<le> s then Some (map f [a - b..<a - b + n]) else None)"
proof (cases "a - b + n \<le> s")
  case True
  have "map (peek m) [a..<a + n] = map (\<lambda>i. Some (f (i - b))) [a..<a + n]"
    using assms(2,4) True by (intro map_cong refl) (auto simp: region)
  then have "peeks m a n = Some (map (\<lambda>i. f (i - b)) [a..<a + n])"
    by (simp only: peeks_def those_map_Some)
  moreover have "map (\<lambda>i. f (i - b)) [a..<a + n] = map f [a - b..<a - b + n]"
    using assms(2) by (intro nth_equalityI) simp_all
  ultimately show ?thesis using True by simp
next
  case False
  have "peek m (max a (b + s)) = None" using assms(2-4) by (subst region) auto
  moreover have "max a (b + s) \<in> set [a..<a + n]" using False assms(2,5) by auto
  ultimately have "peeks m a n = None" unfolding peeks_def by (intro those_None)
  then show ?thesis using False by simp
qed

lemma unat_offset: "(b :: u32) \<le> a \<Longrightarrow> unat (a - b) = unat a - unat b"
  by (simp add: unat_sub)

lemma peek_regions:
  assumes "regions_ok m"
  shows "unat (sm_aux_data_address m) \<le> i \<Longrightarrow> peek m i =
      (if i - unat (sm_aux_data_address m) < sm_accessible_aux_size m
       then Some (aux_byte m (i - unat (sm_aux_data_address m))) else None)"
    and "unat (sm_stack_address_low m) \<le> i \<Longrightarrow> i < unat (sm_aux_data_address m) \<Longrightarrow> peek m i =
      (if i - unat (sm_stack_address_low m) < sm_stack_size m
       then Some (stack_byte m (i - unat (sm_stack_address_low m))) else None)"
    and "unat (sm_rw_data_address m) \<le> i \<Longrightarrow> i < unat (sm_stack_address_low m) \<Longrightarrow> peek m i =
      (if i - unat (sm_rw_data_address m) < sm_rw_data_size m
       then Some (rw_byte m (i - unat (sm_rw_data_address m))) else None)"
    and "unat (sm_ro_data_address m) \<le> i \<Longrightarrow> i < unat (sm_rw_data_address m) \<Longrightarrow> peek m i =
      (if i - unat (sm_ro_data_address m) < sm_ro_data_size m
       then Some (ro_byte m (i - unat (sm_ro_data_address m))) else None)"
    and "i < unat (sm_ro_data_address m) \<Longrightarrow> peek m i = None"
  using assms by (auto simp: peek_def regions_ok_def Let_def)

lemma peeks_by_region:
  assumes ok: "regions_ok m" and "0 < n"
  shows "unat (sm_aux_data_address m) \<le> a \<Longrightarrow> peeks m a n =
      (let offset = a - unat (sm_aux_data_address m) in
       if offset + n \<le> sm_accessible_aux_size m then Some (map (aux_byte m) [offset..<offset + n]) else None)"
    and "unat (sm_stack_address_low m) \<le> a \<Longrightarrow> a < unat (sm_aux_data_address m) \<Longrightarrow> peeks m a n =
      (let offset = a - unat (sm_stack_address_low m) in
       if offset + n \<le> sm_stack_size m then Some (map (stack_byte m) [offset..<offset + n]) else None)"
    and "unat (sm_rw_data_address m) \<le> a \<Longrightarrow> a < unat (sm_stack_address_low m) \<Longrightarrow> peeks m a n =
      (let offset = a - unat (sm_rw_data_address m) in
       if offset + n \<le> sm_rw_data_size m then Some (map (rw_byte m) [offset..<offset + n]) else None)"
    and "unat (sm_ro_data_address m) \<le> a \<Longrightarrow> a < unat (sm_rw_data_address m) \<Longrightarrow> peeks m a n =
      (let offset = a - unat (sm_ro_data_address m) in
       if offset + n \<le> sm_ro_data_size m then Some (map (ro_byte m) [offset..<offset + n]) else None)"
    and "a < unat (sm_ro_data_address m) \<Longrightarrow> peeks m a n = None"
proof -
  note gaps = ok [unfolded regions_ok_def]
  show "peeks m a n = (let offset = a - unat (sm_aux_data_address m) in
       if offset + n \<le> sm_accessible_aux_size m then Some (map (aux_byte m) [offset..<offset + n]) else None)"
    if "unat (sm_aux_data_address m) \<le> a"
    unfolding Let_def using that assms(2) peek_regions(1) [OF ok]
    by (intro peeks_region [where l = "max (a + 1) (unat (sm_aux_data_address m) + sm_accessible_aux_size m + 1)"]) auto
  show "peeks m a n = (let offset = a - unat (sm_stack_address_low m) in
       if offset + n \<le> sm_stack_size m then Some (map (stack_byte m) [offset..<offset + n]) else None)"
    if "unat (sm_stack_address_low m) \<le> a" "a < unat (sm_aux_data_address m)"
    unfolding Let_def using that assms(2) peek_regions(2) [OF ok] gaps
    by (intro peeks_region [where l = "unat (sm_aux_data_address m)"]) auto
  show "peeks m a n = (let offset = a - unat (sm_rw_data_address m) in
       if offset + n \<le> sm_rw_data_size m then Some (map (rw_byte m) [offset..<offset + n]) else None)"
    if "unat (sm_rw_data_address m) \<le> a" "a < unat (sm_stack_address_low m)"
    unfolding Let_def using that assms(2) peek_regions(3) [OF ok] gaps
    by (intro peeks_region [where l = "unat (sm_stack_address_low m)"]) auto
  show "peeks m a n = (let offset = a - unat (sm_ro_data_address m) in
       if offset + n \<le> sm_ro_data_size m then Some (map (ro_byte m) [offset..<offset + n]) else None)"
    if "unat (sm_ro_data_address m) \<le> a" "a < unat (sm_rw_data_address m)"
    unfolding Let_def using that assms(2) peek_regions(4) [OF ok] gaps
    by (intro peeks_region [where l = "unat (sm_rw_data_address m)"]) auto
  show "peeks m a n = None" if "a < unat (sm_ro_data_address m)"
    unfolding peeks_def using that assms(2) peek_regions(5) [OF ok] by (intro those_None [of a]) auto
qed

lemma read_memory_into_peeks:
  assumes "regions_ok m" "v_len (sm_stack m) \<le> sm_stack_size m" "0 < n"
  shows "read_memory_into address n m =
    Some (case peeks m (unat address) n of Some bs \<Rightarrow> Inr bs | None \<Rightarrow> Inl (OutOfRangeAccess address n))"
proof -
  note peeks = peeks_by_region [OF assms(1,3), of "unat address", unfolded Let_def]
  consider (aux) "sm_aux_data_address m \<le> address"
    | (stack) "sm_stack_address_low m \<le> address" "\<not> sm_aux_data_address m \<le> address"
    | (rw) "sm_rw_data_address m \<le> address" "\<not> sm_stack_address_low m \<le> address" "\<not> sm_aux_data_address m \<le> address"
    | (ro) "sm_ro_data_address m \<le> address" "\<not> sm_rw_data_address m \<le> address" "\<not> sm_stack_address_low m \<le> address"
      "\<not> sm_aux_data_address m \<le> address"
    | (none) "\<not> sm_ro_data_address m \<le> address" "\<not> sm_rw_data_address m \<le> address"
      "\<not> sm_stack_address_low m \<le> address" "\<not> sm_aux_data_address m \<le> address"
    by blast
  then show ?thesis
  proof cases
    case aux
    then show ?thesis using peeks(1) by (simp add: read_memory_into_def unat_offset read_aux_eq word_le_nat_alt)
  next
    case stack
    then show ?thesis
      using peeks(2) assms(2) by (simp add: read_memory_into_def unat_offset read_stack_eq word_le_nat_alt)
  next
    case rw
    then show ?thesis using peeks(3) by (simp add: read_memory_into_def unat_offset read_rw_data_eq word_le_nat_alt)
  next
    case ro
    then show ?thesis using peeks(4) by (simp add: read_memory_into_def unat_offset read_ro_data_eq word_le_nat_alt)
  next
    case none
    then show ?thesis using peeks(5) by (simp add: read_memory_into_def word_le_nat_alt)
  qed
qed

section \<open>Growing a region\<close>

definition no_limits :: "StandardMemory \<Rightarrow> bool" where
  "no_limits m \<longleftrightarrow> sm_max_allocation_size m = usize_MAX \<and> sm_guest_memory_limit m = usize_MAX"

lemma next_power_of_two_le: "n \<le> 2 ^ k \<Longrightarrow> next_power_of_two n \<le> 2 ^ k"
  by (cases "n = 0") (auto simp: next_power_of_two_def bit_width_le_iff intro!: power_increasing)

lemma next_power_of_two_ge: "n \<le> next_power_of_two n"
  using bit_width_le_iff [of "n - 1" "bit_width (n - 1)"] by (cases n) (simp_all add: next_power_of_two_def)

lemma next_multiple_of_le: "n \<le> s \<Longrightarrow> k dvd s \<Longrightarrow> next_multiple_of n k \<le> s"
proof (cases "n mod k = 0")
  case False
  assume "n \<le> s" "k dvd s"
  have k: "0 < k" using False \<open>n \<le> s\<close> \<open>k dvd s\<close> by (cases k) auto
  then have "n mod k < k" by simp
  have "n div k < s div k" using False \<open>n \<le> s\<close> \<open>k dvd s\<close>
    by (metis div_le_mono dvd_mult_div_cancel le_antisym le_neq_implies_less mod_0_imp_dvd mult_div_mod_eq
        add.right_neutral nat_less_le add_diff_cancel_left' diff_is_0_eq)
  then have "k * (n div k + 1) \<le> k * (s div k)" by (intro mult_le_mono2) simp
  moreover have sum: "q = d + r \<Longrightarrow> r < k \<Longrightarrow> q + (k - r) = d + k" for q d r :: nat by simp
  have "n + (k - n mod k) = k * (n div k) + k"
    using mult_div_mod_eq [of k n, symmetric] \<open>n mod k < k\<close> by (rule sum)
  ultimately show ?thesis using \<open>k dvd s\<close> False by (simp add: next_multiple_of_def)
qed (simp add: next_multiple_of_def)

lemma next_multiple_of_ge: "n \<le> next_multiple_of n k"
  by (simp add: next_multiple_of_def)

lemma reserve_memory_cases:
  assumes "reserve_memory v n mx lim used = (ok, v')" "v_len v \<le> v_capacity v"
  shows "v_bytes v' = v_bytes v" "ok \<Longrightarrow> n \<le> v_capacity v'" "\<not> ok \<Longrightarrow> v' = v"
    "v_capacity v' \<le> max (v_capacity v) (max (next_power_of_two n) RESIZE_GRANULARITY)"
proof -
  define p where "p = max (next_power_of_two n) RESIZE_GRANULARITY"
  have p: "n \<le> p" using next_power_of_two_ge [of n] by (simp add: p_def)
  have cases: "(ok = (n \<le> v_capacity v) \<and> v' = v) \<or> (ok \<and> v' = v\<lparr>v_capacity := min p mx\<rparr> \<and> n \<le> min p mx)"
  proof (cases "v_capacity v < n \<and> n \<le> mx \<and> used + v_capacity v < lim \<and> min p mx - v_capacity v \<le> lim - (used + v_capacity v)")
    case True
    then have less: "n \<le> min p mx" "v_capacity v < min p mx" using p by simp_all
    then have "\<not> min p mx - v_len v \<le> v_capacity v - v_len v" using assms(2) by linarith
    then have "reserve_exact (min p mx - v_len v) v = v\<lparr>v_capacity := min p mx\<rparr>"
      using less(2) assms(2) by (simp add: reserve_exact_def)
    then show ?thesis using True less assms(1) by (simp add: reserve_memory_def Let_def p_def [symmetric])
  next
    case False
    then show ?thesis using assms(1)
      by (cases "v_capacity v < n") (auto simp: reserve_memory_def Let_def p_def [symmetric] split: if_splits)
  qed
  then show "v_bytes v' = v_bytes v" "ok \<Longrightarrow> n \<le> v_capacity v'" "\<not> ok \<Longrightarrow> v' = v" by auto
  show "v_capacity v' \<le> max (v_capacity v) (max (next_power_of_two n) RESIZE_GRANULARITY)"
    unfolding p_def [symmetric] using cases by auto
qed

lemma reserve_memory_unlimited:
  assumes "n \<le> 2 ^ 32" "v_len v \<le> v_capacity v" "used + v_capacity v \<le> 2 ^ 35"
  shows "fst (reserve_memory v n usize_MAX usize_MAX used)"
proof -
  have t: "min (max (next_power_of_two n) RESIZE_GRANULARITY) usize_MAX = max (next_power_of_two n) RESIZE_GRANULARITY"
    using next_power_of_two_le [OF assms(1)] by (simp add: RESIZE_GRANULARITY_def usize_MAX_def)
  then show ?thesis
    using assms next_power_of_two_le [OF assms(1)] next_power_of_two_ge [of n]
    by (auto simp: reserve_memory_def reserve_exact_def Let_def usize_MAX_def RESIZE_GRANULARITY_def)
qed

text \<open>Growing a region keeps every byte and the invariant. The required size is larger than what is resident
  and within the region.\<close>

definition grows :: "StandardMemory \<Rightarrow> StandardMemory \<Rightarrow> bool" where
  "grows m m' \<longleftrightarrow> memory_ok m' \<and> peek m' = peek m \<and> sm_rw_data_address m' = sm_rw_data_address m \<and>
    sm_stack_address_low m' = sm_stack_address_low m \<and> sm_stack_address_high m' = sm_stack_address_high m \<and>
    sm_aux_data_address m' = sm_aux_data_address m \<and> sm_stack_size m' = sm_stack_size m \<and>
    sm_rw_data_size m' = sm_rw_data_size m \<and> sm_accessible_aux_size m' = sm_accessible_aux_size m \<and>
    sm_max_allocation_size m' = sm_max_allocation_size m \<and> sm_guest_memory_limit m' = sm_guest_memory_limit m"

lemma grows_refl: "memory_ok m \<Longrightarrow> grows m m"
  by (simp add: grows_def)

lemma stack_size_bound: "stack_size_ok s \<Longrightarrow> n \<le> s \<Longrightarrow> 0 < n \<Longrightarrow> max (next_power_of_two n) RESIZE_GRANULARITY \<le> s"
proof -
  assume "stack_size_ok s" "n \<le> s" "0 < n"
  then obtain k where k: "12 \<le> k" "s = 2 ^ k" by (auto simp: stack_size_ok_def)
  have "(2 :: nat) ^ 12 \<le> 2 ^ k" using k(1) by (intro power_increasing) simp_all
  then show ?thesis using next_power_of_two_le [of n k] \<open>n \<le> s\<close> k(2) by (simp add: RESIZE_GRANULARITY_def)
qed

lemma peek_cong:
  assumes "sm_aux_data_address m' = sm_aux_data_address m" "sm_stack_address_low m' = sm_stack_address_low m"
    "sm_rw_data_address m' = sm_rw_data_address m" "sm_ro_data_address m' = sm_ro_data_address m"
    "sm_accessible_aux_size m' = sm_accessible_aux_size m" "sm_stack_size m' = sm_stack_size m"
    "sm_rw_data_size m' = sm_rw_data_size m" "sm_ro_data_size m' = sm_ro_data_size m"
    and "\<And>i. aux_byte m' i = aux_byte m i" "\<And>i. i < sm_stack_size m \<Longrightarrow> stack_byte m' i = stack_byte m i"
    and "\<And>i. rw_byte m' i = rw_byte m i" "\<And>i. ro_byte m' i = ro_byte m i"
  shows "peek m' = peek m"
  by (rule ext) (simp add: peek_def Let_def assms)

lemma stack_resize_grows:
  assumes "memory_ok m" "v_len (sm_stack m) < n" "n \<le> sm_stack_size m" "stack_resize n m = (ok, m')"
  shows "grows m m'" "ok \<Longrightarrow> n \<le> v_len (sm_stack m')" "no_limits m \<Longrightarrow> ok"
proof -
  obtain ok' v where r: "reserve_memory Vec_new n (sm_max_allocation_size m) (sm_guest_memory_limit m)
      (v_capacity (sm_rw_data m) + v_capacity (sm_aux m)) = (ok', v)" by fastforce
  have v: "v_bytes v = []" "ok' \<Longrightarrow> n \<le> v_capacity v" "v_capacity v \<le> max (next_power_of_two n) RESIZE_GRANULARITY"
    using reserve_memory_cases [OF r] by (simp_all add: Vec_new_def)
  note m = assms(1) [unfolded memory_ok_def regions_ok_def resident_ok_def]
  have "max (next_power_of_two n) RESIZE_GRANULARITY \<le> sm_stack_size m"
    using m assms(2,3) by (intro stack_size_bound) simp_all
  with v(3) have cap: "v_capacity v \<le> sm_stack_size m" by (rule order_trans)
  have ok: "ok = ok'" using assms(4) r by (auto simp: stack_resize_def Let_def split: bool.splits prod.splits)
  show "grows m m'"
  proof (cases ok')
    case True
    then have m': "m' = m\<lparr>sm_stack := v\<lparr>v_bytes := replicate (v_capacity v - v_len (sm_stack m)) 0 @ v_bytes (sm_stack m)\<rparr>,
        sm_stack_address_low_resident := sm_stack_address_high m -
          word_of_nat (v_capacity v - v_len (sm_stack m) + v_len (sm_stack m))\<rparr>"
      using assms(4) r by (simp add: stack_resize_def Let_def)
    have len: "v_len (sm_stack m) < v_capacity v" using v(2) [OF True] assms(2) by simp
    have "stack_byte m' i = stack_byte m i" if "i < sm_stack_size m" for i
      using that len cap by (auto simp: stack_byte_def m' nth_append Let_def)
    then have "peek m' = peek m" by (intro peek_cong) (simp_all add: m' aux_byte_def rw_byte_def ro_byte_def)
    moreover have "memory_ok m'"
      using m len cap by (simp add: memory_ok_def regions_ok_def resident_ok_def m')
    ultimately show ?thesis by (simp add: grows_def m')
  next
    case False
    then have "m' = m" using assms(4) r by (simp add: stack_resize_def Let_def)
    then show ?thesis using assms(1) by (simp add: grows_refl)
  qed
  show "n \<le> v_len (sm_stack m')" if ok
    using that assms(4) r v(2) ok by (auto simp: stack_resize_def Let_def)
  show ok if "no_limits m"
    using reserve_memory_unlimited [of n Vec_new "v_capacity (sm_rw_data m) + v_capacity (sm_aux m)"] that m assms(3) r ok
    by (auto simp: Vec_new_def no_limits_def)
qed

lemma new_length_bounds:
  assumes "n \<le> v_capacity v" "n \<le> s" "RESIZE_GRANULARITY dvd s"
  shows "n \<le> min (v_capacity v) (next_multiple_of n RESIZE_GRANULARITY)"
    "min (v_capacity v) (next_multiple_of n RESIZE_GRANULARITY) \<le> s"
  using assms next_multiple_of_ge [of n RESIZE_GRANULARITY] next_multiple_of_le [OF assms(2,3)] by simp_all

lemma capacity_bound:
  assumes "c \<le> max d (max (next_power_of_two n) RESIZE_GRANULARITY)" "d \<le> 2 ^ 33" "n \<le> 2 ^ 32"
  shows "c \<le> 2 ^ 33"
proof -
  have "max (next_power_of_two n) RESIZE_GRANULARITY \<le> 2 ^ 33"
    using next_power_of_two_le [OF assms(3)] by (simp add: RESIZE_GRANULARITY_def)
  then show ?thesis using assms(1,2) by (meson max.bounded_iff order_trans)
qed

definition filled :: "nat \<Rightarrow> bytes \<Rightarrow> ByteVec \<Rightarrow> ByteVec" where
  "filled new_length original v = resize new_length
    (if v_len v < length original
     then v\<lparr>v_bytes := v_bytes v @ drop (v_len v) (take (min new_length (length original)) original)\<rparr> else v)"

lemma filled_bytes:
  assumes "v_len v \<le> l"
  shows "v_len (filled l orig v) = l" "v_capacity (filled l orig v) = v_capacity v"
    "i < l \<Longrightarrow> v_bytes (filled l orig v) ! i = (if i < v_len v then v_bytes v ! i else byte_or_0 orig i)"
  using assms by (auto simp: filled_def resize_def byte_or_0_def nth_append min_def)

lemma rw_data_resize_grows:
  assumes "memory_ok m" "v_len (sm_rw_data m) < n" "n \<le> sm_rw_data_size m" "rw_data_resize n m = (ok, m')"
  shows "grows m m'" "ok \<Longrightarrow> n \<le> v_len (sm_rw_data m')" "no_limits m \<Longrightarrow> ok"
proof -
  obtain ok' v where r: "reserve_memory (sm_rw_data m) n (sm_max_allocation_size m) (sm_guest_memory_limit m)
      (v_capacity (sm_stack m) + v_capacity (sm_aux m)) = (ok', v)" by fastforce
  have m: "regions_ok m" "resident_ok m" "stack_size_ok (sm_stack_size m)" "RESIZE_GRANULARITY dvd sm_rw_data_size m"
    "RESIZE_GRANULARITY dvd sm_accessible_aux_size m" using assms(1) by (simp_all add: memory_ok_def)
  have fit: "v_len (sm_rw_data m) \<le> v_capacity (sm_rw_data m)" using m(2) by (simp add: resident_ok_def)
  note v = reserve_memory_cases [OF r fit]
  have n32: "n \<le> 2 ^ 32"
    using assms(3) m(1) unsigned_less [of "sm_stack_address_low m", where 'a = nat] by (simp add: regions_ok_def)
  have cap: "v_capacity v \<le> 2 ^ 33" using capacity_bound [OF v(4) _ n32] m(2) by (simp add: resident_ok_def)
  have ok: "ok = ok'" using assms(4) r by (auto simp: rw_data_resize_def Let_def split: bool.splits prod.splits)
  define l where "l = min (v_capacity v) (next_multiple_of n RESIZE_GRANULARITY)"
  have m': "m' = m\<lparr>sm_rw_data := (if ok' then filled l (sm_rw_data_original m) v else v)\<rparr>"
    using assms(4) r by (cases ok') (auto simp: rw_data_resize_def filled_def l_def Let_def)
  have grow: "n \<le> l" "l \<le> sm_rw_data_size m" if ok'
    using new_length_bounds [OF v(2) [OF that] assms(3) m(4)] by (simp_all add: l_def)
  show "grows m m'"
  proof (cases ok')
    case True
    have len: "v_len v \<le> l" using grow(1) [OF True] assms(2) v(1) by simp
    note bytes = filled_bytes [OF len, where orig = "sm_rw_data_original m"]
    have "rw_byte m' i = rw_byte m i" for i using True bytes v(1) len by (auto simp: rw_byte_def m')
    then have "peek m' = peek m" by (intro peek_cong) (simp_all add: m' aux_byte_def stack_byte_def ro_byte_def Let_def)
    moreover have "memory_ok m'"
      using m grow [OF True] True bytes cap len by (simp add: memory_ok_def regions_ok_def resident_ok_def m' l_def)
    ultimately show ?thesis by (simp add: grows_def m')
  next
    case False
    then show ?thesis using assms(1) v(3) by (simp add: m' grows_refl)
  qed
  show "n \<le> v_len (sm_rw_data m')" if ok
    using that grow assms(2) v(1) filled_bytes(1) [of v l] ok by (simp add: m')
  show ok if "no_limits m"
    using reserve_memory_unlimited [OF n32 fit, of "v_capacity (sm_stack m) + v_capacity (sm_aux m)"] that m(2) r ok
    by (auto simp: no_limits_def resident_ok_def)
qed

lemma aux_resize_grows:
  assumes "memory_ok m" "v_len (sm_aux m) < n" "n \<le> sm_accessible_aux_size m" "aux_resize n m = (ok, m')"
  shows "grows m m'" "ok \<Longrightarrow> n \<le> v_len (sm_aux m')" "no_limits m \<Longrightarrow> ok"
proof -
  obtain ok' v where r: "reserve_memory (sm_aux m) n (sm_max_allocation_size m) (sm_guest_memory_limit m)
      (v_capacity (sm_rw_data m) + v_capacity (sm_stack m)) = (ok', v)" by fastforce
  have m: "regions_ok m" "resident_ok m" "stack_size_ok (sm_stack_size m)" "RESIZE_GRANULARITY dvd sm_rw_data_size m"
    "RESIZE_GRANULARITY dvd sm_accessible_aux_size m" using assms(1) by (simp_all add: memory_ok_def)
  have fit: "v_len (sm_aux m) \<le> v_capacity (sm_aux m)" using m(2) by (simp add: resident_ok_def)
  note v = reserve_memory_cases [OF r fit]
  have n32: "n \<le> 2 ^ 32" using assms(3) m(1) by (simp add: regions_ok_def)
  have cap: "v_capacity v \<le> 2 ^ 33" using capacity_bound [OF v(4) _ n32] m(2) by (simp add: resident_ok_def)
  have ok: "ok = ok'" using assms(4) r by (auto simp: aux_resize_def Let_def split: bool.splits prod.splits)
  define l where "l = min (v_capacity v) (next_multiple_of n RESIZE_GRANULARITY)"
  have m': "m' = m\<lparr>sm_aux := (if ok' then filled l [] v else v)\<rparr>"
    using assms(4) r by (cases ok') (simp_all add: aux_resize_def filled_def l_def Let_def)
  have grow: "n \<le> l" "l \<le> sm_accessible_aux_size m" if ok'
    using new_length_bounds [OF v(2) [OF that] assms(3) m(5)] by (simp_all add: l_def)
  show "grows m m'"
  proof (cases ok')
    case True
    have len: "v_len v \<le> l" using grow(1) [OF True] assms(2) v(1) by simp
    note bytes = filled_bytes [OF len, where orig = "[]"]
    have "aux_byte m' i = aux_byte m i" for i
      using True bytes v(1) len by (auto simp: aux_byte_def m' byte_or_0_def)
    then have "peek m' = peek m" by (intro peek_cong) (simp_all add: m' rw_byte_def stack_byte_def ro_byte_def Let_def)
    moreover have "memory_ok m'"
      using m grow [OF True] True bytes cap len by (simp add: memory_ok_def regions_ok_def resident_ok_def m' l_def)
    ultimately show ?thesis by (simp add: grows_def m')
  next
    case False
    then show ?thesis using assms(1) v(3) by (simp add: m' grows_refl)
  qed
  show "n \<le> v_len (sm_aux m')" if ok
    using that grow assms(2) v(1) filled_bytes(1) [of v l] ok by (simp add: m')
  show ok if "no_limits m"
    using reserve_memory_unlimited [OF n32 fit, of "v_capacity (sm_rw_data m) + v_capacity (sm_stack m)"] that m(2) r ok
    by (auto simp: no_limits_def resident_ok_def)
qed

section \<open>Writes\<close>

definition updates :: "StandardMemory \<Rightarrow> nat \<Rightarrow> bytes \<Rightarrow> StandardMemory \<Rightarrow> bool" where
  "updates m a bs m' \<longleftrightarrow> (\<forall>i. peek m' i = (if a \<le> i \<and> i < a + length bs then Some (bs ! (i - a)) else peek m i))"

lemma put_slice_Some:
  assumes "put_slice xs start bs = Some ys"
  shows "length ys = length xs" "start + length bs \<le> length xs"
    "i < length xs \<Longrightarrow> ys ! i = (if start \<le> i \<and> i < start + length bs then bs ! (i - start) else xs ! i)"
  using assms by (auto simp: put_slice_def nth_append min_def split: if_splits)

text \<open>A write within one region: the bytes of the other regions stay, those of the region change as the list does.\<close>

lemma updates_region:
  assumes region: "\<And>i. b \<le> i \<Longrightarrow> i < l \<Longrightarrow> peek m i = (if i - b < s then Some (f (i - b)) else None)"
    "\<And>i. b \<le> i \<Longrightarrow> i < l \<Longrightarrow> peek m' i = (if i - b < s then Some (g (i - b)) else None)"
    and others: "\<And>i. \<not> (b \<le> i \<and> i < l) \<Longrightarrow> peek m' i = peek m i"
    and written: "\<And>i. i < s \<Longrightarrow> g i = (if start \<le> i \<and> i < start + length bs then bs ! (i - start) else f i)"
    and "start + length bs \<le> s" "b + s \<le> l"
  shows "updates m (b + start) bs m'"
  unfolding updates_def
proof
  fix i
  show "peek m' i = (if b + start \<le> i \<and> i < b + start + length bs then Some (bs ! (i - (b + start))) else peek m i)"
  proof (cases "b \<le> i \<and> i < l")
    case True
    then have "i - b - start = i - (b + start)" by simp
    then show ?thesis using True assms(5,6) by (auto simp: region written)
  next
    case False
    then show ?thesis using assms(5,6) by (auto simp: others)
  qed
qed

lemma peek_outside:
  "i < unat (sm_aux_data_address m) \<Longrightarrow> peek (m\<lparr>sm_aux := v\<rparr>) i = peek m i"
  "regions_ok m \<Longrightarrow> \<not> (unat (sm_stack_address_low m) \<le> i \<and> i < unat (sm_aux_data_address m)) \<Longrightarrow>
    peek (m\<lparr>sm_stack := v\<rparr>) i = peek m i"
  "regions_ok m \<Longrightarrow> \<not> (unat (sm_rw_data_address m) \<le> i \<and> i < unat (sm_stack_address_low m)) \<Longrightarrow>
    peek (m\<lparr>sm_rw_data := v\<rparr>) i = peek m i"
  by (auto simp: peek_def Let_def aux_byte_def stack_byte_def rw_byte_def ro_byte_def regions_ok_def)

lemma write_rw_updates:
  assumes "memory_ok m" "put_slice (v_bytes (sm_rw_data m)) start bs = Some ys"
  defines "m' \<equiv> m\<lparr>sm_rw_data := (sm_rw_data m)\<lparr>v_bytes := ys\<rparr>\<rparr>"
  shows "memory_ok m'" "updates m (unat (sm_rw_data_address m) + start) bs m'"
proof -
  note ys = put_slice_Some [OF assms(2)]
  show ok: "memory_ok m'" using assms(1) ys(1) by (simp add: m'_def memory_ok_def regions_ok_def resident_ok_def)
  have regions: "regions_ok m" "regions_ok m'" using assms(1) ok by (simp_all add: memory_ok_def)
  have "start + length bs \<le> sm_rw_data_size m" "unat (sm_rw_data_address m) + sm_rw_data_size m \<le> unat (sm_stack_address_low m)"
    using assms(1) ys(2) by (simp_all add: memory_ok_def resident_ok_def regions_ok_def)
  moreover have "rw_byte m' i = (if start \<le> i \<and> i < start + length bs then bs ! (i - start) else rw_byte m i)" for i
    using ys by (auto simp: m'_def rw_byte_def)
  moreover note peek_regions(3) [OF regions(1)] peek_regions(3) [OF regions(2)] peek_outside(3) [OF regions(1)]
  ultimately show "updates m (unat (sm_rw_data_address m) + start) bs m'"
    by (intro updates_region [where f = "rw_byte m" and g = "rw_byte m'" and s = "sm_rw_data_size m"]) (simp_all add: m'_def)
qed

lemma write_stack_updates:
  assumes "memory_ok m" "put_slice (v_bytes (sm_stack m)) start bs = Some ys"
  defines "m' \<equiv> m\<lparr>sm_stack := (sm_stack m)\<lparr>v_bytes := ys\<rparr>\<rparr>"
  shows "memory_ok m'"
    "updates m (unat (sm_stack_address_high m) - v_len (sm_stack m) + start) bs m'"
proof -
  note ys = put_slice_Some [OF assms(2)]
  define r where "r = sm_stack_size m - v_len (sm_stack m)"
  show ok: "memory_ok m'" using assms(1) ys(1) by (simp add: m'_def memory_ok_def regions_ok_def resident_ok_def)
  have regions: "regions_ok m" "regions_ok m'" using assms(1) ok by (simp_all add: memory_ok_def)
  have fit: "v_len (sm_stack m) \<le> sm_stack_size m" using assms(1) by (simp add: memory_ok_def resident_ok_def)
  have "r + start + length bs \<le> sm_stack_size m" using ys(2) fit by (simp add: r_def)
  moreover have "unat (sm_stack_address_low m) + sm_stack_size m \<le> unat (sm_aux_data_address m)"
    using regions(1) by (simp add: regions_ok_def)
  moreover have "stack_byte m' i =
      (if r + start \<le> i \<and> i < r + start + length bs then bs ! (i - (r + start)) else stack_byte m i)"
    if "i < sm_stack_size m" for i
  proof (cases "i < r")
    case False
    then obtain j where j: "i = r + j" by (metis le_iff_add not_less)
    then have "j < v_len (sm_stack m)" using that fit by (simp add: r_def)
    then show ?thesis using ys by (simp add: m'_def stack_byte_def r_def [symmetric] j)
  qed (simp add: m'_def stack_byte_def ys(1) r_def [symmetric])
  moreover note peek_regions(2) [OF regions(1)] peek_regions(2) [OF regions(2)] peek_outside(2) [OF regions(1)]
  ultimately have "updates m (unat (sm_stack_address_low m) + (r + start)) bs m'"
    by (intro updates_region [where f = "stack_byte m" and g = "stack_byte m'" and s = "sm_stack_size m"]) (simp_all add: m'_def)
  moreover have "unat (sm_stack_address_low m) + (r + start) = unat (sm_stack_address_high m) - v_len (sm_stack m) + start"
    using regions(1) fit unfolding r_def regions_ok_def by linarith
  ultimately show "updates m (unat (sm_stack_address_high m) - v_len (sm_stack m) + start) bs m'" by (simp only:)
qed

lemma write_aux_updates:
  assumes "memory_ok m" "put_slice (v_bytes (sm_aux m)) start bs = Some ys"
  defines "m' \<equiv> m\<lparr>sm_aux := (sm_aux m)\<lparr>v_bytes := ys\<rparr>\<rparr>"
  shows "memory_ok m'" "updates m (unat (sm_aux_data_address m) + start) bs m'"
proof -
  note ys = put_slice_Some [OF assms(2)]
  show ok: "memory_ok m'" using assms(1) ys(1) by (simp add: m'_def memory_ok_def regions_ok_def resident_ok_def)
  have regions: "regions_ok m" "regions_ok m'" using assms(1) ok by (simp_all add: memory_ok_def)
  define l where "l = unat (sm_aux_data_address m) + sm_accessible_aux_size m"
  have "peek m' i = peek m i" if "\<not> (unat (sm_aux_data_address m) \<le> i \<and> i < l)" for i
    using that peek_regions(1) [OF regions(1)] peek_regions(1) [OF regions(2)] peek_outside(1) [of i m]
    by (cases "unat (sm_aux_data_address m) \<le> i") (auto simp: m'_def l_def)
  moreover have "start + length bs \<le> sm_accessible_aux_size m"
    using assms(1) ys(2) by (simp add: memory_ok_def resident_ok_def)
  moreover have "aux_byte m' i = (if start \<le> i \<and> i < start + length bs then bs ! (i - start) else aux_byte m i)" for i
    using ys by (auto simp: m'_def aux_byte_def byte_or_0_def)
  moreover note peek_regions(1) [OF regions(1)] peek_regions(1) [OF regions(2)]
  ultimately show "updates m (unat (sm_aux_data_address m) + start) bs m'"
    by (intro updates_region [where f = "aux_byte m" and g = "aux_byte m'" and l = l and s = "sm_accessible_aux_size m"]) (simp_all add: m'_def l_def)
qed

lemma updates_grows: "grows m m' \<Longrightarrow> updates m' a bs m'' \<Longrightarrow> updates m a bs m''"
  by (simp add: grows_def updates_def)

lemma contents_length [simp]: "length (contents_bytes c) = contents_len c"
  by (cases c) simp_all

text \<open>A stack write is prepared: the resident part covers it, or it is out of range, or a limit is reached.\<close>

lemma prepare_stack_write_cases:
  assumes ok: "memory_ok m" and "unat (sm_stack_address_low m) \<le> address" "0 < n"
    and prepare: "prepare_stack_write address n m = (r, m')"
  shows "(address + n > unat (sm_stack_address_high m) \<and> r = PrepareOutOfRange \<and> m' = m) \<or>
    (address + n \<le> unat (sm_stack_address_high m) \<and> grows m m' \<and>
      (r = PrepareLimitReached \<and> \<not> no_limits m \<or>
       r = Prepared (address - (unat (sm_stack_address_high m) - v_len (sm_stack m')))
         (address - (unat (sm_stack_address_high m) - v_len (sm_stack m')) + n) \<and>
       unat (sm_stack_address_high m) - v_len (sm_stack m') \<le> address))"
proof (cases "address + n > unat (sm_stack_address_high m)")
  case True
  then show ?thesis using prepare by (simp add: prepare_stack_write_def Let_def)
next
  case False
  define hi where "hi = unat (sm_stack_address_high m)"
  have hi: "unat (sm_stack_address_low m) + sm_stack_size m = hi" "v_len (sm_stack m) \<le> hi"
    using ok by (simp_all add: hi_def memory_ok_def regions_ok_def resident_ok_def)
  have le: "address + n \<le> hi" using False by (simp add: hi_def)
  have prepared: "(let stack_lo = usize_sub hi (v_len (sm_stack m2)); offset = usize_sub address stack_lo
      in (Prepared offset (offset + n), m2)) =
      (Prepared (address - (hi - v_len (sm_stack m2))) (address - (hi - v_len (sm_stack m2)) + n), m2)"
    if "hi - address \<le> v_len (sm_stack m2)" "v_len (sm_stack m2) \<le> hi" for m2
    using that by (simp add: usize_sub_def Let_def)
  show ?thesis
  proof (cases "hi - address > v_len (sm_stack m)")
    case True
    have req: "hi - address \<le> sm_stack_size m" using hi(1) assms(2) by simp
    obtain b m2 where resize: "stack_resize (hi - address) m = (b, m2)" by fastforce
    note grown = stack_resize_grows [OF ok True req resize]
    have "v_len (sm_stack m2) \<le> hi"
      using grown(1) hi by (simp add: grows_def memory_ok_def resident_ok_def)
    then have ready: "b \<Longrightarrow> hi - v_len (sm_stack m2) \<le> address \<and> prepare_stack_write address n m =
        (Prepared (address - (hi - v_len (sm_stack m2))) (address - (hi - v_len (sm_stack m2)) + n), m2)"
      using False True req resize prepared [OF grown(2)] grown(2)
      by (simp add: prepare_stack_write_def hi_def [symmetric] Let_def)
    have limit: "\<not> b \<Longrightarrow> prepare_stack_write address n m = (PrepareLimitReached, m2)"
      using False True req resize by (simp add: prepare_stack_write_def hi_def [symmetric] Let_def)
    show ?thesis
    proof (cases b)
      case True
      then show ?thesis using ready prepare le grown(1) unfolding hi_def by simp
    next
      case False
      then show ?thesis using limit prepare le grown(1,3) unfolding hi_def by auto
    qed
  next
    case small: False
    then have "hi - v_len (sm_stack m) \<le> address \<and> prepare_stack_write address n m =
        (Prepared (address - (hi - v_len (sm_stack m))) (address - (hi - v_len (sm_stack m)) + n), m)"
      using False prepared [of m] hi(2) by (simp add: prepare_stack_write_def hi_def [symmetric] Let_def)
    then show ?thesis using prepare le grows_refl [OF ok] unfolding hi_def by simp
  qed
qed

text \<open>The outcome of a write of bytes: it succeeds on a range of the regions above the read-only data and changes exactly that
  range, fails for the limits alone with no byte changed, or names a byte outside of the writable regions.\<close>

definition writable :: "StandardMemory \<Rightarrow> nat \<Rightarrow> nat \<Rightarrow> bool" where
  "writable m a n \<longleftrightarrow> unat (sm_rw_data_address m) \<le> a \<and> peeks m a n \<noteq> None"

definition wrote :: "StandardMemory \<Rightarrow> u32 \<Rightarrow> bytes \<Rightarrow> (MemoryAccessError + unit) \<times> StandardMemory \<Rightarrow> bool" where
  "wrote m address bs = (\<lambda>(r, m'). memory_ok m' \<and>
    (case r of
       Inr _ \<Rightarrow> writable m (unat address) (length bs) \<and> updates m (unat address) bs m'
     | Inl MemoryLimitReached \<Rightarrow> writable m (unat address) (length bs) \<and> \<not> no_limits m \<and> peek m' = peek m
     | Inl (OutOfRangeAccess a n) \<Rightarrow>
         a = address \<and> n = length bs \<and> \<not> writable m (unat address) (length bs) \<and> m' = m))"

lemma writable_by_region:
  assumes "regions_ok m" "0 < n"
  shows "sm_aux_data_address m \<le> a \<Longrightarrow> writable m (unat a) n \<longleftrightarrow> unat (a - sm_aux_data_address m) + n \<le> sm_accessible_aux_size m"
    and "sm_stack_address_low m \<le> a \<Longrightarrow> \<not> sm_aux_data_address m \<le> a \<Longrightarrow>
      writable m (unat a) n \<longleftrightarrow> unat a + n \<le> unat (sm_stack_address_high m)"
    and "sm_rw_data_address m \<le> a \<Longrightarrow> \<not> sm_stack_address_low m \<le> a \<Longrightarrow>
      writable m (unat a) n \<longleftrightarrow> unat (a - sm_rw_data_address m) + n \<le> sm_rw_data_size m"
    and "\<not> sm_rw_data_address m \<le> a \<Longrightarrow> \<not> writable m (unat a) n"
  using assms(1) peeks_by_region [OF assms, of "unat a", unfolded Let_def]
  by (auto simp: writable_def unat_offset word_le_nat_alt regions_ok_def split: if_splits)

lemma put_slice_fits: "start + length bs \<le> length xs \<Longrightarrow> \<exists>ys. put_slice xs start bs = Some ys"
  by (simp add: put_slice_def)

lemma write_aux_wrote:
  assumes ok: "memory_ok m" and "0 < contents_len c" and region: "sm_aux_data_address m \<le> address"
  shows "\<exists>p. zero_or_write_memory address c m = Some p \<and> wrote m address (contents_bytes c) p"
proof -
  define offset where "offset = unat (address - sm_aux_data_address m)"
  have address: "unat address = unat (sm_aux_data_address m) + offset"
    using region by (simp add: offset_def unat_offset word_le_nat_alt)
  have resident: "v_len (sm_aux m) \<le> sm_accessible_aux_size m" using ok by (simp add: memory_ok_def resident_ok_def)
  note writable = writable_by_region(1) [OF _ assms(2) region, folded offset_def]
  have regions: "regions_ok m" using ok by (simp add: memory_ok_def)
  show ?thesis
  proof (cases "put_slice (v_bytes (sm_aux m)) offset (contents_bytes c)")
    case (Some ys)
    then show ?thesis
      using write_aux_updates [OF ok Some] put_slice_Some(2) [OF Some] resident region writable [OF regions] address
      by (simp add: zero_or_write_memory_def offset_def [symmetric] wrote_def Let_def)
  next
    case None
    show ?thesis
    proof (cases "offset + contents_len c \<le> sm_accessible_aux_size m")
      case True
      obtain b m2 where resize: "aux_resize (offset + contents_len c) m = (b, m2)" by fastforce
      have "v_len (sm_aux m) < offset + contents_len c"
        using None put_slice_fits [of offset "contents_bytes c" "v_bytes (sm_aux m)"] by (cases c) force+
      note grown = aux_resize_grows [OF ok this True resize]
      show ?thesis
      proof (cases b)
        case b: True
        obtain ys where ys: "put_slice (v_bytes (sm_aux m2)) offset (contents_bytes c) = Some ys"
          using put_slice_fits [of offset "contents_bytes c" "v_bytes (sm_aux m2)"] grown(2) [OF b] by auto
        have "memory_ok m2" "sm_aux_data_address m2 = sm_aux_data_address m" using grown(1) by (simp_all add: grows_def)
        then show ?thesis
          using write_aux_updates [OF _ ys] updates_grows [OF grown(1)] resize b None ys True region writable [OF regions] address
          by (simp add: zero_or_write_memory_def offset_def [symmetric] wrote_def Let_def)
      next
        case b: False
        then show ?thesis using grown resize None True region writable [OF regions]
          by (auto simp: zero_or_write_memory_def offset_def [symmetric] wrote_def Let_def grows_def)
      qed
    next
      case False
      then show ?thesis using None region writable [OF regions] ok
        by (simp add: zero_or_write_memory_def offset_def [symmetric] wrote_def Let_def)
    qed
  qed
qed

lemma write_rw_wrote:
  assumes ok: "memory_ok m" and "0 < contents_len c" and region: "sm_rw_data_address m \<le> address" "\<not> sm_stack_address_low m \<le> address"
  shows "\<exists>p. zero_or_write_memory address c m = Some p \<and> wrote m address (contents_bytes c) p"
proof -
  define offset where "offset = unat (address - sm_rw_data_address m)"
  have address: "unat address = unat (sm_rw_data_address m) + offset"
    using region by (simp add: offset_def unat_offset word_le_nat_alt)
  have resident: "v_len (sm_rw_data m) \<le> sm_rw_data_size m" using ok by (simp add: memory_ok_def resident_ok_def)
  note writable = writable_by_region(3) [OF _ assms(2) region, folded offset_def]
  have regions: "regions_ok m" using ok by (simp add: memory_ok_def)
  then have below: "\<not> sm_aux_data_address m \<le> address" using region(2) by (auto simp: regions_ok_def word_le_nat_alt)
  show ?thesis
  proof (cases "put_slice (v_bytes (sm_rw_data m)) offset (contents_bytes c)")
    case (Some ys)
    then show ?thesis
      using write_rw_updates [OF ok Some] put_slice_Some(2) [OF Some] resident region below writable [OF regions] address
      by (simp add: zero_or_write_memory_def offset_def [symmetric] wrote_def Let_def)
  next
    case None
    show ?thesis
    proof (cases "offset + contents_len c \<le> sm_rw_data_size m")
      case True
      obtain b m2 where resize: "rw_data_resize (offset + contents_len c) m = (b, m2)" by fastforce
      have "v_len (sm_rw_data m) < offset + contents_len c"
        using None put_slice_fits [of offset "contents_bytes c" "v_bytes (sm_rw_data m)"] by (cases c) force+
      note grown = rw_data_resize_grows [OF ok this True resize]
      show ?thesis
      proof (cases b)
        case b: True
        obtain ys where ys: "put_slice (v_bytes (sm_rw_data m2)) offset (contents_bytes c) = Some ys"
          using put_slice_fits [of offset "contents_bytes c" "v_bytes (sm_rw_data m2)"] grown(2) [OF b] by auto
        have "memory_ok m2" "sm_rw_data_address m2 = sm_rw_data_address m" using grown(1) by (simp_all add: grows_def)
        then show ?thesis
          using write_rw_updates [OF _ ys] updates_grows [OF grown(1)] resize b None ys True region below writable [OF regions] address
          by (simp add: zero_or_write_memory_def offset_def [symmetric] wrote_def Let_def)
      next
        case b: False
        then show ?thesis using grown resize None True region below writable [OF regions]
          by (auto simp: zero_or_write_memory_def offset_def [symmetric] wrote_def Let_def grows_def)
      qed
    next
      case False
      then show ?thesis using None region below writable [OF regions] ok
        by (simp add: zero_or_write_memory_def offset_def [symmetric] wrote_def Let_def)
    qed
  qed
qed

lemma write_stack_wrote:
  assumes ok: "memory_ok m" and "0 < contents_len c"
    and region: "sm_stack_address_low m \<le> address" "\<not> sm_aux_data_address m \<le> address"
  shows "\<exists>p. zero_or_write_memory address c m = Some p \<and> wrote m address (contents_bytes c) p"
proof -
  define hi where "hi = unat (sm_stack_address_high m)"
  have regions: "regions_ok m" and low: "unat (sm_stack_address_low m) \<le> unat address"
    using ok region by (simp_all add: memory_ok_def word_le_nat_alt)
  note writable = writable_by_region(2) [OF regions assms(2) region, folded hi_def]
  obtain r m2 where prepare: "prepare_stack_write (unat address) (contents_len c) m = (r, m2)" by fastforce
  consider (out) "unat address + contents_len c > hi" "r = PrepareOutOfRange" "m2 = m"
    | (limit) "unat address + contents_len c \<le> hi" "grows m m2" "r = PrepareLimitReached" "\<not> no_limits m"
    | (ready) start where "unat address + contents_len c \<le> hi" "grows m m2" "hi - v_len (sm_stack m2) + start = unat address"
      "r = Prepared start (start + contents_len c)"
    using prepare_stack_write_cases [OF ok low assms(2) prepare] unfolding hi_def
    by (elim disjE conjE) simp_all
  then show ?thesis
  proof cases
    case out
    then show ?thesis using prepare region writable ok by (simp add: zero_or_write_memory_def wrote_def Let_def)
  next
    case limit
    then show ?thesis using prepare region writable by (simp add: zero_or_write_memory_def wrote_def Let_def grows_def)
  next
    case ready
    have ok2: "memory_ok m2" "unat (sm_stack_address_high m2) = hi" using ready(2) by (simp_all add: grows_def hi_def)
    then have "v_len (sm_stack m2) \<le> hi" by (auto simp: memory_ok_def resident_ok_def regions_ok_def)
    then have "start + contents_len c \<le> v_len (sm_stack m2)" using ready(1,3) by linarith
    then obtain ys where ys: "put_slice (v_bytes (sm_stack m2)) start (contents_bytes c) = Some ys"
      using put_slice_fits [of start "contents_bytes c" "v_bytes (sm_stack m2)"] by auto
    show ?thesis
      using write_stack_updates [OF ok2(1) ys] updates_grows [OF ready(2)] ready ys prepare region writable ok2(2)
      by (simp add: zero_or_write_memory_def wrote_def Let_def)
  qed
qed

lemma zero_or_write_memory_wrote:
  assumes "memory_ok m" "0 < contents_len c"
  shows "\<exists>p. zero_or_write_memory address c m = Some p \<and> wrote m address (contents_bytes c) p"
proof -
  have gap: "sm_aux_data_address m \<le> address \<Longrightarrow> sm_stack_address_low m \<le> address"
    "sm_stack_address_low m \<le> address \<Longrightarrow> sm_rw_data_address m \<le> address"
    using assms(1) by (simp_all add: memory_ok_def regions_ok_def word_le_nat_alt)
  consider "sm_aux_data_address m \<le> address"
    | "sm_stack_address_low m \<le> address" "\<not> sm_aux_data_address m \<le> address"
    | "sm_rw_data_address m \<le> address" "\<not> sm_stack_address_low m \<le> address"
    | "\<not> sm_rw_data_address m \<le> address" by blast
  then show ?thesis
  proof cases
    case 4
    then show ?thesis using gap assms writable_by_region(4) [OF _ assms(2) 4]
      by (auto simp: zero_or_write_memory_def wrote_def Let_def memory_ok_def)
  qed (use assms write_aux_wrote write_stack_wrote write_rw_wrote in blast)+
qed

end
