(* ===== verification/Guest_Memory.thy ===== *)
theory Guest_Memory
  imports Memory_Spec
begin

text \<open>
  Loads and stores of a guest on \<open>StandardMemory\<close> (\<open>crates/polkavm/src/interpreter.rs\<close>): the types of
  \<open>LoadTy\<close> and \<open>StoreTy\<close>, the fast path that looks at the resident bytes alone, and the slow paths for what is not
  resident. The outcome of an access is a value; the interpreter turns it into the next handler or an interrupt. The
  lemmas show that the fast and the slow paths together are loads and stores of the abstract memory.
\<close>

section \<open>The types of loads and stores\<close>

datatype LoadTy = L_u8 | L_i8 | L_u16 | L_i16 | L_u32 | L_i32 | L_u64

datatype StoreTy = S_u8 | S_u16 | S_u32 | S_u64

primrec load_size :: "LoadTy \<Rightarrow> nat" where
  "load_size L_u8 = 1" | "load_size L_i8 = 1" | "load_size L_u16 = 2" | "load_size L_i16 = 2"
| "load_size L_u32 = 4" | "load_size L_i32 = 4" | "load_size L_u64 = 8"

primrec store_size :: "StoreTy \<Rightarrow> nat" where
  "store_size S_u8 = 1" | "store_size S_u16 = 2" | "store_size S_u32 = 4" | "store_size S_u64 = 8"

primrec from_slice :: "LoadTy \<Rightarrow> bytes \<Rightarrow> u64" where
  "from_slice L_u8 xs = ucast (xs ! 0)"
| "from_slice L_i8 xs = scast (xs ! 0)"
| "from_slice L_u16 xs = ucast (from_le_bytes [xs ! 0, xs ! 1] :: u16)"
| "from_slice L_i16 xs = scast (from_le_bytes [xs ! 0, xs ! 1] :: u16)"
| "from_slice L_u32 xs = ucast (from_le_bytes [xs ! 0, xs ! 1, xs ! 2, xs ! 3] :: u32)"
| "from_slice L_i32 xs = scast (from_le_bytes [xs ! 0, xs ! 1, xs ! 2, xs ! 3] :: u32)"
| "from_slice L_u64 xs = from_le_bytes [xs ! 0, xs ! 1, xs ! 2, xs ! 3, xs ! 4, xs ! 5, xs ! 6, xs ! 7]"

primrec into_bytes :: "StoreTy \<Rightarrow> u64 \<Rightarrow> bytes" where
  "into_bytes S_u8 value = le_bytes 1 (ucast value :: u8)"
| "into_bytes S_u16 value = le_bytes 2 (ucast value :: u16)"
| "into_bytes S_u32 value = le_bytes 4 (ucast value :: u32)"
| "into_bytes S_u64 value = le_bytes 8 value"

section \<open>Loads\<close>

datatype LoadOutcome = LoadOk u64 | LoadTrap | LoadSegfault u32 bool

text \<open>A slow load copies the resident bytes into a buffer of zeros, as \<open>read_memory_into\<close> does into the buffer of the host.\<close>

definition load_rw_data_slow :: "LoadTy \<Rightarrow> nat \<Rightarrow> StandardMemory \<Rightarrow> LoadOutcome option" where
  "load_rw_data_slow ty offset m =
    (if offset + load_size ty > sm_rw_data_size m then Some LoadTrap
     else map_option (\<lambda>buffer. LoadOk (from_slice ty buffer)) (read_rw_data offset (load_size ty) m))"

definition load_ro_data_slow :: "LoadTy \<Rightarrow> nat \<Rightarrow> StandardMemory \<Rightarrow> LoadOutcome option" where
  "load_ro_data_slow ty offset m =
    (if offset + load_size ty > sm_ro_data_size m then Some LoadTrap
     else map_option (\<lambda>buffer. LoadOk (from_slice ty buffer)) (read_ro_data offset (load_size ty) m))"

definition load_stack_slow :: "LoadTy \<Rightarrow> nat \<Rightarrow> StandardMemory \<Rightarrow> LoadOutcome option" where
  "load_stack_slow ty offset m =
    (if offset + load_size ty > sm_stack_size m then Some LoadTrap
     else map_option (\<lambda>buffer. LoadOk (from_slice ty buffer)) (read_stack offset (load_size ty) m))"

definition load_aux_slow :: "LoadTy \<Rightarrow> nat \<Rightarrow> StandardMemory \<Rightarrow> LoadOutcome option" where
  "load_aux_slow ty offset m =
    (if offset + load_size ty > sm_accessible_aux_size m then Some LoadTrap
     else map_option (\<lambda>buffer. LoadOk (from_slice ty buffer)) (read_aux offset (load_size ty) m))"

definition load_impl_slow :: "LoadTy \<Rightarrow> u32 \<Rightarrow> StandardMemory \<Rightarrow> LoadOutcome option" where
  "load_impl_slow ty address m =
    (if address \<ge> sm_aux_data_address m then load_aux_slow ty (unat (address - sm_aux_data_address m)) m
     else if address \<ge> sm_stack_address_low m then load_stack_slow ty (unat (address - sm_stack_address_low m)) m
     else if address \<ge> sm_rw_data_address m then load_rw_data_slow ty (unat (address - sm_rw_data_address m)) m
     else if address \<ge> sm_ro_data_address m then load_ro_data_slow ty (unat (address - sm_ro_data_address m)) m
     else Some LoadTrap)"

definition std_load_impl :: "LoadTy \<Rightarrow> u32 \<Rightarrow> StandardMemory \<Rightarrow> LoadOutcome option" where
  "std_load_impl ty address m =
    (let load = (\<lambda>base xs.
           let offset = unat (address - base) in
           case slice_get xs offset (offset + load_size ty) of
             Some bs \<Rightarrow> Some (LoadOk (from_slice ty bs))
           | None \<Rightarrow> load_impl_slow ty address m)
     in if address \<ge> sm_aux_data_address m then load (sm_aux_data_address m) (v_bytes (sm_aux m))
        else if address \<ge> sm_stack_address_low_resident m then load (sm_stack_address_low_resident m) (v_bytes (sm_stack m))
        else if address \<ge> sm_rw_data_address m then load (sm_rw_data_address m) (v_bytes (sm_rw_data m))
        else if address \<ge> sm_ro_data_address m then load (sm_ro_data_address m) (sm_ro_data m)
        else load_impl_slow ty address m)"

section \<open>Stores\<close>

datatype StoreOutcome = StoreOk | StoreTrap | StoreTrapDueToMemoryLimit | StoreSegfault u32 bool

definition store_impl_slow :: "StoreTy \<Rightarrow> u32 \<Rightarrow> u64 \<Rightarrow> StandardMemory \<Rightarrow> StoreOutcome \<times> StandardMemory" where
  "store_impl_slow ty address value m =
    (if address \<ge> sm_stack_address_low m then
       (case prepare_stack_write (unat address) (store_size ty) m of
          (Prepared start _, m) \<Rightarrow>
            (case put_slice (v_bytes (sm_stack m)) start (into_bytes ty value) of
               Some bs \<Rightarrow> (StoreOk, m\<lparr>sm_stack := (sm_stack m)\<lparr>v_bytes := bs\<rparr>\<rparr>)
             | None \<Rightarrow> (StoreTrap, m))
        | (PrepareOutOfRange, m) \<Rightarrow> (StoreTrap, m)
        | (PrepareLimitReached, m) \<Rightarrow> (StoreTrapDueToMemoryLimit, m))
     else if address \<ge> sm_rw_data_address m then
       (let offset = unat (address - sm_rw_data_address m); offset_end = offset + store_size ty in
        case put_slice (v_bytes (sm_rw_data m)) offset (into_bytes ty value) of
          Some bs \<Rightarrow> (StoreOk, m\<lparr>sm_rw_data := (sm_rw_data m)\<lparr>v_bytes := bs\<rparr>\<rparr>)
        | None \<Rightarrow>
            if offset_end > sm_rw_data_size m then (StoreTrap, m)
            else
              (case rw_data_resize offset_end m of
                 (False, m) \<Rightarrow> (StoreTrapDueToMemoryLimit, m)
               | (True, m) \<Rightarrow>
                   (case put_slice (v_bytes (sm_rw_data m)) offset (into_bytes ty value) of
                      Some bs \<Rightarrow> (StoreOk, m\<lparr>sm_rw_data := (sm_rw_data m)\<lparr>v_bytes := bs\<rparr>\<rparr>)
                    | None \<Rightarrow> (StoreTrap, m))))
     else (StoreTrap, m))"

definition std_store_impl :: "StoreTy \<Rightarrow> u32 \<Rightarrow> u64 \<Rightarrow> StandardMemory \<Rightarrow> StoreOutcome \<times> StandardMemory" where
  "std_store_impl ty address value m =
    (if address \<ge> sm_stack_address_low_resident m then
       (case put_slice (v_bytes (sm_stack m)) (unat (address - sm_stack_address_low_resident m)) (into_bytes ty value) of
          Some bs \<Rightarrow> (StoreOk, m\<lparr>sm_stack := (sm_stack m)\<lparr>v_bytes := bs\<rparr>\<rparr>)
        | None \<Rightarrow> store_impl_slow ty address value m)
     else if address \<ge> sm_rw_data_address m then
       (case put_slice (v_bytes (sm_rw_data m)) (unat (address - sm_rw_data_address m)) (into_bytes ty value) of
          Some bs \<Rightarrow> (StoreOk, m\<lparr>sm_rw_data := (sm_rw_data m)\<lparr>v_bytes := bs\<rparr>\<rparr>)
        | None \<Rightarrow> store_impl_slow ty address value m)
     else store_impl_slow ty address value m)"

section \<open>Sizes and round trips\<close>

lemma load_size_pos [simp]: "0 < load_size ty"
  by (cases ty) simp_all

lemma store_size_pos [simp]: "0 < store_size ty"
  by (cases ty) simp_all

lemma length_into_bytes [simp]: "length (into_bytes ty value) = store_size ty"
  by (cases ty) simp_all

text \<open>The unsigned load of the width of a store reads back the low bytes of the value that was stored.\<close>

primrec load_of :: "StoreTy \<Rightarrow> LoadTy" where
  "load_of S_u8 = L_u8" | "load_of S_u16 = L_u16" | "load_of S_u32 = L_u32" | "load_of S_u64 = L_u64"

lemma load_size_load_of [simp]: "load_size (load_of ty) = store_size ty"
  by (cases ty) simp_all

lemma le_bytes_explicit:
  "le_bytes 1 w = [ucast w]" "le_bytes 2 w = [ucast w, ucast (drop_bit 8 w)]"
  "le_bytes 4 w = [ucast w, ucast (drop_bit 8 w), ucast (drop_bit 16 w), ucast (drop_bit 24 w)]"
  "le_bytes 8 w = [ucast w, ucast (drop_bit 8 w), ucast (drop_bit 16 w), ucast (drop_bit 24 w),
    ucast (drop_bit 32 w), ucast (drop_bit 40 w), ucast (drop_bit 48 w), ucast (drop_bit 56 w)]"
  by (simp_all add: le_bytes_def upt_rec numeral_eq_Suc)

lemma from_slice_le_bytes:
  "from_slice (load_of ty) (le_bytes (store_size ty) w) =
    (case ty of S_u8 \<Rightarrow> ucast (from_le_bytes (le_bytes 1 w) :: u8) | S_u16 \<Rightarrow> ucast (from_le_bytes (le_bytes 2 w) :: u16)
     | S_u32 \<Rightarrow> ucast (from_le_bytes (le_bytes 4 w) :: u32) | S_u64 \<Rightarrow> from_le_bytes (le_bytes 8 w))"
  by (cases ty) (simp_all add: le_bytes_explicit del: One_nat_def)

lemma from_slice_into_bytes: "from_slice (load_of ty) (into_bytes ty value) = take_bit (8 * store_size ty) value"
proof -
  have cut: "ucast (ucast v :: 'b::len word) = take_bit LENGTH('b) v" for v :: u64
    by (rule bit_word_eqI) (simp add: bit_unsigned_iff bit_take_bit_iff)
  show ?thesis
    using from_slice_le_bytes [of ty "ucast value :: u8"] from_slice_le_bytes [of ty "ucast value :: u16"]
      from_slice_le_bytes [of ty "ucast value :: u32"] from_slice_le_bytes [of ty "value"]
    by (cases ty) (simp_all add: from_le_bytes_le_bytes cut take_bit_word_self del: One_nat_def)
qed

section \<open>Loads read the abstract memory\<close>

lemma load_impl_slow_read:
  "load_impl_slow ty address m =
    map_option (\<lambda>r. case r of Inl _ \<Rightarrow> LoadTrap | Inr buffer \<Rightarrow> LoadOk (from_slice ty buffer)) (read_memory_into address (load_size ty) m)"
  by (auto simp: load_impl_slow_def read_memory_into_def Let_def load_aux_slow_def load_stack_slow_def load_rw_data_slow_def
      load_ro_data_slow_def option.map_comp comp_def)

definition loaded :: "LoadTy \<Rightarrow> bytes option \<Rightarrow> LoadOutcome" where
  "loaded ty bs = (case bs of Some buffer \<Rightarrow> LoadOk (from_slice ty buffer) | None \<Rightarrow> LoadTrap)"

lemma load_impl_slow_loaded:
  assumes "memory_ok m"
  shows "load_impl_slow ty address m = Some (loaded ty (peeks m (unat address) (load_size ty)))"
  using assms read_memory_into_peeks [of m "load_size ty" address]
  by (simp add: load_impl_slow_read memory_ok_def resident_ok_def loaded_def split: option.split)

lemma slice_get_Some:
  assumes "slice_get xs a (a + n) = Some ys"
  shows "a + n \<le> length xs" "ys = map ((!) xs) [a..<a + n]"
  using assms slice_get_eq_map [of a "a + n" xs] by (auto simp: slice_get_def split: if_splits)

lemma unat_low_resident:
  assumes "memory_ok m"
  shows "unat (sm_stack_address_low_resident m) = unat (sm_stack_address_high m) - v_len (sm_stack m)"
    "v_len (sm_stack m) \<le> sm_stack_size m" "unat (sm_stack_address_low m) + sm_stack_size m = unat (sm_stack_address_high m)"
proof -
  show fit: "v_len (sm_stack m) \<le> sm_stack_size m" "unat (sm_stack_address_low m) + sm_stack_size m = unat (sm_stack_address_high m)"
    using assms by (simp_all add: memory_ok_def resident_ok_def regions_ok_def)
  have high: "unat (sm_stack_address_high m) < 2 ^ 32" using unsigned_less [of "sm_stack_address_high m", where 'a = nat] by simp
  then have "unat (word_of_nat (v_len (sm_stack m)) :: u32) = v_len (sm_stack m)"
    using fit by (simp add: unat_of_nat)
  then show "unat (sm_stack_address_low_resident m) = unat (sm_stack_address_high m) - v_len (sm_stack m)"
    using assms fit by (simp add: memory_ok_def resident_ok_def unat_sub word_le_nat_alt)
qed

text \<open>The resident bytes that the fast path looks at are bytes of the abstract memory.\<close>

lemma peeks_resident:
  assumes ok: "memory_ok m" and n: "0 < n"
  shows "unat (sm_aux_data_address m) \<le> a \<Longrightarrow> slice_get (v_bytes (sm_aux m)) (a - unat (sm_aux_data_address m)) (a - unat (sm_aux_data_address m) + n) = Some bs \<Longrightarrow>
      peeks m a n = Some bs"
    and "unat (sm_stack_address_low_resident m) \<le> a \<Longrightarrow>
      slice_get (v_bytes (sm_stack m)) (a - unat (sm_stack_address_low_resident m)) (a - unat (sm_stack_address_low_resident m) + n) = Some bs \<Longrightarrow>
      peeks m a n = Some bs"
    and "unat (sm_rw_data_address m) \<le> a \<Longrightarrow> slice_get (v_bytes (sm_rw_data m)) (a - unat (sm_rw_data_address m)) (a - unat (sm_rw_data_address m) + n) = Some bs \<Longrightarrow>
      peeks m a n = Some bs"
    and "unat (sm_ro_data_address m) \<le> a \<Longrightarrow> slice_get (sm_ro_data m) (a - unat (sm_ro_data_address m)) (a - unat (sm_ro_data_address m) + n) = Some bs \<Longrightarrow>
      peeks m a n = Some bs"
proof -
  have regions: "regions_ok m" and resident: "resident_ok m" using ok by (simp_all add: memory_ok_def)
  note peeks = peeks_by_region [OF regions n, of a, unfolded Let_def]
  note gaps = regions [unfolded regions_ok_def] resident [unfolded resident_ok_def]
  show "peeks m a n = Some bs"
    if "unat (sm_aux_data_address m) \<le> a"
      "slice_get (v_bytes (sm_aux m)) (a - unat (sm_aux_data_address m)) (a - unat (sm_aux_data_address m) + n) = Some bs"
    using slice_get_Some [OF that(2)] that(1) gaps by (simp add: peeks(1) aux_byte_def byte_or_0_def)
  show "peeks m a n = Some bs"
    if "unat (sm_rw_data_address m) \<le> a"
      "slice_get (v_bytes (sm_rw_data m)) (a - unat (sm_rw_data_address m)) (a - unat (sm_rw_data_address m) + n) = Some bs"
  proof -
    note bs = slice_get_Some [OF that(2)]
    have "a < unat (sm_stack_address_low m)" using bs(1) gaps n by linarith
    then show ?thesis using bs that(1) gaps by (simp add: peeks(3) rw_byte_def)
  qed
  show "peeks m a n = Some bs"
    if "unat (sm_ro_data_address m) \<le> a"
      "slice_get (sm_ro_data m) (a - unat (sm_ro_data_address m)) (a - unat (sm_ro_data_address m) + n) = Some bs"
  proof -
    note bs = slice_get_Some [OF that(2)]
    have "a < unat (sm_rw_data_address m)" using bs(1) gaps n by linarith
    then show ?thesis using bs that(1) gaps by (simp add: peeks(4) ro_byte_def byte_or_0_def)
  qed
  define r where "r = sm_stack_size m - v_len (sm_stack m)"
  note low = unat_low_resident [OF ok]
  have r: "unat (sm_stack_address_low_resident m) = unat (sm_stack_address_low m) + r" using low unfolding r_def by linarith
  show "peeks m a n = Some bs"
    if "unat (sm_stack_address_low_resident m) \<le> a"
      "slice_get (v_bytes (sm_stack m)) (a - unat (sm_stack_address_low_resident m)) (a - unat (sm_stack_address_low_resident m) + n) = Some bs"
  proof -
    define offset where "offset = a - unat (sm_stack_address_low_resident m)"
    have a: "a - unat (sm_stack_address_low m) = r + offset" using that(1) r unfolding offset_def by linarith
    have fits: "offset + n \<le> v_len (sm_stack m)" and bs: "bs = map ((!) (v_bytes (sm_stack m))) [offset..<offset + n]"
      using slice_get_Some [OF that(2)] by (simp_all add: offset_def)
    have "r + offset + n \<le> sm_stack_size m" using fits low(2) by (simp add: r_def)
    moreover have "map (stack_byte m) [r + offset..<r + offset + n] = bs"
      by (rule nth_equalityI) (simp_all add: bs stack_byte_def r_def [symmetric])
    moreover have "a < unat (sm_aux_data_address m)"
      using fits n low gaps that(1) unfolding offset_def by linarith
    ultimately show ?thesis using that(1) r by (simp add: peeks(2) a)
  qed
qed

lemma std_load_impl_loaded:
  assumes "memory_ok m"
  shows "std_load_impl ty address m = Some (loaded ty (peeks m (unat address) (load_size ty)))"
proof -
  have hit: "(case slice_get xs (unat (address - b)) (unat (address - b) + load_size ty) of
        Some bs \<Rightarrow> Some (LoadOk (from_slice ty bs)) | None \<Rightarrow> load_impl_slow ty address m) =
      Some (loaded ty (peeks m (unat address) (load_size ty)))"
    if "b \<le> address" "\<And>bs. slice_get xs (unat address - unat b) (unat address - unat b + load_size ty) = Some bs \<Longrightarrow>
        peeks m (unat address) (load_size ty) = Some bs" for xs b
    using that by (auto simp: load_impl_slow_loaded [OF assms] unat_offset loaded_def split: option.split)
  note resident = peeks_resident [OF assms load_size_pos, of "unat address", folded word_le_nat_alt]
  consider (aux) "sm_aux_data_address m \<le> address"
    | (stack) "sm_stack_address_low_resident m \<le> address" "\<not> sm_aux_data_address m \<le> address"
    | (rw) "sm_rw_data_address m \<le> address" "\<not> sm_stack_address_low_resident m \<le> address" "\<not> sm_aux_data_address m \<le> address"
    | (ro) "sm_ro_data_address m \<le> address" "\<not> sm_rw_data_address m \<le> address" "\<not> sm_stack_address_low_resident m \<le> address"
        "\<not> sm_aux_data_address m \<le> address"
    | (none) "\<not> sm_ro_data_address m \<le> address" "\<not> sm_rw_data_address m \<le> address" "\<not> sm_stack_address_low_resident m \<le> address"
        "\<not> sm_aux_data_address m \<le> address"
    by blast
  then show ?thesis
  proof cases
    case aux
    then show ?thesis using hit [OF aux(1) resident(1) [OF aux(1)]] by (simp add: std_load_impl_def Let_def)
  next
    case stack
    then show ?thesis using hit [OF stack(1) resident(2) [OF stack(1)]] by (simp add: std_load_impl_def Let_def)
  next
    case rw
    then show ?thesis using hit [OF rw(1) resident(3) [OF rw(1)]] by (simp add: std_load_impl_def Let_def)
  next
    case ro
    then show ?thesis using hit [OF ro(1) resident(4) [OF ro(1)]] by (simp add: std_load_impl_def Let_def)
  next
    case none
    then show ?thesis using load_impl_slow_loaded [OF assms] by (simp add: std_load_impl_def Let_def)
  qed
qed

section \<open>Stores update the abstract memory\<close>

text \<open>A guest writes the data and the stack, never the read-only and the auxiliary data.\<close>

definition guest_writable :: "StandardMemory \<Rightarrow> u32 \<Rightarrow> nat \<Rightarrow> bool" where
  "guest_writable m address n \<longleftrightarrow> writable m (unat address) n \<and> \<not> sm_aux_data_address m \<le> address"

definition stored :: "StandardMemory \<Rightarrow> u32 \<Rightarrow> bytes \<Rightarrow> StoreOutcome \<times> StandardMemory \<Rightarrow> bool" where
  "stored m address bs = (\<lambda>(r, m'). memory_ok m' \<and>
    (case r of
       StoreOk \<Rightarrow> guest_writable m address (length bs) \<and> updates m (unat address) bs m'
     | StoreTrap \<Rightarrow> \<not> guest_writable m address (length bs) \<and> m' = m
     | StoreTrapDueToMemoryLimit \<Rightarrow> guest_writable m address (length bs) \<and> \<not> no_limits m \<and> peek m' = peek m
     | StoreSegfault _ _ \<Rightarrow> False))"

definition store_outcome :: "MemoryAccessError + unit \<Rightarrow> StoreOutcome" where
  "store_outcome r = (case r of
     Inr _ \<Rightarrow> StoreOk | Inl MemoryLimitReached \<Rightarrow> StoreTrapDueToMemoryLimit | Inl (OutOfRangeAccess _ _) \<Rightarrow> StoreTrap)"

lemma store_impl_slow_write:
  assumes "\<not> sm_aux_data_address m \<le> address"
    and "zero_or_write_memory address (Slice (into_bytes ty value)) m = Some (r, m')"
  shows "store_impl_slow ty address value m = (store_outcome r, m')"
proof (cases "sm_stack_address_low m \<le> address")
  case True
  then show ?thesis using assms
    by (auto simp: zero_or_write_memory_def store_impl_slow_def store_outcome_def Let_def
        split: prod.splits PrepareWriteResult.splits option.splits)
next
  case False
  then show ?thesis using assms
    by (auto simp: zero_or_write_memory_def store_impl_slow_def store_outcome_def Let_def
        split: prod.splits option.splits if_splits bool.splits)
qed

lemma store_impl_slow_stored:
  assumes "memory_ok m"
  shows "stored m address (into_bytes ty value) (store_impl_slow ty address value m)"
proof (cases "sm_aux_data_address m \<le> address")
  case True
  then have "sm_stack_address_low m \<le> address" "unat (sm_stack_address_high m) < unat address"
    using assms by (auto simp: memory_ok_def regions_ok_def word_le_nat_alt)
  then have "store_impl_slow ty address value m = (StoreTrap, m)"
    by (simp add: store_impl_slow_def prepare_stack_write_def Let_def)
  then show ?thesis using assms True by (simp add: stored_def guest_writable_def)
next
  case False
  obtain r m' where res: "zero_or_write_memory address (Slice (into_bytes ty value)) m = Some (r, m')"
    and spec: "wrote m address (into_bytes ty value) (r, m')"
    using zero_or_write_memory_wrote [OF assms, of "Slice (into_bytes ty value)" address] by auto
  show ?thesis using store_impl_slow_write [OF False res] spec False
    by (auto simp: stored_def wrote_def store_outcome_def guest_writable_def split: sum.splits MemoryAccessError.splits)
qed

lemma std_store_impl_stored:
  assumes ok: "memory_ok m"
  shows "stored m address (into_bytes ty value) (std_store_impl ty address value m)"
proof -
  define bs where "bs = into_bytes ty value"
  have n: "0 < length bs" by (simp add: bs_def)
  note low = unat_low_resident [OF ok]
  have regions: "regions_ok m" and resident: "resident_ok m" using ok by (simp_all add: memory_ok_def)
  note gaps = regions [unfolded regions_ok_def] resident [unfolded resident_ok_def]
  note by_slow = store_impl_slow_stored [OF ok, of address ty "value", folded bs_def]
  consider (stack) ys where "sm_stack_address_low_resident m \<le> address"
      "put_slice (v_bytes (sm_stack m)) (unat address - unat (sm_stack_address_low_resident m)) bs = Some ys"
    | (rw) ys where "sm_rw_data_address m \<le> address" "\<not> sm_stack_address_low_resident m \<le> address"
      "put_slice (v_bytes (sm_rw_data m)) (unat address - unat (sm_rw_data_address m)) bs = Some ys"
    | (slow) "std_store_impl ty address value m = store_impl_slow ty address value m"
    by (cases "sm_stack_address_low_resident m \<le> address";
        cases "put_slice (v_bytes (sm_stack m)) (unat address - unat (sm_stack_address_low_resident m)) bs";
        cases "sm_rw_data_address m \<le> address";
        cases "put_slice (v_bytes (sm_rw_data m)) (unat address - unat (sm_rw_data_address m)) bs";
        simp add: std_store_impl_def bs_def [symmetric] unat_offset)
  then show ?thesis
  proof cases
    case (stack ys)
    note put = put_slice_Some(2) [OF stack(2)] and le = stack(1) [unfolded word_le_nat_alt]
    have "unat address + length bs \<le> unat (sm_stack_address_high m)" using put le low by linarith
    moreover have "unat (sm_stack_address_low m) \<le> unat address" "unat address < unat (sm_aux_data_address m)"
      using le low gaps n calculation by linarith+
    ultimately have "guest_writable m address (length bs)"
      using writable_by_region(2) [OF regions n, of address] by (simp add: guest_writable_def word_le_nat_alt)
    then show ?thesis using write_stack_updates [OF ok stack(2)] stack le low(1) bs_def
      by (simp add: std_store_impl_def stored_def unat_offset)
  next
    case (rw ys)
    note put = put_slice_Some(2) [OF rw(3)] and le = rw(1) [unfolded word_le_nat_alt]
    have "unat address < unat (sm_stack_address_low m)" "unat address < unat (sm_aux_data_address m)"
      "unat address - unat (sm_rw_data_address m) + length bs \<le> sm_rw_data_size m"
      using put le low gaps n by linarith+
    then have "guest_writable m address (length bs)"
      using writable_by_region(3) [OF regions n, of address] rw(1) by (simp add: guest_writable_def word_le_nat_alt unat_offset)
    then show ?thesis using write_rw_updates [OF ok rw(3)] rw le bs_def
      by (simp add: std_store_impl_def stored_def unat_offset)
  next
    case slow
    then show ?thesis using by_slow by (simp add: bs_def)
  qed
qed

end
