(* ===== verification/Memory_Life.thy ===== *)
theory Memory_Life
  imports Guest_Memory
begin

text \<open>
  The contract of a guest memory, stated once as a locale and met by \<open>StandardMemory\<close>, and its life cycle: the memory that
  \<open>reset_memory\<close> sets up for a module satisfies \<open>memory_ok\<close>, \<open>sbrk\<close> and \<open>set_accessible_aux_size\<close> keep it.
\<close>

section \<open>The contract of a guest memory\<close>

locale guest_memory =
  fixes ok :: "'m \<Rightarrow> bool"
    and byte_at :: "'m \<Rightarrow> nat \<Rightarrow> u8 option"
    and load :: "LoadTy \<Rightarrow> u32 \<Rightarrow> 'm \<Rightarrow> LoadOutcome option"
    and store :: "StoreTy \<Rightarrow> u32 \<Rightarrow> u64 \<Rightarrow> 'm \<Rightarrow> (StoreOutcome \<times> 'm) option"
  assumes load_present: "ok m \<Longrightarrow> those (map (byte_at m) [unat a..<unat a + load_size ty]) = Some bs \<Longrightarrow>
      load ty a m = Some (LoadOk (from_slice ty bs))"
    and store_done: "ok m \<Longrightarrow> store sty a v m = Some (StoreOk, m') \<Longrightarrow>
      ok m' \<and> (\<forall>i. byte_at m' i = (if unat a \<le> i \<and> i < unat a + store_size sty
        then Some (into_bytes sty v ! (i - unat a)) else byte_at m i))"
begin

lemma load_after_store:
  assumes "ok m" "store sty a v m = Some (StoreOk, m')"
  shows "load (load_of sty) a m' = Some (LoadOk (take_bit (8 * store_size sty) v))"
proof -
  note after = store_done [OF assms]
  have "map (byte_at m') [unat a..<unat a + store_size sty] =
      map (\<lambda>i. Some (into_bytes sty v ! (i - unat a))) [unat a..<unat a + store_size sty]"
    using after by simp
  moreover have "map (\<lambda>i. into_bytes sty v ! (i - unat a)) [unat a..<unat a + store_size sty] = into_bytes sty v"
    by (rule nth_equalityI) simp_all
  ultimately have "those (map (byte_at m') [unat a..<unat a + load_size (load_of sty)]) = Some (into_bytes sty v)"
    by (simp only: load_size_load_of those_map_Some)
  then show ?thesis using load_present after by (simp add: from_slice_into_bytes)
qed

lemma load_beside_store:
  assumes "ok m" "store sty a v m = Some (StoreOk, m')"
    and "unat b + load_size ty \<le> unat a \<or> unat a + store_size sty \<le> unat b"
    and "those (map (byte_at m) [unat b..<unat b + load_size ty]) = Some bs"
  shows "load ty b m' = load ty b m"
proof -
  note after = store_done [OF assms(1,2)]
  have "map (byte_at m') [unat b..<unat b + load_size ty] = map (byte_at m) [unat b..<unat b + load_size ty]"
    using after assms(3) by auto
  then have "those (map (byte_at m') [unat b..<unat b + load_size ty]) = Some bs" using assms(4) by (simp only:)
  then show ?thesis using load_present [OF assms(1,4)] load_present [of m' b ty bs] after by simp
qed

end

interpretation std: guest_memory memory_ok peek std_load_impl "\<lambda>ty a v m. Some (std_store_impl ty a v m)"
proof
  fix m ty bs and a :: u32
  assume "memory_ok m" "those (map (peek m) [unat a..<unat a + load_size ty]) = Some bs"
  then show "std_load_impl ty a m = Some (LoadOk (from_slice ty bs))"
    by (simp add: std_load_impl_loaded peeks_def loaded_def)
next
  fix m sty v m' and a :: u32
  assume "memory_ok m" "Some (std_store_impl sty a v m) = Some (StoreOk, m')"
  then show "memory_ok m' \<and> (\<forall>i. peek m' i = (if unat a \<le> i \<and> i < unat a + store_size sty
      then Some (into_bytes sty v ! (i - unat a)) else peek m i))"
    using std_store_impl_stored [of m a sty v] by (simp add: stored_def updates_def)
qed

section \<open>The initial memory\<close>

text \<open>The memory of a module: the regions lie where the memory map of the module has them.\<close>

definition map_ok :: "MemoryMap \<Rightarrow> bool" where
  "map_ok mm \<longleftrightarrow>
    unat (ro_data_address mm) + unat (ro_data_size mm) < unat (rw_data_address mm) \<and>
    unat (rw_data_address mm) + unat (rw_data_size mm) < unat (stack_address_low mm) \<and>
    unat (stack_address_low mm) + unat (stack_size mm) = unat (stack_address_high mm) \<and>
    unat (stack_address_high mm) < unat (aux_data_address mm) \<and>
    unat (aux_data_address mm) + unat (aux_data_size mm) \<le> 2 ^ 32 \<and>
    unat (heap_base mm) + unat (max_heap_size mm) + 0x10000 \<le> unat (stack_address_low mm) \<and>
    valid_page_size (page_size mm) \<and>
    unat (page_size mm) dvd unat (rw_data_address mm) \<and> unat (page_size mm) dvd unat (stack_address_low mm) \<and>
    RESIZE_GRANULARITY dvd unat (rw_data_size mm) \<and> RESIZE_GRANULARITY dvd unat (aux_data_size mm)"

lemma page_granularity:
  assumes "valid_page_size ps"
  shows "RESIZE_GRANULARITY dvd unat ps" "unat ps dvd 0x10000"
proof -
  obtain k where k: "unat ps = 2 ^ k" "12 \<le> k" "k \<le> 16" using valid_page_size_pow2 [OF assms] .
  have "(2 :: nat) ^ 12 dvd 2 ^ k" "(2 :: nat) ^ k dvd 2 ^ 16" 
    by (rule le_imp_power_dvd [OF k(2)], rule le_imp_power_dvd [OF k(3)])
  then show "RESIZE_GRANULARITY dvd unat ps" "unat ps dvd 0x10000" by (simp_all add: RESIZE_GRANULARITY_def k(1))
qed

lemma built_map_map_ok:
  assumes "build b = Some (Inr mm)"
  shows "map_ok mm"
proof -
  have ps: "valid_page_size (b_page_size b)" using build_Inr(1) [OF assms] .
  have ok: "memory_map_ok b mm" using build_Inr [OF assms] built_map_ok by simp
  note page = page_granularity [OF ps]
  define P where "P = unat (b_page_size b)"
  have "0 < P" using page(2) unfolding P_def by (cases "unat (b_page_size b)") simp_all
  note up = round_up_bounds(3) [OF \<open>0 < P\<close>]
  have "RESIZE_GRANULARITY dvd round_up P n" for n using page(1) up [of n] dvd_trans unfolding P_def by blast
  moreover have "P dvd unat (rw_data_address mm)"
    using ok page(2) dvd_trans unfolding memory_map_ok_def Let_def P_def by blast
  ultimately show ?thesis using ok ps unfolding memory_map_ok_def Let_def P_def [symmetric]
    by (simp add: map_ok_def P_def)
qed

lemma reset_memory_ok:
  assumes "map_ok (m_memory_map md)" "stack_size_ok (unat (stack_size (m_memory_map md)))"
    and "length (pb_ro_data (m_blob md)) \<le> unat (ro_data_size (m_memory_map md))"
    and "length (pb_rw_data (m_blob md)) \<le> unat (rw_data_size (m_memory_map md))"
    and "v_capacity (sm_rw_data m) \<le> 2 ^ 33" "v_capacity (sm_stack m) \<le> 2 ^ 33" "v_capacity (sm_aux m) \<le> 2 ^ 33"
  shows "memory_ok (reset_memory md m)"
  using assms by (simp add: memory_ok_def regions_ok_def resident_ok_def reset_memory_def Let_def map_ok_def clear_def)

section \<open>The heap\<close>

definition same_map :: "Module \<Rightarrow> StandardMemory \<Rightarrow> bool" where
  "same_map md m \<longleftrightarrow>
    sm_rw_data_address m = rw_data_address (m_memory_map md) \<and> sm_stack_address_low m = stack_address_low (m_memory_map md)"

text \<open>Where the break may lie: aligned to a page it is still a page below the stack.\<close>

lemma aligned_heap_top:
  assumes "map_ok mm" "h \<le> unat (heap_base mm) + unat (max_heap_size mm)"
  defines "t \<equiv> round_up (unat (page_size mm)) h"
  shows "h \<le> t" "t < unat (stack_address_low mm)" "unat (page_size mm) dvd t" "t < 2 ^ 32"
    "align_to_next_page (ucast (page_size mm) :: u64) (word_of_nat h) = Some (Some (word_of_nat t))"
proof -
  note mm = assms(1) [unfolded map_ok_def]
  obtain k where k: "unat (page_size mm) = 2 ^ k" "12 \<le> k" "k \<le> 16" using valid_page_size_pow2 mm by blast
  have low: "unat (stack_address_low mm) < 2 ^ 32" using unsigned_less [of "stack_address_low mm", where 'a = nat] by simp
  show t: "h \<le> t" "unat (page_size mm) dvd t" unfolding t_def k(1) by (simp_all add: round_up_bounds)
  have "unat (page_size mm) \<le> 0x10000" using page_granularity(2) mm by (intro dvd_imp_le) simp_all
  then show below: "t < unat (stack_address_low mm)"
    using round_up_bounds(2) [of "unat (page_size mm)" h] mm assms(2) k(1) unfolding t_def by simp
  then show "t < 2 ^ 32" using low by simp
  have "unat (ucast (page_size mm) :: u64) = 2 ^ k" by (simp add: k(1) unat_ucast_up)
  note align = align_to_next_page_pow2 [OF this, of "word_of_nat h"]
  have "unat (word_of_nat h :: u64) = h" using t(1) below low by (simp add: unsigned_of_nat take_bit_nat_eq_self)
  then show "align_to_next_page (ucast (page_size mm) :: u64) (word_of_nat h) = Some (Some (word_of_nat t))"
    using align below low unfolding t_def k(1) by simp
qed

lemma bytes_of_update [simp]:
  "aux_byte (m\<lparr>sm_rw_data_size := n\<rparr>) = aux_byte m" "stack_byte (m\<lparr>sm_rw_data_size := n\<rparr>) = stack_byte m"
  "rw_byte (m\<lparr>sm_rw_data_size := n\<rparr>) = rw_byte m" "ro_byte (m\<lparr>sm_rw_data_size := n\<rparr>) = ro_byte m"
  "aux_byte (m\<lparr>sm_heap_size := h\<rparr>) = aux_byte m" "stack_byte (m\<lparr>sm_heap_size := h\<rparr>) = stack_byte m"
  "rw_byte (m\<lparr>sm_heap_size := h\<rparr>) = rw_byte m" "ro_byte (m\<lparr>sm_heap_size := h\<rparr>) = ro_byte m"
  by (simp_all add: fun_eq_iff aux_byte_def stack_byte_def rw_byte_def ro_byte_def Let_def)

lemma peek_heap_size [simp]: "peek (m\<lparr>sm_heap_size := h\<rparr>) = peek m"
  by (rule ext) (simp add: peek_def Let_def)

lemma peek_wider:
  assumes "memory_ok m" "sm_rw_data_size m \<le> n" "unat (sm_rw_data_address m) + n < unat (sm_stack_address_low m)"
  shows "peek (m\<lparr>sm_rw_data_size := n\<rparr>) a =
    (if unat (sm_rw_data_address m) + sm_rw_data_size m \<le> a \<and> a < unat (sm_rw_data_address m) + n then Some 0 else peek m a)"
proof -
  have ok: "regions_ok m" "regions_ok (m\<lparr>sm_rw_data_size := n\<rparr>)" using assms by (simp_all add: memory_ok_def regions_ok_def)
  have zero: "rw_byte m i = 0" if "sm_rw_data_size m \<le> i" for i
    using assms(1) that by (auto simp: rw_byte_def byte_or_0_def memory_ok_def resident_ok_def)
  show ?thesis
  proof (cases "unat (sm_rw_data_address m) \<le> a \<and> a < unat (sm_stack_address_low m)")
    case True
    then show ?thesis using peek_regions(3) [OF ok(1), of a] peek_regions(3) [OF ok(2), of a] assms(2) zero by auto
  next
    case False
    then consider "unat (sm_stack_address_low m) \<le> a" | "a < unat (sm_rw_data_address m)" by linarith
    then show ?thesis
    proof cases
      case 1
      then show ?thesis using assms(3) by (simp add: peek_def Let_def)
    next
      case 2
      then have "\<not> unat (sm_stack_address_low m) \<le> a" "\<not> unat (sm_aux_data_address m) \<le> a"
        using ok(1) unfolding regions_ok_def by linarith+
      then show ?thesis using 2 by (simp add: peek_def Let_def)
    qed
  qed
qed

definition broke :: "Module \<Rightarrow> u32 \<Rightarrow> StandardMemory \<Rightarrow> u32 option \<times> StandardMemory \<Rightarrow> bool" where
  "broke md sz m = (\<lambda>(r, m'). memory_ok m' \<and> same_map md m' \<and>
    (let mm = m_memory_map md; new_heap_size = unat (sm_heap_size m) + unat sz in
     case r of
       None \<Rightarrow> m' = m \<and> unat (max_heap_size mm) < new_heap_size
     | Some heap_top \<Rightarrow>
         new_heap_size \<le> unat (max_heap_size mm) \<and> unat (sm_heap_size m') = new_heap_size \<and>
         unat heap_top = unat (heap_base mm) + new_heap_size \<and>
         unat heap_top \<le> unat (rw_data_address mm) + sm_rw_data_size m' \<and>
         (\<forall>a. peek m' a = (if unat (rw_data_address mm) + sm_rw_data_size m \<le> a \<and> a < unat (rw_data_address mm) + sm_rw_data_size m'
            then Some 0 else peek m a))))"

lemma sbrk_broke:
  assumes ok: "memory_ok m" and "same_map md m" and mm: "map_ok (m_memory_map md)"
  shows "\<exists>p. sbrk md sz m = Some p \<and> broke md sz m p"
proof -
  define mm where "mm = m_memory_map md"
  define n where "n = unat (sm_heap_size m) + unat sz"
  show ?thesis
  proof (cases "n \<le> unat (max_heap_size mm)")
    case False
    then have "sbrk md sz m = Some (None, m)"
      by (auto simp: sbrk_def checked_add_def Let_def mm_def n_def word_less_nat_alt unat_word_ariths split: option.split)
    then show ?thesis using False ok assms(2) by (simp add: broke_def Let_def mm_def n_def)
  next
    case True
    define h where "h = unat (heap_base mm) + n"
    have "h \<le> unat (heap_base mm) + unat (max_heap_size mm)" using True by (simp add: h_def)
    note top = aligned_heap_top [OF mm [folded mm_def] this]
    have heap: "unat (heap_base mm + (sm_heap_size m + sz)) = h" "unat (sm_heap_size m + sz) = n"
      "checked_add (sm_heap_size m) sz = Some (sm_heap_size m + sz)"
      using top(1,4) True unfolding h_def n_def by (simp_all add: checked_add_def unat_word_ariths)
    define m1 where "m1 = m\<lparr>sm_heap_size := sm_heap_size m + sz\<rparr>"
    have m1: "memory_ok m1" "peek m1 = peek m" using ok by (simp_all add: m1_def memory_ok_def regions_ok_def resident_ok_def)
    have m1s [simp]: "sm_rw_data_size m1 = sm_rw_data_size m" "sm_heap_size m1 = sm_heap_size m + sz"
      "sm_rw_data_address m1 = rw_data_address mm" "sm_stack_address_low m1 = stack_address_low mm"
      using assms(2) by (simp_all add: m1_def same_map_def mm_def)
    show ?thesis
    proof (cases "h \<le> unat (rw_data_address mm) + sm_rw_data_size m")
      case small: True
      have "sbrk md sz m = Some (Some (heap_base mm + (sm_heap_size m + sz)), m1)"
        using heap True small by (simp add: sbrk_def mm_def [symmetric] m1_def [symmetric] Let_def word_less_nat_alt)
      then show ?thesis using m1 heap True small assms(2)
        by (auto simp add: broke_def Let_def mm_def [symmetric] n_def [symmetric] h_def same_map_def)
    next
      case False
      define t where "t = round_up (unat (page_size mm)) h"
      note t = top [folded t_def]
      define w where "w = t - unat (rw_data_address mm)"
      have "usize_sub (unat (word_of_nat t :: u64)) (unat (rw_data_address mm)) = w"
        using t(1,4) False by (simp add: usize_sub_def w_def unsigned_of_nat take_bit_nat_eq_self)
      moreover have "ucast (heap_base mm + (sm_heap_size m + sz)) = (word_of_nat h :: u64)"
        using heap(1) by (metis of_nat_unat)
      ultimately have "sbrk md sz m = Some (Some (heap_base mm + (sm_heap_size m + sz)), m1\<lparr>sm_rw_data_size := w\<rparr>)"
        using heap True False t(5)
        by (simp add: sbrk_def mm_def [symmetric] m1_def [symmetric] Let_def word_less_nat_alt)
      moreover have w: "sm_rw_data_size m \<le> w" "unat (rw_data_address mm) + w = t" "RESIZE_GRANULARITY dvd w"
      proof -
        have "unat (page_size mm) dvd w" using t(3) mm unfolding w_def mm_def map_ok_def by (intro dvd_diff_nat) simp_all
        then show "RESIZE_GRANULARITY dvd w" using page_granularity(1) mm dvd_trans unfolding mm_def map_ok_def by blast
      qed (use t(1) False in \<open>simp_all add: w_def\<close>)
      moreover have "memory_ok (m1\<lparr>sm_rw_data_size := w\<rparr>)"
        using m1(1) w t(2) by (simp add: memory_ok_def regions_ok_def resident_ok_def)
      moreover note peek_wider [OF m1(1), of w]
      ultimately show ?thesis using m1(2) heap True t(1,2) assms(2)
        by (simp add: broke_def Let_def mm_def [symmetric] n_def [symmetric] h_def same_map_def)
    qed
  qed
qed

section \<open>The auxiliary data\<close>

lemma set_accessible_aux_size_ok:
  assumes "memory_ok m" "RESIZE_GRANULARITY dvd unat sz" "unat (sm_aux_data_address m) + unat sz \<le> 2 ^ 32"
  shows "memory_ok (set_accessible_aux_size sz m)"
    "peek (set_accessible_aux_size sz m) a =
      (let offset = a - unat (sm_aux_data_address m) in
       if a < unat (sm_aux_data_address m) then peek m a
       else if unat sz \<le> offset then None else if offset < sm_accessible_aux_size m then peek m a else Some 0)"
proof -
  define m' where "m' = set_accessible_aux_size sz m"
  show ok: "memory_ok (set_accessible_aux_size sz m)"
    using assms by (auto simp: memory_ok_def regions_ok_def resident_ok_def set_accessible_aux_size_def truncate_vec_def)
  have regions: "regions_ok m" "regions_ok m'" using assms(1) ok by (simp_all add: memory_ok_def m'_def)
  have fit: "v_len (sm_aux m) \<le> sm_accessible_aux_size m" using assms(1) by (simp add: memory_ok_def resident_ok_def)
  have byte: "aux_byte m' i = (if i < sm_accessible_aux_size m then aux_byte m i else 0)" if "i < unat sz" for i
    using that fit by (auto simp: m'_def set_accessible_aux_size_def aux_byte_def byte_or_0_def truncate_vec_def)
  have addr: "sm_aux_data_address m' = sm_aux_data_address m" "sm_accessible_aux_size m' = unat sz"
    by (simp_all add: m'_def set_accessible_aux_size_def)
  have "peek m' a = (let offset = a - unat (sm_aux_data_address m) in
       if a < unat (sm_aux_data_address m) then peek m a
       else if unat sz \<le> offset then None else if offset < sm_accessible_aux_size m then peek m a else Some 0)"
  proof (cases "a < unat (sm_aux_data_address m)")
    case True
    then show ?thesis
      by (simp add: peek_def Let_def m'_def set_accessible_aux_size_def rw_byte_def stack_byte_def ro_byte_def)
  next
    case False
    then show ?thesis using peek_regions(1) [OF regions(1), of a] peek_regions(1) [OF regions(2), of a]
      by (simp add: Let_def addr byte)
  qed
  then show "peek (set_accessible_aux_size sz m) a =
      (let offset = a - unat (sm_aux_data_address m) in
       if a < unat (sm_aux_data_address m) then peek m a
       else if unat sz \<le> offset then None else if offset < sm_accessible_aux_size m then peek m a else Some 0)"
    by (simp add: m'_def)
qed

text \<open>What a module's memory holds before it runs.\<close>

definition initial_byte :: "Module \<Rightarrow> nat \<Rightarrow> u8 option" where
  "initial_byte md a =
    (let mm = m_memory_map md; within = (\<lambda>start sz. unat start \<le> a \<and> a < unat start + unat sz) in
     if within (ro_data_address mm) (ro_data_size mm)
       then Some (byte_or_0 (pb_ro_data (m_blob md)) (a - unat (ro_data_address mm)))
     else if within (rw_data_address mm) (rw_data_size mm)
       then Some (byte_or_0 (pb_rw_data (m_blob md)) (a - unat (rw_data_address mm)))
     else if within (stack_address_low mm) (stack_size mm) \<or> within (aux_data_address mm) (aux_data_size mm) then Some 0
     else None)"

lemma reset_memory_bytes:
  assumes "map_ok (m_memory_map md)"
  shows "peek (reset_memory md m) a = initial_byte md a"
proof -
  define mm where "mm = m_memory_map md"
  note gaps = assms [folded mm_def, unfolded map_ok_def]
  define m' where "m' = reset_memory md m"
  have fields [simp]: "sm_aux_data_address m' = aux_data_address mm" "sm_stack_address_low m' = stack_address_low mm"
    "sm_rw_data_address m' = rw_data_address mm" "sm_ro_data_address m' = ro_data_address mm"
    "sm_accessible_aux_size m' = unat (aux_data_size mm)" "sm_stack_size m' = unat (stack_size mm)"
    "sm_rw_data_size m' = unat (rw_data_size mm)" "sm_ro_data_size m' = unat (ro_data_size mm)"
    "sm_stack_address_high m' = stack_address_high mm"
    by (simp_all add: m'_def mm_def reset_memory_def Let_def)
  have bytes [simp]: "aux_byte m' i = 0" "i < unat (stack_size mm) \<Longrightarrow> stack_byte m' i = 0"
    "rw_byte m' i = byte_or_0 (pb_rw_data (m_blob md)) i" "ro_byte m' i = byte_or_0 (pb_ro_data (m_blob md)) i" for i
    by (simp_all add: m'_def mm_def aux_byte_def stack_byte_def rw_byte_def ro_byte_def byte_or_0_def reset_memory_def Let_def clear_def)
  have ok: "regions_ok m'" using gaps by (simp add: regions_ok_def)
  consider "unat (aux_data_address mm) \<le> a"
    | "unat (stack_address_low mm) \<le> a" "a < unat (aux_data_address mm)"
    | "unat (rw_data_address mm) \<le> a" "a < unat (stack_address_low mm)"
    | "unat (ro_data_address mm) \<le> a" "a < unat (rw_data_address mm)"
    | "a < unat (ro_data_address mm)" by linarith
  then have "peek m' a = initial_byte md a"
  proof cases
    case 1
    then show ?thesis using peek_regions(1) [OF ok, of a] gaps by (auto simp: initial_byte_def mm_def [symmetric] Let_def)
  next
    case 2
    then show ?thesis using peek_regions(2) [OF ok, of a] gaps by (auto simp: initial_byte_def mm_def [symmetric] Let_def)
  next
    case 3
    then show ?thesis using peek_regions(3) [OF ok, of a] gaps by (auto simp: initial_byte_def mm_def [symmetric] Let_def)
  next
    case 4
    then show ?thesis using peek_regions(4) [OF ok, of a] gaps by (auto simp: initial_byte_def mm_def [symmetric] Let_def)
  next
    case 5
    then show ?thesis using peek_regions(5) [OF ok, of a] gaps by (auto simp: initial_byte_def mm_def [symmetric] Let_def)
  qed
  then show ?thesis by (simp add: m'_def)
qed

section \<open>Properties\<close>

text \<open>C14: the memory of a host is a map from addresses to bytes. A read of one or more bytes never panics and returns
  exactly the bytes of the map, or \<open>OutOfRangeAccess\<close> when one of them is not mapped, however much of the regions is resident. A write or a zeroing
  never panics; it succeeds exactly on mapped addresses above the read-only data, unless a limit on the allocations
  stops it, then changes exactly the bytes it names and keeps the invariant; when it fails no byte changes.\<close>

theorem host_access:
  assumes "memory_ok m" "0 < n" "0 < length data" "0 < unat len"
  shows "read_memory_into address n m =
      Some (case peeks m (unat address) n of Some bs \<Rightarrow> Inr bs | None \<Rightarrow> Inl (OutOfRangeAccess address n))
    \<and> (\<exists>p. std_write_memory address data m = Some p \<and> wrote m address data p)
    \<and> (\<exists>p. std_zero_memory address len m = Some p \<and> wrote m address (replicate (unat len) 0) p)"
  using assms read_memory_into_peeks [of m n address] zero_or_write_memory_wrote [of m "Slice data" address]
    zero_or_write_memory_wrote [of m "Length (unat len)" address]
  by (simp_all add: memory_ok_def resident_ok_def std_write_memory_def std_zero_memory_def)

text \<open>C13: the memory of a guest is the same map. A load never panics and returns the bytes of the map, zero- or
  sign-extended as its type says, or traps when one of them is not mapped, on the fast path and on the slow paths alike. A store succeeds exactly on
  mapped addresses of the data and the stack, unless a limit on the allocations stops it, and changes exactly its
  bytes; a store that traps changes no byte. A load of the type of a store reads the stored value back, cut to its
  width, and a load of other bytes returns what it did before.\<close>

theorem guest_access:
  assumes "memory_ok m"
  shows "std_load_impl ty a m = Some (loaded ty (peeks m (unat a) (load_size ty)))
    \<and> stored m b (into_bytes sty v) (std_store_impl sty b v m)
    \<and> (\<forall>m'. std_store_impl sty b v m = (StoreOk, m') \<longrightarrow>
        std_load_impl (load_of sty) b m' = Some (LoadOk (take_bit (8 * store_size sty) v)) \<and>
        (peeks m (unat a) (load_size ty) \<noteq> None \<longrightarrow>
         unat a + load_size ty \<le> unat b \<or> unat b + store_size sty \<le> unat a \<longrightarrow> std_load_impl ty a m' = std_load_impl ty a m))"
  using assms std_load_impl_loaded std_store_impl_stored std.load_after_store [OF assms, of sty b v]
    std.load_beside_store [OF assms, of sty b v _ a ty]
  by (auto simp: peeks_def)

text \<open>C15: the life of a memory. For a memory map built by \<open>MemoryMapBuilder\<close> and a stack of zero or a power of two bytes, resetting a memory establishes the
  invariant, with the read-only and read-write data of the program, zero everywhere else in the four regions and nothing mapped
  outside of them. Then \<open>sbrk\<close> never panics, fails exactly when the heap would
  exceed its maximum, and otherwise moves the break by exactly the amount asked for, mapping zeros up to it and changing no
  other byte; setting the accessible auxiliary size to whole pages keeps the invariant and every byte that stays accessible.\<close>

theorem memory_life_cycle:
  assumes "build b = Some (Inr (m_memory_map md))" "stack_size_ok (unat (stack_size (m_memory_map md)))"
    and "length (pb_ro_data (m_blob md)) \<le> unat (b_ro_data_size b)" "length (pb_rw_data (m_blob md)) \<le> unat (b_rw_data_size b)"
    and "m0 = StandardMemory_new \<or> memory_ok m0"
  shows "memory_ok (reset_memory md m0) \<and> same_map md (reset_memory md m0) \<and> peek (reset_memory md m0) = initial_byte md
    \<and> (memory_ok m \<and> same_map md m \<longrightarrow> (\<exists>p. sbrk md sz m = Some p \<and> broke md sz m p))
    \<and> (memory_ok m \<and> RESIZE_GRANULARITY dvd unat asz \<and> unat (sm_aux_data_address m) + unat asz \<le> 2 ^ 32 \<longrightarrow>
        memory_ok (set_accessible_aux_size asz m) \<and>
        (\<forall>a. a < unat (sm_aux_data_address m) + min (unat asz) (sm_accessible_aux_size m) \<longrightarrow>
          peek (set_accessible_aux_size asz m) a = peek m a))"
proof -
  have mm: "map_ok (m_memory_map md)" using built_map_map_ok [OF assms(1)] .
  have "memory_map_ok b (m_memory_map md)" using build_Inr [OF assms(1)] built_map_ok by simp
  moreover have page: "0 < unat (b_page_size b)"
    using build_Inr(1) [OF assms(1)] by (simp add: valid_page_size_def VM_MIN_PAGE_SIZE_def word_le_nat_alt)
  ultimately have fit: "length (pb_ro_data (m_blob md)) \<le> unat (ro_data_size (m_memory_map md))"
    "length (pb_rw_data (m_blob md)) \<le> unat (rw_data_size (m_memory_map md))"
    using assms(3,4) round_up_bounds(1) [OF page] unfolding memory_map_ok_def Let_def by (metis order_trans)+
  have "memory_ok (reset_memory md m0)"
    using assms(5) by (intro reset_memory_ok [OF mm assms(2) fit]) (auto simp: StandardMemory_new_def Vec_new_def memory_ok_def resident_ok_def)
  moreover have "same_map md (reset_memory md m0)" by (simp add: same_map_def reset_memory_def Let_def)
  ultimately show ?thesis
    using reset_memory_bytes [OF mm] sbrk_broke [OF _ _ mm] set_accessible_aux_size_ok
    by (auto simp: fun_eq_iff Let_def)
qed

section \<open>Witnesses\<close>

text \<open>A memory with a page in each region, of which nothing is resident.\<close>

definition demo_memory :: StandardMemory where
  "demo_memory = StandardMemory_new\<lparr>
     sm_ro_data_address := 0x10000, sm_ro_data_size := 0x1000, sm_ro_data := [9],
     sm_rw_data_address := 0x30000, sm_rw_data_size := 0x1000, sm_rw_data_original := [1, 2], sm_stack_size := 0x1000,
     sm_stack_address_low := 0xfffcf000, sm_stack_address_high := 0xfffd0000, sm_stack_address_low_resident := 0xfffd0000,
     sm_aux_data_address := 0xfffe0000, sm_accessible_aux_size := 0x1000\<rparr>"

lemma demo_memory_ok: "memory_ok demo_memory"
proof -
  have "stack_size_ok 0x1000" by (auto simp: stack_size_ok_def intro!: exI [of _ 12])
  then show ?thesis
    by (simp add: memory_ok_def regions_ok_def resident_ok_def demo_memory_def StandardMemory_new_def Vec_new_def RESIZE_GRANULARITY_def)
qed

theorem host_access_witness:
  "memory_ok demo_memory \<and> read_memory_into 0x30000 3 demo_memory = Some (Inr [1, 2, 0]) \<and>
    (\<exists>p. std_write_memory 0xfffcffff [7] demo_memory = Some p \<and> wrote demo_memory 0xfffcffff [7] p) \<and>
    (\<exists>p. std_zero_memory 0x10000 1 demo_memory = Some p \<and> wrote demo_memory 0x10000 [0] p)"
proof -
  have "peeks demo_memory 0x30000 3 = Some [1, 2, 0]"
    by (simp add: peeks_def peek_def demo_memory_def StandardMemory_new_def Vec_new_def rw_byte_def byte_or_0_def upt_rec Let_def)
  then show ?thesis
    using host_access [OF demo_memory_ok, of 3 "[7]" 1 "0x30000"] host_access [OF demo_memory_ok, of 3 "[7]" 1 "0xfffcffff"]
      host_access [OF demo_memory_ok, of 3 "[7]" 1 "0x10000"] demo_memory_ok by simp
qed

theorem guest_access_witness:
  "memory_ok demo_memory \<and> std_load_impl L_u16 0x30000 demo_memory = Some (LoadOk 0x201) \<and>
    stored demo_memory 0x30000 [0x34, 0x12] (std_store_impl S_u16 0x30000 0xf1234 demo_memory)"
proof -
  have "peeks demo_memory 0x30000 2 = Some [1, 2]"
    by (simp add: peeks_def peek_def demo_memory_def StandardMemory_new_def Vec_new_def rw_byte_def byte_or_0_def upt_rec Let_def)
  moreover have "into_bytes S_u16 0xf1234 = [0x34, 0x12]" by (simp add: le_bytes_explicit)
  ultimately show ?thesis
    using guest_access [OF demo_memory_ok, of L_u16 "0x30000" "0x30000" S_u16 "0xf1234"] demo_memory_ok
    by (simp add: loaded_def del: into_bytes.simps)
qed

text \<open>A module of a program with a byte of read-only data and two bytes of read-write data.\<close>

definition demo_builder :: MemoryMapBuilder where
  "demo_builder = \<lparr>b_page_size = 0x1000, b_ro_data_size = 1, b_rw_data_size = 2, b_stack_size = 0x1000, b_aux_data_size = 0\<rparr>"

definition demo_blob :: ProgramBlob where
  "demo_blob = \<lparr>pb_isa = Latest64, pb_ro_data_size = 1, pb_rw_data_size = 2, pb_stack_size = 0x1000, pb_ro_data = [9],
     pb_rw_data = [1, 2], pb_code = [], pb_jump_table = [], pb_jump_table_entry_size = 0, pb_bitmask = [],
     pb_import_offsets = [], pb_import_symbols = [], pb_exports = [], pb_debug_strings = [],
     pb_debug_line_program_ranges = [], pb_debug_line_programs = [], pb_metadata_hash = []\<rparr>"

definition demo_module :: Module where
  "demo_module = \<lparr>m_blob = demo_blob, m_memory_map = built_map demo_builder, m_gas_metering = None, m_step_tracing = False,
     m_dynamic_paging = False, m_page_size_mask = 0xfff, m_page_shift = 12, m_cost_model = CostModel_naive,
     m_is_per_instruction_metering = False\<rparr>"

lemma build_demo: "build demo_builder = Some (Inr (built_map demo_builder))"
proof -
  have "valid_page_size (b_page_size demo_builder)"
    by (simp add: demo_builder_def valid_page_size_def VM_MIN_PAGE_SIZE_def VM_MAX_PAGE_SIZE_def is_power_of_two_def count_ones_def count_ones_nat.simps)
  moreover have "total_address_space demo_builder \<le> 2 ^ 32 - 5 * 0x10000"
    by (simp add: demo_builder_def total_address_space_def round_up_def)
  ultimately show ?thesis using build_outcome [of demo_builder] by simp
qed

theorem memory_life_cycle_witness:
  "build demo_builder = Some (Inr (m_memory_map demo_module)) \<and> memory_ok (reset_memory demo_module StandardMemory_new) \<and>
    peek (reset_memory demo_module StandardMemory_new) 0x10000 = Some 9 \<and>
    (\<exists>p. sbrk demo_module 0x5000 (reset_memory demo_module StandardMemory_new) = Some p \<and>
      broke demo_module 0x5000 (reset_memory demo_module StandardMemory_new) p)"
proof -
  define m where "m = reset_memory demo_module StandardMemory_new"
  have b: "build demo_builder = Some (Inr (m_memory_map demo_module))" by (simp add: build_demo demo_module_def)
  have st: "stack_size_ok (unat (stack_size (m_memory_map demo_module)))"
    by (simp add: demo_module_def built_map_def demo_builder_def round_up_def Let_def stack_size_ok_def)
      (rule exI [of _ 12], simp)
  have sizes: "length (pb_ro_data (m_blob demo_module)) \<le> unat (b_ro_data_size demo_builder)"
    "length (pb_rw_data (m_blob demo_module)) \<le> unat (b_rw_data_size demo_builder)"
    by (simp_all add: demo_module_def demo_blob_def demo_builder_def)
  have "initial_byte demo_module 0x10000 = Some 9"
    by (simp add: initial_byte_def demo_module_def demo_blob_def built_map_def demo_builder_def round_up_def ro_data_address_def
        VM_ADDRESS_SPACE_BOTTOM_def VM_MAX_PAGE_SIZE_def byte_or_0_def Let_def)
  then show ?thesis
    using memory_life_cycle [OF b st sizes, of StandardMemory_new m "0x5000" 0] b unfolding m_def by simp
qed

end
