(* ===== verification/Stack_Growth.thy ===== *)
theory Stack_Growth
  imports Memory_Life
begin

text \<open>
  The stack of \<open>StandardMemory\<close> when its size is not a power of two: \<open>stack_resize\<close> rounds the resident part up to the
  next power of two and does not cut it at the size of the stack. A stack of three pages then has a page more than it should.
\<close>

definition grown_stack :: "StandardMemory \<Rightarrow> StandardMemory" where
  "grown_stack m = m\<lparr>sm_stack := \<lparr>v_bytes = replicate 0x4000 0, v_capacity = 0x4000\<rparr>,
     sm_stack_address_low_resident := sm_stack_address_high m - 0x4000\<rparr>"

lemma next_power_of_two_3_pages: "next_power_of_two 0x3000 = 0x4000"
  by (simp add: next_power_of_two_def bit_width.simps)

lemma stack_resize_3_pages:
  assumes "no_limits m" "v_bytes (sm_stack m) = []" "v_capacity (sm_rw_data m) \<le> 2 ^ 33" "v_capacity (sm_aux m) \<le> 2 ^ 33"
  shows "stack_resize 0x3000 m = (True, grown_stack m)"
proof -
  have "reserve_memory Vec_new 0x3000 usize_MAX usize_MAX (v_capacity (sm_rw_data m) + v_capacity (sm_aux m)) =
      (True, \<lparr>v_bytes = [], v_capacity = 0x4000\<rparr>)"
    using assms(3,4)
    by (simp add: reserve_memory_def next_power_of_two_3_pages Vec_new_def reserve_exact_def RESIZE_GRANULARITY_def usize_MAX_def Let_def)
  then show ?thesis using assms(1,2) by (simp add: stack_resize_def no_limits_def grown_stack_def Let_def)
qed

text \<open>A memory as \<open>reset_memory\<close> leaves it for a stack of three pages, with the guards of a memory map.\<close>

definition three_page_stack :: "StandardMemory \<Rightarrow> bool" where
  "three_page_stack m \<longleftrightarrow> regions_ok m \<and> resident_ok m \<and> no_limits m \<and> sm_stack_size m = 0x3000 \<and> v_bytes (sm_stack m) = [] \<and>
    0x10000 \<le> unat (sm_rw_data_address m) \<and> unat (sm_rw_data_address m) + sm_rw_data_size m + 0x10000 \<le> unat (sm_stack_address_low m)"

lemma three_page_bounds:
  assumes "three_page_stack m"
  defines "low \<equiv> sm_stack_address_low m" and "hi \<equiv> sm_stack_address_high m"
  shows "unat hi = unat low + 0x3000" "unat (low - 1) = unat low - 1" "unat (hi - 0x4000) = unat low - 0x1000"
    "0x20000 \<le> unat low" "unat hi < unat (sm_aux_data_address m)" "sm_stack_address_low_resident m = hi"
proof -
  show hi: "unat hi = unat low + 0x3000" "unat (low - 1) = unat low - 1" "unat hi < unat (sm_aux_data_address m)"
    "0x20000 \<le> unat low" "sm_stack_address_low_resident m = hi"
    using assms(1) unfolding three_page_stack_def regions_ok_def resident_ok_def low_def hi_def
    by (simp_all add: unat_sub word_le_nat_alt)
  then have "unat (hi - 0x4000) = unat hi - 0x4000" by (simp add: unat_sub word_le_nat_alt)
  then show "unat (hi - 0x4000) = unat low - 0x1000" using hi by linarith
qed

lemma into_bytes_7: "into_bytes S_u8 7 = [7]"
  by (simp add: le_bytes_explicit del: One_nat_def)

lemma store_goes_slow:
  assumes "three_page_stack m" "unat (sm_stack_address_low m) - 1 \<le> unat a" "unat a < unat (sm_stack_address_high m)"
  shows "std_store_impl S_u8 a 7 m = store_impl_slow S_u8 a 7 m"
    "put_slice (v_bytes (sm_rw_data m)) (unat (a - sm_rw_data_address m)) [7] = None"
    "sm_rw_data_address m \<le> a" "sm_rw_data_size m < unat (a - sm_rw_data_address m) + 1"
proof -
  note rw = assms(1) [unfolded three_page_stack_def]
  show le: "sm_rw_data_address m \<le> a" unfolding word_le_nat_alt using rw assms(2) by linarith
  then show out: "put_slice (v_bytes (sm_rw_data m)) (unat (a - sm_rw_data_address m)) [7] = None"
    "sm_rw_data_size m < unat (a - sm_rw_data_address m) + 1"
  proof -
    have "sm_rw_data_size m < unat a - unat (sm_rw_data_address m) + 1" "v_len (sm_rw_data m) \<le> sm_rw_data_size m"
      using rw assms(2) unfolding resident_ok_def by linarith+
    then show "put_slice (v_bytes (sm_rw_data m)) (unat (a - sm_rw_data_address m)) [7] = None"
      "sm_rw_data_size m < unat (a - sm_rw_data_address m) + 1"
      using le by (simp_all add: put_slice_def unat_offset)
  qed
  have "\<not> sm_stack_address_low_resident m \<le> a"
    using three_page_bounds(6) [OF assms(1)] assms(3) by (simp add: word_le_nat_alt)
  then show "std_store_impl S_u8 a 7 m = store_impl_slow S_u8 a 7 m"
    unfolding std_store_impl_def into_bytes_7 using le out(1) by simp
qed

lemma guard_store_traps:
  assumes "three_page_stack m"
  shows "std_store_impl S_u8 (sm_stack_address_low m - 1) 7 m = (StoreTrap, m)"
proof -
  define a where "a = sm_stack_address_low m - 1"
  note bounds = three_page_bounds [OF assms]
  have "unat a = unat (sm_stack_address_low m) - 1" using bounds(2) by (simp add: a_def)
  moreover from this have "\<not> sm_stack_address_low m \<le> a" using bounds(4) unfolding word_le_nat_alt by linarith
  moreover note slow = store_goes_slow [OF assms, of a]
  ultimately show ?thesis using bounds(1) unfolding a_def [symmetric]
    by (simp add: slow(1)) (simp add: store_impl_slow_def into_bytes_7 Let_def slow del: into_bytes.simps)
qed

definition seven_at_the_bottom :: bytes where
  "seven_at_the_bottom = take 0x1000 (replicate 0x4000 0) @ [7] @ drop 0x1001 (replicate 0x4000 (0 :: u8))"

lemma seven_at_the_bottom:
  "put_slice (replicate 0x4000 0) 0x1000 [7] = Some seven_at_the_bottom" "length seven_at_the_bottom = 0x4000"
  "slice_get seven_at_the_bottom 0x1000 0x1001 = Some [7]"
  by (simp_all add: put_slice_def seven_at_the_bottom_def slice_get_def)

definition stored_seven :: "StandardMemory \<Rightarrow> StandardMemory" where
  "stored_seven m = (grown_stack m)\<lparr>sm_stack := \<lparr>v_bytes = seven_at_the_bottom, v_capacity = 0x4000\<rparr>\<rparr>"

lemma bottom_store:
  assumes "three_page_stack m"
  shows "std_store_impl S_u8 (sm_stack_address_low m) 7 m = (StoreOk, stored_seven m)"
proof -
  define low where "low = sm_stack_address_low m"
  note bounds = three_page_bounds [OF assms, folded low_def]
  have stack: "no_limits m" "v_bytes (sm_stack m) = []" "v_capacity (sm_rw_data m) \<le> 2 ^ 33" "v_capacity (sm_aux m) \<le> 2 ^ 33"
    "sm_stack_size m = 0x3000" using assms by (simp_all add: three_page_stack_def resident_ok_def)
  have "prepare_stack_write (unat low) 1 m = (Prepared 0x1000 0x1001, grown_stack m)"
    using stack_resize_3_pages [OF stack(1-4)] stack bounds
    by (simp add: prepare_stack_write_def Let_def usize_sub_def grown_stack_def)
  then have "store_impl_slow S_u8 low 7 m = (StoreOk, stored_seven m)"
    unfolding store_impl_slow_def into_bytes_7 using seven_at_the_bottom(1) by (simp add: low_def stored_seven_def grown_stack_def)
  then show ?thesis using store_goes_slow(1) [OF assms, of low] bounds(1) by (simp add: low_def)
qed

section \<open>Properties\<close>

text \<open>C16: in a memory with a stack of three pages, one page below the bottom of the stack becomes part of it. A store
  below the stack traps at first. After a store to the lowest byte of the stack, which a guest may do, the store
  below the stack succeeds, although the address is in the guard region; and the host reads zero from the byte that
  the guest has just written and that the guest still reads back.\<close>

theorem stack_overgrown:
  assumes "three_page_stack m"
  defines "low \<equiv> sm_stack_address_low m"
  shows "std_store_impl S_u8 (low - 1) 7 m = (StoreTrap, m) \<and>
    (\<exists>m1 m2. std_store_impl S_u8 low 7 m = (StoreOk, m1) \<and> std_load_impl L_u8 low m1 = Some (LoadOk 7) \<and>
      read_memory_into low 1 m1 = Some (Inr [0]) \<and> std_store_impl S_u8 (low - 1) 7 m1 = (StoreOk, m2))"
proof -
  define hi where "hi = sm_stack_address_high m"
  note bounds = three_page_bounds [OF assms(1), folded low_def hi_def]
  define m1 where "m1 = stored_seven m"
  have m1: "sm_stack_address_low_resident m1 = hi - 0x4000" "v_bytes (sm_stack m1) = seven_at_the_bottom" "sm_stack_size m1 = 0x3000"
    "sm_stack_address_low m1 = low" "sm_aux_data_address m1 = sm_aux_data_address m"
    using assms(1) by (simp_all add: m1_def stored_seven_def grown_stack_def hi_def low_def three_page_stack_def)
  have le: "hi - 0x4000 \<le> low" "hi - 0x4000 \<le> low - 1" "\<not> sm_aux_data_address m \<le> low"
    unfolding word_le_nat_alt using bounds by linarith+
  have offset: "unat (low - (hi - 0x4000)) = 0x1000" "unat (low - 1 - (hi - 0x4000)) = 0xfff"
    using unat_offset [OF le(1)] unat_offset [OF le(2)] bounds by linarith+
  have "std_load_impl L_u8 low m1 = Some (LoadOk 7)"
    using seven_at_the_bottom(3) le offset m1 by (simp add: std_load_impl_def Let_def)
  moreover have "read_memory_into low 1 m1 = Some (Inr [0])"
    using le m1 seven_at_the_bottom(2) by (simp add: read_memory_into_def read_stack_def usize_sub_def slice_get_def Let_def)
  moreover obtain ws where "put_slice seven_at_the_bottom 0xfff [7] = Some ws"
    using put_slice_fits [of "0xfff" "[7]" seven_at_the_bottom] seven_at_the_bottom(2) by auto
  then have "\<exists>m2. std_store_impl S_u8 (low - 1) 7 m1 = (StoreOk, m2)"
    unfolding std_store_impl_def into_bytes_7 using le offset m1 by simp
  ultimately show ?thesis
    using guard_store_traps [OF assms(1)] bottom_store [OF assms(1)] unfolding low_def m1_def by blast
qed

text \<open>A memory for a program with a stack of three pages.\<close>

definition three_page_memory :: StandardMemory where
  "three_page_memory = StandardMemory_new\<lparr>
     sm_ro_data_address := 0x10000, sm_rw_data_address := 0x20000, sm_stack_size := 0x3000,
     sm_stack_address_low := 0xfffdd000, sm_stack_address_high := 0xfffe0000, sm_stack_address_low_resident := 0xfffe0000,
     sm_aux_data_address := 0xffff0000, sm_accessible_aux_size := 0\<rparr>"

theorem stack_overgrown_witness:
  "three_page_stack three_page_memory \<and> std_store_impl S_u8 0xfffdcfff 7 three_page_memory = (StoreTrap, three_page_memory) \<and>
    (\<exists>m1 m2. std_store_impl S_u8 0xfffdd000 7 three_page_memory = (StoreOk, m1) \<and>
      std_load_impl L_u8 0xfffdd000 m1 = Some (LoadOk 7) \<and> read_memory_into 0xfffdd000 1 m1 = Some (Inr [0]) \<and>
      std_store_impl S_u8 0xfffdcfff 7 m1 = (StoreOk, m2))"
proof -
  have ok: "three_page_stack three_page_memory"
    by (simp add: three_page_stack_def three_page_memory_def StandardMemory_new_def regions_ok_def resident_ok_def no_limits_def Vec_new_def)
  moreover have "sm_stack_address_low three_page_memory = 0xfffdd000" by (simp add: three_page_memory_def)
  ultimately show ?thesis using stack_overgrown [OF ok] by simp
qed

end
