(* ===== verification/Dyn_Memory.thy ===== *)
theory Dyn_Memory
  imports Memory_Life
begin

text \<open>
  The memory of a module with dynamic paging, \<open>DynamicMemory\<close> of \<open>crates/polkavm/src/interpreter.rs\<close>: pages that the host
  maps, protects and frees, the loop \<open>each_page\<close> over the pages of a range, the access of the host and the loads and
  stores of the guest. The ordered map of the pages is a list sorted by the address. The loop calls its callback with a
  state; \<open>None\<close> stands for a panic of the callback and for a loop that does not end.
\<close>

section \<open>Pages\<close>

record Page =
  pg_data :: bytes
  pg_is_read_only :: bool

definition Page_empty :: "u32 \<Rightarrow> Page" where
  "Page_empty ps = \<lparr>pg_data = replicate (unat ps) 0, pg_is_read_only = False\<rparr>"

type_synonym pages = "(u32 \<times> Page) list"

text \<open>The operations of \<open>BTreeMap\<close> that the memory uses.\<close>

fun pages_insert :: "u32 \<Rightarrow> Page \<Rightarrow> pages \<Rightarrow> pages" where
  "pages_insert k p [] = [(k, p)]"
| "pages_insert k p ((k', p') # ps) =
    (if k < k' then (k, p) # (k', p') # ps else if k = k' then (k, p) # ps else (k', p') # pages_insert k p ps)"

definition pages_remove :: "u32 \<Rightarrow> pages \<Rightarrow> pages" where
  "pages_remove k ps = filter (\<lambda>(k', _). k' \<noteq> k) ps"

definition pages_range :: "u32 \<Rightarrow> u32 \<Rightarrow> pages \<Rightarrow> pages" where
  "pages_range lo hi ps = filter (\<lambda>(k, _). lo \<le> k \<and> k \<le> hi) ps"

record DynamicMemory =
  dm_pages :: pages
  dm_page_size :: u32
  dm_page_size_mask :: u32

definition DynamicMemory_new :: DynamicMemory where
  "DynamicMemory_new = \<lparr>dm_pages = [], dm_page_size = 0, dm_page_size_mask = 0\<rparr>"

definition dm_clear :: "DynamicMemory \<Rightarrow> DynamicMemory" where
  "dm_clear m = m\<lparr>dm_pages := []\<rparr>"

definition dm_round_to_page_size_down :: "u32 \<Rightarrow> DynamicMemory \<Rightarrow> u32" where
  "dm_round_to_page_size_down value m = value AND NOT (dm_page_size_mask m)"

definition dm_is_multiple_of_page_size :: "u32 \<Rightarrow> DynamicMemory \<Rightarrow> bool" where
  "dm_is_multiple_of_page_size value m \<longleftrightarrow> value AND dm_page_size_mask m = 0"

definition to_page_address :: "u32 \<Rightarrow> u32 \<Rightarrow> DynamicMemory \<Rightarrow> u32 \<times> u32 \<times> u32" where
  "to_page_address address len m =
    (dm_page_size m, dm_round_to_page_size_down address m, dm_round_to_page_size_down (address + (len - 1)) m)"

definition dm_reset_memory :: "Module \<Rightarrow> DynamicMemory \<Rightarrow> DynamicMemory option" where
  "dm_reset_memory md m =
    (let m = dm_clear m; ps = page_size (m_memory_map md) in
     if ps = 0 then None
     else Some (m\<lparr>dm_page_size := ps, dm_page_size_mask := push_bit (bit_width (unat ps) - 1) 1 - 1\<rparr>))"

section \<open>The loop over the pages of a range\<close>

type_synonym ('e, 's) page_callback = "u32 \<Rightarrow> nat \<Rightarrow> nat \<Rightarrow> nat \<Rightarrow> 's \<Rightarrow> (('e + unit) \<times> 's) option"

partial_function (option) each_page_loop ::
  "nat \<Rightarrow> u64 \<Rightarrow> u64 \<Rightarrow> nat \<Rightarrow> ('e, 's) page_callback \<Rightarrow> 's \<Rightarrow> (('e + u64 \<times> nat) \<times> 's) option" where
  "each_page_loop ps page_address_lo page_address_hi buffer_offset callback s =
    (if page_address_lo < page_address_hi then
       Option.bind (callback (ucast page_address_lo) 0 buffer_offset ps s) (\<lambda>(r, s).
       case r of
         Inl e \<Rightarrow> Some (Inl e, s)
       | Inr _ \<Rightarrow> each_page_loop ps (page_address_lo + word_of_nat ps) page_address_hi (buffer_offset + ps) callback s)
     else Some (Inr (page_address_lo, buffer_offset), s))"

definition each_page_impl ::
  "u32 \<Rightarrow> u32 \<Rightarrow> u32 \<Rightarrow> u32 \<Rightarrow> u32 \<Rightarrow> ('e, 's) page_callback \<Rightarrow> 's \<Rightarrow> (('e + unit) \<times> 's) option" where
  "each_page_impl ps page_address_lo page_address_hi address len callback s =
    (let psz = unat ps; n = unat len;
         initial_page_offset = usize_sub (unat address) (unat page_address_lo);
         initial_chunk_length = min n (usize_sub psz initial_page_offset)
     in Option.bind (callback page_address_lo initial_page_offset 0 initial_chunk_length s) (\<lambda>(r, s).
        case r of
          Inl e \<Rightarrow> Some (Inl e, s)
        | Inr _ \<Rightarrow>
            if page_address_lo = page_address_hi then Some (Inr (), s)
            else
              Option.bind (each_page_loop psz (ucast page_address_lo + word_of_nat psz) (ucast page_address_hi)
                initial_chunk_length callback s) (\<lambda>(r, s).
              case r of
                Inl e \<Rightarrow> Some (Inl e, s)
              | Inr (page_address_lo, buffer_offset) \<Rightarrow>
                  callback (ucast page_address_lo) 0 buffer_offset (usize_sub n buffer_offset) s)))"

definition each_page ::
  "u32 \<times> u32 \<times> u32 \<Rightarrow> u32 \<Rightarrow> u32 \<Rightarrow> ('e, 's) page_callback \<Rightarrow> 's \<Rightarrow> (('e + unit) \<times> 's) option" where
  "each_page pgs address len callback s = (case pgs of (ps, lo, hi) \<Rightarrow> each_page_impl ps lo hi address len callback s)"

section \<open>Access by the host\<close>

datatype MemoryProtection = Read | ReadWrite

definition dm_is_memory_accessible :: "u32 \<Rightarrow> u32 \<Rightarrow> MemoryProtection \<Rightarrow> DynamicMemory \<Rightarrow> bool option" where
  "dm_is_memory_accessible address sz minimum_protection m =
    map_option (\<lambda>(r, _). case r of Inl _ \<Rightarrow> False | Inr _ \<Rightarrow> True)
      (each_page (to_page_address address sz m) address sz (\<lambda>page_address _ _ _ s.
        case map_of (dm_pages m) page_address of
          Some page \<Rightarrow>
            (case minimum_protection of
               ReadWrite \<Rightarrow> if pg_is_read_only page then Some (Inl (), s) else Some (Inr (), s)
             | Read \<Rightarrow> Some (Inr (), s))
        | None \<Rightarrow> Some (Inl (), s)) ())"

definition dm_read_memory_into :: "u32 \<Rightarrow> nat \<Rightarrow> DynamicMemory \<Rightarrow> (MemoryAccessError + bytes) option" where
  "dm_read_memory_into address n m =
    map_option (\<lambda>(r, buffer). case r of Inl e \<Rightarrow> Inl e | Inr _ \<Rightarrow> Inr buffer)
      (each_page (to_page_address address (word_of_nat n) m) address (word_of_nat n)
        (\<lambda>page_address page_offset buffer_offset len buffer.
          if \<not> (buffer_offset + len \<le> n \<and> page_offset + len \<le> unat (dm_page_size m)) then None
          else
            (case map_of (dm_pages m) page_address of
               Some page \<Rightarrow>
                 Option.bind (slice_get (pg_data page) page_offset (page_offset + len)) (\<lambda>src.
                 map_option (\<lambda>buffer. (Inr (), buffer)) (put_slice buffer buffer_offset src))
             | None \<Rightarrow> Some (Inl (OutOfRangeAccess (page_address + word_of_nat page_offset) len), buffer)))
        (replicate n 0))"

definition dm_write_memory :: "u32 \<Rightarrow> bytes \<Rightarrow> DynamicMemory \<Rightarrow> ((MemoryAccessError + unit) \<times> DynamicMemory) option" where
  "dm_write_memory address data m =
    Option.bind (dm_is_memory_accessible address (word_of_nat (length data)) ReadWrite m) (\<lambda>accessible.
    if \<not> accessible then Some (Inl (OutOfRangeAccess address (length data)), m)
    else
      Option.bind (each_page (to_page_address address (word_of_nat (length data)) m) address (word_of_nat (length data))
        (\<lambda>page_address page_offset buffer_offset len pgs.
          let page = (case map_of pgs page_address of Some page \<Rightarrow> page | None \<Rightarrow> Page_empty (dm_page_size m)) in
          Option.bind (slice_get data buffer_offset (buffer_offset + len)) (\<lambda>src.
          Option.bind (put_slice (pg_data page) page_offset src) (\<lambda>bs.
          Some (Inr (), pages_insert page_address (page\<lparr>pg_data := bs\<rparr>) pgs))))
        (dm_pages m)) (\<lambda>(r, pgs).
      case r of
        Inl () \<Rightarrow> None
      | Inr _ \<Rightarrow> Some (Inr (), m\<lparr>dm_pages := pgs\<rparr>)))"

definition dm_zero_memory ::
  "u32 \<Rightarrow> u32 \<Rightarrow> MemoryProtection option \<Rightarrow> DynamicMemory \<Rightarrow> ((MemoryAccessError + unit) \<times> DynamicMemory) option" where
  "dm_zero_memory address len memory_protection m =
    Option.bind (if memory_protection \<noteq> None then Some True else dm_is_memory_accessible address len ReadWrite m) (\<lambda>accessible.
    if \<not> accessible then Some (Inl (OutOfRangeAccess address (unat len)), m)
    else
      let is_read_only = map_option (\<lambda>prot. case prot of Read \<Rightarrow> True | ReadWrite \<Rightarrow> False) memory_protection;
          protect = (\<lambda>page. case is_read_only of Some b \<Rightarrow> page\<lparr>pg_is_read_only := b\<rparr> | None \<Rightarrow> page)
      in
      Option.bind (each_page (to_page_address address len m) address len
        (\<lambda>page_address page_offset _ len pgs.
          case map_of pgs page_address of
            Some page \<Rightarrow>
              Option.bind (put_slice (pg_data page) page_offset (replicate len 0)) (\<lambda>bs.
              Some (Inr (), pages_insert page_address (protect (page\<lparr>pg_data := bs\<rparr>)) pgs))
          | None \<Rightarrow> Some (Inr (), pages_insert page_address (protect (Page_empty (dm_page_size m))) pgs))
        (dm_pages m)) (\<lambda>(r, pgs).
      case r of
        Inl () \<Rightarrow> None
      | Inr _ \<Rightarrow> Some (Inr (), m\<lparr>dm_pages := pgs\<rparr>)))"

definition dm_change_memory_protection ::
  "u32 \<Rightarrow> u32 \<Rightarrow> MemoryProtection \<Rightarrow> DynamicMemory \<Rightarrow> ((MemoryAccessError + unit) \<times> DynamicMemory) option" where
  "dm_change_memory_protection address len protection m =
    map_option (\<lambda>(r, pgs). (r, m\<lparr>dm_pages := pgs\<rparr>))
      (each_page (to_page_address address len m) address len
        (\<lambda>page_address page_offset _ len pgs.
          case map_of pgs page_address of
            Some page \<Rightarrow>
              Some (Inr (), pages_insert page_address
                (page\<lparr>pg_is_read_only := (case protection of Read \<Rightarrow> True | ReadWrite \<Rightarrow> False)\<rparr>) pgs)
          | None \<Rightarrow> Some (Inl (OutOfRangeAccess (page_address + word_of_nat page_offset) len), pgs))
        (dm_pages m))"

definition dm_free_pages :: "u32 \<Rightarrow> u32 \<Rightarrow> DynamicMemory \<Rightarrow> DynamicMemory option" where
  "dm_free_pages address len m =
    Option.bind (each_page (to_page_address address len m) address len
      (\<lambda>page_address _ _ _ pgs. Some (Inr (), pages_remove page_address pgs)) (dm_pages m)) (\<lambda>(r, pgs).
    case r of
      Inl () \<Rightarrow> None
    | Inr _ \<Rightarrow> Some (m\<lparr>dm_pages := pgs\<rparr>))"

section \<open>Loads and stores of the guest\<close>

definition dm_load_impl :: "LoadTy \<Rightarrow> u32 \<Rightarrow> DynamicMemory \<Rightarrow> LoadOutcome option" where
  "dm_load_impl ty address m =
    (case checked_add address (word_of_nat (load_size ty)) of
       None \<Rightarrow>
         (let page_address = dm_round_to_page_size_down 0xffffffff m in
          if map_of (dm_pages m) page_address \<noteq> None then Some LoadTrap else Some (LoadSegfault page_address False))
     | Some address_end \<Rightarrow>
         let page_address_lo = dm_round_to_page_size_down address m;
             page_address_hi = dm_round_to_page_size_down (address_end - 1) m
         in if page_address_lo = page_address_hi then
              (case map_of (dm_pages m) page_address_lo of
                 Some page \<Rightarrow>
                   let offset = usize_sub (unat address) (unat page_address_lo) in
                   map_option (\<lambda>bs. LoadOk (from_slice ty bs)) (slice_get (pg_data page) offset (offset + load_size ty))
               | None \<Rightarrow> Some (LoadSegfault page_address_lo False))
            else
              (case pages_range page_address_lo page_address_hi (dm_pages m) of
                 (_, lo) # (_, hi) # _ \<Rightarrow>
                   let psz = unat (dm_page_size m);
                       lo_len = usize_sub (unat page_address_hi) (unat address);
                       hi_len = usize_sub (load_size ty) lo_len
                   in Option.bind (slice_get (pg_data lo) (usize_sub psz lo_len) (length (pg_data lo))) (\<lambda>lo_bytes.
                      Option.bind (slice_get (pg_data hi) 0 hi_len) (\<lambda>hi_bytes.
                      if length lo_bytes = lo_len \<and> lo_len \<le> load_size ty
                      then Some (LoadOk (from_slice ty (lo_bytes @ hi_bytes))) else None))
               | [] \<Rightarrow> Some (LoadSegfault page_address_lo False)
               | [(page_address, _)] \<Rightarrow>
                   Some (LoadSegfault (if page_address = page_address_lo then page_address_hi else page_address_lo) False)))"

definition dm_store_impl :: "StoreTy \<Rightarrow> u32 \<Rightarrow> u64 \<Rightarrow> DynamicMemory \<Rightarrow> (StoreOutcome \<times> DynamicMemory) option" where
  "dm_store_impl ty address value m =
    (case checked_add address (word_of_nat (store_size ty)) of
       None \<Rightarrow>
         (let page_address = dm_round_to_page_size_down 0xffffffff m in
          if map_of (dm_pages m) page_address \<noteq> None then Some (StoreTrap, m) else Some (StoreSegfault page_address False, m))
     | Some address_end \<Rightarrow>
         let page_address_lo = dm_round_to_page_size_down address m;
             page_address_hi = dm_round_to_page_size_down (address_end - 1) m;
             bytes = into_bytes ty value;
             replace = (\<lambda>k page bs m. m\<lparr>dm_pages := pages_insert k (page\<lparr>pg_data := bs\<rparr>) (dm_pages m)\<rparr>)
         in if page_address_lo = page_address_hi then
              (case map_of (dm_pages m) page_address_lo of
                 Some page \<Rightarrow>
                   if pg_is_read_only page then Some (StoreSegfault page_address_lo True, m)
                   else
                     let offset = usize_sub (unat address) (unat page_address_lo) in
                     map_option (\<lambda>bs. (StoreOk, replace page_address_lo page bs m)) (put_slice (pg_data page) offset bytes)
               | None \<Rightarrow> Some (StoreSegfault page_address_lo False, m))
            else
              (case pages_range page_address_lo page_address_hi (dm_pages m) of
                 (k_lo, lo) # (k_hi, hi) # _ \<Rightarrow>
                   if pg_is_read_only lo \<or> pg_is_read_only hi then
                     Some (StoreSegfault (if pg_is_read_only lo then page_address_lo else page_address_hi) True, m)
                   else
                     let psz = unat (dm_page_size m);
                         lo_len = usize_sub (unat page_address_hi) (unat address);
                         hi_len = usize_sub (length bytes) lo_len
                     in Option.bind (slice_get bytes 0 lo_len) (\<lambda>lo_bytes.
                        Option.bind (slice_get bytes lo_len (length bytes)) (\<lambda>hi_bytes.
                        if usize_sub psz lo_len + lo_len \<noteq> length (pg_data lo) then None
                        else
                          Option.bind (put_slice (pg_data lo) (usize_sub psz lo_len) lo_bytes) (\<lambda>lo_data.
                          Option.bind (put_slice (pg_data hi) 0 hi_bytes) (\<lambda>hi_data.
                          if length hi_bytes = hi_len
                          then Some (StoreOk, replace k_hi hi hi_data (replace k_lo lo lo_data m)) else None))))
               | [] \<Rightarrow> Some (StoreSegfault page_address_lo False, m)
               | [(page_address, _)] \<Rightarrow>
                   Some (StoreSegfault (if page_address = page_address_lo then page_address_hi else page_address_lo) False, m)))"

end
