(* ===== verification/Flat_Map.thy ===== *)
theory Flat_Map
  imports Prelude
begin

text \<open>
  The map from small keys to values that the interpreter keeps from program counters to compiled code, \<open>FlatMap\<close> of
  \<open>crates/polkavm/src/utils.rs\<close>: a vector of options whose allocation may be put off until the first insertion. The capacity of
  the vector decides about the allocation and is part of the state. \<open>None\<close> stands for the panic of an index out of range.
\<close>

record 'a FlatMap =
  fm_inner :: "'a option list"
  fm_capacity :: nat
  fm_desired_capacity :: u32

definition FlatMap_new :: "bool \<Rightarrow> u32 \<Rightarrow> 'a FlatMap" where
  "FlatMap_new lazy_allocation capacity =
    \<lparr>fm_inner = (if lazy_allocation then [] else replicate (unat capacity) None),
     fm_capacity = (if lazy_allocation then 0 else unat capacity), fm_desired_capacity = capacity\<rparr>"

definition FlatMap_get :: "u32 \<Rightarrow> 'a FlatMap \<Rightarrow> 'a option" where
  "FlatMap_get key m = (if unat key < length (fm_inner m) then fm_inner m ! unat key else None)"

definition FlatMap_len :: "'a FlatMap \<Rightarrow> u32" where
  "FlatMap_len m = word_of_nat (length (fm_inner m))"

definition allocate_capacity :: "'a FlatMap \<Rightarrow> 'a FlatMap" where
  "allocate_capacity m =
    (let n = unat (fm_desired_capacity m) in
     m\<lparr>fm_inner := take n (fm_inner m) @ replicate (n - length (fm_inner m)) None, fm_capacity := max n (fm_capacity m)\<rparr>)"

definition FlatMap_insert :: "u32 \<Rightarrow> 'a \<Rightarrow> 'a FlatMap \<Rightarrow> 'a FlatMap option" where
  "FlatMap_insert key x m =
    (let m = (if fm_capacity m = 0 then allocate_capacity m else m) in
     if unat key < length (fm_inner m) then Some (m\<lparr>fm_inner := (fm_inner m)[unat key := Some x]\<rparr>) else None)"

definition FlatMap_clear :: "'a FlatMap \<Rightarrow> 'a FlatMap" where
  "FlatMap_clear m = m\<lparr>fm_inner := []\<rparr>"

definition FlatMap_reset :: "'a FlatMap \<Rightarrow> 'a FlatMap" where
  "FlatMap_reset m = m\<lparr>fm_inner := [], fm_capacity := 0\<rparr>"

definition FlatMap_new_reusing_memory :: "'a FlatMap \<Rightarrow> u32 \<Rightarrow> 'a FlatMap" where
  "FlatMap_new_reusing_memory memory capacity =
    memory\<lparr>fm_inner := replicate (unat capacity) None, fm_capacity := max (unat capacity) (fm_capacity memory),
      fm_desired_capacity := capacity\<rparr>"

section \<open>A map that is fully allocated or not at all\<close>

definition flat_ok :: "'a FlatMap \<Rightarrow> bool" where
  "flat_ok m \<longleftrightarrow> fm_inner m = [] \<and> fm_capacity m = 0 \<or>
    fm_capacity m \<noteq> 0 \<and> length (fm_inner m) = unat (fm_desired_capacity m)"

lemma flat_ok_new [simp]: "flat_ok (FlatMap_new lazy capacity)" "FlatMap_get k (FlatMap_new lazy capacity) = None"
  by (auto simp: flat_ok_def FlatMap_new_def FlatMap_get_def)

lemma flat_ok_reset [simp]: "flat_ok (FlatMap_reset m)" "FlatMap_get k (FlatMap_reset m) = None"
  "fm_desired_capacity (FlatMap_reset m) = fm_desired_capacity m"
  by (auto simp: flat_ok_def FlatMap_reset_def FlatMap_get_def)

lemma FlatMap_insert_ok:
  assumes "flat_ok m" "key < fm_desired_capacity m"
  obtains m' where "FlatMap_insert key x m = Some m'" "flat_ok m'" "fm_desired_capacity m' = fm_desired_capacity m"
    "\<And>k. FlatMap_get k m' = (if k = key then Some x else FlatMap_get k m)"
proof -
  define a where "a = (if fm_capacity m = 0 then allocate_capacity m else m)"
  have a: "length (fm_inner a) = unat (fm_desired_capacity m)" "fm_capacity a \<noteq> 0" "fm_desired_capacity a = fm_desired_capacity m"
    "FlatMap_get k a = FlatMap_get k m" for k
    using assms by (auto simp: a_def allocate_capacity_def flat_ok_def FlatMap_get_def Let_def word_less_nat_alt)
  have key: "unat key < length (fm_inner a)" using assms(2) a(1) by (simp add: word_less_nat_alt)
  define m' where "m' = a\<lparr>fm_inner := (fm_inner a)[unat key := Some x]\<rparr>"
  have "FlatMap_insert key x m = Some m'" using key by (simp add: FlatMap_insert_def a_def [symmetric] m'_def Let_def)
  moreover have "flat_ok m'" "fm_desired_capacity m' = fm_desired_capacity m" using a by (simp_all add: flat_ok_def m'_def)
  moreover have "FlatMap_get k m' = (if k = key then Some x else FlatMap_get k m)" for k
    using key a(4) [of k] by (auto simp: m'_def FlatMap_get_def nth_list_update word_unat_eq_iff)
  ultimately show thesis using that by blast
qed

end
