(* ===== verification/Interp_State.thy ===== *)
theory Interp_State
  imports Dyn_Memory Flat_Map Operation
begin

text \<open>
  The state of the interpreter, \<open>InterpretedInstance\<close> of \<open>crates/polkavm/src/interpreter.rs\<close>, with the access to the
  registers, the helpers of the handlers, and the arguments that a compiled handler finds beside it. The handlers are
  function pointers in the source; here they are names.
  The parameter \<open>DEBUG\<close> of the source is \<open>false\<close>: with it the handlers also write a log. The 64-bit registers and
  the gas are words whose signed value is the \<open>i64\<close> of the source.
\<close>

section \<open>Interrupts, arguments and handlers\<close>

record Segfault =
  sf_page_address :: u32
  sf_page_size :: u32
  sf_is_write_protected :: bool

datatype InterruptKind = IFinished | ITrap | IEcalli u32 | ISegfault Segfault | INotEnoughGas | IStep

datatype RegImm = RI_Reg Reg | RI_Imm u32

datatype MemoryKind = MEMORY_STANDARD | MEMORY_DYNAMIC

record Args =
  a0 :: u32
  a1 :: u32
  a2 :: u32
  a3 :: u32

text \<open>The handlers of the instructions carry the opcode. Where the source has a handler for 32 bits and one for 64 bits, the
  flag selects the latter; it is the width of the program for the others.\<close>

datatype h_control =
    H_charge_gas | H_step | H_reset_cache | H_fallthrough | H_trap | H_invalid_branch_trap | H_sbrk | H_ecalli
  | H_load_imm | H_load_imm64 | H_jump | H_jump_indirect | H_load_imm_and_jump | H_load_imm_and_jump_indirect
  | H_unresolved_jump | H_unresolved_load_imm_and_jump | H_unresolved_fallthrough

datatype Handler =
    H_control h_control
  | H_memset MemoryKind
  | H_reg_reg_reg bool op_reg_reg_reg
  | H_reg_reg_imm op_reg_reg_imm
  | H_reg_reg bool op_reg_reg
  | H_store_imm MemoryKind StoreTy
  | H_store_imm_indirect MemoryKind StoreTy
  | H_store_indirect MemoryKind StoreTy
  | H_store MemoryKind StoreTy
  | H_load MemoryKind LoadTy
  | H_load_indirect MemoryKind LoadTy
  | H_branch op_reg_reg_offset
  | H_branch_imm op_reg_imm_offset
  | H_unresolved_branch op_reg_reg_offset
  | H_unresolved_branch_imm op_reg_imm_offset

section \<open>The instance\<close>

record InterpretedInstance =
  vm_module :: Module
  vm_standard_memory :: StandardMemory
  vm_dynamic_memory :: DynamicMemory
  vm_regs :: "Reg \<Rightarrow> u64"
  vm_program_counter :: u32
  vm_program_counter_valid :: bool
  vm_charge_gas_on_entry :: bool
  vm_next_program_counter :: "u32 option"
  vm_next_program_counter_changed :: bool
  vm_gas :: u64
  vm_compiled_offset_for_block :: "u32 FlatMap"
  vm_compiled_handlers :: "Handler list"
  vm_compiled_args :: "Args list"
  vm_next_compiled_offset :: u32
  vm_interrupt :: InterruptKind
  vm_step_tracing :: bool
  vm_unresolved_program_counter :: "u32 option"
  vm_max_compiled_handlers :: "nat option"

abbreviation vm_is_64_bit :: "InterpretedInstance \<Rightarrow> bool" where
  "vm_is_64_bit v \<equiv> module_is_64_bit (vm_module v)"

type_synonym outcome = "u32 \<times> InterpretedInstance"

section \<open>Arguments\<close>

definition Args_default :: Args where
  "Args_default = \<lparr>a0 = 0, a1 = 0, a2 = 0, a3 = 0\<rparr>"

text \<open>The four words of a handler's arguments, in the order of the parameters. Two registers share the second word when there are five.\<close>

definition args1 :: "u32 \<Rightarrow> Args" where
  "args1 x0 = Args_default\<lparr>a0 := x0\<rparr>"

definition args2 :: "u32 \<Rightarrow> u32 \<Rightarrow> Args" where
  "args2 x0 x1 = Args_default\<lparr>a0 := x0, a1 := x1\<rparr>"

definition args3 :: "u32 \<Rightarrow> u32 \<Rightarrow> u32 \<Rightarrow> Args" where
  "args3 x0 x1 x2 = Args_default\<lparr>a0 := x0, a1 := x1, a2 := x2\<rparr>"

definition args4 :: "u32 \<Rightarrow> u32 \<Rightarrow> u32 \<Rightarrow> u32 \<Rightarrow> Args" where
  "args4 x0 x1 x2 x3 = Args_default\<lparr>a0 := x0, a1 := x1, a2 := x2, a3 := x3\<rparr>"

definition args_pc_reg_reg_imm_imm :: "u32 \<Rightarrow> Reg \<Rightarrow> Reg \<Rightarrow> u32 \<Rightarrow> u32 \<Rightarrow> Args" where
  "args_pc_reg_reg_imm_imm pc r1 r2 x3 x4 = args4 pc (Reg_to_u32 r1 OR push_bit 4 (Reg_to_u32 r2)) x3 x4"

text \<open>A word becomes a register again without a check; \<open>None\<close> stands for undefined behaviour.\<close>

definition transmute_reg :: "u32 \<Rightarrow> Reg option" where
  "transmute_reg value = from_raw value"

definition unpack_reg_reg :: "u32 \<Rightarrow> (Reg \<times> Reg) option" where
  "unpack_reg_reg w = Option.bind (transmute_reg (w AND 0xf)) (\<lambda>r1. map_option (Pair r1) (transmute_reg (drop_bit 4 w)))"

section \<open>Registers\<close>

definition reg :: "Reg \<Rightarrow> InterpretedInstance \<Rightarrow> u64" where
  "reg r v = (let value = vm_regs v r in if \<not> vm_is_64_bit v then value AND 0xffffffff else value)"

definition set_reg :: "Reg \<Rightarrow> u64 \<Rightarrow> InterpretedInstance \<Rightarrow> InterpretedInstance" where
  "set_reg r value v =
    v\<lparr>vm_regs := (vm_regs v)(r := if \<not> vm_is_64_bit v then scast (ucast value :: u32) else value)\<rparr>"

definition get_i32 :: "RegImm \<Rightarrow> InterpretedInstance \<Rightarrow> u32" where
  "get_i32 regimm v = (case regimm of RI_Reg r \<Rightarrow> ucast (vm_regs v r) | RI_Imm value \<Rightarrow> value)"

definition get_u32 :: "RegImm \<Rightarrow> InterpretedInstance \<Rightarrow> u32" where
  "get_u32 regimm v = get_i32 regimm v"

definition get_i64 :: "RegImm \<Rightarrow> InterpretedInstance \<Rightarrow> u64" where
  "get_i64 regimm v = (case regimm of RI_Reg r \<Rightarrow> vm_regs v r | RI_Imm value \<Rightarrow> scast value)"

definition get_u64 :: "RegImm \<Rightarrow> InterpretedInstance \<Rightarrow> u64" where
  "get_u64 regimm v = get_i64 regimm v"

definition set_i32 :: "Reg \<Rightarrow> u32 \<Rightarrow> InterpretedInstance \<Rightarrow> InterpretedInstance" where
  "set_i32 dst value v = v\<lparr>vm_regs := (vm_regs v)(dst := scast value)\<rparr>"

definition set_u32 :: "Reg \<Rightarrow> u32 \<Rightarrow> InterpretedInstance \<Rightarrow> InterpretedInstance" where
  "set_u32 dst value v = set_i32 dst value v"

definition set_i64 :: "Reg \<Rightarrow> u64 \<Rightarrow> InterpretedInstance \<Rightarrow> InterpretedInstance" where
  "set_i64 dst value v = v\<lparr>vm_regs := (vm_regs v)(dst := value)\<rparr>"

definition set_u64 :: "Reg \<Rightarrow> u64 \<Rightarrow> InterpretedInstance \<Rightarrow> InterpretedInstance" where
  "set_u64 dst value v = set_i64 dst value v"

section \<open>Helpers of the handlers\<close>

definition go_to_next_instruction :: "u32 \<Rightarrow> u32" where
  "go_to_next_instruction current = current + 1"

definition go_to_target :: "u32 \<Rightarrow> u32" where
  "go_to_target target = target"

definition Target_MAX :: u32 where
  "Target_MAX = 0xffffffff"

definition trigger_interrupt :: "InterruptKind \<Rightarrow> InterpretedInstance \<Rightarrow> outcome" where
  "trigger_interrupt interrupt v = (Target_MAX, v\<lparr>vm_interrupt := interrupt\<rparr>)"

definition set3_i32 :: "u32 \<Rightarrow> Reg \<Rightarrow> RegImm \<Rightarrow> RegImm \<Rightarrow> (u32 \<Rightarrow> u32 \<Rightarrow> u32) \<Rightarrow> InterpretedInstance \<Rightarrow> outcome" where
  "set3_i32 compiled_offset dst s1 s2 callback v =
    (let s1 = get_i32 s1 v; s2 = get_i32 s2 v in
     (go_to_next_instruction compiled_offset, set_i32 dst (callback s1 s2) v))"

definition set3_u32 :: "u32 \<Rightarrow> Reg \<Rightarrow> RegImm \<Rightarrow> RegImm \<Rightarrow> (u32 \<Rightarrow> u32 \<Rightarrow> u32) \<Rightarrow> InterpretedInstance \<Rightarrow> outcome" where
  "set3_u32 compiled_offset dst s1 s2 callback v = set3_i32 compiled_offset dst s1 s2 callback v"

definition set3_i64 :: "u32 \<Rightarrow> Reg \<Rightarrow> RegImm \<Rightarrow> RegImm \<Rightarrow> (u64 \<Rightarrow> u64 \<Rightarrow> u64) \<Rightarrow> InterpretedInstance \<Rightarrow> outcome" where
  "set3_i64 compiled_offset dst s1 s2 callback v =
    (let s1 = get_i64 s1 v; s2 = get_i64 s2 v in
     (go_to_next_instruction compiled_offset, set_i64 dst (callback s1 s2) v))"

definition set3_u64 :: "u32 \<Rightarrow> Reg \<Rightarrow> RegImm \<Rightarrow> RegImm \<Rightarrow> (u64 \<Rightarrow> u64 \<Rightarrow> u64) \<Rightarrow> InterpretedInstance \<Rightarrow> outcome" where
  "set3_u64 compiled_offset dst s1 s2 callback v = set3_i64 compiled_offset dst s1 s2 callback v"

definition branch_i :: "RegImm \<Rightarrow> RegImm \<Rightarrow> u32 \<Rightarrow> u32 \<Rightarrow> (u64 \<Rightarrow> u64 \<Rightarrow> bool) \<Rightarrow> InterpretedInstance \<Rightarrow> outcome" where
  "branch_i s1 s2 target_true target_false callback v =
    (let s1 = get_i64 s1 v; s2 = get_i64 s2 v; target = (if callback s1 s2 then target_true else target_false)
     in (go_to_target target, v))"

definition branch_u :: "RegImm \<Rightarrow> RegImm \<Rightarrow> u32 \<Rightarrow> u32 \<Rightarrow> (u64 \<Rightarrow> u64 \<Rightarrow> bool) \<Rightarrow> InterpretedInstance \<Rightarrow> outcome" where
  "branch_u s1 s2 target_true target_false callback v =
    (let s1 = get_u64 s1 v; s2 = get_u64 s2 v; target = (if callback s1 s2 then target_true else target_false)
     in (go_to_target target, v))"

definition trap_impl :: "u32 \<Rightarrow> InterpretedInstance \<Rightarrow> outcome" where
  "trap_impl pc v =
    trigger_interrupt ITrap (v\<lparr>vm_program_counter := pc, vm_program_counter_valid := True,
      vm_next_program_counter := None, vm_next_program_counter_changed := True, vm_unresolved_program_counter := None\<rparr>)"

definition segfault_impl :: "u32 \<Rightarrow> u32 \<Rightarrow> u32 \<Rightarrow> bool \<Rightarrow> InterpretedInstance \<Rightarrow> outcome" where
  "segfault_impl compiled_offset pc page_address is_write_protected v =
    (if page_address < 0x10000 then trap_impl pc v
     else
       let v = v\<lparr>vm_program_counter := pc, vm_program_counter_valid := True,
         vm_next_program_counter := Some pc, vm_next_compiled_offset := compiled_offset\<rparr>
       in trigger_interrupt (ISegfault \<lparr>sf_page_address = page_address,
            sf_page_size = page_size (m_memory_map (vm_module v)), sf_is_write_protected = is_write_protected\<rparr>) v)"

section \<open>Loads and stores\<close>

definition on_load_ok :: "u32 \<Rightarrow> Reg \<Rightarrow> u64 \<Rightarrow> InterpretedInstance \<Rightarrow> outcome" where
  "on_load_ok compiled_offset dst value v = (go_to_next_instruction compiled_offset, set_i64 dst value v)"

definition on_load_trap :: "InterpretedInstance \<Rightarrow> outcome" where
  "on_load_trap v = trap_impl (vm_program_counter v) v"

definition on_load_segfault :: "u32 \<Rightarrow> u32 \<Rightarrow> bool \<Rightarrow> InterpretedInstance \<Rightarrow> outcome" where
  "on_load_segfault compiled_offset page_address is_write_protected v =
    segfault_impl compiled_offset (vm_program_counter v) page_address is_write_protected v"

definition load_impl :: "MemoryKind \<Rightarrow> LoadTy \<Rightarrow> u32 \<Rightarrow> Reg \<Rightarrow> u32 \<Rightarrow> InterpretedInstance \<Rightarrow> outcome option" where
  "load_impl memory_kind ty compiled_offset dst address v =
    map_option (\<lambda>r. case r of
        LoadOk value \<Rightarrow> on_load_ok compiled_offset dst value v
      | LoadTrap \<Rightarrow> on_load_trap v
      | LoadSegfault page_address is_write_protected \<Rightarrow> on_load_segfault compiled_offset page_address is_write_protected v)
     (case memory_kind of
        MEMORY_STANDARD \<Rightarrow> std_load_impl ty address (vm_standard_memory v)
      | MEMORY_DYNAMIC \<Rightarrow> dm_load_impl ty address (vm_dynamic_memory v))"

definition access_address :: "Reg option \<Rightarrow> u32 \<Rightarrow> InterpretedInstance \<Rightarrow> u32" where
  "access_address base offset v = ucast ((case base of None \<Rightarrow> 0 | Some r \<Rightarrow> vm_regs v r) + scast offset)"

definition vm_load ::
  "MemoryKind \<Rightarrow> LoadTy \<Rightarrow> u32 \<Rightarrow> u32 \<Rightarrow> Reg \<Rightarrow> Reg option \<Rightarrow> u32 \<Rightarrow> InterpretedInstance \<Rightarrow> outcome option" where
  "vm_load memory_kind ty compiled_offset pc dst base offset v =
    (let v = v\<lparr>vm_program_counter := pc\<rparr> in
     load_impl memory_kind ty compiled_offset dst (access_address base offset v) v)"

definition on_store_ok :: "u32 \<Rightarrow> InterpretedInstance \<Rightarrow> outcome" where
  "on_store_ok compiled_offset v = (go_to_next_instruction compiled_offset, v)"

definition on_store_trap :: "InterpretedInstance \<Rightarrow> outcome" where
  "on_store_trap v = trap_impl (vm_program_counter v) v"

definition on_store_trap_due_to_memory_limit :: "InterpretedInstance \<Rightarrow> outcome" where
  "on_store_trap_due_to_memory_limit v = trap_impl (vm_program_counter v) v"

definition on_store_segfault :: "u32 \<Rightarrow> u32 \<Rightarrow> bool \<Rightarrow> InterpretedInstance \<Rightarrow> outcome" where
  "on_store_segfault compiled_offset page_address is_write_protected v =
    segfault_impl compiled_offset (vm_program_counter v) page_address is_write_protected v"

definition store_impl :: "MemoryKind \<Rightarrow> StoreTy \<Rightarrow> u32 \<Rightarrow> u32 \<Rightarrow> u64 \<Rightarrow> InterpretedInstance \<Rightarrow> outcome option" where
  "store_impl memory_kind ty compiled_offset address value v =
    map_option (\<lambda>(r, v). case r of
        StoreOk \<Rightarrow> on_store_ok compiled_offset v
      | StoreTrap \<Rightarrow> on_store_trap v
      | StoreTrapDueToMemoryLimit \<Rightarrow> on_store_trap_due_to_memory_limit v
      | StoreSegfault page_address is_write_protected \<Rightarrow> on_store_segfault compiled_offset page_address is_write_protected v)
     (case memory_kind of
        MEMORY_STANDARD \<Rightarrow>
          (case std_store_impl ty address value (vm_standard_memory v) of (r, m) \<Rightarrow> Some (r, v\<lparr>vm_standard_memory := m\<rparr>))
      | MEMORY_DYNAMIC \<Rightarrow>
          map_option (\<lambda>(r, m). (r, v\<lparr>vm_dynamic_memory := m\<rparr>)) (dm_store_impl ty address value (vm_dynamic_memory v)))"

definition vm_store ::
  "MemoryKind \<Rightarrow> StoreTy \<Rightarrow> u32 \<Rightarrow> u32 \<Rightarrow> RegImm \<Rightarrow> Reg option \<Rightarrow> u32 \<Rightarrow> InterpretedInstance \<Rightarrow> outcome option" where
  "vm_store memory_kind ty compiled_offset pc src base offset v =
    (let v = v\<lparr>vm_program_counter := pc\<rparr>;
         address = access_address base offset v;
         value = (case src of RI_Reg r \<Rightarrow> vm_regs v r | RI_Imm value \<Rightarrow> scast value)
     in store_impl memory_kind ty compiled_offset address value v)"

section \<open>Compiled positions\<close>

text \<open>The map from program counters holds an index into the handlers with a bit that tells whether the position may be jumped to,
  plus one; \<open>None\<close> is the panic when that is zero.\<close>

definition pack_target :: "nat \<Rightarrow> bool \<Rightarrow> u32 option" where
  "pack_target index valid =
    (let i = word_of_nat index :: u32;
         i = (if valid then i OR push_bit 31 1 else i)
     in if i + 1 = 0 then None else Some (i + 1))"

definition unpack_target :: "u32 \<Rightarrow> bool \<times> u32" where
  "unpack_target packed =
    (let value = packed - 1 in (drop_bit 31 value = 1, drop_bit 1 (push_bit 1 value)))"

end
