(* ===== verification/Interp_Alu.thy ===== *)
theory Interp_Alu
  imports Interp_State
begin

text \<open>
  The handlers that compute a register from registers and immediates, one definition for each handler of
  \<open>define_interpreter!\<close> in \<open>crates/polkavm/src/interpreter.rs\<close>, in the order of the source, and their selection by the name of a handler.
  None of them panics. The lemmas give the shape they share: one register is written and the next handler follows.
\<close>

named_theorems handlers \<open>definitions of the handlers\<close>

section \<open>Operations of the standard library\<close>

definition smax :: "'a::len word \<Rightarrow> 'a word \<Rightarrow> 'a word" where
  "smax a b = (if sint a \<le> sint b then b else a)"

definition smin :: "'a::len word \<Rightarrow> 'a word \<Rightarrow> 'a word" where
  "smin a b = (if sint a \<le> sint b then a else b)"

definition swap_bytes :: "'a::len word \<Rightarrow> 'a word" where
  "swap_bytes w = from_le_bytes (rev (le_bytes (LENGTH('a) div 8) w))"

section \<open>Handlers\<close>

definition run_set_less_than_unsigned :: "u32 \<Rightarrow> Reg \<Rightarrow> Reg \<Rightarrow> Reg \<Rightarrow> InterpretedInstance \<Rightarrow> outcome" where [handlers]:
  "run_set_less_than_unsigned compiled_offset d s1 s2 v =
    set3_u64 compiled_offset d (RI_Reg s1) (RI_Reg s2) (\<lambda>s1 s2. of_bool (s1 < s2)) v"

definition run_set_less_than_signed :: "u32 \<Rightarrow> Reg \<Rightarrow> Reg \<Rightarrow> Reg \<Rightarrow> InterpretedInstance \<Rightarrow> outcome" where [handlers]:
  "run_set_less_than_signed compiled_offset d s1 s2 v =
    set3_i64 compiled_offset d (RI_Reg s1) (RI_Reg s2) (\<lambda>s1 s2. of_bool (sint s1 < sint s2)) v"

definition run_shift_logical_right_32 :: "u32 \<Rightarrow> Reg \<Rightarrow> Reg \<Rightarrow> Reg \<Rightarrow> InterpretedInstance \<Rightarrow> outcome" where [handlers]:
  "run_shift_logical_right_32 compiled_offset d s1 s2 v =
    set3_u32 compiled_offset d (RI_Reg s1) (RI_Reg s2) (\<lambda>s1 s2. wrapping_shr s1 (unat s2)) v"

definition run_shift_logical_right_64 :: "u32 \<Rightarrow> Reg \<Rightarrow> Reg \<Rightarrow> Reg \<Rightarrow> InterpretedInstance \<Rightarrow> outcome" where [handlers]:
  "run_shift_logical_right_64 compiled_offset d s1 s2 v =
    set3_u64 compiled_offset d (RI_Reg s1) (RI_Reg s2) (\<lambda>s1 s2. wrapping_shr s1 (unat (ucast s2 :: u32))) v"

definition run_shift_arithmetic_right_32 :: "u32 \<Rightarrow> Reg \<Rightarrow> Reg \<Rightarrow> Reg \<Rightarrow> InterpretedInstance \<Rightarrow> outcome" where [handlers]:
  "run_shift_arithmetic_right_32 compiled_offset d s1 s2 v =
    set3_i32 compiled_offset d (RI_Reg s1) (RI_Reg s2) (\<lambda>s1 s2. wrapping_sar s1 (unat s2)) v"

definition run_shift_arithmetic_right_64 :: "u32 \<Rightarrow> Reg \<Rightarrow> Reg \<Rightarrow> Reg \<Rightarrow> InterpretedInstance \<Rightarrow> outcome" where [handlers]:
  "run_shift_arithmetic_right_64 compiled_offset d s1 s2 v =
    set3_i64 compiled_offset d (RI_Reg s1) (RI_Reg s2) (\<lambda>s1 s2. wrapping_sar s1 (unat (ucast s2 :: u32))) v"

definition run_shift_logical_left_32 :: "u32 \<Rightarrow> Reg \<Rightarrow> Reg \<Rightarrow> Reg \<Rightarrow> InterpretedInstance \<Rightarrow> outcome" where [handlers]:
  "run_shift_logical_left_32 compiled_offset d s1 s2 v =
    set3_u32 compiled_offset d (RI_Reg s1) (RI_Reg s2) (\<lambda>s1 s2. wrapping_shl s1 (unat s2)) v"

definition run_shift_logical_left_64 :: "u32 \<Rightarrow> Reg \<Rightarrow> Reg \<Rightarrow> Reg \<Rightarrow> InterpretedInstance \<Rightarrow> outcome" where [handlers]:
  "run_shift_logical_left_64 compiled_offset d s1 s2 v =
    set3_u64 compiled_offset d (RI_Reg s1) (RI_Reg s2) (\<lambda>s1 s2. wrapping_shl s1 (unat (ucast s2 :: u32))) v"

definition run_xor :: "u32 \<Rightarrow> Reg \<Rightarrow> Reg \<Rightarrow> Reg \<Rightarrow> InterpretedInstance \<Rightarrow> outcome" where [handlers]:
  "run_xor compiled_offset d s1 s2 v =
    set3_u64 compiled_offset d (RI_Reg s1) (RI_Reg s2) (\<lambda>s1 s2. s1 XOR s2) v"

definition run_and :: "u32 \<Rightarrow> Reg \<Rightarrow> Reg \<Rightarrow> Reg \<Rightarrow> InterpretedInstance \<Rightarrow> outcome" where [handlers]:
  "run_and compiled_offset d s1 s2 v =
    set3_u64 compiled_offset d (RI_Reg s1) (RI_Reg s2) (\<lambda>s1 s2. s1 AND s2) v"

definition run_or :: "u32 \<Rightarrow> Reg \<Rightarrow> Reg \<Rightarrow> Reg \<Rightarrow> InterpretedInstance \<Rightarrow> outcome" where [handlers]:
  "run_or compiled_offset d s1 s2 v =
    set3_u64 compiled_offset d (RI_Reg s1) (RI_Reg s2) (\<lambda>s1 s2. s1 OR s2) v"

definition run_add_32 :: "u32 \<Rightarrow> Reg \<Rightarrow> Reg \<Rightarrow> Reg \<Rightarrow> InterpretedInstance \<Rightarrow> outcome" where [handlers]:
  "run_add_32 compiled_offset d s1 s2 v =
    set3_u32 compiled_offset d (RI_Reg s1) (RI_Reg s2) (\<lambda>s1 s2. s1 + s2) v"

definition run_add_64 :: "u32 \<Rightarrow> Reg \<Rightarrow> Reg \<Rightarrow> Reg \<Rightarrow> InterpretedInstance \<Rightarrow> outcome" where [handlers]:
  "run_add_64 compiled_offset d s1 s2 v =
    set3_u64 compiled_offset d (RI_Reg s1) (RI_Reg s2) (\<lambda>s1 s2. s1 + s2) v"

definition run_sub_32 :: "u32 \<Rightarrow> Reg \<Rightarrow> Reg \<Rightarrow> Reg \<Rightarrow> InterpretedInstance \<Rightarrow> outcome" where [handlers]:
  "run_sub_32 compiled_offset d s1 s2 v =
    set3_u32 compiled_offset d (RI_Reg s1) (RI_Reg s2) (\<lambda>s1 s2. s1 - s2) v"

definition run_sub_64 :: "u32 \<Rightarrow> Reg \<Rightarrow> Reg \<Rightarrow> Reg \<Rightarrow> InterpretedInstance \<Rightarrow> outcome" where [handlers]:
  "run_sub_64 compiled_offset d s1 s2 v =
    set3_u64 compiled_offset d (RI_Reg s1) (RI_Reg s2) (\<lambda>s1 s2. s1 - s2) v"

definition run_negate_and_add_imm_32 :: "u32 \<Rightarrow> Reg \<Rightarrow> Reg \<Rightarrow> u32 \<Rightarrow> InterpretedInstance \<Rightarrow> outcome" where [handlers]:
  "run_negate_and_add_imm_32 compiled_offset d s1 s2 v =
    set3_i32 compiled_offset d (RI_Reg s1) (RI_Imm s2) (\<lambda>s1 s2. s2 - s1) v"

definition run_negate_and_add_imm_64 :: "u32 \<Rightarrow> Reg \<Rightarrow> Reg \<Rightarrow> u32 \<Rightarrow> InterpretedInstance \<Rightarrow> outcome" where [handlers]:
  "run_negate_and_add_imm_64 compiled_offset d s1 s2 v =
    set3_u64 compiled_offset d (RI_Reg s1) (RI_Imm s2) (\<lambda>s1 s2. s2 - s1) v"

definition run_mul_32 :: "u32 \<Rightarrow> Reg \<Rightarrow> Reg \<Rightarrow> Reg \<Rightarrow> InterpretedInstance \<Rightarrow> outcome" where [handlers]:
  "run_mul_32 compiled_offset d s1 s2 v =
    set3_u32 compiled_offset d (RI_Reg s1) (RI_Reg s2) (\<lambda>s1 s2. s1 * s2) v"

definition run_mul_64 :: "u32 \<Rightarrow> Reg \<Rightarrow> Reg \<Rightarrow> Reg \<Rightarrow> InterpretedInstance \<Rightarrow> outcome" where [handlers]:
  "run_mul_64 compiled_offset d s1 s2 v =
    set3_u64 compiled_offset d (RI_Reg s1) (RI_Reg s2) (\<lambda>s1 s2. s1 * s2) v"

definition run_mul_imm_32 :: "u32 \<Rightarrow> Reg \<Rightarrow> Reg \<Rightarrow> u32 \<Rightarrow> InterpretedInstance \<Rightarrow> outcome" where [handlers]:
  "run_mul_imm_32 compiled_offset d s1 s2 v =
    set3_u32 compiled_offset d (RI_Reg s1) (RI_Imm s2) (\<lambda>s1 s2. s1 * s2) v"

definition run_mul_imm_64 :: "u32 \<Rightarrow> Reg \<Rightarrow> Reg \<Rightarrow> u32 \<Rightarrow> InterpretedInstance \<Rightarrow> outcome" where [handlers]:
  "run_mul_imm_64 compiled_offset d s1 s2 v =
    set3_u64 compiled_offset d (RI_Reg s1) (RI_Imm s2) (\<lambda>s1 s2. s1 * s2) v"

definition run_mul_upper_signed_signed_32 :: "u32 \<Rightarrow> Reg \<Rightarrow> Reg \<Rightarrow> Reg \<Rightarrow> InterpretedInstance \<Rightarrow> outcome" where [handlers]:
  "run_mul_upper_signed_signed_32 compiled_offset d s1 s2 v =
    set3_i32 compiled_offset d (RI_Reg s1) (RI_Reg s2) mulh v"

definition run_mul_upper_signed_signed_64 :: "u32 \<Rightarrow> Reg \<Rightarrow> Reg \<Rightarrow> Reg \<Rightarrow> InterpretedInstance \<Rightarrow> outcome" where [handlers]:
  "run_mul_upper_signed_signed_64 compiled_offset d s1 s2 v =
    set3_i64 compiled_offset d (RI_Reg s1) (RI_Reg s2) mulh64 v"

definition run_mul_upper_unsigned_unsigned_32 :: "u32 \<Rightarrow> Reg \<Rightarrow> Reg \<Rightarrow> Reg \<Rightarrow> InterpretedInstance \<Rightarrow> outcome" where [handlers]:
  "run_mul_upper_unsigned_unsigned_32 compiled_offset d s1 s2 v =
    set3_u32 compiled_offset d (RI_Reg s1) (RI_Reg s2) mulhu v"

definition run_mul_upper_unsigned_unsigned_64 :: "u32 \<Rightarrow> Reg \<Rightarrow> Reg \<Rightarrow> Reg \<Rightarrow> InterpretedInstance \<Rightarrow> outcome" where [handlers]:
  "run_mul_upper_unsigned_unsigned_64 compiled_offset d s1 s2 v =
    set3_u64 compiled_offset d (RI_Reg s1) (RI_Reg s2) mulhu64 v"

definition run_mul_upper_signed_unsigned_32 :: "u32 \<Rightarrow> Reg \<Rightarrow> Reg \<Rightarrow> Reg \<Rightarrow> InterpretedInstance \<Rightarrow> outcome" where [handlers]:
  "run_mul_upper_signed_unsigned_32 compiled_offset d s1 s2 v =
    set3_u32 compiled_offset d (RI_Reg s1) (RI_Reg s2) (\<lambda>s1 s2. mulhsu s1 s2) v"

definition run_mul_upper_signed_unsigned_64 :: "u32 \<Rightarrow> Reg \<Rightarrow> Reg \<Rightarrow> Reg \<Rightarrow> InterpretedInstance \<Rightarrow> outcome" where [handlers]:
  "run_mul_upper_signed_unsigned_64 compiled_offset d s1 s2 v =
    set3_i64 compiled_offset d (RI_Reg s1) (RI_Reg s2) (\<lambda>s1 s2. mulhsu64 s1 s2) v"

definition run_div_unsigned_32 :: "u32 \<Rightarrow> Reg \<Rightarrow> Reg \<Rightarrow> Reg \<Rightarrow> InterpretedInstance \<Rightarrow> outcome" where [handlers]:
  "run_div_unsigned_32 compiled_offset d s1 s2 v =
    set3_u32 compiled_offset d (RI_Reg s1) (RI_Reg s2) divu v"

definition run_div_unsigned_64 :: "u32 \<Rightarrow> Reg \<Rightarrow> Reg \<Rightarrow> Reg \<Rightarrow> InterpretedInstance \<Rightarrow> outcome" where [handlers]:
  "run_div_unsigned_64 compiled_offset d s1 s2 v =
    set3_u64 compiled_offset d (RI_Reg s1) (RI_Reg s2) divu64 v"

definition run_div_signed_32 :: "u32 \<Rightarrow> Reg \<Rightarrow> Reg \<Rightarrow> Reg \<Rightarrow> InterpretedInstance \<Rightarrow> outcome" where [handlers]:
  "run_div_signed_32 compiled_offset d s1 s2 v =
    set3_i32 compiled_offset d (RI_Reg s1) (RI_Reg s2) div_i32 v"

definition run_div_signed_64 :: "u32 \<Rightarrow> Reg \<Rightarrow> Reg \<Rightarrow> Reg \<Rightarrow> InterpretedInstance \<Rightarrow> outcome" where [handlers]:
  "run_div_signed_64 compiled_offset d s1 s2 v =
    set3_i64 compiled_offset d (RI_Reg s1) (RI_Reg s2) div64 v"

definition run_rem_unsigned_32 :: "u32 \<Rightarrow> Reg \<Rightarrow> Reg \<Rightarrow> Reg \<Rightarrow> InterpretedInstance \<Rightarrow> outcome" where [handlers]:
  "run_rem_unsigned_32 compiled_offset d s1 s2 v =
    set3_u32 compiled_offset d (RI_Reg s1) (RI_Reg s2) remu v"

definition run_rem_unsigned_64 :: "u32 \<Rightarrow> Reg \<Rightarrow> Reg \<Rightarrow> Reg \<Rightarrow> InterpretedInstance \<Rightarrow> outcome" where [handlers]:
  "run_rem_unsigned_64 compiled_offset d s1 s2 v =
    set3_u64 compiled_offset d (RI_Reg s1) (RI_Reg s2) remu64 v"

definition run_rem_signed_32 :: "u32 \<Rightarrow> Reg \<Rightarrow> Reg \<Rightarrow> Reg \<Rightarrow> InterpretedInstance \<Rightarrow> outcome" where [handlers]:
  "run_rem_signed_32 compiled_offset d s1 s2 v =
    set3_i32 compiled_offset d (RI_Reg s1) (RI_Reg s2) rem_i32 v"

definition run_rem_signed_64 :: "u32 \<Rightarrow> Reg \<Rightarrow> Reg \<Rightarrow> Reg \<Rightarrow> InterpretedInstance \<Rightarrow> outcome" where [handlers]:
  "run_rem_signed_64 compiled_offset d s1 s2 v =
    set3_i64 compiled_offset d (RI_Reg s1) (RI_Reg s2) rem64 v"

definition run_and_inverted_32 :: "u32 \<Rightarrow> Reg \<Rightarrow> Reg \<Rightarrow> Reg \<Rightarrow> InterpretedInstance \<Rightarrow> outcome" where [handlers]:
  "run_and_inverted_32 compiled_offset d s1 s2 v =
    set3_u32 compiled_offset d (RI_Reg s1) (RI_Reg s2) (\<lambda>s1 s2. s1 AND NOT s2) v"

definition run_and_inverted_64 :: "u32 \<Rightarrow> Reg \<Rightarrow> Reg \<Rightarrow> Reg \<Rightarrow> InterpretedInstance \<Rightarrow> outcome" where [handlers]:
  "run_and_inverted_64 compiled_offset d s1 s2 v =
    set3_u64 compiled_offset d (RI_Reg s1) (RI_Reg s2) (\<lambda>s1 s2. s1 AND NOT s2) v"

definition run_or_inverted_32 :: "u32 \<Rightarrow> Reg \<Rightarrow> Reg \<Rightarrow> Reg \<Rightarrow> InterpretedInstance \<Rightarrow> outcome" where [handlers]:
  "run_or_inverted_32 compiled_offset d s1 s2 v =
    set3_u32 compiled_offset d (RI_Reg s1) (RI_Reg s2) (\<lambda>s1 s2. s1 OR NOT s2) v"

definition run_or_inverted_64 :: "u32 \<Rightarrow> Reg \<Rightarrow> Reg \<Rightarrow> Reg \<Rightarrow> InterpretedInstance \<Rightarrow> outcome" where [handlers]:
  "run_or_inverted_64 compiled_offset d s1 s2 v =
    set3_u64 compiled_offset d (RI_Reg s1) (RI_Reg s2) (\<lambda>s1 s2. s1 OR NOT s2) v"

definition run_xnor_32 :: "u32 \<Rightarrow> Reg \<Rightarrow> Reg \<Rightarrow> Reg \<Rightarrow> InterpretedInstance \<Rightarrow> outcome" where [handlers]:
  "run_xnor_32 compiled_offset d s1 s2 v =
    set3_u32 compiled_offset d (RI_Reg s1) (RI_Reg s2) (\<lambda>s1 s2. NOT (s1 XOR s2)) v"

definition run_xnor_64 :: "u32 \<Rightarrow> Reg \<Rightarrow> Reg \<Rightarrow> Reg \<Rightarrow> InterpretedInstance \<Rightarrow> outcome" where [handlers]:
  "run_xnor_64 compiled_offset d s1 s2 v =
    set3_u64 compiled_offset d (RI_Reg s1) (RI_Reg s2) (\<lambda>s1 s2. NOT (s1 XOR s2)) v"

definition run_maximum_32 :: "u32 \<Rightarrow> Reg \<Rightarrow> Reg \<Rightarrow> Reg \<Rightarrow> InterpretedInstance \<Rightarrow> outcome" where [handlers]:
  "run_maximum_32 compiled_offset d s1 s2 v =
    set3_i32 compiled_offset d (RI_Reg s1) (RI_Reg s2) smax v"

definition run_maximum_64 :: "u32 \<Rightarrow> Reg \<Rightarrow> Reg \<Rightarrow> Reg \<Rightarrow> InterpretedInstance \<Rightarrow> outcome" where [handlers]:
  "run_maximum_64 compiled_offset d s1 s2 v =
    set3_i64 compiled_offset d (RI_Reg s1) (RI_Reg s2) smax v"

definition run_maximum_unsigned_32 :: "u32 \<Rightarrow> Reg \<Rightarrow> Reg \<Rightarrow> Reg \<Rightarrow> InterpretedInstance \<Rightarrow> outcome" where [handlers]:
  "run_maximum_unsigned_32 compiled_offset d s1 s2 v =
    set3_u32 compiled_offset d (RI_Reg s1) (RI_Reg s2) max v"

definition run_maximum_unsigned_64 :: "u32 \<Rightarrow> Reg \<Rightarrow> Reg \<Rightarrow> Reg \<Rightarrow> InterpretedInstance \<Rightarrow> outcome" where [handlers]:
  "run_maximum_unsigned_64 compiled_offset d s1 s2 v =
    set3_u64 compiled_offset d (RI_Reg s1) (RI_Reg s2) max v"

definition run_minimum_32 :: "u32 \<Rightarrow> Reg \<Rightarrow> Reg \<Rightarrow> Reg \<Rightarrow> InterpretedInstance \<Rightarrow> outcome" where [handlers]:
  "run_minimum_32 compiled_offset d s1 s2 v =
    set3_i32 compiled_offset d (RI_Reg s1) (RI_Reg s2) smin v"

definition run_minimum_64 :: "u32 \<Rightarrow> Reg \<Rightarrow> Reg \<Rightarrow> Reg \<Rightarrow> InterpretedInstance \<Rightarrow> outcome" where [handlers]:
  "run_minimum_64 compiled_offset d s1 s2 v =
    set3_i64 compiled_offset d (RI_Reg s1) (RI_Reg s2) smin v"

definition run_minimum_unsigned_32 :: "u32 \<Rightarrow> Reg \<Rightarrow> Reg \<Rightarrow> Reg \<Rightarrow> InterpretedInstance \<Rightarrow> outcome" where [handlers]:
  "run_minimum_unsigned_32 compiled_offset d s1 s2 v =
    set3_u32 compiled_offset d (RI_Reg s1) (RI_Reg s2) min v"

definition run_minimum_unsigned_64 :: "u32 \<Rightarrow> Reg \<Rightarrow> Reg \<Rightarrow> Reg \<Rightarrow> InterpretedInstance \<Rightarrow> outcome" where [handlers]:
  "run_minimum_unsigned_64 compiled_offset d s1 s2 v =
    set3_u64 compiled_offset d (RI_Reg s1) (RI_Reg s2) min v"

definition run_rotate_left_32 :: "u32 \<Rightarrow> Reg \<Rightarrow> Reg \<Rightarrow> Reg \<Rightarrow> InterpretedInstance \<Rightarrow> outcome" where [handlers]:
  "run_rotate_left_32 compiled_offset d s1 s2 v =
    set3_u32 compiled_offset d (RI_Reg s1) (RI_Reg s2) (\<lambda>s1 s2. word_rotl (unat s2) s1) v"

definition run_rotate_left_64 :: "u32 \<Rightarrow> Reg \<Rightarrow> Reg \<Rightarrow> Reg \<Rightarrow> InterpretedInstance \<Rightarrow> outcome" where [handlers]:
  "run_rotate_left_64 compiled_offset d s1 s2 v =
    set3_u64 compiled_offset d (RI_Reg s1) (RI_Reg s2) (\<lambda>s1 s2. word_rotl (unat (ucast s2 :: u32)) s1) v"

definition run_rotate_right_32 :: "u32 \<Rightarrow> Reg \<Rightarrow> Reg \<Rightarrow> Reg \<Rightarrow> InterpretedInstance \<Rightarrow> outcome" where [handlers]:
  "run_rotate_right_32 compiled_offset d s1 s2 v =
    set3_u32 compiled_offset d (RI_Reg s1) (RI_Reg s2) (\<lambda>s1 s2. word_rotr (unat s2) s1) v"

definition run_rotate_right_64 :: "u32 \<Rightarrow> Reg \<Rightarrow> Reg \<Rightarrow> Reg \<Rightarrow> InterpretedInstance \<Rightarrow> outcome" where [handlers]:
  "run_rotate_right_64 compiled_offset d s1 s2 v =
    set3_u64 compiled_offset d (RI_Reg s1) (RI_Reg s2) (\<lambda>s1 s2. word_rotr (unat (ucast s2 :: u32)) s1) v"

definition run_set_less_than_unsigned_imm :: "u32 \<Rightarrow> Reg \<Rightarrow> Reg \<Rightarrow> u32 \<Rightarrow> InterpretedInstance \<Rightarrow> outcome" where [handlers]:
  "run_set_less_than_unsigned_imm compiled_offset d s1 s2 v =
    set3_u64 compiled_offset d (RI_Reg s1) (RI_Imm s2) (\<lambda>s1 s2. of_bool (s1 < s2)) v"

definition run_set_greater_than_unsigned_imm :: "u32 \<Rightarrow> Reg \<Rightarrow> Reg \<Rightarrow> u32 \<Rightarrow> InterpretedInstance \<Rightarrow> outcome" where [handlers]:
  "run_set_greater_than_unsigned_imm compiled_offset d s1 s2 v =
    set3_u64 compiled_offset d (RI_Reg s1) (RI_Imm s2) (\<lambda>s1 s2. of_bool (s1 > s2)) v"

definition run_set_less_than_signed_imm :: "u32 \<Rightarrow> Reg \<Rightarrow> Reg \<Rightarrow> u32 \<Rightarrow> InterpretedInstance \<Rightarrow> outcome" where [handlers]:
  "run_set_less_than_signed_imm compiled_offset d s1 s2 v =
    set3_i64 compiled_offset d (RI_Reg s1) (RI_Imm s2) (\<lambda>s1 s2. of_bool (sint s1 < sint s2)) v"

definition run_set_greater_than_signed_imm :: "u32 \<Rightarrow> Reg \<Rightarrow> Reg \<Rightarrow> u32 \<Rightarrow> InterpretedInstance \<Rightarrow> outcome" where [handlers]:
  "run_set_greater_than_signed_imm compiled_offset d s1 s2 v =
    set3_i64 compiled_offset d (RI_Reg s1) (RI_Imm s2) (\<lambda>s1 s2. of_bool (sint s1 > sint s2)) v"

definition run_shift_logical_right_imm_32 :: "u32 \<Rightarrow> Reg \<Rightarrow> Reg \<Rightarrow> u32 \<Rightarrow> InterpretedInstance \<Rightarrow> outcome" where [handlers]:
  "run_shift_logical_right_imm_32 compiled_offset d s1 s2 v =
    set3_u32 compiled_offset d (RI_Reg s1) (RI_Imm s2) (\<lambda>s1 s2. wrapping_shr s1 (unat s2)) v"

definition run_shift_logical_right_imm_64 :: "u32 \<Rightarrow> Reg \<Rightarrow> Reg \<Rightarrow> u32 \<Rightarrow> InterpretedInstance \<Rightarrow> outcome" where [handlers]:
  "run_shift_logical_right_imm_64 compiled_offset d s1 s2 v =
    set3_u64 compiled_offset d (RI_Reg s1) (RI_Imm s2) (\<lambda>s1 s2. wrapping_shr s1 (unat (ucast s2 :: u32))) v"

definition run_shift_logical_right_imm_alt_32 :: "u32 \<Rightarrow> Reg \<Rightarrow> Reg \<Rightarrow> u32 \<Rightarrow> InterpretedInstance \<Rightarrow> outcome" where [handlers]:
  "run_shift_logical_right_imm_alt_32 compiled_offset d s2 s1 v =
    set3_u32 compiled_offset d (RI_Imm s1) (RI_Reg s2) (\<lambda>s1 s2. wrapping_shr s1 (unat s2)) v"

definition run_shift_logical_right_imm_alt_64 :: "u32 \<Rightarrow> Reg \<Rightarrow> Reg \<Rightarrow> u32 \<Rightarrow> InterpretedInstance \<Rightarrow> outcome" where [handlers]:
  "run_shift_logical_right_imm_alt_64 compiled_offset d s2 s1 v =
    set3_u64 compiled_offset d (RI_Imm s1) (RI_Reg s2) (\<lambda>s1 s2. wrapping_shr s1 (unat (ucast s2 :: u32))) v"

definition run_shift_arithmetic_right_imm_32 :: "u32 \<Rightarrow> Reg \<Rightarrow> Reg \<Rightarrow> u32 \<Rightarrow> InterpretedInstance \<Rightarrow> outcome" where [handlers]:
  "run_shift_arithmetic_right_imm_32 compiled_offset d s1 s2 v =
    set3_i32 compiled_offset d (RI_Reg s1) (RI_Imm s2) (\<lambda>s1 s2. wrapping_sar s1 (unat s2)) v"

definition run_shift_arithmetic_right_imm_64 :: "u32 \<Rightarrow> Reg \<Rightarrow> Reg \<Rightarrow> u32 \<Rightarrow> InterpretedInstance \<Rightarrow> outcome" where [handlers]:
  "run_shift_arithmetic_right_imm_64 compiled_offset d s1 s2 v =
    set3_i64 compiled_offset d (RI_Reg s1) (RI_Imm s2) (\<lambda>s1 s2. wrapping_sar s1 (unat (ucast s2 :: u32))) v"

definition run_shift_arithmetic_right_imm_alt_32 :: "u32 \<Rightarrow> Reg \<Rightarrow> Reg \<Rightarrow> u32 \<Rightarrow> InterpretedInstance \<Rightarrow> outcome" where [handlers]:
  "run_shift_arithmetic_right_imm_alt_32 compiled_offset d s2 s1 v =
    set3_i32 compiled_offset d (RI_Imm s1) (RI_Reg s2) (\<lambda>s1 s2. wrapping_sar s1 (unat s2)) v"

definition run_shift_arithmetic_right_imm_alt_64 :: "u32 \<Rightarrow> Reg \<Rightarrow> Reg \<Rightarrow> u32 \<Rightarrow> InterpretedInstance \<Rightarrow> outcome" where [handlers]:
  "run_shift_arithmetic_right_imm_alt_64 compiled_offset d s2 s1 v =
    set3_i64 compiled_offset d (RI_Imm s1) (RI_Reg s2) (\<lambda>s1 s2. wrapping_sar s1 (unat (ucast s2 :: u32))) v"

definition run_shift_logical_left_imm_32 :: "u32 \<Rightarrow> Reg \<Rightarrow> Reg \<Rightarrow> u32 \<Rightarrow> InterpretedInstance \<Rightarrow> outcome" where [handlers]:
  "run_shift_logical_left_imm_32 compiled_offset d s1 s2 v =
    set3_u32 compiled_offset d (RI_Reg s1) (RI_Imm s2) (\<lambda>s1 s2. wrapping_shl s1 (unat s2)) v"

definition run_shift_logical_left_imm_64 :: "u32 \<Rightarrow> Reg \<Rightarrow> Reg \<Rightarrow> u32 \<Rightarrow> InterpretedInstance \<Rightarrow> outcome" where [handlers]:
  "run_shift_logical_left_imm_64 compiled_offset d s1 s2 v =
    set3_u64 compiled_offset d (RI_Reg s1) (RI_Imm s2) (\<lambda>s1 s2. wrapping_shl s1 (unat (ucast s2 :: u32))) v"

definition run_shift_logical_left_imm_alt_32 :: "u32 \<Rightarrow> Reg \<Rightarrow> Reg \<Rightarrow> u32 \<Rightarrow> InterpretedInstance \<Rightarrow> outcome" where [handlers]:
  "run_shift_logical_left_imm_alt_32 compiled_offset d s2 s1 v =
    set3_u32 compiled_offset d (RI_Imm s1) (RI_Reg s2) (\<lambda>s1 s2. wrapping_shl s1 (unat s2)) v"

definition run_shift_logical_left_imm_alt_64 :: "u32 \<Rightarrow> Reg \<Rightarrow> Reg \<Rightarrow> u32 \<Rightarrow> InterpretedInstance \<Rightarrow> outcome" where [handlers]:
  "run_shift_logical_left_imm_alt_64 compiled_offset d s2 s1 v =
    set3_u64 compiled_offset d (RI_Imm s1) (RI_Reg s2) (\<lambda>s1 s2. wrapping_shl s1 (unat (ucast s2 :: u32))) v"

definition run_or_imm :: "u32 \<Rightarrow> Reg \<Rightarrow> Reg \<Rightarrow> u32 \<Rightarrow> InterpretedInstance \<Rightarrow> outcome" where [handlers]:
  "run_or_imm compiled_offset d s1 s2 v =
    set3_u64 compiled_offset d (RI_Reg s1) (RI_Imm s2) (\<lambda>s1 s2. s1 OR s2) v"

definition run_and_imm :: "u32 \<Rightarrow> Reg \<Rightarrow> Reg \<Rightarrow> u32 \<Rightarrow> InterpretedInstance \<Rightarrow> outcome" where [handlers]:
  "run_and_imm compiled_offset d s1 s2 v =
    set3_u64 compiled_offset d (RI_Reg s1) (RI_Imm s2) (\<lambda>s1 s2. s1 AND s2) v"

definition run_xor_imm :: "u32 \<Rightarrow> Reg \<Rightarrow> Reg \<Rightarrow> u32 \<Rightarrow> InterpretedInstance \<Rightarrow> outcome" where [handlers]:
  "run_xor_imm compiled_offset d s1 s2 v =
    set3_u64 compiled_offset d (RI_Reg s1) (RI_Imm s2) (\<lambda>s1 s2. s1 XOR s2) v"

definition run_move_reg :: "u32 \<Rightarrow> Reg \<Rightarrow> Reg \<Rightarrow> InterpretedInstance \<Rightarrow> outcome" where [handlers]:
  "run_move_reg compiled_offset d s v =
    (go_to_next_instruction compiled_offset, set_i64 d (get_i64 (RI_Reg s) v) v)"

definition run_count_leading_zero_bits_32 :: "u32 \<Rightarrow> Reg \<Rightarrow> Reg \<Rightarrow> InterpretedInstance \<Rightarrow> outcome" where [handlers]:
  "run_count_leading_zero_bits_32 compiled_offset d s v =
    (go_to_next_instruction compiled_offset, set_u32 d (word_of_nat (leading_zeros (get_u32 (RI_Reg s) v))) v)"

definition run_count_leading_zero_bits_64 :: "u32 \<Rightarrow> Reg \<Rightarrow> Reg \<Rightarrow> InterpretedInstance \<Rightarrow> outcome" where [handlers]:
  "run_count_leading_zero_bits_64 compiled_offset d s v =
    (go_to_next_instruction compiled_offset, set_u64 d (word_of_nat (leading_zeros (get_u64 (RI_Reg s) v))) v)"

definition run_count_trailing_zero_bits_32 :: "u32 \<Rightarrow> Reg \<Rightarrow> Reg \<Rightarrow> InterpretedInstance \<Rightarrow> outcome" where [handlers]:
  "run_count_trailing_zero_bits_32 compiled_offset d s v =
    (go_to_next_instruction compiled_offset, set_u32 d (word_of_nat (trailing_zeros (get_u32 (RI_Reg s) v))) v)"

definition run_count_trailing_zero_bits_64 :: "u32 \<Rightarrow> Reg \<Rightarrow> Reg \<Rightarrow> InterpretedInstance \<Rightarrow> outcome" where [handlers]:
  "run_count_trailing_zero_bits_64 compiled_offset d s v =
    (go_to_next_instruction compiled_offset, set_u64 d (word_of_nat (trailing_zeros (get_u64 (RI_Reg s) v))) v)"

definition run_count_set_bits_32 :: "u32 \<Rightarrow> Reg \<Rightarrow> Reg \<Rightarrow> InterpretedInstance \<Rightarrow> outcome" where [handlers]:
  "run_count_set_bits_32 compiled_offset d s v =
    (go_to_next_instruction compiled_offset, set_u32 d (word_of_nat (count_ones (get_u32 (RI_Reg s) v))) v)"

definition run_count_set_bits_64 :: "u32 \<Rightarrow> Reg \<Rightarrow> Reg \<Rightarrow> InterpretedInstance \<Rightarrow> outcome" where [handlers]:
  "run_count_set_bits_64 compiled_offset d s v =
    (go_to_next_instruction compiled_offset, set_u64 d (word_of_nat (count_ones (get_u64 (RI_Reg s) v))) v)"

definition run_sign_extend_8_32 :: "u32 \<Rightarrow> Reg \<Rightarrow> Reg \<Rightarrow> InterpretedInstance \<Rightarrow> outcome" where [handlers]:
  "run_sign_extend_8_32 compiled_offset d s v =
    (go_to_next_instruction compiled_offset, set_u32 d (scast (ucast (get_u32 (RI_Reg s) v) :: u8)) v)"

definition run_sign_extend_8_64 :: "u32 \<Rightarrow> Reg \<Rightarrow> Reg \<Rightarrow> InterpretedInstance \<Rightarrow> outcome" where [handlers]:
  "run_sign_extend_8_64 compiled_offset d s v =
    (go_to_next_instruction compiled_offset, set_i64 d (scast (ucast (get_u64 (RI_Reg s) v) :: u8)) v)"

definition run_sign_extend_16_32 :: "u32 \<Rightarrow> Reg \<Rightarrow> Reg \<Rightarrow> InterpretedInstance \<Rightarrow> outcome" where [handlers]:
  "run_sign_extend_16_32 compiled_offset d s v =
    (go_to_next_instruction compiled_offset, set_u32 d (scast (ucast (get_u32 (RI_Reg s) v) :: u16)) v)"

definition run_sign_extend_16_64 :: "u32 \<Rightarrow> Reg \<Rightarrow> Reg \<Rightarrow> InterpretedInstance \<Rightarrow> outcome" where [handlers]:
  "run_sign_extend_16_64 compiled_offset d s v =
    (go_to_next_instruction compiled_offset, set_u64 d (scast (ucast (get_u64 (RI_Reg s) v) :: u16)) v)"

definition run_zero_extend_16_32 :: "u32 \<Rightarrow> Reg \<Rightarrow> Reg \<Rightarrow> InterpretedInstance \<Rightarrow> outcome" where [handlers]:
  "run_zero_extend_16_32 compiled_offset d s v =
    (go_to_next_instruction compiled_offset, set_u32 d (ucast (ucast (get_u32 (RI_Reg s) v) :: u16)) v)"

definition run_zero_extend_16_64 :: "u32 \<Rightarrow> Reg \<Rightarrow> Reg \<Rightarrow> InterpretedInstance \<Rightarrow> outcome" where [handlers]:
  "run_zero_extend_16_64 compiled_offset d s v =
    (go_to_next_instruction compiled_offset, set_u64 d (ucast (ucast (get_u64 (RI_Reg s) v) :: u16)) v)"

definition run_reverse_byte_32 :: "u32 \<Rightarrow> Reg \<Rightarrow> Reg \<Rightarrow> InterpretedInstance \<Rightarrow> outcome" where [handlers]:
  "run_reverse_byte_32 compiled_offset d s v =
    (go_to_next_instruction compiled_offset, set_u32 d (swap_bytes (get_u32 (RI_Reg s) v)) v)"

definition run_reverse_byte_64 :: "u32 \<Rightarrow> Reg \<Rightarrow> Reg \<Rightarrow> InterpretedInstance \<Rightarrow> outcome" where [handlers]:
  "run_reverse_byte_64 compiled_offset d s v =
    (go_to_next_instruction compiled_offset, set_u64 d (swap_bytes (get_u64 (RI_Reg s) v)) v)"

definition run_cmov_if_zero :: "u32 \<Rightarrow> Reg \<Rightarrow> Reg \<Rightarrow> Reg \<Rightarrow> InterpretedInstance \<Rightarrow> outcome" where [handlers]:
  "run_cmov_if_zero compiled_offset d s c v =
    (go_to_next_instruction compiled_offset, if get_u64 (RI_Reg c) v = 0 then set_u64 d (get_u64 (RI_Reg s) v) v else v)"

definition run_cmov_if_zero_imm :: "u32 \<Rightarrow> Reg \<Rightarrow> Reg \<Rightarrow> u32 \<Rightarrow> InterpretedInstance \<Rightarrow> outcome" where [handlers]:
  "run_cmov_if_zero_imm compiled_offset d c s v =
    (go_to_next_instruction compiled_offset, if get_u64 (RI_Reg c) v = 0 then set_i32 d s v else v)"

definition run_cmov_if_not_zero :: "u32 \<Rightarrow> Reg \<Rightarrow> Reg \<Rightarrow> Reg \<Rightarrow> InterpretedInstance \<Rightarrow> outcome" where [handlers]:
  "run_cmov_if_not_zero compiled_offset d s c v =
    (go_to_next_instruction compiled_offset, if get_u64 (RI_Reg c) v \<noteq> 0 then set_u64 d (get_u64 (RI_Reg s) v) v else v)"

definition run_cmov_if_not_zero_imm :: "u32 \<Rightarrow> Reg \<Rightarrow> Reg \<Rightarrow> u32 \<Rightarrow> InterpretedInstance \<Rightarrow> outcome" where [handlers]:
  "run_cmov_if_not_zero_imm compiled_offset d c s v =
    (go_to_next_instruction compiled_offset, if get_u64 (RI_Reg c) v \<noteq> 0 then set_i32 d s v else v)"

definition run_rotate_right_imm_32 :: "u32 \<Rightarrow> Reg \<Rightarrow> Reg \<Rightarrow> u32 \<Rightarrow> InterpretedInstance \<Rightarrow> outcome" where [handlers]:
  "run_rotate_right_imm_32 compiled_offset d s1 s2 v =
    set3_u32 compiled_offset d (RI_Reg s1) (RI_Imm s2) (\<lambda>s1 s2. word_rotr (unat s2) s1) v"

definition run_rotate_right_imm_alt_32 :: "u32 \<Rightarrow> Reg \<Rightarrow> Reg \<Rightarrow> u32 \<Rightarrow> InterpretedInstance \<Rightarrow> outcome" where [handlers]:
  "run_rotate_right_imm_alt_32 compiled_offset d s1 s2 v =
    set3_u32 compiled_offset d (RI_Imm s2) (RI_Reg s1) (\<lambda>s1 s2. word_rotr (unat s2) s1) v"

definition run_rotate_right_imm_64 :: "u32 \<Rightarrow> Reg \<Rightarrow> Reg \<Rightarrow> u32 \<Rightarrow> InterpretedInstance \<Rightarrow> outcome" where [handlers]:
  "run_rotate_right_imm_64 compiled_offset d s1 s2 v =
    set3_u64 compiled_offset d (RI_Reg s1) (RI_Imm s2) (\<lambda>s1 s2. word_rotr (unat (ucast s2 :: u32)) s1) v"

definition run_rotate_right_imm_alt_64 :: "u32 \<Rightarrow> Reg \<Rightarrow> Reg \<Rightarrow> u32 \<Rightarrow> InterpretedInstance \<Rightarrow> outcome" where [handlers]:
  "run_rotate_right_imm_alt_64 compiled_offset d s1 s2 v =
    set3_u64 compiled_offset d (RI_Imm s2) (RI_Reg s1) (\<lambda>s2 s1. word_rotr (unat (ucast s1 :: u32)) s2) v"

definition run_add_imm_32 :: "u32 \<Rightarrow> Reg \<Rightarrow> Reg \<Rightarrow> u32 \<Rightarrow> InterpretedInstance \<Rightarrow> outcome" where [handlers]:
  "run_add_imm_32 compiled_offset d s1 s2 v =
    set3_u32 compiled_offset d (RI_Reg s1) (RI_Imm s2) (\<lambda>s1 s2. s1 + s2) v"

definition run_add_imm_64 :: "u32 \<Rightarrow> Reg \<Rightarrow> Reg \<Rightarrow> u32 \<Rightarrow> InterpretedInstance \<Rightarrow> outcome" where [handlers]:
  "run_add_imm_64 compiled_offset d s1 s2 v =
    set3_u64 compiled_offset d (RI_Reg s1) (RI_Imm s2) (\<lambda>s1 s2. s1 + s2) v"

section \<open>Selection\<close>

text \<open>\<open>None\<close> where the instruction has no handler of the shape.\<close>

definition run_reg_reg_reg :: "bool \<Rightarrow> op_reg_reg_reg \<Rightarrow> u32 \<Rightarrow> Reg \<Rightarrow> Reg \<Rightarrow> Reg \<Rightarrow> InterpretedInstance \<Rightarrow> outcome" where
  "run_reg_reg_reg wide op = (case op of
      add_32 \<Rightarrow> run_add_32
    | add_64 \<Rightarrow> run_add_64
    | sub_32 \<Rightarrow> run_sub_32
    | sub_64 \<Rightarrow> run_sub_64
    | and_op \<Rightarrow> run_and
    | xor_op \<Rightarrow> run_xor
    | or_op \<Rightarrow> run_or
    | mul_32 \<Rightarrow> run_mul_32
    | mul_64 \<Rightarrow> run_mul_64
    | mul_upper_signed_signed \<Rightarrow> (if wide then run_mul_upper_signed_signed_64 else run_mul_upper_signed_signed_32)
    | mul_upper_unsigned_unsigned \<Rightarrow> (if wide then run_mul_upper_unsigned_unsigned_64 else run_mul_upper_unsigned_unsigned_32)
    | mul_upper_signed_unsigned \<Rightarrow> (if wide then run_mul_upper_signed_unsigned_64 else run_mul_upper_signed_unsigned_32)
    | set_less_than_unsigned \<Rightarrow> run_set_less_than_unsigned
    | set_less_than_signed \<Rightarrow> run_set_less_than_signed
    | shift_logical_left_32 \<Rightarrow> run_shift_logical_left_32
    | shift_logical_left_64 \<Rightarrow> run_shift_logical_left_64
    | shift_logical_right_32 \<Rightarrow> run_shift_logical_right_32
    | shift_logical_right_64 \<Rightarrow> run_shift_logical_right_64
    | shift_arithmetic_right_32 \<Rightarrow> run_shift_arithmetic_right_32
    | shift_arithmetic_right_64 \<Rightarrow> run_shift_arithmetic_right_64
    | div_unsigned_32 \<Rightarrow> run_div_unsigned_32
    | div_unsigned_64 \<Rightarrow> run_div_unsigned_64
    | div_signed_32 \<Rightarrow> run_div_signed_32
    | div_signed_64 \<Rightarrow> run_div_signed_64
    | rem_unsigned_32 \<Rightarrow> run_rem_unsigned_32
    | rem_unsigned_64 \<Rightarrow> run_rem_unsigned_64
    | rem_signed_32 \<Rightarrow> run_rem_signed_32
    | rem_signed_64 \<Rightarrow> run_rem_signed_64
    | cmov_if_zero \<Rightarrow> run_cmov_if_zero
    | cmov_if_not_zero \<Rightarrow> run_cmov_if_not_zero
    | and_inverted \<Rightarrow> (if wide then run_and_inverted_64 else run_and_inverted_32)
    | or_inverted \<Rightarrow> (if wide then run_or_inverted_64 else run_or_inverted_32)
    | xnor \<Rightarrow> (if wide then run_xnor_64 else run_xnor_32)
    | maximum \<Rightarrow> (if wide then run_maximum_64 else run_maximum_32)
    | maximum_unsigned \<Rightarrow> (if wide then run_maximum_unsigned_64 else run_maximum_unsigned_32)
    | minimum \<Rightarrow> (if wide then run_minimum_64 else run_minimum_32)
    | minimum_unsigned \<Rightarrow> (if wide then run_minimum_unsigned_64 else run_minimum_unsigned_32)
    | rotate_left_32 \<Rightarrow> run_rotate_left_32
    | rotate_left_64 \<Rightarrow> run_rotate_left_64
    | rotate_right_32 \<Rightarrow> run_rotate_right_32
    | rotate_right_64 \<Rightarrow> run_rotate_right_64)"

definition run_reg_reg_imm :: "op_reg_reg_imm \<Rightarrow> (u32 \<Rightarrow> Reg \<Rightarrow> Reg \<Rightarrow> u32 \<Rightarrow> InterpretedInstance \<Rightarrow> outcome) option" where
  "run_reg_reg_imm op = (case op of
      add_imm_32 \<Rightarrow> Some run_add_imm_32
    | add_imm_64 \<Rightarrow> Some run_add_imm_64
    | and_imm \<Rightarrow> Some run_and_imm
    | xor_imm \<Rightarrow> Some run_xor_imm
    | or_imm \<Rightarrow> Some run_or_imm
    | mul_imm_32 \<Rightarrow> Some run_mul_imm_32
    | mul_imm_64 \<Rightarrow> Some run_mul_imm_64
    | set_less_than_unsigned_imm \<Rightarrow> Some run_set_less_than_unsigned_imm
    | set_less_than_signed_imm \<Rightarrow> Some run_set_less_than_signed_imm
    | shift_logical_left_imm_32 \<Rightarrow> Some run_shift_logical_left_imm_32
    | shift_logical_left_imm_64 \<Rightarrow> Some run_shift_logical_left_imm_64
    | shift_logical_right_imm_32 \<Rightarrow> Some run_shift_logical_right_imm_32
    | shift_logical_right_imm_64 \<Rightarrow> Some run_shift_logical_right_imm_64
    | shift_arithmetic_right_imm_32 \<Rightarrow> Some run_shift_arithmetic_right_imm_32
    | shift_arithmetic_right_imm_64 \<Rightarrow> Some run_shift_arithmetic_right_imm_64
    | negate_and_add_imm_32 \<Rightarrow> Some run_negate_and_add_imm_32
    | negate_and_add_imm_64 \<Rightarrow> Some run_negate_and_add_imm_64
    | set_greater_than_unsigned_imm \<Rightarrow> Some run_set_greater_than_unsigned_imm
    | set_greater_than_signed_imm \<Rightarrow> Some run_set_greater_than_signed_imm
    | shift_logical_right_imm_alt_32 \<Rightarrow> Some run_shift_logical_right_imm_alt_32
    | shift_logical_right_imm_alt_64 \<Rightarrow> Some run_shift_logical_right_imm_alt_64
    | shift_arithmetic_right_imm_alt_32 \<Rightarrow> Some run_shift_arithmetic_right_imm_alt_32
    | shift_arithmetic_right_imm_alt_64 \<Rightarrow> Some run_shift_arithmetic_right_imm_alt_64
    | shift_logical_left_imm_alt_32 \<Rightarrow> Some run_shift_logical_left_imm_alt_32
    | shift_logical_left_imm_alt_64 \<Rightarrow> Some run_shift_logical_left_imm_alt_64
    | cmov_if_zero_imm \<Rightarrow> Some run_cmov_if_zero_imm
    | cmov_if_not_zero_imm \<Rightarrow> Some run_cmov_if_not_zero_imm
    | rotate_right_imm_32 \<Rightarrow> Some run_rotate_right_imm_32
    | rotate_right_imm_alt_32 \<Rightarrow> Some run_rotate_right_imm_alt_32
    | rotate_right_imm_64 \<Rightarrow> Some run_rotate_right_imm_64
    | rotate_right_imm_alt_64 \<Rightarrow> Some run_rotate_right_imm_alt_64
    | _ \<Rightarrow> None)"

definition run_reg_reg :: "bool \<Rightarrow> op_reg_reg \<Rightarrow> (u32 \<Rightarrow> Reg \<Rightarrow> Reg \<Rightarrow> InterpretedInstance \<Rightarrow> outcome) option" where
  "run_reg_reg wide op = (case op of
      move_reg \<Rightarrow> Some run_move_reg
    | count_leading_zero_bits_32 \<Rightarrow> Some run_count_leading_zero_bits_32
    | count_leading_zero_bits_64 \<Rightarrow> Some run_count_leading_zero_bits_64
    | count_trailing_zero_bits_32 \<Rightarrow> Some run_count_trailing_zero_bits_32
    | count_trailing_zero_bits_64 \<Rightarrow> Some run_count_trailing_zero_bits_64
    | count_set_bits_32 \<Rightarrow> Some run_count_set_bits_32
    | count_set_bits_64 \<Rightarrow> Some run_count_set_bits_64
    | sign_extend_8 \<Rightarrow> Some (if wide then run_sign_extend_8_64 else run_sign_extend_8_32)
    | sign_extend_16 \<Rightarrow> Some (if wide then run_sign_extend_16_64 else run_sign_extend_16_32)
    | zero_extend_16 \<Rightarrow> Some (if wide then run_zero_extend_16_64 else run_zero_extend_16_32)
    | reverse_byte \<Rightarrow> Some (if wide then run_reverse_byte_64 else run_reverse_byte_32)
    | _ \<Rightarrow> None)"

end
