(* ===== verification/Interp_Compile.thy ===== *)
theory Interp_Compile
  imports Interp_Alu
begin

text \<open>
  The translation of a basic block into handlers, \<open>Compiler\<close> and \<open>compile_block\<close> of
  \<open>crates/polkavm/src/interpreter.rs\<close>, and the resolution of program counters to compiled positions. \<open>None\<close> stands for a panic. Only
  the simple cost models are modelled.
\<close>

section \<open>Emitting handlers\<close>

record Compiler =
  c_program_counter :: u32
  c_next_program_counter :: u32
  c_module :: Module
  c_memory_kind :: MemoryKind

type_synonym code = "(Handler \<times> Args) list"

abbreviation emit :: "h_control \<Rightarrow> Args \<Rightarrow> code" where
  "emit h args \<equiv> [(H_control h, args)]"

abbreviation raw_reg :: "RawReg \<Rightarrow> u32" where
  "raw_reg r \<equiv> Reg_to_u32 (RawReg_get r)"

definition emit_branch :: "Handler \<Rightarrow> u32 \<Rightarrow> u32 \<Rightarrow> u32 \<Rightarrow> Compiler \<Rightarrow> code" where
  "emit_branch h s1 s2 i c =
    (let target_true = i; target_false = c_next_program_counter c in
     if module_is_jump_target_valid (c_module c) target_true \<and> module_is_jump_target_valid (c_module c) target_false
     then [(h, args4 s1 s2 target_true target_false)]
     else emit H_invalid_branch_trap (args1 (c_program_counter c)))"

definition compile_invalid :: "Compiler \<Rightarrow> code" where
  "compile_invalid c = emit H_trap (args1 (c_program_counter c))"

definition compile_argless :: "op_argless \<Rightarrow> Compiler \<Rightarrow> code" where
  "compile_argless op c = (case op of
      trap \<Rightarrow> emit H_trap (args1 (c_program_counter c))
    | fallthrough \<Rightarrow> emit H_unresolved_fallthrough (args2 (c_program_counter c) (c_next_program_counter c))
    | unlikely \<Rightarrow> []
    | memset \<Rightarrow> [(H_memset (c_memory_kind c), args1 (c_program_counter c))])"

definition compile_imm :: "op_imm \<Rightarrow> u32 \<Rightarrow> Compiler \<Rightarrow> code" where
  "compile_imm op imm c = (case op of ecalli \<Rightarrow> emit H_ecalli (args2 (c_program_counter c) imm))"

definition compile_reg_reg_reg :: "op_reg_reg_reg \<Rightarrow> RawReg \<Rightarrow> RawReg \<Rightarrow> RawReg \<Rightarrow> Compiler \<Rightarrow> code" where
  "compile_reg_reg_reg op d s1 s2 c =
    [(H_reg_reg_reg (module_is_64_bit (c_module c)) op, args3 (raw_reg d) (raw_reg s1) (raw_reg s2))]"

definition store_indirect_ty :: "op_reg_reg_imm \<Rightarrow> StoreTy option" where
  "store_indirect_ty op = (case op of
      store_indirect_u8 \<Rightarrow> Some S_u8 | store_indirect_u16 \<Rightarrow> Some S_u16 | store_indirect_u32 \<Rightarrow> Some S_u32
    | store_indirect_u64 \<Rightarrow> Some S_u64 | _ \<Rightarrow> None)"

definition load_indirect_ty :: "op_reg_reg_imm \<Rightarrow> LoadTy option" where
  "load_indirect_ty op = (case op of
      load_indirect_u8 \<Rightarrow> Some L_u8 | load_indirect_i8 \<Rightarrow> Some L_i8 | load_indirect_u16 \<Rightarrow> Some L_u16
    | load_indirect_i16 \<Rightarrow> Some L_i16 | load_indirect_i32 \<Rightarrow> Some L_i32 | load_indirect_u32 \<Rightarrow> Some L_u32
    | load_indirect_u64 \<Rightarrow> Some L_u64 | _ \<Rightarrow> None)"

definition compile_reg_reg_imm :: "op_reg_reg_imm \<Rightarrow> RawReg \<Rightarrow> RawReg \<Rightarrow> u32 \<Rightarrow> Compiler \<Rightarrow> code" where
  "compile_reg_reg_imm op r1 r2 imm c =
    (case (store_indirect_ty op, load_indirect_ty op) of
       (Some ty, _) \<Rightarrow>
         [(H_store_indirect (c_memory_kind c) ty, args4 (c_program_counter c) (raw_reg r1) (raw_reg r2) imm)]
     | (None, Some ty) \<Rightarrow>
         [(H_load_indirect (c_memory_kind c) ty, args4 (c_program_counter c) (raw_reg r1) (raw_reg r2) imm)]
     | (None, None) \<Rightarrow> [(H_reg_reg_imm op, args3 (raw_reg r1) (raw_reg r2) imm)])"

definition compile_reg_reg :: "op_reg_reg \<Rightarrow> RawReg \<Rightarrow> RawReg \<Rightarrow> Compiler \<Rightarrow> code" where
  "compile_reg_reg op d s c = (case op of
      Isa.sbrk \<Rightarrow> emit H_sbrk (args2 (raw_reg d) (raw_reg s))
    | _ \<Rightarrow> [(H_reg_reg (module_is_64_bit (c_module c)) op, args2 (raw_reg d) (raw_reg s))])"

definition compile_reg_imm :: "op_reg_imm \<Rightarrow> RawReg \<Rightarrow> u32 \<Rightarrow> Compiler \<Rightarrow> code" where
  "compile_reg_imm op r imm c =
    (let pc = c_program_counter c;
         load = (\<lambda>ty. [(H_load (c_memory_kind c) ty, args3 pc (raw_reg r) imm)]);
         store = (\<lambda>ty. [(H_store (c_memory_kind c) ty, args3 pc (raw_reg r) imm)])
     in case op of
          jump_indirect \<Rightarrow> emit H_jump_indirect (args3 pc (raw_reg r) imm)
        | load_imm \<Rightarrow> emit H_load_imm (args2 (raw_reg r) imm)
        | load_u8 \<Rightarrow> load L_u8 | load_i8 \<Rightarrow> load L_i8 | load_u16 \<Rightarrow> load L_u16 | load_i16 \<Rightarrow> load L_i16
        | load_i32 \<Rightarrow> load L_i32 | load_u32 \<Rightarrow> load L_u32 | load_u64 \<Rightarrow> load L_u64
        | store_u8 \<Rightarrow> store S_u8 | store_u16 \<Rightarrow> store S_u16 | store_u32 \<Rightarrow> store S_u32 | store_u64 \<Rightarrow> store S_u64)"

definition compile_reg_imm64 :: "op_reg_imm64 \<Rightarrow> RawReg \<Rightarrow> u64 \<Rightarrow> Compiler \<Rightarrow> code" where
  "compile_reg_imm64 op r imm c = (case op of
      load_imm64 \<Rightarrow> emit H_load_imm64 (args3 (raw_reg r) (ucast imm) (ucast (drop_bit 32 imm))))"

definition compile_imm_imm :: "op_imm_imm \<Rightarrow> u32 \<Rightarrow> u32 \<Rightarrow> Compiler \<Rightarrow> code" where
  "compile_imm_imm op offset value c =
    (let store = (\<lambda>ty. [(H_store_imm (c_memory_kind c) ty, args3 (c_program_counter c) offset value)])
     in case op of
          store_imm_u8 \<Rightarrow> store S_u8 | store_imm_u16 \<Rightarrow> store S_u16 | store_imm_u32 \<Rightarrow> store S_u32 | store_imm_u64 \<Rightarrow> store S_u64)"

definition compile_reg_imm_imm :: "op_reg_imm_imm \<Rightarrow> RawReg \<Rightarrow> u32 \<Rightarrow> u32 \<Rightarrow> Compiler \<Rightarrow> code" where
  "compile_reg_imm_imm op base offset value c =
    (let store = (\<lambda>ty. [(H_store_imm_indirect (c_memory_kind c) ty, args4 (c_program_counter c) (raw_reg base) offset value)])
     in case op of
          store_imm_indirect_u8 \<Rightarrow> store S_u8 | store_imm_indirect_u16 \<Rightarrow> store S_u16
        | store_imm_indirect_u32 \<Rightarrow> store S_u32 | store_imm_indirect_u64 \<Rightarrow> store S_u64)"

definition compile_reg_reg_offset :: "op_reg_reg_offset \<Rightarrow> RawReg \<Rightarrow> RawReg \<Rightarrow> u32 \<Rightarrow> Compiler \<Rightarrow> code" where
  "compile_reg_reg_offset op s1 s2 i c = emit_branch (H_unresolved_branch op) (raw_reg s1) (raw_reg s2) i c"

definition compile_reg_imm_offset :: "op_reg_imm_offset \<Rightarrow> RawReg \<Rightarrow> u32 \<Rightarrow> u32 \<Rightarrow> Compiler \<Rightarrow> code" where
  "compile_reg_imm_offset op r imm i c = (case op of
      load_imm_and_jump \<Rightarrow> emit H_unresolved_load_imm_and_jump (args4 (c_program_counter c) (raw_reg r) imm i)
    | _ \<Rightarrow> emit_branch (H_unresolved_branch_imm op) (raw_reg r) imm i c)"

definition compile_offset :: "op_offset \<Rightarrow> u32 \<Rightarrow> Compiler \<Rightarrow> code" where
  "compile_offset op target c = (case op of jump \<Rightarrow> emit H_unresolved_jump (args2 (c_program_counter c) target))"

definition compile_reg_reg_imm_imm :: "op_reg_reg_imm_imm \<Rightarrow> RawReg \<Rightarrow> RawReg \<Rightarrow> u32 \<Rightarrow> u32 \<Rightarrow> Compiler \<Rightarrow> code" where
  "compile_reg_reg_imm_imm op ra base value offset c = (case op of
      load_imm_and_jump_indirect \<Rightarrow>
        emit H_load_imm_and_jump_indirect
          (args_pc_reg_reg_imm_imm (c_program_counter c) (RawReg_get ra) (RawReg_get base) value offset))"

fun Compiler_visit :: "Instruction \<Rightarrow> Compiler \<Rightarrow> code" where
  "Compiler_visit (I_argless op) c = compile_argless op c"
| "Compiler_visit (I_reg_imm op r imm) c = compile_reg_imm op r imm c"
| "Compiler_visit (I_reg_imm_offset op r imm i) c = compile_reg_imm_offset op r imm i c"
| "Compiler_visit (I_reg_imm_imm op r imm1 imm2) c = compile_reg_imm_imm op r imm1 imm2 c"
| "Compiler_visit (I_reg_reg_imm op r1 r2 imm) c = compile_reg_reg_imm op r1 r2 imm c"
| "Compiler_visit (I_reg_reg_offset op r1 r2 i) c = compile_reg_reg_offset op r1 r2 i c"
| "Compiler_visit (I_reg_reg_reg op r1 r2 r3) c = compile_reg_reg_reg op r1 r2 r3 c"
| "Compiler_visit (I_offset op i) c = compile_offset op i c"
| "Compiler_visit (I_imm op imm) c = compile_imm op imm c"
| "Compiler_visit (I_imm_imm op imm1 imm2) c = compile_imm_imm op imm1 imm2 c"
| "Compiler_visit (I_reg_reg op r1 r2) c = compile_reg_reg op r1 r2 c"
| "Compiler_visit (I_reg_reg_imm_imm op r1 r2 imm1 imm2) c = compile_reg_reg_imm_imm op r1 r2 imm1 imm2 c"
| "Compiler_visit (I_reg_imm64 op r imm) c = compile_reg_imm64 op r imm c"
| "Compiler_visit invalid c = compile_invalid c"

section \<open>Compiling a block\<close>

definition push_handlers :: "code \<Rightarrow> InterpretedInstance \<Rightarrow> InterpretedInstance" where
  "push_handlers code v =
    v\<lparr>vm_compiled_handlers := vm_compiled_handlers v @ map fst code, vm_compiled_args := vm_compiled_args v @ map snd code\<rparr>"

definition memory_kind :: "InterpretedInstance \<Rightarrow> MemoryKind" where
  "memory_kind v = (if m_dynamic_paging (vm_module v) then MEMORY_DYNAMIC else MEMORY_STANDARD)"

text \<open>The state of the loop over the instructions: the gas visitor and the position of the handler that charges for the block.\<close>

record block_state =
  bs_gas_visitor :: GasVisitor
  bs_charge_gas_index :: "(u32 \<times> nat) option"

definition emit_step :: "u32 \<Rightarrow> InterpretedInstance \<Rightarrow> InterpretedInstance" where
  "emit_step pc v = (if vm_step_tracing v then push_handlers (emit H_step (args1 pc)) v else v)"

definition emit_charge_gas :: "bool \<Rightarrow> ParsedInstruction \<Rightarrow> u32 \<Rightarrow> block_state \<Rightarrow> InterpretedInstance \<Rightarrow> block_state \<times> InterpretedInstance" where
  "emit_charge_gas per_instruction instruction pc b v =
    (if m_gas_metering (vm_module v) = None then (b, v)
     else if \<not> per_instruction then
       let (b, v) =
         (if bs_charge_gas_index b = None
          then (b\<lparr>bs_charge_gas_index := Some (pc, length (vm_compiled_handlers v))\<rparr>,
                push_handlers (emit H_charge_gas (args2 pc 0)) v)
          else (b, v))
       in (b\<lparr>bs_gas_visitor := GasVisitor_visit (kind instruction) (bs_gas_visitor b)\<rparr>, v)
     else (b, push_handlers (emit H_charge_gas (args2 pc 1)) v))"

definition compile_step :: "bool \<Rightarrow> ParsedInstruction \<Rightarrow> bool \<Rightarrow> block_state \<Rightarrow> InterpretedInstance \<Rightarrow> (block_state \<times> InterpretedInstance) option" where
  "compile_step per_instruction instruction valid b v =
    (let pc = word_of_nat (p_offset instruction) in
     Option.bind (pack_target (length (vm_compiled_handlers v)) valid) (\<lambda>packed.
     Option.bind (FlatMap_insert pc packed (vm_compiled_offset_for_block v)) (\<lambda>fm.
     let v = emit_step pc (v\<lparr>vm_compiled_offset_for_block := fm\<rparr>);
         (b, v) = emit_charge_gas per_instruction instruction pc b v;
         c = \<lparr>c_program_counter = pc, c_next_program_counter = word_of_nat (next_offset instruction),
              c_module = vm_module v, c_memory_kind = memory_kind v\<rparr>
     in Some (b, push_handlers (Compiler_visit (kind instruction) c) v))))"

partial_function (option) compile_loop ::
  "bool \<Rightarrow> Instructions \<Rightarrow> bool \<Rightarrow> block_state \<Rightarrow> InterpretedInstance \<Rightarrow> (block_state \<times> InterpretedInstance) option" where
  "compile_loop per_instruction instructions valid b v =
    Option.bind (Instructions_next instructions) (\<lambda>(item, instructions).
    case item of
      None \<Rightarrow> Some (b, v)
    | Some instruction \<Rightarrow>
        Option.bind (compile_step per_instruction instruction valid b v) (\<lambda>(b, v).
        if starts_new_basic_block (opcode (kind instruction)) then Some (b, v)
        else compile_loop per_instruction instructions False b v))"

definition put_handler :: "nat \<Rightarrow> Handler \<Rightarrow> Args \<Rightarrow> InterpretedInstance \<Rightarrow> InterpretedInstance option" where
  "put_handler index h args v =
    (if index < length (vm_compiled_handlers v) \<and> index < length (vm_compiled_args v)
     then Some (v\<lparr>vm_compiled_handlers := (vm_compiled_handlers v)[index := h],
        vm_compiled_args := (vm_compiled_args v)[index := args]\<rparr>)
     else None)"

text \<open>A cache with a limit: when the block does not fit, its first handler starts the block again in an empty cache.\<close>

definition limit_cache :: "nat \<Rightarrow> u32 \<Rightarrow> InterpretedInstance \<Rightarrow> InterpretedInstance option" where
  "limit_cache origin pc v =
    (case vm_max_compiled_handlers v of
       None \<Rightarrow> Some v
     | Some max_compiled_handlers \<Rightarrow>
         let handlers_added = length (vm_compiled_handlers v) - origin in
         if handlers_added > max_compiled_handlers then
           put_handler origin (H_control H_reset_cache) (args1 pc) (v\<lparr>vm_max_compiled_handlers := Some handlers_added\<rparr>)
         else if length (vm_compiled_handlers v) > max_compiled_handlers then
           put_handler origin (H_control H_reset_cache) (args1 pc) v
         else Some v)"

definition set_block_cost :: "block_state \<Rightarrow> InterpretedInstance \<Rightarrow> InterpretedInstance option" where
  "set_block_cost b v =
    (case bs_charge_gas_index b of
       None \<Rightarrow> Some v
     | Some (pc, index) \<Rightarrow>
         (case fst (take_block_cost (bs_gas_visitor b)) of
            None \<Rightarrow> None
          | Some gas_cost \<Rightarrow>
              if index < length (vm_compiled_args v)
              then Some (v\<lparr>vm_compiled_args := (vm_compiled_args v)[index := args2 pc gas_cost]\<rparr>) else None))"

definition compile_block_impl :: "bool \<Rightarrow> u32 \<Rightarrow> GasVisitor \<Rightarrow> InterpretedInstance \<Rightarrow> (u32 option \<times> InterpretedInstance) option" where
  "compile_block_impl per_instruction pc gas_visitor v =
    (let origin = length (vm_compiled_handlers v) in
     if origin \<ge> 2 ^ 32 then None
     else
       Option.bind (module_instructions_bounded_at (vm_module v) pc) (\<lambda>instructions.
       Option.bind (compile_loop per_instruction instructions (module_is_jump_target_valid (vm_module v) pc)
         \<lparr>bs_gas_visitor = gas_visitor, bs_charge_gas_index = None\<rparr> v) (\<lambda>(b, v).
       Option.bind (limit_cache origin pc v) (\<lambda>v.
       Option.bind (set_block_cost b v) (\<lambda>v.
       Some (if length (vm_compiled_handlers v) = origin then None else Some (word_of_nat origin), v))))))"

definition compile_block :: "u32 \<Rightarrow> InterpretedInstance \<Rightarrow> (u32 option \<times> InterpretedInstance) option" where
  "compile_block pc v =
    (if pc \<ge> module_code_len (vm_module v) then Some (None, v)
     else compile_block_impl (m_is_per_instruction_metering (vm_module v)) pc (GasVisitor_new (m_cost_model (vm_module v))) v)"

section \<open>Resolving program counters\<close>

definition resolve_jump :: "u32 \<Rightarrow> InterpretedInstance \<Rightarrow> (u32 option \<times> InterpretedInstance) option" where
  "resolve_jump pc v =
    (case FlatMap_get pc (vm_compiled_offset_for_block v) of
       Some compiled_offset \<Rightarrow>
         (let (valid, target) = unpack_target compiled_offset in Some (if \<not> valid then None else Some target, v))
     | None \<Rightarrow>
         if \<not> module_is_jump_target_valid (vm_module v) pc then Some (None, v) else compile_block pc v)"

definition resolve_fallthrough :: "u32 \<Rightarrow> InterpretedInstance \<Rightarrow> (u32 option \<times> InterpretedInstance) option" where
  "resolve_fallthrough pc v =
    (case FlatMap_get pc (vm_compiled_offset_for_block v) of
       Some compiled_offset \<Rightarrow>
         (let (valid, target) = unpack_target compiled_offset in Some (if \<not> valid then None else Some target, v))
     | None \<Rightarrow> compile_block pc v)"

primrec find_charge_gas :: "nat \<Rightarrow> Handler list \<Rightarrow> nat" where
  "find_charge_gas 0 hs = 0"
| "find_charge_gas (Suc start) hs = (if hs ! Suc start \<noteq> H_control H_charge_gas then find_charge_gas start hs else Suc start)"

definition extract_target_and_gas :: "u32 \<Rightarrow> InterpretedInstance \<Rightarrow> (u32 \<times> u64) option" where
  "extract_target_and_gas compiled_offset v =
    (let (valid, target) = unpack_target compiled_offset; hs = vm_compiled_handlers v in
     if valid \<or> m_gas_metering (vm_module v) = None \<or> m_is_per_instruction_metering (vm_module v) \<or> \<not> vm_charge_gas_on_entry v
     then Some (target, 0)
     else
       let start = unat target in
       if \<not> start < length hs \<or> (hs ! start = H_control H_step \<and> \<not> start + 1 < length hs) then None
       else
         let start =
           (if hs ! start = H_control H_step \<and> hs ! (start + 1) = H_control H_charge_gas then start + 1
            else find_charge_gas start hs)
         in if hs ! start \<noteq> H_control H_charge_gas then None
            else if start < length (vm_compiled_args v) then Some (target, ucast (a1 (vm_compiled_args v ! start))) else None)"

definition resolve_arbitrary_jump :: "u32 \<Rightarrow> InterpretedInstance \<Rightarrow> ((u32 \<times> u64) option \<times> InterpretedInstance) option" where
  "resolve_arbitrary_jump pc v =
    (case FlatMap_get pc (vm_compiled_offset_for_block v) of
       Some compiled_offset \<Rightarrow> map_option (\<lambda>r. (Some r, v)) (extract_target_and_gas compiled_offset v)
     | None \<Rightarrow>
         (case module_find_start_of_basic_block (vm_module v) pc of
            None \<Rightarrow> Some (None, v)
          | Some basic_block_offset \<Rightarrow>
              Option.bind (compile_block basic_block_offset v) (\<lambda>(r, v).
              case r of
                None \<Rightarrow> Some (None, v)
              | Some _ \<Rightarrow>
                  (case FlatMap_get pc (vm_compiled_offset_for_block v) of
                     None \<Rightarrow> Some (None, v)
                   | Some compiled_offset \<Rightarrow>
                       if basic_block_offset = pc then Some (Some (snd (unpack_target compiled_offset), 0), v)
                       else map_option (\<lambda>r. (Some r, v)) (extract_target_and_gas compiled_offset v)))))"

end
