(* ===== verification/Interp_Run.thy ===== *)
theory Interp_Run
  imports Interp_Compile
begin

text \<open>
  The handlers of \<open>crates/polkavm/src/interpreter.rs\<close> that are not plain arithmetic (gas, control flow, memory), the
  dispatch of a handler on its arguments, the loop of \<open>run_impl\<close> and the methods of the instance that the host calls. \<open>None\<close>
  stands for a panic, for undefined behaviour of \<open>transmute_reg\<close>, or for a run that does not end.
\<close>

section \<open>Gas\<close>

definition not_enough_gas_impl :: "u32 \<Rightarrow> u32 \<Rightarrow> u64 \<Rightarrow> InterpretedInstance \<Rightarrow> outcome option" where
  "not_enough_gas_impl compiled_offset pc new_gas v =
    (case m_gas_metering (vm_module v) of
       None \<Rightarrow> None
     | Some metering \<Rightarrow>
         let v =
           (case metering of
              Async \<Rightarrow> v\<lparr>vm_gas := new_gas, vm_program_counter_valid := False, vm_next_program_counter := None,
                vm_next_program_counter_changed := True\<rparr>
            | Sync \<Rightarrow> v\<lparr>vm_program_counter := pc, vm_program_counter_valid := True, vm_next_program_counter := Some pc,
                vm_next_program_counter_changed := False\<rparr>)
         in Some (trigger_interrupt INotEnoughGas (v\<lparr>vm_next_compiled_offset := compiled_offset\<rparr>)))"

definition run_charge_gas :: "u32 \<Rightarrow> u32 \<Rightarrow> u32 \<Rightarrow> InterpretedInstance \<Rightarrow> outcome option" where
  "run_charge_gas compiled_offset pc gas_cost v =
    (let new_gas = vm_gas v - ucast gas_cost in
     if sint new_gas < 0 then not_enough_gas_impl compiled_offset pc new_gas v
     else Some (go_to_next_instruction compiled_offset, v\<lparr>vm_gas := new_gas\<rparr>))"

definition run_step :: "u32 \<Rightarrow> u32 \<Rightarrow> InterpretedInstance \<Rightarrow> outcome" where
  "run_step compiled_offset pc v =
    trigger_interrupt IStep (v\<lparr>vm_program_counter := pc, vm_program_counter_valid := True,
      vm_next_program_counter := Some pc, vm_next_program_counter_changed := False,
      vm_next_compiled_offset := compiled_offset + 1\<rparr>)"

section \<open>Control handlers\<close>

definition reset_interpreter_cache :: "InterpretedInstance \<Rightarrow> InterpretedInstance" where
  "reset_interpreter_cache v =
    v\<lparr>vm_compiled_handlers := [], vm_compiled_args := [],
      vm_compiled_offset_for_block := FlatMap_reset (vm_compiled_offset_for_block v), vm_next_compiled_offset := 0\<rparr>"

definition run_reset_cache :: "u32 \<Rightarrow> InterpretedInstance \<Rightarrow> outcome option" where
  "run_reset_cache pc v =
    map_option (\<lambda>(r, v). case r of Some target \<Rightarrow> (go_to_target target, v) | None \<Rightarrow> trigger_interrupt ITrap v)
      (compile_block pc (reset_interpreter_cache v))"

definition run_fallthrough :: "u32 \<Rightarrow> InterpretedInstance \<Rightarrow> outcome" where
  "run_fallthrough compiled_offset v = (go_to_next_instruction compiled_offset, v)"

definition run_trap :: "u32 \<Rightarrow> InterpretedInstance \<Rightarrow> outcome" where
  "run_trap pc v = trap_impl pc v"

definition run_invalid_branch_trap :: "u32 \<Rightarrow> InterpretedInstance \<Rightarrow> outcome" where
  "run_invalid_branch_trap pc v = trap_impl pc v"

text \<open>The dynamic memory has no \<open>sbrk\<close>: its method is a panic.\<close>

definition vm_sbrk :: "u32 \<Rightarrow> InterpretedInstance \<Rightarrow> (u32 option \<times> InterpretedInstance) option" where
  "vm_sbrk sz v =
    (case memory_kind v of
       MEMORY_STANDARD \<Rightarrow>
         map_option (\<lambda>(r, m). (r, v\<lparr>vm_standard_memory := m\<rparr>)) (Std_Memory.sbrk (vm_module v) sz (vm_standard_memory v))
     | MEMORY_DYNAMIC \<Rightarrow> None)"

definition run_sbrk :: "u32 \<Rightarrow> Reg \<Rightarrow> Reg \<Rightarrow> InterpretedInstance \<Rightarrow> outcome option" where
  "run_sbrk compiled_offset dst src v =
    (let x = get_i64 (RI_Reg src) v;
         sz = (if vm_is_64_bit v then (if 0 \<le> sint x \<and> sint x < 2 ^ 32 then ucast x else 0) else ucast x)
     in map_option (\<lambda>(r, v). (go_to_next_instruction compiled_offset,
            set_u64 dst (scast (case r of Some x \<Rightarrow> x | None \<Rightarrow> 0)) v))
          (vm_sbrk sz v))"

text \<open>The loop of \<open>memset\<close>, on the number of bytes left: the next position, the address and the count it ends with.\<close>

primrec memset_loop ::
  "nat \<Rightarrow> MemoryKind \<Rightarrow> bool \<Rightarrow> u32 \<Rightarrow> u32 \<Rightarrow> u32 \<Rightarrow> u32 \<Rightarrow> InterpretedInstance \<Rightarrow> (u32 \<times> u32 \<times> nat \<times> InterpretedInstance) option" where
  "memset_loop 0 mk metered compiled_offset pc value dst v = Some (go_to_next_instruction compiled_offset, dst, 0, v)"
| "memset_loop (Suc count) mk metered compiled_offset pc value dst v =
    (if metered \<and> vm_gas v = 0 then
       map_option (\<lambda>(result, v). (result, dst, Suc count, v)) (not_enough_gas_impl compiled_offset pc 0 v)
     else
       Option.bind (vm_store mk S_u8 compiled_offset pc (RI_Imm value) None dst v) (\<lambda>(result, v).
       if result \<noteq> go_to_next_instruction compiled_offset then Some (result, dst, Suc count, v)
       else
         let v = (if metered then v\<lparr>vm_gas := vm_gas v - 1\<rparr> else v)
         in memset_loop count mk metered compiled_offset pc value (dst + 1) v))"

definition run_memset :: "MemoryKind \<Rightarrow> u32 \<Rightarrow> u32 \<Rightarrow> InterpretedInstance \<Rightarrow> outcome option" where
  "run_memset mk compiled_offset pc v =
    (let metered = (m_gas_metering (vm_module v) \<noteq> None);
         value = get_i32 (RI_Reg A1) v;
         x0 = get_u64 (RI_Reg A0) v;
         dst = ucast x0;
         count = unat (get_u32 (RI_Reg A2) v)
     in map_option (\<lambda>(result, dst, count, v).
            (result, set_u64 A2 (word_of_nat count) (set_u64 A0 (x0 + ucast (dst - ucast x0)) v)))
          (memset_loop count mk metered compiled_offset pc value dst v))"

definition run_ecalli :: "u32 \<Rightarrow> u32 \<Rightarrow> u32 \<Rightarrow> InterpretedInstance \<Rightarrow> outcome option" where
  "run_ecalli compiled_offset pc hostcall_number v =
    Option.bind (module_instructions_bounded_at (vm_module v) pc) (\<lambda>instructions.
    Option.bind (Instructions_next instructions) (\<lambda>(item, _).
    map_option (\<lambda>instruction.
        trigger_interrupt (IEcalli hostcall_number)
          (v\<lparr>vm_program_counter := pc, vm_program_counter_valid := True,
             vm_next_program_counter := Some (word_of_nat (next_offset instruction)), vm_next_program_counter_changed := True,
             vm_next_compiled_offset := compiled_offset + 1\<rparr>)) item))"

definition run_load_imm :: "u32 \<Rightarrow> Reg \<Rightarrow> u32 \<Rightarrow> InterpretedInstance \<Rightarrow> outcome" where
  "run_load_imm compiled_offset dst imm v = (go_to_next_instruction compiled_offset, set_i32 dst imm v)"

definition run_load_imm64 :: "u32 \<Rightarrow> Reg \<Rightarrow> u32 \<Rightarrow> u32 \<Rightarrow> InterpretedInstance \<Rightarrow> outcome" where
  "run_load_imm64 compiled_offset dst imm_lo imm_hi v =
    (let imm = ucast imm_lo OR push_bit 32 (ucast imm_hi) in (go_to_next_instruction compiled_offset, set_u64 dst imm v))"

section \<open>Loads and stores\<close>

definition run_store_imm :: "MemoryKind \<Rightarrow> StoreTy \<Rightarrow> u32 \<Rightarrow> u32 \<Rightarrow> u32 \<Rightarrow> u32 \<Rightarrow> InterpretedInstance \<Rightarrow> outcome option" where
  "run_store_imm mk ty compiled_offset pc offset value v = vm_store mk ty compiled_offset pc (RI_Imm value) None offset v"

definition run_store_imm_indirect ::
  "MemoryKind \<Rightarrow> StoreTy \<Rightarrow> u32 \<Rightarrow> u32 \<Rightarrow> Reg \<Rightarrow> u32 \<Rightarrow> u32 \<Rightarrow> InterpretedInstance \<Rightarrow> outcome option" where
  "run_store_imm_indirect mk ty compiled_offset pc base offset value v =
    vm_store mk ty compiled_offset pc (RI_Imm value) (Some base) offset v"

definition run_store_indirect ::
  "MemoryKind \<Rightarrow> StoreTy \<Rightarrow> u32 \<Rightarrow> u32 \<Rightarrow> Reg \<Rightarrow> Reg \<Rightarrow> u32 \<Rightarrow> InterpretedInstance \<Rightarrow> outcome option" where
  "run_store_indirect mk ty compiled_offset pc src base offset v =
    vm_store mk ty compiled_offset pc (RI_Reg src) (Some base) offset v"

definition run_store :: "MemoryKind \<Rightarrow> StoreTy \<Rightarrow> u32 \<Rightarrow> u32 \<Rightarrow> Reg \<Rightarrow> u32 \<Rightarrow> InterpretedInstance \<Rightarrow> outcome option" where
  "run_store mk ty compiled_offset pc src offset v = vm_store mk ty compiled_offset pc (RI_Reg src) None offset v"

definition run_load :: "MemoryKind \<Rightarrow> LoadTy \<Rightarrow> u32 \<Rightarrow> u32 \<Rightarrow> Reg \<Rightarrow> u32 \<Rightarrow> InterpretedInstance \<Rightarrow> outcome option" where
  "run_load mk ty compiled_offset pc dst offset v = vm_load mk ty compiled_offset pc dst None offset v"

definition run_load_indirect ::
  "MemoryKind \<Rightarrow> LoadTy \<Rightarrow> u32 \<Rightarrow> u32 \<Rightarrow> Reg \<Rightarrow> Reg \<Rightarrow> u32 \<Rightarrow> InterpretedInstance \<Rightarrow> outcome option" where
  "run_load_indirect mk ty compiled_offset pc dst base offset v = vm_load mk ty compiled_offset pc dst (Some base) offset v"

section \<open>Branches and jumps\<close>

definition run_branch :: "op_reg_reg_offset \<Rightarrow> Reg \<Rightarrow> Reg \<Rightarrow> u32 \<Rightarrow> u32 \<Rightarrow> InterpretedInstance \<Rightarrow> outcome" where
  "run_branch op s1 s2 tt tf v =
    (let s1 = RI_Reg s1; s2 = RI_Reg s2 in case op of
       branch_less_unsigned \<Rightarrow> branch_u s1 s2 tt tf (\<lambda>s1 s2. s1 < s2) v
     | branch_less_signed \<Rightarrow> branch_i s1 s2 tt tf (\<lambda>s1 s2. sint s1 < sint s2) v
     | branch_eq \<Rightarrow> branch_u s1 s2 tt tf (\<lambda>s1 s2. s1 = s2) v
     | branch_not_eq \<Rightarrow> branch_u s1 s2 tt tf (\<lambda>s1 s2. s1 \<noteq> s2) v
     | branch_greater_or_equal_unsigned \<Rightarrow> branch_u s1 s2 tt tf (\<lambda>s1 s2. s1 \<ge> s2) v
     | branch_greater_or_equal_signed \<Rightarrow> branch_i s1 s2 tt tf (\<lambda>s1 s2. sint s1 \<ge> sint s2) v)"

text \<open>\<open>load_imm_and_jump\<close> has the shape of the branches with an immediate and is compiled to a handler of its own.\<close>

definition run_branch_imm :: "op_reg_imm_offset \<Rightarrow> Reg \<Rightarrow> u32 \<Rightarrow> u32 \<Rightarrow> u32 \<Rightarrow> InterpretedInstance \<Rightarrow> outcome option" where
  "run_branch_imm op s1 s2 tt tf v =
    (let s1 = RI_Reg s1; s2 = RI_Imm s2 in case op of
       load_imm_and_jump \<Rightarrow> None
     | branch_less_unsigned_imm \<Rightarrow> Some (branch_u s1 s2 tt tf (\<lambda>s1 s2. s1 < s2) v)
     | branch_less_signed_imm \<Rightarrow> Some (branch_i s1 s2 tt tf (\<lambda>s1 s2. sint s1 < sint s2) v)
     | branch_eq_imm \<Rightarrow> Some (branch_u s1 s2 tt tf (\<lambda>s1 s2. s1 = s2) v)
     | branch_not_eq_imm \<Rightarrow> Some (branch_u s1 s2 tt tf (\<lambda>s1 s2. s1 \<noteq> s2) v)
     | branch_greater_or_equal_unsigned_imm \<Rightarrow> Some (branch_u s1 s2 tt tf (\<lambda>s1 s2. s1 \<ge> s2) v)
     | branch_greater_or_equal_signed_imm \<Rightarrow> Some (branch_i s1 s2 tt tf (\<lambda>s1 s2. sint s1 \<ge> sint s2) v)
     | branch_less_or_equal_unsigned_imm \<Rightarrow> Some (branch_u s1 s2 tt tf (\<lambda>s1 s2. s1 \<le> s2) v)
     | branch_less_or_equal_signed_imm \<Rightarrow> Some (branch_i s1 s2 tt tf (\<lambda>s1 s2. sint s1 \<le> sint s2) v)
     | branch_greater_unsigned_imm \<Rightarrow> Some (branch_u s1 s2 tt tf (\<lambda>s1 s2. s1 > s2) v)
     | branch_greater_signed_imm \<Rightarrow> Some (branch_i s1 s2 tt tf (\<lambda>s1 s2. sint s1 > sint s2) v))"

definition jump_indirect_impl :: "u32 \<Rightarrow> u32 \<Rightarrow> InterpretedInstance \<Rightarrow> outcome option" where
  "jump_indirect_impl pc dynamic_address v =
    (if dynamic_address = VM_ADDR_RETURN_TO_HOST then
       Some (trigger_interrupt IFinished
         (v\<lparr>vm_program_counter := - 1, vm_program_counter_valid := False, vm_next_program_counter := None,
            vm_next_program_counter_changed := True\<rparr>))
     else
       Option.bind (get_by_address (module_jump_table (vm_module v)) dynamic_address) (\<lambda>entry.
       case entry of
         None \<Rightarrow> Some (trap_impl pc v)
       | Some target \<Rightarrow>
           map_option (\<lambda>(r, v). case r of Some target \<Rightarrow> (go_to_target target, v) | None \<Rightarrow> trap_impl pc v)
             (resolve_jump target v)))"

definition run_jump :: "u32 \<Rightarrow> InterpretedInstance \<Rightarrow> outcome" where
  "run_jump target v = (go_to_target target, v)"

definition run_jump_indirect :: "u32 \<Rightarrow> Reg \<Rightarrow> u32 \<Rightarrow> InterpretedInstance \<Rightarrow> outcome option" where
  "run_jump_indirect pc base offset v = jump_indirect_impl pc (ucast (get_i64 (RI_Reg base) v + scast offset)) v"

definition run_load_imm_and_jump_indirect :: "u32 \<Rightarrow> Reg \<Rightarrow> Reg \<Rightarrow> u32 \<Rightarrow> u32 \<Rightarrow> InterpretedInstance \<Rightarrow> outcome option" where
  "run_load_imm_and_jump_indirect pc ra base value offset v =
    (let dynamic_address = ucast (get_i64 (RI_Reg base) v + scast offset)
     in jump_indirect_impl pc dynamic_address (set_i32 ra value v))"

definition run_load_imm_and_jump :: "Reg \<Rightarrow> u32 \<Rightarrow> u32 \<Rightarrow> InterpretedInstance \<Rightarrow> outcome" where
  "run_load_imm_and_jump ra value target v = (go_to_target target, set_i32 ra value v)"

text \<open>The first run of a branch or jump resolves its targets and replaces the handler by one that goes there directly.\<close>

definition handle_unresolved_branch :: "Handler \<Rightarrow> u32 \<Rightarrow> u32 \<Rightarrow> u32 \<Rightarrow> u32 \<Rightarrow> u32 \<Rightarrow> InterpretedInstance \<Rightarrow> outcome option" where
  "handle_unresolved_branch h compiled_offset s1 s2 tt tf v =
    Option.bind (resolve_jump tt v) (\<lambda>(target_true, v).
    Option.bind (resolve_jump tf v) (\<lambda>(target_false, v).
    map_option (Pair (go_to_target compiled_offset))
      (case (target_true, target_false) of
         (Some target_true, Some target_false) \<Rightarrow>
           put_handler (unat compiled_offset) h (args4 s1 s2 target_true target_false) v
       | _ \<Rightarrow> put_handler (unat compiled_offset) (H_control H_invalid_branch_trap) (args1 tf) v)))"

definition run_unresolved_jump :: "u32 \<Rightarrow> u32 \<Rightarrow> u32 \<Rightarrow> InterpretedInstance \<Rightarrow> outcome option" where
  "run_unresolved_jump compiled_offset pc jump_to v =
    Option.bind (resolve_jump jump_to v) (\<lambda>(r, v).
    case r of
      None \<Rightarrow> Some (trap_impl pc v)
    | Some target \<Rightarrow>
        map_option (Pair (go_to_target target))
          (if compiled_offset + 1 = target then put_handler (unat compiled_offset) (H_control H_fallthrough) Args_default v
           else put_handler (unat compiled_offset) (H_control H_jump) (args1 target) v))"

definition run_unresolved_load_imm_and_jump :: "u32 \<Rightarrow> u32 \<Rightarrow> Reg \<Rightarrow> u32 \<Rightarrow> u32 \<Rightarrow> InterpretedInstance \<Rightarrow> outcome option" where
  "run_unresolved_load_imm_and_jump compiled_offset pc ra value jump_to v =
    Option.bind (resolve_jump jump_to (set_i32 ra value v)) (\<lambda>(r, v).
    case r of
      None \<Rightarrow> Some (trap_impl pc v)
    | Some target \<Rightarrow>
        map_option (Pair (go_to_target target))
          (put_handler (unat compiled_offset) (H_control H_load_imm_and_jump) (args3 (Reg_to_u32 ra) value target) v))"

definition run_unresolved_fallthrough :: "u32 \<Rightarrow> u32 \<Rightarrow> u32 \<Rightarrow> InterpretedInstance \<Rightarrow> outcome option" where
  "run_unresolved_fallthrough compiled_offset pc jump_to v =
    Option.bind (resolve_fallthrough jump_to v) (\<lambda>(r, v).
    case r of
      None \<Rightarrow> Some (trap_impl pc v)
    | Some target \<Rightarrow>
        map_option (Pair (go_to_target target))
          (if compiled_offset + 1 = target then put_handler (unat compiled_offset) (H_control H_fallthrough) Args_default v
           else put_handler (unat compiled_offset) (H_control H_jump) (args1 target) v))"

section \<open>Dispatch\<close>

text \<open>A handler reads its arguments, the words that \<open>compile_step\<close> or a resolved jump put beside it.\<close>

definition on_reg :: "u32 \<Rightarrow> (Reg \<Rightarrow> 'a option) \<Rightarrow> 'a option" where
  "on_reg w f = Option.bind (transmute_reg w) f"

definition run_control :: "h_control \<Rightarrow> u32 \<Rightarrow> Args \<Rightarrow> InterpretedInstance \<Rightarrow> outcome option" where
  "run_control h compiled_offset args v = (case h of
      H_charge_gas \<Rightarrow> run_charge_gas compiled_offset (a0 args) (a1 args) v
    | H_step \<Rightarrow> Some (run_step compiled_offset (a0 args) v)
    | H_reset_cache \<Rightarrow> run_reset_cache (a0 args) v
    | H_fallthrough \<Rightarrow> Some (run_fallthrough compiled_offset v)
    | H_trap \<Rightarrow> Some (run_trap (a0 args) v)
    | H_invalid_branch_trap \<Rightarrow> Some (run_invalid_branch_trap (a0 args) v)
    | H_sbrk \<Rightarrow> on_reg (a0 args) (\<lambda>d. on_reg (a1 args) (\<lambda>s. run_sbrk compiled_offset d s v))
    | H_ecalli \<Rightarrow> run_ecalli compiled_offset (a0 args) (a1 args) v
    | H_load_imm \<Rightarrow> on_reg (a0 args) (\<lambda>d. Some (run_load_imm compiled_offset d (a1 args) v))
    | H_load_imm64 \<Rightarrow> on_reg (a0 args) (\<lambda>d. Some (run_load_imm64 compiled_offset d (a1 args) (a2 args) v))
    | H_jump \<Rightarrow> Some (run_jump (a0 args) v)
    | H_jump_indirect \<Rightarrow> on_reg (a1 args) (\<lambda>b. run_jump_indirect (a0 args) b (a2 args) v)
    | H_load_imm_and_jump \<Rightarrow> on_reg (a0 args) (\<lambda>ra. Some (run_load_imm_and_jump ra (a1 args) (a2 args) v))
    | H_load_imm_and_jump_indirect \<Rightarrow>
        Option.bind (unpack_reg_reg (a1 args)) (\<lambda>(ra, b). run_load_imm_and_jump_indirect (a0 args) ra b (a2 args) (a3 args) v)
    | H_unresolved_jump \<Rightarrow> run_unresolved_jump compiled_offset (a0 args) (a1 args) v
    | H_unresolved_load_imm_and_jump \<Rightarrow>
        on_reg (a1 args) (\<lambda>ra. run_unresolved_load_imm_and_jump compiled_offset (a0 args) ra (a2 args) (a3 args) v)
    | H_unresolved_fallthrough \<Rightarrow> run_unresolved_fallthrough compiled_offset (a0 args) (a1 args) v)"

definition run_handler :: "Handler \<Rightarrow> u32 \<Rightarrow> Args \<Rightarrow> InterpretedInstance \<Rightarrow> outcome option" where
  "run_handler h compiled_offset args v = (case h of
      H_control c \<Rightarrow> run_control c compiled_offset args v
    | H_memset mk \<Rightarrow> run_memset mk compiled_offset (a0 args) v
    | H_reg_reg_reg wide op \<Rightarrow>
        on_reg (a0 args) (\<lambda>d. on_reg (a1 args) (\<lambda>s1. on_reg (a2 args) (\<lambda>s2.
          Some (run_reg_reg_reg wide op compiled_offset d s1 s2 v))))
    | H_reg_reg_imm op \<Rightarrow>
        on_reg (a0 args) (\<lambda>d. on_reg (a1 args) (\<lambda>s. map_option (\<lambda>f. f compiled_offset d s (a2 args) v) (run_reg_reg_imm op)))
    | H_reg_reg wide op \<Rightarrow>
        on_reg (a0 args) (\<lambda>d. on_reg (a1 args) (\<lambda>s. map_option (\<lambda>f. f compiled_offset d s v) (run_reg_reg wide op)))
    | H_store_imm mk ty \<Rightarrow> run_store_imm mk ty compiled_offset (a0 args) (a1 args) (a2 args) v
    | H_store_imm_indirect mk ty \<Rightarrow>
        on_reg (a1 args) (\<lambda>b. run_store_imm_indirect mk ty compiled_offset (a0 args) b (a2 args) (a3 args) v)
    | H_store_indirect mk ty \<Rightarrow>
        on_reg (a1 args) (\<lambda>s. on_reg (a2 args) (\<lambda>b. run_store_indirect mk ty compiled_offset (a0 args) s b (a3 args) v))
    | H_store mk ty \<Rightarrow> on_reg (a1 args) (\<lambda>s. run_store mk ty compiled_offset (a0 args) s (a2 args) v)
    | H_load mk ty \<Rightarrow> on_reg (a1 args) (\<lambda>d. run_load mk ty compiled_offset (a0 args) d (a2 args) v)
    | H_load_indirect mk ty \<Rightarrow>
        on_reg (a1 args) (\<lambda>d. on_reg (a2 args) (\<lambda>b. run_load_indirect mk ty compiled_offset (a0 args) d b (a3 args) v))
    | H_branch op \<Rightarrow>
        on_reg (a0 args) (\<lambda>s1. on_reg (a1 args) (\<lambda>s2. Some (run_branch op s1 s2 (a2 args) (a3 args) v)))
    | H_branch_imm op \<Rightarrow> on_reg (a0 args) (\<lambda>s1. run_branch_imm op s1 (a1 args) (a2 args) (a3 args) v)
    | H_unresolved_branch op \<Rightarrow>
        on_reg (a0 args) (\<lambda>s1. on_reg (a1 args) (\<lambda>s2.
          handle_unresolved_branch (H_branch op) compiled_offset (Reg_to_u32 s1) (Reg_to_u32 s2) (a2 args) (a3 args) v))
    | H_unresolved_branch_imm op \<Rightarrow>
        on_reg (a0 args) (\<lambda>s1.
          handle_unresolved_branch (H_branch_imm op) compiled_offset (Reg_to_u32 s1) (a1 args) (a2 args) (a3 args) v))"

section \<open>Running\<close>

definition fetch :: "u32 \<Rightarrow> InterpretedInstance \<Rightarrow> (Handler \<times> Args option) option" where
  "fetch offset v =
    (if unat offset < length (vm_compiled_handlers v)
     then Some (vm_compiled_handlers v ! unat offset,
       if unat offset < length (vm_compiled_args v) then Some (vm_compiled_args v ! unat offset) else None)
     else None)"

partial_function (option) run_loop :: "u32 \<Rightarrow> InterpretedInstance \<Rightarrow> (InterruptKind \<times> InterpretedInstance) option" where
  "run_loop offset v =
    (case fetch offset v of
       None \<Rightarrow> Some (vm_interrupt v, v)
     | Some (handler, args) \<Rightarrow>
         Option.bind args (\<lambda>args.
         Option.bind (run_handler handler offset args v) (\<lambda>(offset, v). run_loop offset v)))"

text \<open>\<open>run_enter\<close> is the part before the loop: it returns the position where the loop starts, or the interrupt of a run that
  does not start.\<close>

definition run_enter :: "InterpretedInstance \<Rightarrow> ((InterruptKind + u32) \<times> InterpretedInstance) option" where
  "run_enter v =
    (if vm_next_program_counter_changed v then
       (case vm_next_program_counter v of
          None \<Rightarrow> None
        | Some pc \<Rightarrow>
            map_option (\<lambda>(r, v).
              case r of
                None \<Rightarrow> (Inl ITrap, v\<lparr>vm_program_counter_valid := True, vm_program_counter := pc\<rparr>)
              | Some (offset, gas_cost) \<Rightarrow>
                  if sint gas_cost > sint (vm_gas v) then (Inl INotEnoughGas, v)
                  else
                    (Inr offset, v\<lparr>vm_gas := vm_gas v - gas_cost, vm_next_compiled_offset := offset, vm_program_counter := pc,
                       vm_next_program_counter := None, vm_next_program_counter_changed := False,
                       vm_charge_gas_on_entry := False\<rparr>))
              (resolve_arbitrary_jump pc v))
     else Some (Inr (vm_next_compiled_offset v), v))"

definition run_impl :: "InterpretedInstance \<Rightarrow> (InterruptKind \<times> InterpretedInstance) option" where
  "run_impl v =
    Option.bind (run_enter v) (\<lambda>(r, v).
    case r of
      Inl interrupt \<Rightarrow> Some (interrupt, v)
    | Inr offset \<Rightarrow> run_loop offset v)"

definition run :: "InterpretedInstance \<Rightarrow> (InterruptKind \<times> InterpretedInstance) option" where
  "run v = run_impl v"

section \<open>The methods of the instance\<close>

definition vm_reset_memory :: "InterpretedInstance \<Rightarrow> InterpretedInstance option" where
  "vm_reset_memory v =
    (case memory_kind v of
       MEMORY_STANDARD \<Rightarrow> Some (v\<lparr>vm_standard_memory := reset_memory (vm_module v) (vm_standard_memory v)\<rparr>)
     | MEMORY_DYNAMIC \<Rightarrow> map_option (\<lambda>m. v\<lparr>vm_dynamic_memory := m\<rparr>) (dm_reset_memory (vm_module v) (vm_dynamic_memory v)))"

definition initialize_module :: "InterpretedInstance \<Rightarrow> InterpretedInstance option" where
  "initialize_module v = vm_reset_memory (if m_gas_metering (vm_module v) \<noteq> None then v\<lparr>vm_gas := 0\<rparr> else v)"

definition new_from_module :: "Module \<Rightarrow> bool \<Rightarrow> InterpretedInstance option" where
  "new_from_module md force_step_tracing =
    initialize_module \<lparr>
      vm_module = md, vm_standard_memory = StandardMemory_new, vm_dynamic_memory = DynamicMemory_new,
      vm_regs = (\<lambda>_. 0), vm_program_counter = - 1, vm_program_counter_valid = False, vm_charge_gas_on_entry = True,
      vm_next_program_counter = None, vm_next_program_counter_changed = True, vm_gas = 0,
      vm_compiled_offset_for_block = FlatMap_new True (module_code_len md + 1),
      vm_compiled_handlers = [], vm_compiled_args = [], vm_next_compiled_offset = 0, vm_interrupt = IFinished,
      vm_step_tracing = (m_step_tracing md \<or> force_step_tracing), vm_unresolved_program_counter = None,
      vm_max_compiled_handlers = None\<rparr>"

definition set_gas :: "u64 \<Rightarrow> InterpretedInstance \<Rightarrow> InterpretedInstance" where
  "set_gas gas v = v\<lparr>vm_gas := gas\<rparr>"

record SetCacheSizeLimitArgs =
  max_block_size :: u32
  max_cache_size_bytes :: nat

definition INTERPRETER_CACHE_ENTRY_SIZE :: nat where
  "INTERPRETER_CACHE_ENTRY_SIZE = 24"

definition interpreter_calculate_cache_num_entries :: "nat \<Rightarrow> nat" where
  "interpreter_calculate_cache_num_entries bytes = bytes div INTERPRETER_CACHE_ENTRY_SIZE"

definition set_interpreter_cache_size_limit ::
  "SetCacheSizeLimitArgs option \<Rightarrow> InterpretedInstance \<Rightarrow> (string + unit) \<times> InterpretedInstance" where
  "set_interpreter_cache_size_limit cache_info v =
    (case cache_info of
       None \<Rightarrow> (Inr (), v\<lparr>vm_max_compiled_handlers := None\<rparr>)
     | Some args \<Rightarrow>
         let compiled_handlers_hard_limit = interpreter_calculate_cache_num_entries (max_cache_size_bytes args);
             minimum_compiled_handlers = (unat (max_block_size args) + 1) * 2
         in if compiled_handlers_hard_limit < minimum_compiled_handlers
            then (Inl ''given maximum cache size is too small to guarantee a tight upper bound'', v)
            else
              let compiled_handlers_soft_limit = compiled_handlers_hard_limit - (unat (max_block_size args) + 1)
              in (Inr (), v\<lparr>vm_max_compiled_handlers := Some compiled_handlers_soft_limit\<rparr>))"

definition set_interpreter_max_allocation_size :: "nat option \<Rightarrow> InterpretedInstance \<Rightarrow> InterpretedInstance" where
  "set_interpreter_max_allocation_size limit v =
    v\<lparr>vm_standard_memory := (vm_standard_memory v)\<lparr>sm_max_allocation_size := (case limit of Some n \<Rightarrow> n | None \<Rightarrow> usize_MAX)\<rparr>\<rparr>"

definition set_interpreter_guest_memory_limit :: "nat option \<Rightarrow> InterpretedInstance \<Rightarrow> InterpretedInstance" where
  "set_interpreter_guest_memory_limit limit v =
    v\<lparr>vm_standard_memory := (vm_standard_memory v)\<lparr>sm_guest_memory_limit := (case limit of Some n \<Rightarrow> n | None \<Rightarrow> usize_MAX)\<rparr>\<rparr>"

definition get_program_counter :: "InterpretedInstance \<Rightarrow> u32 option" where
  "get_program_counter v = (if \<not> vm_program_counter_valid v then None else Some (vm_program_counter v))"

definition get_next_program_counter :: "InterpretedInstance \<Rightarrow> u32 option" where
  "get_next_program_counter v = vm_next_program_counter v"

definition set_next_program_counter :: "u32 \<Rightarrow> InterpretedInstance \<Rightarrow> InterpretedInstance" where
  "set_next_program_counter pc v =
    v\<lparr>vm_program_counter_valid := False, vm_next_program_counter := Some pc, vm_next_program_counter_changed := True,
      vm_charge_gas_on_entry := True\<rparr>"

text \<open>A method that the memory in use does not implement is a panic.\<close>

definition vm_accessible_aux_size :: "InterpretedInstance \<Rightarrow> u32 option" where
  "vm_accessible_aux_size v =
    (case memory_kind v of MEMORY_STANDARD \<Rightarrow> Some (accessible_aux_size (vm_standard_memory v)) | MEMORY_DYNAMIC \<Rightarrow> None)"

definition vm_set_accessible_aux_size :: "u32 \<Rightarrow> InterpretedInstance \<Rightarrow> InterpretedInstance option" where
  "vm_set_accessible_aux_size sz v =
    (case memory_kind v of
       MEMORY_STANDARD \<Rightarrow> Some (v\<lparr>vm_standard_memory := set_accessible_aux_size sz (vm_standard_memory v)\<rparr>)
     | MEMORY_DYNAMIC \<Rightarrow> None)"

definition vm_is_memory_accessible :: "u32 \<Rightarrow> u32 \<Rightarrow> MemoryProtection \<Rightarrow> InterpretedInstance \<Rightarrow> bool option" where
  "vm_is_memory_accessible address sz minimum_protection v =
    (case memory_kind v of
       MEMORY_STANDARD \<Rightarrow> None
     | MEMORY_DYNAMIC \<Rightarrow> dm_is_memory_accessible address sz minimum_protection (vm_dynamic_memory v))"

definition vm_read_memory_into :: "u32 \<Rightarrow> nat \<Rightarrow> InterpretedInstance \<Rightarrow> (MemoryAccessError + bytes) option" where
  "vm_read_memory_into address len v =
    (case memory_kind v of
       MEMORY_STANDARD \<Rightarrow> read_memory_into address len (vm_standard_memory v)
     | MEMORY_DYNAMIC \<Rightarrow> dm_read_memory_into address len (vm_dynamic_memory v))"

definition vm_write_memory :: "u32 \<Rightarrow> bytes \<Rightarrow> InterpretedInstance \<Rightarrow> ((MemoryAccessError + unit) \<times> InterpretedInstance) option" where
  "vm_write_memory address data v =
    (case memory_kind v of
       MEMORY_STANDARD \<Rightarrow> map_option (\<lambda>(r, m). (r, v\<lparr>vm_standard_memory := m\<rparr>)) (std_write_memory address data (vm_standard_memory v))
     | MEMORY_DYNAMIC \<Rightarrow> map_option (\<lambda>(r, m). (r, v\<lparr>vm_dynamic_memory := m\<rparr>)) (dm_write_memory address data (vm_dynamic_memory v)))"

definition vm_zero_memory ::
  "u32 \<Rightarrow> u32 \<Rightarrow> MemoryProtection option \<Rightarrow> InterpretedInstance \<Rightarrow> ((MemoryAccessError + unit) \<times> InterpretedInstance) option" where
  "vm_zero_memory address len memory_protection v =
    (case memory_kind v of
       MEMORY_STANDARD \<Rightarrow> map_option (\<lambda>(r, m). (r, v\<lparr>vm_standard_memory := m\<rparr>)) (std_zero_memory address len (vm_standard_memory v))
     | MEMORY_DYNAMIC \<Rightarrow>
         map_option (\<lambda>(r, m). (r, v\<lparr>vm_dynamic_memory := m\<rparr>)) (dm_zero_memory address len memory_protection (vm_dynamic_memory v)))"

definition vm_change_memory_protection ::
  "u32 \<Rightarrow> u32 \<Rightarrow> MemoryProtection \<Rightarrow> InterpretedInstance \<Rightarrow> ((MemoryAccessError + unit) \<times> InterpretedInstance) option" where
  "vm_change_memory_protection address len protection v =
    (case memory_kind v of
       MEMORY_STANDARD \<Rightarrow> None
     | MEMORY_DYNAMIC \<Rightarrow>
         map_option (\<lambda>(r, m). (r, v\<lparr>vm_dynamic_memory := m\<rparr>)) (dm_change_memory_protection address len protection (vm_dynamic_memory v)))"

definition vm_free_pages :: "u32 \<Rightarrow> u32 \<Rightarrow> InterpretedInstance \<Rightarrow> InterpretedInstance option" where
  "vm_free_pages address len v =
    (case memory_kind v of
       MEMORY_STANDARD \<Rightarrow> None
     | MEMORY_DYNAMIC \<Rightarrow> map_option (\<lambda>m. v\<lparr>vm_dynamic_memory := m\<rparr>) (dm_free_pages address len (vm_dynamic_memory v)))"

definition vm_heap_size :: "InterpretedInstance \<Rightarrow> u32 option" where
  "vm_heap_size v =
    (case memory_kind v of MEMORY_STANDARD \<Rightarrow> Some (sm_heap_size (vm_standard_memory v)) | MEMORY_DYNAMIC \<Rightarrow> None)"

end
