(* ===== verification/Interp_Width.thy ===== *)
theory Interp_Width
  imports Interp_Run
begin

text \<open>
  The registers of a 32-bit program. The interpreter keeps every register in 64 bits and many handlers work on all of them, also
  for a program whose registers have 32; the instance relies on each register being the sign extension of its lower half. Here
  is which handlers keep that, and that the comparisons on 64 bits then are those on 32.
\<close>

section \<open>Sign-extended words\<close>

definition s32 :: "u64 \<Rightarrow> bool" where
  "s32 w \<longleftrightarrow> w = scast (ucast w :: u32)"

definition regs_32 :: "InterpretedInstance \<Rightarrow> bool" where
  "regs_32 v \<longleftrightarrow> (\<forall>r. s32 (vm_regs v r))"

lemma bit_sext: "bit (scast (ucast w :: u32) :: u64) n \<longleftrightarrow> n < 64 \<and> bit w (min n 31)" for w :: u64
  by (auto simp: bit_word_scast_iff bit_word_ucast_iff min_def not_le dest: bit_imp_le_length)

lemma s32_bits: "s32 w \<longleftrightarrow> (\<forall>n. 32 \<le> n \<and> n < 64 \<longrightarrow> bit w n = bit w 31)"
proof
  assume w: "s32 w"
  have "bit w n = bit (scast (ucast w :: u32) :: u64) n" for n
    using arg_cong [OF w [unfolded s32_def], of "\<lambda>x. bit x n"] .
  from this [unfolded bit_sext] show "\<forall>n. 32 \<le> n \<and> n < 64 \<longrightarrow> bit w n = bit w 31"
    by (intro allI impI) (erule meta_allE, erule ssubst, simp add: min_def)
next
  assume *: "\<forall>n. 32 \<le> n \<and> n < 64 \<longrightarrow> bit w n = bit w 31"
  show "s32 w" unfolding s32_def
  proof (rule bit_word_eqI)
    fix n assume "n < LENGTH(64)"
    with * show "bit w n = bit (scast (ucast w :: u32) :: u64) n"
      by (cases "n < 32") (simp_all add: bit_sext min_def)
  qed
qed

lemma s32_scast [simp]: "s32 (scast (x :: u32))"
  by (auto simp: s32_bits bit_word_scast_iff dest: bit_imp_le_length)

lemma s32_small [simp]: "s32 (ucast (x :: u8))" "s32 (ucast (y :: u16))" "s32 (scast (x :: u8))" "s32 (scast (y :: u16))"
  by (auto simp: s32_bits bit_word_scast_iff bit_word_ucast_iff dest: bit_imp_le_length)

lemma s32_of_bool [simp]: "s32 (of_bool b)"
  by (auto simp: s32_bits bit_1_iff)

lemma s32_bitwise [simp]: "s32 a \<Longrightarrow> s32 b \<Longrightarrow> s32 (a AND b)" "s32 a \<Longrightarrow> s32 b \<Longrightarrow> s32 (a OR b)" "s32 a \<Longrightarrow> s32 b \<Longrightarrow> s32 (a XOR b)"
  by (auto simp: s32_bits bit_and_iff bit_or_iff bit_xor_iff)

lemma sint_s32: "s32 w \<Longrightarrow> sint w = sint (ucast w :: u32)"
  by (subst (1) s32_def [THEN iffD1], assumption) (simp add: sint_up_scast is_up)

lemma uint_sext:
  fixes x :: u32
  shows "uint (scast x :: u64) = (if sint x < 0 then sint x + 2 ^ 64 else sint x)"
    "uint x = (if sint x < 0 then sint x + 2 ^ 32 else sint x)" "- (2 ^ 31) \<le> sint x" "sint x < 2 ^ 31"
proof -
  show b: "- (2 ^ 31) \<le> sint x" "sint x < 2 ^ 31" using sint_range_size [of x] by (simp_all add: word_size)
  have m: "k mod n = (if k < 0 then k + n else k)" if "- n \<le> k" "k < n" "0 < n" for k n :: int
    using that mod_pos_pos_trivial [of "k + n" n] mod_pos_pos_trivial [of k n] by auto
  have "uint (scast x :: u64) = sint x mod 2 ^ 64"
    by (simp only: scast_eq uint_word_of_int_eq take_bit_eq_mod len_bit0 len_num1 mult_1_right) simp
  then show "uint (scast x :: u64) = (if sint x < 0 then sint x + 2 ^ 64 else sint x)"
    using m [of "2 ^ 64" "sint x"] b by simp
  have "uint x = sint x mod 2 ^ 32"
    using uint_sint [of x] unfolding take_bit_eq_mod by (simp only: len_bit0 len_num1) simp
  then show "uint x = (if sint x < 0 then sint x + 2 ^ 32 else sint x)"
    using m [of "2 ^ 32" "sint x"] b by simp
qed

lemma less_sext: "(scast x :: u64) < scast y \<longleftrightarrow> x < y" for x y :: u32
  using uint_sext [of x] uint_sext [of y] by (simp add: word_less_def split: if_splits)

lemma sext_inject [simp]: "(scast x :: u64) = scast y \<longleftrightarrow> x = y" for x y :: u32
  using less_sext [of x y] less_sext [of y x] by (auto simp: neq_iff)

lemma s32_compare:
  assumes "s32 a" "s32 b"
  shows "a < b \<longleftrightarrow> (ucast a :: u32) < ucast b" "a \<le> b \<longleftrightarrow> (ucast a :: u32) \<le> ucast b" "a = b \<longleftrightarrow> (ucast a :: u32) = ucast b"
    "sint a = sint (ucast a :: u32)"
proof -
  obtain x y :: u32 where [simp]: "a = scast x" "b = scast y" using assms by (auto simp: s32_def)
  have [simp]: "(ucast (scast z :: u64) :: u32) = z" for z :: u32 by (rule bit_word_eqI) (simp add: bit_word_ucast_iff bit_word_scast_iff)
  show "a < b \<longleftrightarrow> (ucast a :: u32) < ucast b" "a = b \<longleftrightarrow> (ucast a :: u32) = ucast b" by (simp_all add: less_sext)
  then show "a \<le> b \<longleftrightarrow> (ucast a :: u32) \<le> ucast b" by (simp add: le_less)
  show "sint a = sint (ucast a :: u32)" using sint_s32 [OF assms(1)] .
qed

section \<open>Handlers of a 32-bit program\<close>

text \<open>The handlers that the instructions of \<open>ISA_Latest32\<close> are compiled to, but for \<open>memset\<close>.\<close>

fun narrow :: "Handler \<Rightarrow> bool" where
  "narrow (H_control c) = (c \<noteq> H_load_imm64)"
| "narrow (H_memset mk) = False"
| "narrow (H_reg_reg_reg wide op) = (\<not> wide \<and> op \<in> fst ` set Latest32_reg_reg_reg)"
| "narrow (H_reg_reg_imm op) = (op \<in> fst ` set Latest32_reg_reg_imm)"
| "narrow (H_reg_reg wide op) = (\<not> wide \<and> op \<in> fst ` set Latest32_reg_reg)"
| "narrow (H_load mk ty) = (ty \<noteq> L_u32 \<and> ty \<noteq> L_u64)"
| "narrow (H_load_indirect mk ty) = (ty \<noteq> L_u32 \<and> ty \<noteq> L_u64)"
| "narrow (H_store mk ty) = True"
| "narrow (H_store_imm mk ty) = True"
| "narrow (H_store_indirect mk ty) = True"
| "narrow (H_store_imm_indirect mk ty) = True"
| "narrow (H_branch op) = True"
| "narrow (H_branch_imm op) = True"
| "narrow (H_unresolved_branch op) = True"
| "narrow (H_unresolved_branch_imm op) = True"

lemma regs_32_set [simp]:
  "regs_32 v \<Longrightarrow> regs_32 (set_i32 d x v)" "regs_32 v \<Longrightarrow> regs_32 (set_u32 d x v)"
  "regs_32 v \<Longrightarrow> s32 y \<Longrightarrow> regs_32 (set_i64 d y v)" "regs_32 v \<Longrightarrow> s32 y \<Longrightarrow> regs_32 (set_u64 d y v)"
  by (auto simp: regs_32_def set_i32_def set_u32_def set_i64_def set_u64_def)

lemma regs_32_get [simp]: "regs_32 v \<Longrightarrow> s32 (get_i64 x v)" "regs_32 v \<Longrightarrow> s32 (get_u64 x v)"
  by (auto simp: regs_32_def get_i64_def get_u64_def split: RegImm.split)

lemma regs_32_set3 [simp]:
  assumes "regs_32 v"
  shows "regs_32 (snd (set3_i32 co d s1 s2 f v))" "regs_32 (snd (set3_u32 co d s1 s2 f v))"
    "(\<And>x y. s32 x \<Longrightarrow> s32 y \<Longrightarrow> s32 (g x y)) \<Longrightarrow> regs_32 (snd (set3_i64 co d s1 s2 g v))"
    "(\<And>x y. s32 x \<Longrightarrow> s32 y \<Longrightarrow> s32 (g x y)) \<Longrightarrow> regs_32 (snd (set3_u64 co d s1 s2 g v))"
  using assms by (simp_all add: set3_i32_def set3_u32_def set3_i64_def set3_u64_def Let_def)

lemma alu_regs_32:
  assumes "regs_32 v"
  shows "narrow (H_reg_reg_reg wide op3) \<Longrightarrow> regs_32 (snd (run_reg_reg_reg wide op3 co d s1 s2 v))"
    "narrow (H_reg_reg_imm opi) \<Longrightarrow> run_reg_reg_imm opi = Some f \<Longrightarrow> regs_32 (snd (f co d s1 imm v))"
    "narrow (H_reg_reg wide op2) \<Longrightarrow> run_reg_reg wide op2 = Some g \<Longrightarrow> regs_32 (snd (g co d s1 v))"
  subgoal using assms
    by (auto simp: Latest32_reg_reg_reg_def run_reg_reg_reg_def handlers)
  subgoal using assms
    by (auto simp: Latest32_reg_reg_imm_def run_reg_reg_imm_def handlers)
  subgoal using assms
    by (auto simp: Latest32_reg_reg_def run_reg_reg_def handlers)
  done

end
