(* ===== verification/Interp_Cache.thy ===== *)
theory Interp_Cache
  imports Interp_Width
begin

text \<open>
  What the cache of compiled handlers holds. Compiling a block or resolving a jump only changes the cache; a
  property of the entries that the compiler and the resolved jumps respect holds of the whole cache, in every state that
  can be reached.
\<close>

section \<open>Changes of the cache\<close>

text \<open>The instance without its cache.\<close>

definition machine :: "InterpretedInstance \<Rightarrow> InterpretedInstance" where
  "machine v = v\<lparr>vm_compiled_offset_for_block := FlatMap_new True 0, vm_compiled_handlers := [], vm_compiled_args := [],
    vm_max_compiled_handlers := None\<rparr>"

lemma machine_update [simp]:
  "machine (v\<lparr>vm_compiled_offset_for_block := fm\<rparr>) = machine v" "machine (v\<lparr>vm_compiled_handlers := hs\<rparr>) = machine v"
  "machine (v\<lparr>vm_compiled_args := as\<rparr>) = machine v" "machine (v\<lparr>vm_max_compiled_handlers := mx\<rparr>) = machine v"
  "machine (v\<lparr>vm_compiled_handlers := hs, vm_compiled_args := as\<rparr>) = machine v"
  by (simp_all add: machine_def)

lemma machine_fields:
  assumes "machine v' = machine v"
  shows "vm_module v' = vm_module v" "vm_regs v' = vm_regs v" "vm_gas v' = vm_gas v"
    "vm_standard_memory v' = vm_standard_memory v" "vm_dynamic_memory v' = vm_dynamic_memory v"
  using arg_cong [OF assms, of vm_module] arg_cong [OF assms, of vm_regs] arg_cong [OF assms, of vm_gas]
    arg_cong [OF assms, of vm_standard_memory] arg_cong [OF assms, of vm_dynamic_memory]
  by (simp_all add: machine_def)

lemma machine_push [simp]: "machine (push_handlers code v) = machine v"
  by (simp add: push_handlers_def)

lemma machine_emit [simp]: "machine (emit_step pc v) = machine v" "machine (snd (emit_charge_gas per p pc b v)) = machine v"
  by (auto simp: emit_step_def emit_charge_gas_def Let_def)

lemma machine_put: "put_handler i h a v = Some v' \<Longrightarrow> machine v' = machine v"
  by (auto simp: put_handler_def split: if_splits)

section \<open>Instructions of a program\<close>

text \<open>What an iterator over the code of a module yields: the instructions at the marked offsets, and invalid ones. Over code of
  \<open>u32::MAX\<close> bytes, where the offset after the end wraps around, an unmarked offset can be decoded.\<close>

definition module_yields :: "Module \<Rightarrow> Instruction \<Rightarrow> bool" where
  "module_yields md i \<longleftrightarrow> i = invalid \<or> (\<exists>offset < length (pb_code (m_blob md)).
    (length (pb_code (m_blob md)) < u32_MAX \<longrightarrow> bit_at (pb_bitmask (m_blob md)) offset) \<and>
    i = instruction_at (isa_of (pb_isa (m_blob md))) (pb_code (m_blob md)) (pb_bitmask (m_blob md)) offset)"

lemma module_yields_invalid [simp]: "module_yields md invalid"
  by (simp add: module_yields_def)

definition iterates :: "Module \<Rightarrow> Instructions \<Rightarrow> bool" where
  "iterates md it \<longleftrightarrow> i_code it = pb_code (m_blob md) \<and> i_bitmask it = pb_bitmask (m_blob md) \<and>
    i_instruction_set it = isa_of (pb_isa (m_blob md)) \<and> code_ok (pb_code (m_blob md)) (pb_bitmask (m_blob md)) \<and> is_bounded it \<and>
    (length (pb_code (m_blob md)) < u32_MAX \<longrightarrow> \<not> is_done it \<longrightarrow> i_offset it < length (pb_code (m_blob md)) \<longrightarrow>
      bit_at (pb_bitmask (m_blob md)) (i_offset it))"

lemma iterates_new: "module_instructions_bounded_at md pc = Some it \<Longrightarrow> iterates md it"
  by (auto simp: module_instructions_bounded_at_def Instructions_new_def iterates_def code_ok_def get_bit_for_offset_eq Let_def
      split: if_splits)

lemma iterates_next:
  assumes "iterates md it" "Instructions_next it = Some (item, it')"
  shows "iterates md it'" "item = Some p \<Longrightarrow> module_yields md (kind p)"
proof -
  define code bm isa where "code = pb_code (m_blob md)" and "bm = pb_bitmask (m_blob md)" and "isa = isa_of (pb_isa (m_blob md))"
  note it = assms(1) [unfolded iterates_def, folded code_def bm_def isa_def]
  have "iterates md it' \<and> (item = Some p \<longrightarrow> module_yields md (kind p))"
  proof (cases "invalid_offset it = None \<and> \<not> is_done it \<and> i_offset it < length code")
    case True
    define nx where "nx = i_offset it + skip_at code bm (i_offset it) + 1"
    have parse: "parse_instruction_at isa code bm (i_offset it) = Some (nx, instruction_at isa code bm (i_offset it), invalid_after isa code bm (i_offset it))"
      unfolding nx_def using True it by (intro parse_instruction_at_eq) simp_all
    have "bit_at bm nx" if "\<not> invalid_after isa code bm (i_offset it)" "nx < length code"
      using not_invalid_after_following [OF _ that(1)] following_start [of code bm "i_offset it"] that(2) True unfolding nx_def by simp
    moreover have "\<not> (length code + 1) mod 2 ^ 32 < length code" if "length code < u32_MAX"
      using that by (simp add: u32_MAX_def)
    moreover have "module_yields md (instruction_at isa code bm (i_offset it))"
      using True it unfolding module_yields_def code_def bm_def isa_def by blast
    ultimately show ?thesis
      using assms(2) it True
      by (auto simp: Instructions_next_def parse iterates_def Let_def code_def [symmetric] bm_def [symmetric] isa_def [symmetric] split: if_splits)
  next
    case False
    then show ?thesis
      using assms it by (cases "invalid_offset it") (auto simp: Instructions_next_def iterates_def code_def)
  qed
  then show "iterates md it'" "item = Some p \<Longrightarrow> module_yields md (kind p)" by simp_all
qed

section \<open>Compiling leaves the machine alone\<close>

lemma compile_loop_rule:
  assumes loop: "compile_loop per it valid b v = Some (b', v')" and it: "iterates md it"
    and step: "\<And>p valid b v b' v'. module_yields md (kind p) \<Longrightarrow> I b v \<Longrightarrow> compile_step per p valid b v = Some (b', v') \<Longrightarrow> I b' v'"
    and init: "I b v"
  shows "I b' v'"
proof -
  define P where "P per' it b v r \<longleftrightarrow> (per' = per \<longrightarrow> iterates md it \<longrightarrow> I b v \<longrightarrow> I (fst r) (snd r))" for per' it b v r
  have "P per it b v (b', v')"
  proof (rule compile_loop.raw_induct [where P = "\<lambda>per it valid b v r. P per it b v r", OF _ loop])
    fix loop per' it valid b v r
    assume IH: "\<And>per it valid b v r. loop per it valid b v = Some r \<Longrightarrow> P per it b v r"
      and body: "Option.bind (Instructions_next it) (\<lambda>(item, it). case item of None \<Rightarrow> Some (b, v)
        | Some p \<Rightarrow> Option.bind (compile_step per' p valid b v) (\<lambda>(b, v).
            if starts_new_basic_block (opcode (kind p)) then Some (b, v) else loop per' it False b v)) = Some r"
    show "P per' it b v r"
      unfolding P_def
    proof (intro impI)
      assume "per' = per" and it: "iterates md it" and inv: "I b v"
      obtain item it' where nxt: "Instructions_next it = Some (item, it')" using body by (cases "Instructions_next it") auto
      show "I (fst r) (snd r)"
      proof (cases item)
        case None
        then show ?thesis using body nxt inv by auto
      next
        case (Some p)
        then obtain b1 v1 where one: "compile_step per p valid b v = Some (b1, v1)"
          and rest: "(if starts_new_basic_block (opcode (kind p)) then Some (b1, v1) else loop per it' False b1 v1) = Some r"
          using body nxt unfolding \<open>per' = per\<close> by (auto simp: Option.bind_eq_Some_conv)
        have "I b1 v1" using step [OF iterates_next(2) [OF it nxt Some] inv one] .
        then show ?thesis using rest IH [of per it' False b1 v1 r] iterates_next(1) [OF it nxt]
          by (auto simp: P_def split: if_splits)
      qed
    qed
  qed
  then show ?thesis using it init by (simp add: P_def)
qed

lemma compile_step_machine: "compile_step per p valid b v = Some (b', v') \<Longrightarrow> machine v' = machine v"
  using machine_emit(2) [of per p] by (auto simp: compile_step_def Let_def Option.bind_eq_Some_conv case_prod_beta)

lemma compile_block_machine: "compile_block pc v = Some (r, v') \<Longrightarrow> machine v' = machine v"
proof -
  have loop: "machine v' = machine v" if "compile_loop per it valid b v = Some (b', v')" "iterates (vm_module v) it" for per it valid b b' v v'
    by (rule compile_loop_rule [OF that, where I = "\<lambda>_ w. machine w = machine v"]) (auto dest: compile_step_machine)
  have lim: "machine v' = machine v" if "limit_cache n pc v = Some v'" for n pc v v'
    using that by (auto simp: limit_cache_def Let_def dest!: machine_put split: option.splits if_splits)
  have cost: "machine v' = machine v" if "set_block_cost b v = Some v'" for b v v'
    using that by (auto simp: set_block_cost_def split: option.splits if_splits)
  assume "compile_block pc v = Some (r, v')"
  then show ?thesis
    by (auto simp: compile_block_def compile_block_impl_def Let_def Option.bind_eq_Some_conv split: if_splits
        dest!: loop [OF _ iterates_new] lim cost)
qed

lemma resolve_machine:
  "resolve_jump pc v = Some (r, v') \<Longrightarrow> machine v' = machine v"
  "resolve_fallthrough pc v = Some (r, v') \<Longrightarrow> machine v' = machine v"
  "resolve_arbitrary_jump pc v = Some (r2, v') \<Longrightarrow> machine v' = machine v"
  by (auto simp: resolve_jump_def resolve_fallthrough_def resolve_arbitrary_jump_def Option.bind_eq_Some_conv
      split: option.splits if_splits prod.splits dest: compile_block_machine)

section \<open>Properties of the entries\<close>

definition cached :: "Module \<Rightarrow> (Handler \<Rightarrow> Args \<Rightarrow> bool) \<Rightarrow> InterpretedInstance \<Rightarrow> bool" where
  "cached md P v \<longleftrightarrow> vm_module v = md \<and> list_all2 P (vm_compiled_handlers v) (vm_compiled_args v)"

text \<open>The handler whose argument is the cost of the block.\<close>

definition charge_at :: "block_state \<Rightarrow> InterpretedInstance \<Rightarrow> bool" where
  "charge_at b v \<longleftrightarrow> (case bs_charge_gas_index b of None \<Rightarrow> True
    | Some (pc, i) \<Rightarrow> i < length (vm_compiled_handlers v) \<and>
        vm_compiled_handlers v ! i \<in> {H_control H_charge_gas, H_control H_reset_cache})"

lemma cached_push:
  assumes "cached md P v" "list_all (\<lambda>(h, a). P h a) code"
  shows "cached md P (push_handlers code v)"
proof -
  have "list_all2 P (map fst code) (map snd code)" using assms(2) by (induction code) auto
  then show ?thesis using assms(1) by (simp add: cached_def push_handlers_def list_all2_appendI)
qed

lemma cached_put: "cached md P v \<Longrightarrow> P h a \<Longrightarrow> put_handler i h a v = Some v' \<Longrightarrow> cached md P v'"
  by (auto simp: cached_def put_handler_def intro: list_all2_update_cong split: if_splits)

lemma charge_at_push: "charge_at b v \<Longrightarrow> charge_at b (push_handlers code v)"
  by (auto simp: charge_at_def push_handlers_def nth_append split: option.splits)

lemma charge_at_put:
  "charge_at b v \<Longrightarrow> put_handler i (H_control H_reset_cache) a v = Some v' \<Longrightarrow> charge_at b v'"
  by (auto simp: charge_at_def put_handler_def nth_list_update split: option.splits if_splits)

lemma cached_cong [simp]:
  "cached md P (v\<lparr>vm_compiled_offset_for_block := fm\<rparr>) = cached md P v"
  "cached md P (v\<lparr>vm_max_compiled_handlers := mx\<rparr>) = cached md P v"
  "charge_at b (v\<lparr>vm_compiled_offset_for_block := fm\<rparr>) = charge_at b v"
  "charge_at b (v\<lparr>vm_max_compiled_handlers := mx\<rparr>) = charge_at b v"
  by (simp_all add: cached_def charge_at_def split: option.split)

lemma charge_at_emit: "charge_at b v \<Longrightarrow> emit_charge_gas per p pc b v = (b', v') \<Longrightarrow> charge_at b' v'"
  by (auto simp: emit_charge_gas_def charge_at_def push_handlers_def nth_append Let_def split: if_splits option.splits)

lemma compile_stepE:
  fixes p :: ParsedInstruction
  assumes "compile_step per p valid b v = Some (b', v')"
  defines "pc \<equiv> word_of_nat (p_offset p)"
  obtains packed fm v1 where "pack_target (length (vm_compiled_handlers v)) valid = Some packed"
    "FlatMap_insert pc packed (vm_compiled_offset_for_block v) = Some fm"
    "emit_charge_gas per p pc b (emit_step pc (v\<lparr>vm_compiled_offset_for_block := fm\<rparr>)) = (b', v1)"
    "v' = push_handlers (Compiler_visit (kind p) \<lparr>c_program_counter = pc, c_next_program_counter = word_of_nat (next_offset p),
      c_module = vm_module v1, c_memory_kind = memory_kind v1\<rparr>) v1"
proof -
  obtain packed where packed: "pack_target (length (vm_compiled_handlers v)) valid = Some packed"
    using assms(1) by (cases "pack_target (length (vm_compiled_handlers v)) valid") (auto simp: compile_step_def)
  obtain fm where fm: "FlatMap_insert pc packed (vm_compiled_offset_for_block v) = Some fm"
    using assms(1) packed unfolding pc_def
    by (cases "FlatMap_insert (word_of_nat (p_offset p)) packed (vm_compiled_offset_for_block v)") (auto simp: compile_step_def)
  obtain b1 v1 where c: "emit_charge_gas per p pc b (emit_step pc (v\<lparr>vm_compiled_offset_for_block := fm\<rparr>)) = (b1, v1)" by fastforce
  show thesis using that [OF packed fm, of v1] assms(1) packed fm c unfolding pc_def by (simp add: compile_step_def)
qed

section \<open>Handlers that leave the cache alone\<close>

definition cache_of :: "InterpretedInstance \<Rightarrow> Module \<times> Handler list \<times> Args list \<times> u32 FlatMap \<times> nat option" where
  "cache_of v = (vm_module v, vm_compiled_handlers v, vm_compiled_args v, vm_compiled_offset_for_block v, vm_max_compiled_handlers v)"

lemma cached_code_of: "cache_of v' = cache_of v \<Longrightarrow> cached md P v' = cached md P v"
  by (simp add: cached_def cache_of_def)

lemma cache_of_set [simp]:
  "cache_of (set_i32 d x v) = cache_of v" "cache_of (set_u32 d x v) = cache_of v"
  "cache_of (set_i64 d y v) = cache_of v" "cache_of (set_u64 d y v) = cache_of v"
  by (simp_all add: cache_of_def set_i32_def set_u32_def set_i64_def set_u64_def)

lemma gas_set [simp]:
  "vm_gas (set_i32 d x v) = vm_gas v" "vm_gas (set_u32 d x v) = vm_gas v"
  "vm_gas (set_i64 d y v) = vm_gas v" "vm_gas (set_u64 d y v) = vm_gas v"
  by (simp_all add: set_i32_def set_u32_def set_i64_def set_u64_def)

text \<open>A handler that changes registers, memory or the program counters, but neither the cache nor the gas.\<close>

definition plain :: "InterpretedInstance \<Rightarrow> InterpretedInstance \<Rightarrow> bool" where
  "plain v v' \<longleftrightarrow> cache_of v' = cache_of v \<and> vm_gas v' = vm_gas v"

lemma plain_refl [simp]: "plain v v"
  by (simp add: plain_def)

lemma plain_set3 [simp]:
  "plain v (snd (set3_i32 co d s1 s2 f v))" "plain v (snd (set3_u32 co d s1 s2 f v))"
  "plain v (snd (set3_i64 co d s1 s2 g v))" "plain v (snd (set3_u64 co d s1 s2 g v))"
  by (simp_all add: plain_def set3_i32_def set3_u32_def set3_i64_def set3_u64_def Let_def)

lemma plain_set [simp]:
  "plain v (set_i32 d x v)" "plain v (set_u32 d x v)" "plain v (set_i64 d y v)" "plain v (set_u64 d y v)"
  by (simp_all add: plain_def)

lemma plain_alu:
  "plain v (snd (run_reg_reg_reg wide op3 co d s1 s2 v))"
  "run_reg_reg_imm opi = Some f \<Longrightarrow> plain v (snd (f co d s1 imm v))"
  "run_reg_reg wide op2 = Some g \<Longrightarrow> plain v (snd (g co d s1 v))"
  subgoal by (cases op3) (simp_all add: run_reg_reg_reg_def handlers)
  subgoal by (cases opi) (auto simp: run_reg_reg_imm_def handlers)
  subgoal by (cases op2) (auto simp: run_reg_reg_def handlers)
  done

lemma plain_trap [simp]: "plain v (snd (trap_impl pc v))" "vm_regs (snd (trap_impl pc v)) = vm_regs v"
  by (simp_all add: trap_impl_def trigger_interrupt_def plain_def cache_of_def)

lemma plain_segfault [simp]: "plain v (snd (segfault_impl co pc p w v))" "vm_regs (snd (segfault_impl co pc p w v)) = vm_regs v"
  by (simp_all add: segfault_impl_def trigger_interrupt_def plain_def cache_of_def trap_impl_def Let_def)

lemma plain_pc [simp]: "plain (v\<lparr>vm_program_counter := pc\<rparr>) v' = plain v v'"
  "plain v (v\<lparr>vm_standard_memory := m\<rparr>)" "plain v (v\<lparr>vm_dynamic_memory := dm\<rparr>)"
  "plain v (v\<lparr>vm_regs := rs\<rparr>)"
  by (simp_all add: plain_def cache_of_def)

lemma plain_trans [trans]: "plain u v \<Longrightarrow> plain v w \<Longrightarrow> plain u w"
  by (simp add: plain_def)

lemma vm_load_effect:
  assumes "vm_load mk ty co pc d b off v = Some (r, v')"
  shows "plain v v' \<and> (vm_regs v' = vm_regs v \<or> (\<exists>x. vm_regs v' = (vm_regs v)(d := x) \<and>
    (std_load_impl ty (access_address b off v) (vm_standard_memory v) = Some (LoadOk x) \<or>
     dm_load_impl ty (access_address b off v) (vm_dynamic_memory v) = Some (LoadOk x))))"
proof -
  define w where "w = v\<lparr>vm_program_counter := pc\<rparr>"
  have w: "plain w u = plain v u" "vm_regs w = vm_regs v" "access_address b off w = access_address b off v"
    "vm_standard_memory w = vm_standard_memory v" "vm_dynamic_memory w = vm_dynamic_memory v" for u
    by (simp_all add: w_def access_address_def split: option.split)
  obtain z where z: "(case mk of MEMORY_STANDARD \<Rightarrow> std_load_impl ty (access_address b off v) (vm_standard_memory v)
      | MEMORY_DYNAMIC \<Rightarrow> dm_load_impl ty (access_address b off v) (vm_dynamic_memory v)) = Some z"
    and "(case z of LoadOk x \<Rightarrow> on_load_ok co d x w | LoadTrap \<Rightarrow> on_load_trap w
      | LoadSegfault p q \<Rightarrow> on_load_segfault co p q w) = (r, v')"
    using assms by (auto simp: vm_load_def load_impl_def Let_def w_def [symmetric] w cong: MemoryKind.case_cong)
  then have v': "v' = snd (case z of LoadOk x \<Rightarrow> on_load_ok co d x w | LoadTrap \<Rightarrow> on_load_trap w
      | LoadSegfault p q \<Rightarrow> on_load_segfault co p q w)" by (metis snd_conv)
  show ?thesis
  proof (cases z)
    case (LoadOk x)
    then have "v' = set_i64 d x w" using v' by (simp add: on_load_ok_def)
    then show ?thesis using z LoadOk w(1) [of v'] by (auto simp: set_i64_def w(2) split: MemoryKind.splits)
  qed (use v' w(1) [of v'] in \<open>simp_all add: on_load_trap_def on_load_segfault_def w(2)\<close>)
qed

lemma vm_store_effect:
  assumes "vm_store mk ty co pc x b off v = Some (r, v')"
  shows "plain v v' \<and> vm_regs v' = vm_regs v"
proof -
  define w where "w = v\<lparr>vm_program_counter := pc\<rparr>"
  have w: "plain w u = plain v u" "vm_regs w = vm_regs v" for u by (simp_all add: w_def)
  define fin where "fin z u = (case z of StoreOk \<Rightarrow> on_store_ok co u | StoreTrap \<Rightarrow> on_store_trap u
      | StoreTrapDueToMemoryLimit \<Rightarrow> on_store_trap_due_to_memory_limit u | StoreSegfault p q \<Rightarrow> on_store_segfault co p q u)" for z u
  have "\<exists>z m. fin z (w\<lparr>vm_standard_memory := m\<rparr>) = (r, v') \<or> (\<exists>dm. fin z (w\<lparr>vm_dynamic_memory := dm\<rparr>) = (r, v'))"
    using assms by (auto simp: vm_store_def store_impl_def Let_def w_def [symmetric] fin_def [symmetric] split: MemoryKind.splits prod.splits)
  moreover have "plain w (w\<lparr>vm_standard_memory := m\<rparr>) \<and> vm_regs (w\<lparr>vm_standard_memory := m\<rparr>) = vm_regs w"
    "plain w (w\<lparr>vm_dynamic_memory := dm\<rparr>) \<and> vm_regs (w\<lparr>vm_dynamic_memory := dm\<rparr>) = vm_regs w" for m dm by simp_all
  ultimately obtain z w' where w': "plain w w'" "vm_regs w' = vm_regs w" and "fin z w' = (r, v')" by blast
  then have v': "v' = snd (fin z w')" by simp
  have "plain w' v' \<and> vm_regs v' = vm_regs w'"
    using v' by (cases z) (simp_all add: fin_def on_store_ok_def on_store_trap_def on_store_trap_due_to_memory_limit_def on_store_segfault_def)
  then show ?thesis using w' w plain_trans by auto
qed

lemma not_enough_gas_effect:
  "not_enough_gas_impl co pc g v = Some (r, v') \<Longrightarrow> cache_of v' = cache_of v \<and> vm_regs v' = vm_regs v"
  by (auto simp: not_enough_gas_impl_def trigger_interrupt_def cache_of_def Let_def split: option.splits GasMeteringKind.splits)

lemma memset_loop_effect:
  "memset_loop n mk metered co pc x d v = Some (r, d', n', v') \<Longrightarrow> cache_of v' = cache_of v \<and> vm_regs v' = vm_regs v"
proof (induction n arbitrary: d v)
  case (Suc n)
  show ?case
  proof (cases "metered \<and> vm_gas v = 0")
    case True
    then show ?thesis using Suc.prems not_enough_gas_effect [of co pc 0 v] by auto
  next
    case False
    then obtain r1 v1 where store: "vm_store mk S_u8 co pc (RI_Imm x) None d v = Some (r1, v1)"
      using Suc.prems by (cases "vm_store mk S_u8 co pc (RI_Imm x) None d v") auto
    have rest: "(if r1 \<noteq> go_to_next_instruction co then Some (r1, d, Suc n, v1)
        else memset_loop n mk metered co pc x (d + 1) (if metered then v1\<lparr>vm_gas := vm_gas v1 - 1\<rparr> else v1)) = Some (r, d', n', v')"
      using Suc.prems False store unfolding memset_loop.simps Let_def by (simp split del: if_split)
    have "cache_of v1 = cache_of v \<and> vm_regs v1 = vm_regs v" using vm_store_effect [OF store] by (simp add: plain_def)
    then show ?thesis using rest Suc.IH by (fastforce simp: cache_of_def split: if_splits)
  qed
qed simp

lemma sbrk_effect: "run_sbrk co d s v = Some (r, v') \<Longrightarrow> plain v v'"
  by (auto simp: run_sbrk_def vm_sbrk_def Let_def plain_def cache_of_def set_u64_def set_i64_def split: MemoryKind.splits)

lemma charge_gas_effect: "run_charge_gas co pc g v = Some (r, v') \<Longrightarrow> cache_of v' = cache_of v \<and> vm_regs v' = vm_regs v"
  by (auto simp: run_charge_gas_def Let_def cache_of_def split: if_splits dest: not_enough_gas_effect)

lemma step_effect: "cache_of (snd (run_step co pc v)) = cache_of v" "vm_regs (snd (run_step co pc v)) = vm_regs v"
  by (simp_all add: run_step_def trigger_interrupt_def cache_of_def)

lemma ecalli_effect: "run_ecalli co pc n v = Some (r, v') \<Longrightarrow> plain v v' \<and> vm_regs v' = vm_regs v"
  by (auto simp: run_ecalli_def trigger_interrupt_def plain_def cache_of_def Option.bind_eq_Some_conv)

lemma memset_effect: "run_memset mk co pc v = Some (r, v') \<Longrightarrow> cache_of v' = cache_of v"
  by (auto simp: run_memset_def Let_def dest!: memset_loop_effect)

lemma finished_effect:
  "plain v (snd (trigger_interrupt IFinished (v\<lparr>vm_program_counter := pc, vm_program_counter_valid := b, vm_next_program_counter := n,
     vm_next_program_counter_changed := c\<rparr>)))"
  by (simp add: trigger_interrupt_def plain_def cache_of_def)

lemma run_enter_resolves:
  assumes "run_enter v = Some (r, v')" "vm_next_program_counter_changed v"
  obtains pc r1 w where "resolve_arbitrary_jump pc v = Some (r1, w)" "cache_of v' = cache_of w" "vm_regs v' = vm_regs w"
proof -
  obtain pc where pc: "vm_next_program_counter v = Some pc"
    using assms by (cases "vm_next_program_counter v") (auto simp: run_enter_def)
  obtain r1 w where w: "resolve_arbitrary_jump pc v = Some (r1, w)"
    using assms pc by (cases "resolve_arbitrary_jump pc v") (auto simp: run_enter_def)
  have "cache_of v' = cache_of w \<and> vm_regs v' = vm_regs w"
    using assms pc w by (cases r1) (auto simp: run_enter_def cache_of_def split: if_splits)
  with that [OF w] show thesis by blast
qed

locale entry_property =
  fixes md :: Module and P :: "Handler \<Rightarrow> Args \<Rightarrow> bool"
  assumes visited: "module_yields md i \<Longrightarrow> c_module c = md \<Longrightarrow> (h, a) \<in> set (Compiler_visit i c) \<Longrightarrow> P h a"
    and fixed: "k \<in> {H_charge_gas, H_step, H_reset_cache, H_fallthrough, H_invalid_branch_trap, H_jump} \<Longrightarrow> P (H_control k) a"
    and linked: "P (H_control H_load_imm_and_jump) (args3 (Reg_to_u32 r) x y)"
    and branch: "P (H_unresolved_branch op) a \<Longrightarrow> P (H_branch op) (args4 (Reg_to_u32 r) (Reg_to_u32 s) x y)"
    and branch_imm: "P (H_unresolved_branch_imm opi) a \<Longrightarrow> P (H_branch_imm opi) (args4 (Reg_to_u32 r) w x y)"
begin

lemma compile_step_cached:
  assumes "module_yields md (kind p)" "cached md P v \<and> charge_at b v" "compile_step per p valid b v = Some (b', v')"
  shows "cached md P v' \<and> charge_at b' v'"
proof -
  obtain fm v1 c where v1: "emit_charge_gas per p (word_of_nat (p_offset p)) b
      (emit_step (word_of_nat (p_offset p)) (v\<lparr>vm_compiled_offset_for_block := fm\<rparr>)) = (b', v1)"
    and v': "v' = push_handlers (Compiler_visit (kind p) c) v1" "c_module c = vm_module v1"
    using compile_stepE [OF assms(3)] by (metis Compiler.select_convs(3))
  have step: "cached md P (emit_step pc w) \<and> charge_at b (emit_step pc w)" if "cached md P w" "charge_at b w" for pc w
    using that fixed by (auto simp: emit_step_def intro!: cached_push charge_at_push)
  have gas: "cached md P w'" if "cached md P w" "emit_charge_gas per p pc b w = (b', w')" for pc w w'
    using that fixed by (auto simp: emit_charge_gas_def Let_def split: if_splits intro!: cached_push)
  have "cached md P v1 \<and> charge_at b' v1"
    using v1 step [of "v\<lparr>vm_compiled_offset_for_block := fm\<rparr>"] assms(2) gas charge_at_emit by (metis cached_cong(1,3))
  moreover from this have "vm_module v1 = md" by (simp add: cached_def)
  ultimately show ?thesis
    using v' visited [OF assms(1), of c] by (auto simp: list.pred_set intro!: cached_push charge_at_push)
qed

lemma compile_block_cached:
  assumes "compile_block pc v = Some (r, v')" "cached md P v"
  shows "cached md P v'"
proof (cases "pc \<ge> module_code_len (vm_module v)")
  case False
  then obtain it b v1 v2 per where it: "module_instructions_bounded_at md pc = Some it"
    and loop: "compile_loop per it (module_is_jump_target_valid md pc)
        \<lparr>bs_gas_visitor = GasVisitor_new (m_cost_model md), bs_charge_gas_index = None\<rparr> v = Some (b, v1)"
    and lim: "limit_cache (length (vm_compiled_handlers v)) pc v1 = Some v2" and cost: "set_block_cost b v2 = Some v'"
    using assms by (auto simp: compile_block_def compile_block_impl_def cached_def Let_def Option.bind_eq_Some_conv split: if_splits)
  have 1: "cached md P v1 \<and> charge_at b v1"
    using compile_loop_rule [OF loop iterates_new [OF it], where I = "\<lambda>b v. cached md P v \<and> charge_at b v", OF compile_step_cached]
      assms(2) by (simp add: charge_at_def)
  have put: "cached md P w' \<and> charge_at b w'"
    if "put_handler i (H_control H_reset_cache) a w = Some w'" "cached md P w" "charge_at b w" for i a w w'
    using that cached_put [of md P w "H_control H_reset_cache" a i w'] charge_at_put [of b w i a w'] fixed by simp
  have 2: "cached md P v2 \<and> charge_at b v2"
    using lim 1 put [of _ _ "v1\<lparr>vm_max_compiled_handlers := m\<rparr>" v2 for m] put [of _ _ v1 v2]
    by (auto simp: limit_cache_def Let_def split: option.splits if_splits)
  then show ?thesis
    using cost fixed
    by (auto simp: set_block_cost_def cached_def charge_at_def list_all2_conv_all_nth nth_list_update
        split: option.splits if_splits)
qed (use assms in \<open>simp add: compile_block_def\<close>)

lemma resolve_cached:
  assumes "cached md P v"
  shows "resolve_jump pc v = Some (r, v') \<Longrightarrow> cached md P v'" "resolve_fallthrough pc v = Some (r, v') \<Longrightarrow> cached md P v'"
    "resolve_arbitrary_jump pc v = Some (r2, v') \<Longrightarrow> cached md P v'"
  using assms
  by (auto simp: resolve_jump_def resolve_fallthrough_def resolve_arbitrary_jump_def Option.bind_eq_Some_conv
      split: option.splits if_splits prod.splits dest: compile_block_cached)

lemma reset_cached: "cached md P v \<Longrightarrow> cached md P (reset_interpreter_cache v)"
  by (simp add: cached_def reset_interpreter_cache_def)

lemma trap_cached: "cached md P v \<Longrightarrow> cached md P (snd (trap_impl pc v))"
  using cached_code_of plain_trap(1) unfolding plain_def by blast

lemma set_cached: "cached md P v \<Longrightarrow> cached md P (set_i32 d x v)"
  using cached_code_of cache_of_set(1) by blast

lemma trap_or_cached:
  assumes "cached md P w"
  shows "(case r of Some target \<Rightarrow> (go_to_target target, w) | None \<Rightarrow> trap_impl pc w) = (x, w') \<Longrightarrow> cached md P w'"
    "(case r of None \<Rightarrow> Some (trap_impl pc w) | Some target \<Rightarrow> map_option (Pair (go_to_target target)) (f target)) = Some (x, w') \<Longrightarrow>
      (\<And>target. f target = Some w' \<Longrightarrow> cached md P w') \<Longrightarrow> cached md P w'"
  using trap_cached [OF assms, of pc] assms by (auto split: option.splits)

lemma jump_indirect_cached:
  assumes "jump_indirect_impl pc target v = Some (r, v')" "cached md P v"
  shows "cached md P v'"
proof (cases "target = VM_ADDR_RETURN_TO_HOST")
  case True
  then show ?thesis
    using assms by (auto simp: jump_indirect_impl_def trigger_interrupt_def cached_def)
next
  case False
  then obtain entry where entry: "get_by_address (module_jump_table (vm_module v)) target = Some entry"
    using assms by (cases "get_by_address (module_jump_table (vm_module v)) target") (auto simp: jump_indirect_impl_def)
  show ?thesis
  proof (cases entry)
    case None
    then show ?thesis using False entry assms trap_cached [OF assms(2), of pc] by (simp add: jump_indirect_impl_def)
  next
    case (Some t)
    then obtain r1 w where w: "resolve_jump t v = Some (r1, w)"
      "(case r1 of Some target \<Rightarrow> (go_to_target target, w) | None \<Rightarrow> trap_impl pc w) = (r, v')"
      using False entry assms by (cases "resolve_jump t v") (auto simp: jump_indirect_impl_def)
    then show ?thesis using trap_or_cached(1) [OF resolve_cached(1) [OF assms(2) w(1)]] by blast
  qed
qed

lemma unresolved_cached:
  assumes "cached md P v"
  shows "run_unresolved_jump co pc target v = Some (r, v') \<Longrightarrow> cached md P v'" (is "?jump \<Longrightarrow> _")
    and "run_unresolved_fallthrough co pc target v = Some (r, v') \<Longrightarrow> cached md P v'" (is "?fall \<Longrightarrow> _")
    and "run_unresolved_load_imm_and_jump co pc ra x target v = Some (r, v') \<Longrightarrow> cached md P v'" (is "?load \<Longrightarrow> _")
proof -
  assume ?jump
  then obtain r1 w where w: "resolve_jump target v = Some (r1, w)"
    by (cases "resolve_jump target v") (auto simp: run_unresolved_jump_def)
  note c = resolve_cached(1) [OF assms w]
  from \<open>?jump\<close> w show "cached md P v'"
    unfolding run_unresolved_jump_def by simp (erule trap_or_cached(2) [OF c], auto split: if_splits intro: cached_put [OF c] fixed)
next
  assume ?fall
  then obtain r1 w where w: "resolve_fallthrough target v = Some (r1, w)"
    by (cases "resolve_fallthrough target v") (auto simp: run_unresolved_fallthrough_def)
  note c = resolve_cached(2) [OF assms w]
  from \<open>?fall\<close> w show "cached md P v'"
    unfolding run_unresolved_fallthrough_def by simp (erule trap_or_cached(2) [OF c], auto split: if_splits intro: cached_put [OF c] fixed)
next
  assume ?load
  then obtain r1 w where w: "resolve_jump target (set_i32 ra x v) = Some (r1, w)"
    by (cases "resolve_jump target (set_i32 ra x v)") (auto simp: run_unresolved_load_imm_and_jump_def)
  note c = resolve_cached(1) [OF set_cached [OF assms] w]
  from \<open>?load\<close> w show "cached md P v'"
    unfolding run_unresolved_load_imm_and_jump_def by simp (erule trap_or_cached(2) [OF c], auto intro: cached_put [OF c] linked)
qed

lemma unresolved_branch_cached:
  assumes "handle_unresolved_branch h co s1 s2 tt tf v = Some (r, v')" "cached md P v" "\<And>x y. P h (args4 s1 s2 x y)"
  shows "cached md P v'"
proof -
  obtain r1 w1 where w1: "resolve_jump tt v = Some (r1, w1)"
    using assms(1) by (cases "resolve_jump tt v") (auto simp: handle_unresolved_branch_def)
  obtain r2 w2 where w2: "resolve_jump tf w1 = Some (r2, w2)"
    using assms(1) w1 by (cases "resolve_jump tf w1") (auto simp: handle_unresolved_branch_def)
  have c: "cached md P w2" using resolve_cached(1) [OF resolve_cached(1) [OF assms(2) w1] w2] .
  show ?thesis
    using assms(1) w1 w2
    by (auto simp: handle_unresolved_branch_def split: option.splits intro: cached_put [OF c assms(3)] cached_put [OF c fixed])
qed

lemma reset_cache_cached:
  assumes "run_reset_cache pc v = Some (r, v')" "cached md P v"
  shows "cached md P v'"
proof -
  obtain r1 w where w: "compile_block pc (reset_interpreter_cache v) = Some (r1, w)"
    using assms(1) by (cases "compile_block pc (reset_interpreter_cache v)") (auto simp: run_reset_cache_def)
  have "cached md P w" using compile_block_cached [OF w reset_cached [OF assms(2)]] .
  then show ?thesis
    using assms(1) w by (cases r1) (auto simp: run_reset_cache_def trigger_interrupt_def cached_def)
qed

lemma run_control_cached:
  assumes "run_control k co a v = Some (r, v')" "cached md P v"
  shows "cached md P v'"
proof -
  have plain: "cached md P w" if "plain v w" for w
    using that assms(2) cached_code_of [of w v] by (simp add: plain_def)
  have trap: "cached md P w" if "trap_impl pc v = (x, w)" for pc x w
    using plain [OF plain_trap(1) [of v pc]] that by simp
  note run = assms(1) [unfolded run_control_def on_reg_def Option.bind_eq_Some_conv]
  show ?thesis
  proof (cases k)
    case H_charge_gas
    then show ?thesis using run assms(2) charge_gas_effect [THEN conjunct1, THEN cached_code_of] by auto
  next
    case H_step
    then show ?thesis using run assms(2) cached_code_of [OF step_effect(1) [of co "a0 a" v]] by simp
  next
    case H_reset_cache
    then show ?thesis using run reset_cache_cached assms(2) by simp
  next
    case H_trap
    then show ?thesis using run trap by (simp add: run_trap_def)
  next
    case H_invalid_branch_trap
    then show ?thesis using run trap by (simp add: run_invalid_branch_trap_def)
  next
    case H_sbrk
    then show ?thesis using run by (auto simp: Option.bind_eq_Some_conv dest!: sbrk_effect intro: plain)
  next
    case H_ecalli
    then show ?thesis using run by (auto dest!: ecalli_effect intro: plain)
  next
    case H_load_imm
    then show ?thesis using run by (auto simp: Option.bind_eq_Some_conv run_load_imm_def intro: plain)
  next
    case H_load_imm64
    then show ?thesis using run by (auto simp: Option.bind_eq_Some_conv run_load_imm64_def Let_def intro: plain)
  next
    case H_jump_indirect
    then show ?thesis using run by (auto simp: Option.bind_eq_Some_conv run_jump_indirect_def intro: jump_indirect_cached [OF _ assms(2)])
  next
    case H_load_imm_and_jump
    then show ?thesis using run by (auto simp: Option.bind_eq_Some_conv run_load_imm_and_jump_def intro: plain)
  next
    case H_load_imm_and_jump_indirect
    then show ?thesis
      using run by (auto simp: Option.bind_eq_Some_conv run_load_imm_and_jump_indirect_def Let_def intro: jump_indirect_cached [OF _ set_cached [OF assms(2)]])
  next
    case H_unresolved_jump
    then show ?thesis using run by (auto simp: Option.bind_eq_Some_conv intro: unresolved_cached(1) [OF assms(2)])
  next
    case H_unresolved_load_imm_and_jump
    then show ?thesis using run by (auto simp: Option.bind_eq_Some_conv intro: unresolved_cached(3) [OF assms(2)])
  next
    case H_unresolved_fallthrough
    then show ?thesis using run by (auto simp: Option.bind_eq_Some_conv intro: unresolved_cached(2) [OF assms(2)])
  qed (use run assms(2) in \<open>simp_all add: run_fallthrough_def run_jump_def\<close>)
qed

lemma run_handler_cached:
  assumes "run_handler h co a v = Some (r, v')" "cached md P v" "P h a"
  shows "cached md P v'"
proof -
  have plain: "cached md P w" if "plain v w" for w
    using assms(2) cached_code_of [of w v] that by (simp add: plain_def)
  note run = assms(1) [unfolded run_handler_def on_reg_def Option.bind_eq_Some_conv]
  show ?thesis
  proof (cases h)
    case (H_control k)
    then show ?thesis using run assms(2) run_control_cached by simp
  next
    case (H_memset mk)
    then show ?thesis using run assms(2) memset_effect [THEN cached_code_of] by auto
  next
    case (H_reg_reg_reg wide op)
    then obtain d s1 s2 where "run_reg_reg_reg wide op co d s1 s2 v = (r, v')" using run by (auto simp: Option.bind_eq_Some_conv)
    then show ?thesis using plain [OF plain_alu(1) [of v wide op co d s1 s2]] by simp
  next
    case (H_reg_reg_imm op)
    then obtain d s1 f where f: "run_reg_reg_imm op = Some f" "f co d s1 (a2 a) v = (r, v')" using run by (auto simp: Option.bind_eq_Some_conv)
    then show ?thesis using plain [OF plain_alu(2) [OF f(1), of v co d s1 "a2 a"]] by simp
  next
    case (H_reg_reg wide op)
    then obtain d s1 f where f: "run_reg_reg wide op = Some f" "f co d s1 v = (r, v')" using run by (auto simp: Option.bind_eq_Some_conv)
    then show ?thesis using plain [OF plain_alu(3) [OF f(1), of v co d s1]] by simp
  next
    case (H_branch op)
    then show ?thesis
      using run assms(2) by (cases op) (auto simp: run_branch_def branch_i_def branch_u_def Let_def Option.bind_eq_Some_conv)
  next
    case (H_branch_imm op)
    then show ?thesis
      using run assms(2) by (cases op) (auto simp: run_branch_imm_def branch_i_def branch_u_def Let_def Option.bind_eq_Some_conv)
  next
    case (H_unresolved_branch op)
    then obtain s1 s2 where "handle_unresolved_branch (H_branch op) co (Reg_to_u32 s1) (Reg_to_u32 s2) (a2 a) (a3 a) v = Some (r, v')"
      using run by (auto simp: Option.bind_eq_Some_conv)
    from unresolved_branch_cached [OF this assms(2) branch [OF assms(3) [unfolded H_unresolved_branch]]] show ?thesis .
  next
    case (H_unresolved_branch_imm op)
    then obtain s1 where "handle_unresolved_branch (H_branch_imm op) co (Reg_to_u32 s1) (a1 a) (a2 a) (a3 a) v = Some (r, v')"
      using run by (auto simp: Option.bind_eq_Some_conv)
    from unresolved_branch_cached [OF this assms(2) branch_imm [OF assms(3) [unfolded H_unresolved_branch_imm]]] show ?thesis .
  qed (use run in \<open>auto simp: Option.bind_eq_Some_conv run_store_imm_def run_store_imm_indirect_def run_store_indirect_def run_store_def
      run_load_def run_load_indirect_def dest!: vm_load_effect vm_store_effect intro!: plain\<close>)
qed

lemma run_enter_cached:
  assumes "run_enter v = Some (r, v')" "cached md P v"
  shows "cached md P v'"
proof (cases "vm_next_program_counter_changed v")
  case True
  obtain pc r1 w where "resolve_arbitrary_jump pc v = Some (r1, w)" "cache_of v' = cache_of w"
    using run_enter_resolves [OF assms(1) True] by blast
  then show ?thesis using resolve_cached(3) [OF assms(2)] cached_code_of by blast
qed (use assms in \<open>simp add: run_enter_def\<close>)

end

end
