(* ===== verification/Interp_Reach.thy ===== *)
theory Interp_Reach
  imports Interp_Cache
begin

text \<open>
  The states an instance can reach: what the host does between runs, how a run starts, and every single dispatch of the loop of
  \<open>run_impl\<close>. Two properties of the cached entries hold in all of them: the arguments decode to the registers they
  were made of, and a 32-bit program only has handlers that keep its registers sign-extended.
\<close>

section \<open>Reachable states\<close>

inductive host_op :: "InterpretedInstance \<Rightarrow> InterpretedInstance \<Rightarrow> bool" where
  set_reg: "host_op v (set_reg r x v)"
| set_gas: "host_op v (set_gas g v)"
| set_next_program_counter: "host_op v (set_next_program_counter pc v)"
| set_cache_size_limit: "host_op v (snd (set_interpreter_cache_size_limit info v))"
| set_max_allocation_size: "host_op v (set_interpreter_max_allocation_size limit v)"
| set_guest_memory_limit: "host_op v (set_interpreter_guest_memory_limit limit v)"
| set_accessible_aux_size: "vm_set_accessible_aux_size n v = Some v' \<Longrightarrow> host_op v v'"
| write_memory: "vm_write_memory address data v = Some (r, v') \<Longrightarrow> host_op v v'"
| zero_memory: "vm_zero_memory address len prot v = Some (r, v') \<Longrightarrow> host_op v v'"
| change_memory_protection: "vm_change_memory_protection address len protection v = Some (r, v') \<Longrightarrow> host_op v v'"
| free_pages: "vm_free_pages address len v = Some v' \<Longrightarrow> host_op v v'"
| sbrk: "vm_sbrk n v = Some (r, v') \<Longrightarrow> host_op v v'"
| reset_memory: "vm_reset_memory v = Some v' \<Longrightarrow> host_op v v'"
| reset_cache: "host_op v (reset_interpreter_cache v)"

text \<open>A position in the compiled code and an instance. The host acts on an instance whatever position the last run ended with.\<close>

inductive vm_reach :: "Module \<Rightarrow> u32 \<Rightarrow> InterpretedInstance \<Rightarrow> bool" for md where
  new: "new_from_module md tracing = Some v \<Longrightarrow> vm_reach md Target_MAX v"
| host: "vm_reach md offset v \<Longrightarrow> host_op v v' \<Longrightarrow> vm_reach md Target_MAX v'"
| enter: "vm_reach md offset v \<Longrightarrow> run_enter v = Some (Inr offset', v') \<Longrightarrow> vm_reach md offset' v'"
| refused: "vm_reach md offset v \<Longrightarrow> run_enter v = Some (Inl interrupt, v') \<Longrightarrow> vm_reach md Target_MAX v'"
| step: "vm_reach md offset v \<Longrightarrow> fetch offset v = Some (h, Some args) \<Longrightarrow> run_handler h offset args v = Some (offset', v') \<Longrightarrow>
    vm_reach md offset' v'"

lemma reach_run_loop: "run_loop offset v = Some (interrupt, v') \<Longrightarrow> vm_reach md offset v \<Longrightarrow> \<exists>offset'. vm_reach md offset' v'"
proof (induction offset v "(interrupt, v')" rule: run_loop.raw_induct [rotated, consumes 1, case_names step])
  case (step loop offset v)
  show ?case
  proof (cases "fetch offset v")
    case None
    then show ?thesis using step.hyps step.prems by auto
  next
    case (Some ha)
    then obtain h a offset' w where h: "fetch offset v = Some (h, Some a)" "run_handler h offset a v = Some (offset', w)"
      "loop offset' w = Some (interrupt, v')"
      using step.hyps by (cases ha) (auto simp: Option.bind_eq_Some_conv)
    then show ?thesis using step.hyps(1) step.prems vm_reach.step by blast
  qed
qed

lemma reach_run:
  assumes "vm_reach md offset v" "run v = Some (interrupt, v')"
  shows "\<exists>offset'. vm_reach md offset' v'"
proof -
  obtain r w where w: "run_enter v = Some (r, w)" "(case r of Inl i \<Rightarrow> Some (i, w) | Inr o1 \<Rightarrow> run_loop o1 w) = Some (interrupt, v')"
    using assms(2) by (auto simp: run_def run_impl_def Option.bind_eq_Some_conv)
  show ?thesis
  proof (cases r)
    case (Inl i)
    then show ?thesis using vm_reach.refused [OF assms(1)] w by auto
  next
    case (Inr o1)
    then show ?thesis using vm_reach.enter [OF assms(1)] w reach_run_loop by fastforce
  qed
qed

lemma host_op_code:
  "host_op v v' \<Longrightarrow> vm_module v' = vm_module v \<and> (vm_compiled_handlers v' = vm_compiled_handlers v \<and>
    vm_compiled_args v' = vm_compiled_args v \<or> vm_compiled_handlers v' = [] \<and> vm_compiled_args v' = [])"
  by (induction rule: host_op.induct)
    (auto simp: set_reg_def set_gas_def set_next_program_counter_def set_interpreter_cache_size_limit_def
      set_interpreter_max_allocation_size_def set_interpreter_guest_memory_limit_def vm_set_accessible_aux_size_def
      vm_write_memory_def vm_zero_memory_def vm_change_memory_protection_def vm_free_pages_def vm_sbrk_def vm_reset_memory_def
      reset_interpreter_cache_def Let_def split: MemoryKind.splits option.splits)

lemma host_op_cached: "host_op v v' \<Longrightarrow> cached md P v \<Longrightarrow> cached md P v'"
  by (auto simp: cached_def dest: host_op_code)

lemma new_fields:
  assumes "new_from_module md tracing = Some v"
  shows "vm_module v = md" "vm_compiled_handlers v = []" "vm_compiled_args v = []" "vm_regs v = (\<lambda>_. 0)"
  using assms by (auto simp: new_from_module_def initialize_module_def vm_reset_memory_def split: MemoryKind.splits if_splits)

context entry_property
begin

lemma reach_cached: "vm_reach md offset v \<Longrightarrow> cached md P v"
proof (induction rule: vm_reach.induct)
  case (step offset v h args offset' v')
  then have "P h args" by (auto simp: fetch_def cached_def list_all2_conv_all_nth split: if_splits)
  with step show ?case using run_handler_cached by blast
qed (auto simp: cached_def new_fields dest: host_op_cached run_enter_cached intro: host_op_cached run_enter_cached)

lemma reach_fetch: "vm_reach md offset v \<Longrightarrow> fetch offset v = Some (h, args) \<Longrightarrow> \<exists>a. args = Some a \<and> P h a"
  using reach_cached [of offset v] by (auto simp: fetch_def cached_def list_all2_conv_all_nth split: if_splits)

end

section \<open>Arguments decode\<close>

definition is_reg :: "u32 \<Rightarrow> bool" where
  "is_reg w \<longleftrightarrow> transmute_reg w \<noteq> None"

text \<open>Every word of the arguments that the handler turns back into a register is the number of one, and the handler exists.\<close>

fun args_decode :: "Handler \<Rightarrow> Args \<Rightarrow> bool" where
  "args_decode (H_control k) a = (case k of
      H_sbrk \<Rightarrow> is_reg (a0 a) \<and> is_reg (a1 a)
    | H_load_imm \<Rightarrow> is_reg (a0 a)
    | H_load_imm64 \<Rightarrow> is_reg (a0 a)
    | H_jump_indirect \<Rightarrow> is_reg (a1 a)
    | H_load_imm_and_jump \<Rightarrow> is_reg (a0 a)
    | H_load_imm_and_jump_indirect \<Rightarrow> unpack_reg_reg (a1 a) \<noteq> None
    | H_unresolved_load_imm_and_jump \<Rightarrow> is_reg (a1 a)
    | _ \<Rightarrow> True)"
| "args_decode (H_memset mk) a = True"
| "args_decode (H_reg_reg_reg wide op) a = (is_reg (a0 a) \<and> is_reg (a1 a) \<and> is_reg (a2 a))"
| "args_decode (H_reg_reg_imm op) a = (is_reg (a0 a) \<and> is_reg (a1 a) \<and> run_reg_reg_imm op \<noteq> None)"
| "args_decode (H_reg_reg wide op) a = (is_reg (a0 a) \<and> is_reg (a1 a) \<and> run_reg_reg wide op \<noteq> None)"
| "args_decode (H_store_imm mk ty) a = True"
| "args_decode (H_store_imm_indirect mk ty) a = is_reg (a1 a)"
| "args_decode (H_store_indirect mk ty) a = (is_reg (a1 a) \<and> is_reg (a2 a))"
| "args_decode (H_store mk ty) a = is_reg (a1 a)"
| "args_decode (H_load mk ty) a = is_reg (a1 a)"
| "args_decode (H_load_indirect mk ty) a = (is_reg (a1 a) \<and> is_reg (a2 a))"
| "args_decode (H_branch op) a = (is_reg (a0 a) \<and> is_reg (a1 a))"
| "args_decode (H_branch_imm op) a = (is_reg (a0 a) \<and> op \<noteq> load_imm_and_jump)"
| "args_decode (H_unresolved_branch op) a = (is_reg (a0 a) \<and> is_reg (a1 a))"
| "args_decode (H_unresolved_branch_imm op) a = (is_reg (a0 a) \<and> op \<noteq> load_imm_and_jump)"

lemma is_reg_to_u32 [simp]: "is_reg (Reg_to_u32 r)"
  by (simp add: is_reg_def transmute_reg_def)

lemma args_fields [simp]:
  "a0 (args1 w0) = w0" "a0 (args2 w0 w1) = w0" "a1 (args2 w0 w1) = w1"
  "a0 (args3 w0 w1 w2) = w0" "a1 (args3 w0 w1 w2) = w1" "a2 (args3 w0 w1 w2) = w2"
  "a0 (args4 w0 w1 w2 w3) = w0" "a1 (args4 w0 w1 w2 w3) = w1" "a2 (args4 w0 w1 w2 w3) = w2" "a3 (args4 w0 w1 w2 w3) = w3"
  by (simp_all add: args1_def args2_def args3_def args4_def)

lemma unpack_reg_reg_args [simp]:
  "unpack_reg_reg (Reg_to_u32 r OR push_bit 4 (Reg_to_u32 s)) = Some (r, s)"
proof -
  have "(Reg_to_u32 r OR push_bit 4 (Reg_to_u32 s)) AND 0xf = Reg_to_u32 r"
    by (cases r; cases s; simp)
  moreover have "drop_bit 4 (Reg_to_u32 r OR push_bit 4 (Reg_to_u32 s)) = Reg_to_u32 s"
    by (cases r; cases s; simp)
  ultimately show ?thesis by (simp add: unpack_reg_reg_def transmute_reg_def)
qed

lemma compiled_ops_run:
  "store_indirect_ty op = None \<Longrightarrow> load_indirect_ty op = None \<Longrightarrow> run_reg_reg_imm op \<noteq> None"
  "op2 \<noteq> Isa.sbrk \<Longrightarrow> run_reg_reg wide op2 \<noteq> None"
  subgoal by (cases op) (simp_all add: store_indirect_ty_def load_indirect_ty_def run_reg_reg_imm_def)
  subgoal by (cases op2) (simp_all add: run_reg_reg_def)
  done

lemma emit_branch_cases:
  "(h, a) \<in> set (emit_branch k s1 s2 i c) \<Longrightarrow> (\<exists>x y. h = k \<and> a = args4 s1 s2 x y) \<or> h = H_control H_invalid_branch_trap"
  by (auto simp: emit_branch_def Let_def split: if_splits)

lemmas compile_defs = compile_argless_def compile_imm_def compile_reg_reg_reg_def compile_reg_reg_imm_def compile_reg_reg_def
  compile_reg_imm_def compile_reg_imm64_def compile_imm_imm_def compile_reg_imm_imm_def compile_reg_reg_offset_def
  compile_reg_imm_offset_def compile_offset_def compile_reg_reg_imm_imm_def compile_invalid_def

lemma visit_args_decode: "(h, a) \<in> set (Compiler_visit i c) \<Longrightarrow> args_decode h a"
proof (cases i)
  case (I_argless op)
  then show "(h, a) \<in> set (Compiler_visit i c) \<Longrightarrow> args_decode h a" by (cases op) (auto simp: compile_defs)
next
  case (I_reg_imm op r w)
  then show "(h, a) \<in> set (Compiler_visit i c) \<Longrightarrow> args_decode h a" by (cases op) (auto simp: compile_defs Let_def)
next
  case (I_reg_imm_offset op r w x)
  then show "(h, a) \<in> set (Compiler_visit i c) \<Longrightarrow> args_decode h a" by (cases op) (auto simp: compile_defs dest!: emit_branch_cases)
next
  case (I_reg_imm_imm op r w x)
  then show "(h, a) \<in> set (Compiler_visit i c) \<Longrightarrow> args_decode h a" by (cases op) (auto simp: compile_defs Let_def)
next
  case (I_reg_reg_imm op r s w)
  then show "(h, a) \<in> set (Compiler_visit i c) \<Longrightarrow> args_decode h a"
    using compiled_ops_run(1) [of op] by (auto simp: compile_defs split: option.splits)
next
  case (I_reg_reg op r s)
  then show "(h, a) \<in> set (Compiler_visit i c) \<Longrightarrow> args_decode h a"
    using compiled_ops_run(2) [of op] by (cases "op = Isa.sbrk") (auto simp: compile_defs split: op_reg_reg.splits)
next
  case (I_imm_imm op w x)
  then show "(h, a) \<in> set (Compiler_visit i c) \<Longrightarrow> args_decode h a" by (cases op) (auto simp: compile_defs Let_def)
next
  case (I_reg_reg_imm_imm op r s w x)
  then show "(h, a) \<in> set (Compiler_visit i c) \<Longrightarrow> args_decode h a"
    by (cases op) (auto simp: compile_defs args_pc_reg_reg_imm_imm_def)
qed (auto simp: compile_defs dest!: emit_branch_cases split: op_imm.splits op_offset.splits op_reg_imm64.splits)

interpretation decode: entry_property md args_decode for md
  by unfold_locales (auto intro: visit_args_decode)

section \<open>Instructions of a 32-bit program\<close>

text \<open>A program of the 32-bit instruction set with no \<open>memset\<close> among its instructions, which are the marked offsets of its code.\<close>

definition program_32 :: "Module \<Rightarrow> bool" where
  "program_32 md \<longleftrightarrow> pb_isa (m_blob md) = Latest32 \<and> length (pb_code (m_blob md)) < u32_MAX \<and>
    (\<forall>offset < length (pb_code (m_blob md)). bit_at (pb_bitmask (m_blob md)) offset \<longrightarrow>
      instruction_at ISA_Latest32 (pb_code (m_blob md)) (pb_bitmask (m_blob md)) offset \<noteq> I_argless memset)"

lemma program_32_no_memset: "program_32 md \<Longrightarrow> \<not> module_yields md (I_argless memset)"
  unfolding program_32_def module_yields_def by force

lemma opcode_parse:
  assumes "parse_instruction isa opc chunk offset skip \<noteq> invalid"
  shows "\<exists>op. matching_arm isa opc = Some op \<and> opcode (parse_instruction isa opc chunk offset skip) = op"
  using assms by (auto simp: parse_instruction_def case_prod_beta Let_def split: option.splits Opcode.splits)

lemma module_yields_opcode:
  assumes "module_yields md i" "i \<noteq> invalid"
  shows "opcode i \<in> fst ` set (isa_of (pb_isa (m_blob md)))"
proof -
  define isa where "isa = isa_of (pb_isa (m_blob md))"
  obtain opc chunk offset skip where i: "i = parse_instruction isa opc chunk offset skip"
    using assms unfolding module_yields_def instruction_at_def isa_def by blast
  obtain op where op: "matching_arm isa opc = Some op" "opcode i = op"
    using opcode_parse assms(2) unfolding i by blast
  have "(op, opc) \<in> set isa"
    using op(1) instruction_set.matching_arm_iff [OF instruction_set_isa_of] unfolding isa_def by blast
  then show ?thesis using op(2) unfolding isa_def by force
qed

lemma latest32_shapes:
  "O_reg_imm op1 \<in> fst ` set ISA_Latest32 \<longleftrightarrow> op1 \<in> fst ` set Latest32_reg_imm"
  "O_reg_reg_imm op2 \<in> fst ` set ISA_Latest32 \<longleftrightarrow> op2 \<in> fst ` set Latest32_reg_reg_imm"
  "O_reg_reg_reg op3 \<in> fst ` set ISA_Latest32 \<longleftrightarrow> op3 \<in> fst ` set Latest32_reg_reg_reg"
  "O_reg_reg op4 \<in> fst ` set ISA_Latest32 \<longleftrightarrow> op4 \<in> fst ` set Latest32_reg_reg"
  "O_reg_imm64 op5 \<in> fst ` set ISA_Latest32 \<longleftrightarrow> op5 \<in> fst ` set Latest32_reg_imm64"
  by (auto simp: ISA_Latest32_def image_Un image_image case_prod_beta)

lemma visit_narrow_loads:
  assumes "op \<in> fst ` set Latest32_reg_imm" "(h, a) \<in> set (compile_reg_imm op r w c)"
  shows "narrow h"
  using assms by (auto simp: Latest32_reg_imm_def compile_reg_imm_def Let_def)

lemma visit_narrow_reg_reg_imm:
  assumes "op \<in> fst ` set Latest32_reg_reg_imm" "(h, a) \<in> set (compile_reg_reg_imm op r s w c)"
  shows "narrow h"
proof -
  have "load_indirect_ty op \<noteq> Some L_u32 \<and> load_indirect_ty op \<noteq> Some L_u64"
    using assms(1) by (auto simp: Latest32_reg_reg_imm_def load_indirect_ty_def)
  then show ?thesis
    using assms by (auto simp: compile_reg_reg_imm_def split: option.splits)
qed

lemma visit_narrow:
  assumes "opcode i \<in> fst ` set ISA_Latest32 \<or> i = invalid" "i \<noteq> I_argless memset" "\<not> module_is_64_bit (c_module c)"
    and h: "(h, a) \<in> set (Compiler_visit i c)"
  shows "narrow h"
proof (cases i)
  case (I_argless op)
  then show ?thesis using assms by (cases op) (auto simp: compile_argless_def)
next
  case (I_reg_imm op r w)
  then show ?thesis using assms visit_narrow_loads by (auto simp: latest32_shapes)
next
  case (I_reg_imm_offset op r w x)
  then show ?thesis using h by (cases op) (auto simp: compile_reg_imm_offset_def dest!: emit_branch_cases)
next
  case (I_reg_imm_imm op r w x)
  then show ?thesis using h by (cases op) (auto simp: compile_reg_imm_imm_def Let_def)
next
  case (I_reg_reg_imm op r s w)
  then show ?thesis using assms visit_narrow_reg_reg_imm by (auto simp: latest32_shapes)
next
  case (I_reg_reg_reg op r s t)
  then show ?thesis using assms by (auto simp: latest32_shapes compile_reg_reg_reg_def)
next
  case (I_imm_imm op w x)
  then show ?thesis using h by (cases op) (auto simp: compile_imm_imm_def Let_def)
next
  case (I_reg_reg op r s)
  then show ?thesis using assms by (auto simp: latest32_shapes compile_reg_reg_def split: op_reg_reg.splits)
next
  case (I_reg_imm64 op r x)
  then show ?thesis using assms(1) by (simp add: latest32_shapes Latest32_reg_imm64_def)
qed (use h in \<open>auto simp: compile_defs dest!: emit_branch_cases split: op_imm.splits op_offset.splits op_reg_reg_imm_imm.splits\<close>)

interpretation narrowed: entry_property md "\<lambda>h a. program_32 md \<longrightarrow> narrow h" for md
proof unfold_locales
  show "program_32 md \<longrightarrow> narrow h" if "module_yields md i" "c_module c = md" "(h, a) \<in> set (Compiler_visit i c)" for i c h and a :: Args
  proof
    assume p: "program_32 md"
    then have "opcode i \<in> fst ` set ISA_Latest32 \<or> i = invalid" "i \<noteq> I_argless memset" "\<not> module_is_64_bit (c_module c)"
      using module_yields_opcode [OF that(1)] that(1,2) program_32_no_memset [OF p] by (auto simp: program_32_def module_is_64_bit_def)
    then show "narrow h" using visit_narrow that(3) by blast
  qed
qed auto

section \<open>Registers of a 32-bit program\<close>

lemma loaded_slice:
  "std_load_impl ty address m = Some (LoadOk x) \<Longrightarrow> \<exists>bs. x = from_slice ty bs"
  "dm_load_impl ty address d = Some (LoadOk x) \<Longrightarrow> \<exists>bs. x = from_slice ty bs"
proof -
  have slow: "\<exists>bs. x = from_slice ty bs" if "load_impl_slow ty address m = Some (LoadOk x)"
    using that by (auto simp: load_impl_slow_def load_aux_slow_def load_stack_slow_def load_rw_data_slow_def load_ro_data_slow_def
        split: if_splits)
  show "std_load_impl ty address m = Some (LoadOk x) \<Longrightarrow> \<exists>bs. x = from_slice ty bs"
    using slow by (auto simp: std_load_impl_def Let_def split: if_splits option.splits)
  show "dm_load_impl ty address d = Some (LoadOk x) \<Longrightarrow> \<exists>bs. x = from_slice ty bs"
    by (auto simp: dm_load_impl_def Let_def Option.bind_eq_Some_conv split: if_splits option.splits list.splits) blast+
qed

lemma s32_from_slice: "ty \<noteq> L_u32 \<Longrightarrow> ty \<noteq> L_u64 \<Longrightarrow> s32 (from_slice ty bs)"
  by (cases ty) simp_all

lemma load_regs_32:
  assumes "vm_load mk ty co pc d b off v = Some (r, v')" "regs_32 v" "ty \<noteq> L_u32" "ty \<noteq> L_u64"
  shows "regs_32 v'"
proof -
  consider "vm_regs v' = vm_regs v" | bs where "vm_regs v' = (vm_regs v)(d := from_slice ty bs)"
    using vm_load_effect [OF assms(1)] loaded_slice by metis
  then show ?thesis using assms(2) s32_from_slice [OF assms(3,4)] by cases (auto simp: regs_32_def)
qed

lemma regs_32_cong: "vm_regs v' = vm_regs v \<Longrightarrow> regs_32 v' = regs_32 v"
  by (simp add: regs_32_def)

lemma resolved_regs_32: "machine v' = machine v \<Longrightarrow> regs_32 v' = regs_32 v"
  using machine_fields(2) regs_32_cong by blast

lemma jump_indirect_regs: "jump_indirect_impl pc target v = Some (r, v') \<Longrightarrow> vm_regs v' = vm_regs v"
  by (auto simp: jump_indirect_impl_def trigger_interrupt_def trap_impl_def Option.bind_eq_Some_conv
      dest!: resolve_machine(1) machine_fields(2) split: if_splits option.splits)

lemma unresolved_regs:
  "run_unresolved_jump co pc target v = Some (r, v') \<Longrightarrow> vm_regs v' = vm_regs v"
  "run_unresolved_fallthrough co pc target v = Some (r, v') \<Longrightarrow> vm_regs v' = vm_regs v"
  "run_unresolved_load_imm_and_jump co pc ra x target v = Some (r, v') \<Longrightarrow> vm_regs v' = vm_regs (set_i32 ra x v)"
  subgoal by (auto simp: run_unresolved_jump_def trigger_interrupt_def trap_impl_def Option.bind_eq_Some_conv
        dest!: resolve_machine machine_fields(2) machine_put split: if_splits option.splits)
  subgoal by (auto simp: run_unresolved_fallthrough_def trigger_interrupt_def trap_impl_def Option.bind_eq_Some_conv
        dest!: resolve_machine machine_fields(2) machine_put split: if_splits option.splits)
  subgoal by (auto simp: run_unresolved_load_imm_and_jump_def trigger_interrupt_def trap_impl_def Option.bind_eq_Some_conv
        dest!: resolve_machine machine_fields(2) machine_put split: if_splits option.splits)
  done

lemma unresolved_branch_machine:
  assumes "handle_unresolved_branch h co s1 s2 tt tf v = Some (r, v')"
  shows "machine v' = machine v"
proof -
  obtain r1 w1 where w1: "resolve_jump tt v = Some (r1, w1)"
    using assms by (cases "resolve_jump tt v") (auto simp: handle_unresolved_branch_def)
  obtain r2 w2 where w2: "resolve_jump tf w1 = Some (r2, w2)"
    using assms w1 by (cases "resolve_jump tf w1") (auto simp: handle_unresolved_branch_def)
  have "machine v' = machine w2"
    using assms w1 w2 by (auto simp: handle_unresolved_branch_def dest!: machine_put split: option.splits)
  then show ?thesis using resolve_machine(1) [OF w1] resolve_machine(1) [OF w2] by simp
qed

lemma sbrk_regs_32: "run_sbrk co d s v = Some (r, v') \<Longrightarrow> regs_32 v \<Longrightarrow> regs_32 v'"
  by (auto simp: run_sbrk_def vm_sbrk_def Let_def regs_32_def set_u64_def set_i64_def split: MemoryKind.splits)

lemma reset_cache_regs: "run_reset_cache pc v = Some (r, v') \<Longrightarrow> vm_regs v' = vm_regs v"
proof -
  have "vm_regs (reset_interpreter_cache v) = vm_regs v" by (simp add: reset_interpreter_cache_def)
  then show "run_reset_cache pc v = Some (r, v') \<Longrightarrow> vm_regs v' = vm_regs v"
    by (auto simp: run_reset_cache_def trigger_interrupt_def dest!: compile_block_machine machine_fields(2) split: option.splits)
qed

lemma run_control_regs_32:
  assumes "run_control k co a v = Some (r, v')" "regs_32 v" "k \<noteq> H_load_imm64"
  shows "regs_32 v'"
proof -
  have same: "regs_32 w" if "vm_regs w = vm_regs v" for w using assms(2) regs_32_cong [OF that] by simp
  have set: "regs_32 w" if "vm_regs w = vm_regs (set_i32 d x v)" for w d x
    using assms(2) regs_32_cong [OF that] by simp
  note run = assms(1) [unfolded run_control_def on_reg_def Option.bind_eq_Some_conv]
  show ?thesis
  proof (cases k)
    case H_charge_gas
    then show ?thesis using run by (auto dest!: charge_gas_effect intro: same)
  next
    case H_step
    then show ?thesis using run same [OF step_effect(2) [of co "a0 a" v]] by simp
  next
    case H_reset_cache
    then show ?thesis using run by (auto dest!: reset_cache_regs intro: same)
  next
    case H_trap
    then show ?thesis using run same [OF plain_trap(2) [of "a0 a" v]] by (simp add: run_trap_def)
  next
    case H_invalid_branch_trap
    then show ?thesis using run same [OF plain_trap(2) [of "a0 a" v]] by (simp add: run_invalid_branch_trap_def)
  next
    case H_sbrk
    then show ?thesis using run assms(2) by (auto simp: Option.bind_eq_Some_conv intro: sbrk_regs_32)
  next
    case H_ecalli
    then show ?thesis using run by (auto dest!: ecalli_effect intro: same)
  next
    case H_jump_indirect
    then show ?thesis using run by (auto simp: Option.bind_eq_Some_conv run_jump_indirect_def dest!: jump_indirect_regs intro: same)
  next
    case H_load_imm_and_jump_indirect
    then show ?thesis
      using run by (auto simp: Option.bind_eq_Some_conv run_load_imm_and_jump_indirect_def Let_def dest!: jump_indirect_regs intro: set)
  next
    case H_unresolved_jump
    then show ?thesis using run by (auto dest!: unresolved_regs(1) intro: same)
  next
    case H_unresolved_load_imm_and_jump
    then show ?thesis using run by (auto simp: Option.bind_eq_Some_conv dest!: unresolved_regs(3) intro: set)
  next
    case H_unresolved_fallthrough
    then show ?thesis using run by (auto dest!: unresolved_regs(2) intro: same)
  qed (use run assms(2,3) in \<open>auto simp: Option.bind_eq_Some_conv run_fallthrough_def run_jump_def run_load_imm_def
      run_load_imm_and_jump_def\<close>)
qed

lemma run_handler_regs_32:
  assumes "run_handler h co a v = Some (r, v')" "regs_32 v" "narrow h"
  shows "regs_32 v'"
proof -
  have same: "regs_32 w" if "vm_regs w = vm_regs v" for w using assms(2) regs_32_cong [OF that] by simp
  note run = assms(1) [unfolded run_handler_def on_reg_def Option.bind_eq_Some_conv]
  show ?thesis
  proof (cases h)
    case (H_control k)
    then show ?thesis using run run_control_regs_32 assms(2,3) by simp
  next
    case (H_memset mk)
    then show ?thesis using assms(3) by simp
  next
    case (H_reg_reg_reg wide op)
    then obtain d s1 s2 where "run_reg_reg_reg wide op co d s1 s2 v = (r, v')" using run by (auto simp: Option.bind_eq_Some_conv)
    then show ?thesis using alu_regs_32(1) [OF assms(2), of wide op co d s1 s2] assms(3) H_reg_reg_reg by simp
  next
    case (H_reg_reg_imm op)
    then obtain d s1 f where f: "run_reg_reg_imm op = Some f" "f co d s1 (a2 a) v = (r, v')"
      using run by (auto simp: Option.bind_eq_Some_conv)
    then show ?thesis using alu_regs_32(2) [OF assms(2) _ f(1), of co d s1 "a2 a"] assms(3) H_reg_reg_imm by simp
  next
    case (H_reg_reg wide op)
    then obtain d s1 f where f: "run_reg_reg wide op = Some f" "f co d s1 v = (r, v')" using run by (auto simp: Option.bind_eq_Some_conv)
    then show ?thesis using alu_regs_32(3) [OF assms(2) _ f(1), of co d s1] assms(3) H_reg_reg by simp
  next
    case (H_branch op)
    then show ?thesis
      using run assms(2) by (cases op) (auto simp: run_branch_def branch_i_def branch_u_def Let_def Option.bind_eq_Some_conv)
  next
    case (H_branch_imm op)
    then show ?thesis
      using run assms(2) by (cases op) (auto simp: run_branch_imm_def branch_i_def branch_u_def Let_def Option.bind_eq_Some_conv)
  next
    case (H_load mk ty)
    then show ?thesis using run assms(2,3) by (auto simp: Option.bind_eq_Some_conv run_load_def intro: load_regs_32)
  next
    case (H_load_indirect mk ty)
    then show ?thesis using run assms(2,3) by (auto simp: Option.bind_eq_Some_conv run_load_indirect_def intro: load_regs_32)
  qed (use run in \<open>auto simp: Option.bind_eq_Some_conv run_store_imm_def run_store_imm_indirect_def run_store_indirect_def run_store_def
      dest!: vm_store_effect unresolved_branch_machine machine_fields(2) intro: same\<close>)
qed

lemma host_op_regs_32: "host_op v v' \<Longrightarrow> \<not> vm_is_64_bit v \<Longrightarrow> regs_32 v \<Longrightarrow> regs_32 v'"
  by (induction rule: host_op.induct)
    (auto simp: set_reg_def set_gas_def set_next_program_counter_def set_interpreter_cache_size_limit_def
      set_interpreter_max_allocation_size_def set_interpreter_guest_memory_limit_def vm_set_accessible_aux_size_def
      vm_write_memory_def vm_zero_memory_def vm_change_memory_protection_def vm_free_pages_def vm_sbrk_def vm_reset_memory_def
      reset_interpreter_cache_def regs_32_def Let_def split: MemoryKind.splits option.splits)

lemma enter_regs:
  assumes "run_enter v = Some (r, v')"
  shows "vm_regs v' = vm_regs v"
proof (cases "vm_next_program_counter_changed v")
  case True
  obtain pc r1 w where w: "resolve_arbitrary_jump pc v = Some (r1, w)" "vm_regs v' = vm_regs w"
    using run_enter_resolves [OF assms True] by blast
  show ?thesis using w(2) machine_fields(2) [OF resolve_machine(3) [OF w(1)]] by simp
qed (use assms in \<open>simp add: run_enter_def\<close>)

section \<open>Properties\<close>

text \<open>C5: The registers of a 32-bit program are 32-bit values: in every state that an instance of it can reach, each 64-bit register is
  the sign extension of its lower half, whatever the host does between runs. None of the program's instructions, the marked offsets of its code, is
  a \<open>memset\<close>, which writes its counters as unsigned 64-bit values, and the code is shorter than \<open>u32::MAX\<close> bytes.\<close>
theorem reach_regs_32: "vm_reach md offset v \<Longrightarrow> program_32 md \<Longrightarrow> regs_32 v"
proof (induction rule: vm_reach.induct)
  case (new tracing v)
  then show ?case by (simp add: regs_32_def new_fields s32_def)
next
  case (host offset v v')
  then have "\<not> vm_is_64_bit v"
    using decode.reach_cached [OF host.hyps(1)] by (simp add: cached_def program_32_def module_is_64_bit_def)
  with host show ?case using host_op_regs_32 by simp
next
  case (step offset v h args offset' v')
  then have "narrow h" using narrowed.reach_fetch [OF step.hyps(1,2)] by simp
  with step show ?case using run_handler_regs_32 by simp
qed (auto dest!: enter_regs regs_32_cong)

text \<open>C10: Dispatching a handler is safe: in every reachable state, a handler that the loop of \<open>run_impl\<close> fetches has its arguments, and
  each of their words that the handler turns into a register with \<open>transmute_reg\<close> is the number of a register.\<close>
theorem reach_args_decode:
  assumes "vm_reach md offset v" "fetch offset v = Some (h, args)"
  shows "\<exists>a. args = Some a \<and> args_decode h a"
  using decode.reach_fetch [OF assms] .

end
