(* ===== verification/Interp_Block.thy ===== *)
theory Interp_Block
  imports Interp_Cache
begin

text \<open>
  The blocks that the interpreter compiles: the loop of \<open>compile_block_impl\<close> as a walk over the list of the block's
  instructions, that it never panics while the cache has room, and that the gas it charges for a block is the cost that the
  module reports for it.
\<close>

section \<open>The instructions of a block\<close>

definition block_items :: "Module \<Rightarrow> u32 \<Rightarrow> ParsedInstruction list" where
  "block_items md pc =
    (let code = pb_code (m_blob md); bm = pb_bitmask (m_blob md) in
     if bit_at bm (unat pc) then items_from (isa_of (pb_isa (m_blob md))) code bm True (unat pc)
     else [\<lparr>kind = invalid, p_offset = unat pc, next_offset = unat pc + 1\<rparr>])"

definition program_ok :: "Module \<Rightarrow> bool" where
  "program_ok md \<longleftrightarrow> length (pb_code (m_blob md)) < u32_MAX \<and> code_ok (pb_code (m_blob md)) (pb_bitmask (m_blob md))"

lemma unat_code_len: "program_ok md \<Longrightarrow> unat (module_code_len md) = length (pb_code (m_blob md))"
  by (simp add: program_ok_def module_code_len_def u32_MAX_def unat_of_nat)

lemma module_items:
  assumes "program_ok md" "pc < module_code_len md"
  obtains it where "module_instructions_bounded_at md pc = Some it"
    "Instructions_collect (2 * length (pb_code (m_blob md)) + 2) it = Some (block_items md pc)"
proof -
  define code bm isa where "code = pb_code (m_blob md)" and "bm = pb_bitmask (m_blob md)" and "isa = isa_of (pb_isa (m_blob md))"
  have ok: "length code \<le> u32_MAX" "code_ok code bm" and pc: "unat pc < length code" "unat pc \<noteq> u32_MAX"
    and fits: "walk_fits code True"
    using assms unat_code_len [OF assms(1)]
    by (auto simp: program_ok_def walk_fits_def u32_MAX_def code_def bm_def word_less_nat_alt)
  show thesis
  proof (cases "bit_at bm (unat pc)")
    case True
    have "module_instructions_bounded_at md pc = Some (iterator isa code bm True (unat pc) None False)"
      using ok pc True
      by (simp add: module_instructions_bounded_at_def Instructions_new_def code_ok_def get_bit_for_offset_eq
          code_def bm_def isa_def)
    moreover have "Instructions_collect (2 * length code + 2) (iterator isa code bm True (unat pc) None False) =
        Some (items_from isa code bm True (unat pc))"
      using collect_items_from [OF ok(2) fits, of "unat pc"] True length_items_from [of isa code bm True "unat pc"]
      by (simp del: Instructions_collect.simps)
    ultimately show thesis using that True by (simp add: block_items_def code_def bm_def isa_def del: Instructions_collect.simps)
  next
    case False
    have "module_instructions_bounded_at md pc = Some (iterator isa code bm True (unat pc + 1) (Some (unat pc)) True)"
      using ok pc False
      by (simp add: module_instructions_bounded_at_def Instructions_new_def code_ok_def get_bit_for_offset_eq
          code_def bm_def isa_def)
    moreover have "Instructions_collect (2 * length code + 2) (iterator isa code bm True (unat pc + 1) (Some (unat pc)) True) =
        Some [\<lparr>kind = invalid, p_offset = unat pc, next_offset = unat pc + 1\<rparr>]"
      by (rule collect_done(2)) simp_all
    ultimately show thesis
      using that False
      by (simp add: block_items_def code_def bm_def del: Instructions_collect.simps)
  qed
qed

text \<open>Every instruction of a block starts in the code or right after it, and the block has an instruction that ends it.\<close>

lemma opcode_instruction_at:
  assumes "instruction_set isa" "offset < length code"
  shows "opcode (instruction_at isa code bm offset) = opcode_or_trap isa (code ! offset)"
  using instruction_set.matching_arm_from_u8 [OF assms(1), of "code ! offset"]
  by (auto simp: instruction_at_def parse_instruction_def opcode_or_trap_def case_prod_beta Let_def
      split: option.splits Opcode.splits)

lemma not_fallthrough_ends: "\<not> can_fallthrough op \<Longrightarrow> starts_new_basic_block op"
  by (auto simp: can_fallthrough_def)

lemma next_le_code: "offset < length code \<Longrightarrow> offset + skip_at code bm offset + 1 \<le> length code"
  using skip_at_following(1) [of offset code bm] by (auto simp: following_def split: option.splits)

lemma items_from_offsets: "p \<in> set (items_from isa code bm True offset) \<Longrightarrow> p_offset p \<le> length code"
proof -
  have at: "p_offset p \<le> length code" if "p \<in> set (items_at isa code bm True o1)" "o1 < length code" for o1 p
    using that next_le_code [of o1 code bm] by (auto simp: items_at_def Let_def split: if_splits)
  have "\<forall>p \<in> set (walk_items isa code bm True os). p_offset p \<le> length code" if "\<forall>o1 \<in> set os. o1 < length code" for os
    using that by (induction os) (auto dest: at)
  from this [of "filter (bit_at bm) [offset..<length code]"]
  show "p \<in> set (items_from isa code bm True offset) \<Longrightarrow> p_offset p \<le> length code"
    unfolding items_from_def by auto
qed

lemma items_from_ends:
  assumes "code_ok code bm" "instruction_set isa"
  shows "offset < length code \<Longrightarrow> bit_at bm offset \<Longrightarrow> list_ex ends_block (map kind (items_from isa code bm True offset))"
proof (induction "length code - offset" arbitrary: offset rule: less_induct)
  case less
  define i where "i = instruction_at isa code bm offset"
  note items = items_from_step [OF less.prems(2,1), of isa True]
  have head: "list_ex ends_block (map kind (items_at isa code bm True offset))"
    if "starts_new_basic_block (opcode i) \<or> invalid_after isa code bm offset"
    using that not_fallthrough_ends [of "opcode i"] by (auto simp: items_at_def Let_def i_def ends_block_def)
  show ?case
  proof (cases "starts_new_basic_block (opcode i) \<or> invalid_after isa code bm offset")
    case True
    then show ?thesis using head items by simp
  next
    case False
    define f where "f = following code bm offset"
    have "f \<noteq> length code"
    proof
      assume "f = length code"
      then have "next_is_invalid bm (length code) (offset + 1)"
        by (auto simp: f_def following_def next_is_invalid_def split: option.splits)
      then have "\<not> can_fallthrough (opcode i)"
        using False opcode_instruction_at [OF assms(2) less.prems(1)] by (auto simp: invalid_after_def i_def split: if_splits)
      then show False using False not_fallthrough_ends by blast
    qed
    moreover have "offset < f" "f \<le> length code" "f < length code \<longrightarrow> bit_at bm f"
      using skip_at_following [OF less.prems(1), of bm] following_start [of code bm offset]
      by (auto simp: f_def following_def split: option.split)
    ultimately have "list_ex ends_block (map kind (items_from isa code bm True f))"
      using less.hyps [of f] less.prems(1) by simp
    then show ?thesis using items False by (simp add: f_def)
  qed
qed

lemma block_items_ok:
  assumes "program_ok md" "pc < module_code_len md"
  shows "p \<in> set (block_items md pc) \<Longrightarrow> p_offset p \<le> length (pb_code (m_blob md))"
    "list_ex ends_block (map kind (block_items md pc))"
    "length (block_items md pc) \<le> 2 * length (pb_code (m_blob md))"
proof -
  define code bm isa where "code = pb_code (m_blob md)" and "bm = pb_bitmask (m_blob md)" and "isa = isa_of (pb_isa (m_blob md))"
  have ok: "code_ok code bm" and pc: "unat pc < length code"
    using assms unat_code_len [OF assms(1)] by (auto simp: program_ok_def code_def bm_def word_less_nat_alt)
  have b: "block_items md pc = (if bit_at bm (unat pc) then items_from isa code bm True (unat pc)
      else [\<lparr>kind = invalid, p_offset = unat pc, next_offset = unat pc + 1\<rparr>])"
    by (simp add: block_items_def code_def bm_def isa_def)
  show "p \<in> set (block_items md pc) \<Longrightarrow> p_offset p \<le> length (pb_code (m_blob md))"
    using items_from_offsets [of p isa code bm] pc unfolding b by (auto simp: code_def split: if_splits)
  show "list_ex ends_block (map kind (block_items md pc))"
    using items_from_ends [OF ok instruction_set_isa_of [of "pb_isa (m_blob md)"] pc] unfolding b by (auto simp: isa_def ends_block_def)
  show "length (block_items md pc) \<le> 2 * length (pb_code (m_blob md))"
    using length_items_from [of isa code bm True "unat pc"] pc unfolding b by (auto simp: code_def)
qed

section \<open>The loop over the instructions\<close>

fun compile_items :: "bool \<Rightarrow> ParsedInstruction list \<Rightarrow> bool \<Rightarrow> block_state \<Rightarrow> InterpretedInstance \<Rightarrow> (block_state \<times> InterpretedInstance) option" where
  "compile_items per [] valid b v = Some (b, v)"
| "compile_items per (p # ps) valid b v =
    Option.bind (compile_step per p valid b v) (\<lambda>(b, v).
    if starts_new_basic_block (opcode (kind p)) then Some (b, v) else compile_items per ps False b v)"

lemma compile_loop_items:
  "Instructions_collect n it = Some items \<Longrightarrow> compile_loop per it valid b v = compile_items per items valid b v"
proof (induction n it arbitrary: items valid b v rule: Instructions_collect.induct)
  case (2 n it)
  then obtain item it' where nxt: "Instructions_next it = Some (item, it')" by (auto split: option.splits)
  show ?case
  proof (cases item)
    case None
    then show ?thesis using "2.prems" nxt by (subst compile_loop.simps) simp
  next
    case (Some p)
    then obtain ps where ps: "Instructions_collect n it' = Some ps" "items = p # ps" using "2.prems" nxt by auto
    have IH: "compile_loop per it' False b v = compile_items per ps False b v" for b v
      using "2.IH" [OF nxt [unfolded Some] refl refl ps(1)] .
    show ?thesis by (subst compile_loop.simps) (simp add: nxt Some ps(2) IH cong: if_cong)
  qed
qed simp

text \<open>The map from program counters is allocated or can be, and the handlers leave room for a number of new ones.\<close>

definition room :: "nat \<Rightarrow> InterpretedInstance \<Rightarrow> bool" where
  "room n v \<longleftrightarrow> flat_ok (vm_compiled_offset_for_block v) \<and>
    fm_desired_capacity (vm_compiled_offset_for_block v) = module_code_len (vm_module v) + 1 \<and>
    length (vm_compiled_handlers v) = length (vm_compiled_args v) \<and> length (vm_compiled_handlers v) + n < 2 ^ 31"

lemma length_visit: "length (Compiler_visit i c) \<le> 1"
proof (cases i)
  case (I_reg_reg_imm op r s w)
  then show ?thesis by (auto simp: compile_reg_reg_imm_def split: option.split)
qed (auto simp: compile_argless_def compile_imm_def compile_reg_reg_reg_def compile_reg_reg_def
    compile_reg_imm_def compile_reg_imm64_def compile_imm_imm_def compile_reg_imm_imm_def compile_reg_reg_offset_def
    compile_reg_imm_offset_def compile_offset_def compile_reg_reg_imm_imm_def compile_invalid_def emit_branch_def Let_def
    split: op_argless.split op_imm.split op_reg_reg.split op_reg_imm.split op_reg_imm64.split op_imm_imm.split op_reg_imm_imm.split
      op_reg_imm_offset.split op_offset.split op_reg_reg_imm_imm.split)

lemma unat_packed:
  assumes "n < 2 ^ 31 - 1"
  defines "i \<equiv> word_of_nat n :: u32"
  shows "unat (if valid then i OR push_bit 31 1 else i) = n + (if valid then 2 ^ 31 else 0)"
proof -
  have u: "unat i = n" using assms(1) by (simp add: i_def unat_of_nat)
  have "take_bit 31 i = i"
    using u assms(1) by (simp add: word_unat_eq_iff unsigned_take_bit_eq take_bit_eq_mod unat_mod_distrib)
  then have "\<not> bit i 31" by (metis bit_take_bit_iff less_irrefl)
  then have "\<not> bit i k \<or> \<not> bit (push_bit 31 1 :: u32) k" for k
    unfolding bit_push_bit_iff bit_1_iff by (cases "k = 31") auto
  then have "i OR push_bit 31 1 = i + push_bit 31 1" by (simp add: disjunctive_add)
  moreover have "unat (i + push_bit 31 1) = n + 2 ^ 31"
    using u assms(1) by (simp add: push_bit_eq_mult unat_word_ariths)
  ultimately show ?thesis using u by simp
qed

lemma pack_unpack:
  assumes "n < 2 ^ 31 - 1"
  obtains p where "pack_target n valid = Some p" "unpack_target p = (valid, word_of_nat n)"
proof -
  define x :: u32 where "x = (if valid then word_of_nat n OR push_bit 31 1 else word_of_nat n)"
  have x: "unat x = n + (if valid then 2 ^ 31 else 0)" using unat_packed [OF assms, of valid] by (simp add: x_def)
  have "unat (x + 1) = unat x + 1" using x assms by (simp add: unat_word_ariths)
  then have "x + 1 \<noteq> 0" by (metis add_is_0 unat_0 zero_neq_one)
  then have "pack_target n valid = Some (x + 1)" by (simp add: pack_target_def Let_def x_def)
  moreover have "drop_bit 31 x = 1 \<longleftrightarrow> valid"
    using x assms by (auto simp: word_unat_eq_iff unsigned_drop_bit_eq drop_bit_eq_div unat_div_distrib)
  moreover have "drop_bit 1 (push_bit 1 x) = word_of_nat n"
    using x assms by (simp add: word_unat_eq_iff unsigned_drop_bit_eq drop_bit_eq_div unsigned_push_bit_eq push_bit_eq_mult unat_word_ariths unat_of_nat unat_div_distrib)
  ultimately show thesis using that by (simp add: unpack_target_def Let_def)
qed

section \<open>Compiling a block never panics\<close>

text \<open>The handler that charges for the block: its position, and that the visitor has seen the instructions so far.\<close>

definition grown :: "InterpretedInstance \<Rightarrow> InterpretedInstance \<Rightarrow> bool" where
  "grown v v' \<longleftrightarrow> vm_module v' = vm_module v \<and> vm_step_tracing v' = vm_step_tracing v \<and>
    vm_max_compiled_handlers v' = vm_max_compiled_handlers v \<and>
    (\<exists>hs as. vm_compiled_handlers v' = vm_compiled_handlers v @ hs \<and> vm_compiled_args v' = vm_compiled_args v @ as)"

lemma grown_refl [simp]: "grown v v"
  by (simp add: grown_def)

lemma grown_trans: "grown u v \<Longrightarrow> grown v w \<Longrightarrow> grown u w"
  by (auto simp: grown_def)

lemma grown_nth: "grown v v' \<Longrightarrow> i < length (vm_compiled_handlers v) \<Longrightarrow> vm_compiled_handlers v' ! i = vm_compiled_handlers v ! i"
  by (auto simp: grown_def nth_append)

lemma room_push: "room (n + length code) v \<Longrightarrow> room n (push_handlers code v)" "grown v (push_handlers code v)"
  by (auto simp: room_def push_handlers_def grown_def)

lemma room_mono: "room m v \<Longrightarrow> n \<le> m \<Longrightarrow> room n v"
  by (auto simp: room_def)

lemma emit_charge_gas_ok:
  assumes "room (n + 1) v" "emit_charge_gas per p pc b v = (b', v')"
  shows "room n v'" "grown v v'"
    "m_gas_metering (vm_module v) \<noteq> None \<Longrightarrow> \<not> per \<Longrightarrow>
      bs_gas_visitor b' = GasVisitor_visit (kind p) (bs_gas_visitor b) \<and>
      (case bs_charge_gas_index b of
         None \<Rightarrow> bs_charge_gas_index b' = Some (pc, length (vm_compiled_handlers v)) \<and>
           length (vm_compiled_handlers v) < length (vm_compiled_handlers v') \<and>
           vm_compiled_handlers v' ! length (vm_compiled_handlers v) = H_control H_charge_gas
       | Some x \<Rightarrow> bs_charge_gas_index b' = Some x)"
    "m_gas_metering (vm_module v) = None \<or> per \<Longrightarrow> b' = b"
  using assms room_push(1) [of n "emit H_charge_gas a" v for a] room_mono [OF assms(1), of n]
  by (auto simp: emit_charge_gas_def Let_def push_handlers_def grown_def split: if_splits option.splits)

lemma emit_step_ok: "room (n + 1) v \<Longrightarrow> room n (emit_step pc v)" "grown v (emit_step pc v)"
  "length (vm_compiled_handlers (emit_step pc v)) = length (vm_compiled_handlers v) + (if vm_step_tracing v then 1 else 0)"
  using room_push(1) [of n "emit H_step (args1 pc)" v] room_mono [of "n + 1" v n] by (auto simp: emit_step_def push_handlers_def grown_def)

lemma compile_step_total:
  assumes "program_ok (vm_module v)" "room (n + 3) v" "p_offset p \<le> length (pb_code (m_blob (vm_module v)))"
  obtains b' v' where "compile_step per p valid b v = Some (b', v')" "room n v'" "grown v v'"
    "m_gas_metering (vm_module v) \<noteq> None \<Longrightarrow> \<not> per \<Longrightarrow>
      bs_gas_visitor b' = GasVisitor_visit (kind p) (bs_gas_visitor b) \<and>
      (case bs_charge_gas_index b of
         None \<Rightarrow> (let i = length (vm_compiled_handlers v) + (if vm_step_tracing v then 1 else 0) in
           bs_charge_gas_index b' = Some (word_of_nat (p_offset p), i) \<and>
           i < length (vm_compiled_handlers v') \<and> vm_compiled_handlers v' ! i = H_control H_charge_gas)
       | Some x \<Rightarrow> bs_charge_gas_index b' = Some x)"
    "m_gas_metering (vm_module v) = None \<or> per \<Longrightarrow> b' = b"
proof -
  define pc :: u32 where "pc = word_of_nat (p_offset p)"
  obtain packed where packed: "pack_target (length (vm_compiled_handlers v)) valid = Some packed"
    using pack_unpack [of "length (vm_compiled_handlers v)" valid] assms(2) by (auto simp: room_def)
  have "pc < module_code_len (vm_module v) + 1"
    using assms(1,3) unat_code_len [OF assms(1)]
    by (simp add: pc_def word_less_nat_alt program_ok_def u32_MAX_def unat_word_ariths unat_of_nat)
  with assms(2) obtain fm where fm: "FlatMap_insert pc packed (vm_compiled_offset_for_block v) = Some fm" "flat_ok fm"
    "fm_desired_capacity fm = fm_desired_capacity (vm_compiled_offset_for_block v)"
    using FlatMap_insert_ok [of "vm_compiled_offset_for_block v" pc packed] by (auto simp: room_def)
  define v0 where "v0 = v\<lparr>vm_compiled_offset_for_block := fm\<rparr>"
  have v0: "room (n + 3) v0" "grown v v0" "vm_compiled_handlers v0 = vm_compiled_handlers v" "vm_step_tracing v0 = vm_step_tracing v"
    using assms(2) fm by (auto simp: room_def grown_def v0_def)
  define v1 where "v1 = emit_step pc v0"
  have v1: "room (n + 2) v1" "grown v0 v1"
    "length (vm_compiled_handlers v1) = length (vm_compiled_handlers v) + (if vm_step_tracing v then 1 else 0)"
    using emit_step_ok(1) [of "n + 2" v0 pc] emit_step_ok(2,3) v0 by (simp_all add: v1_def eval_nat_numeral)
  obtain b' v2 where v2: "emit_charge_gas per p pc b v1 = (b', v2)" by fastforce
  define c where "c = \<lparr>c_program_counter = pc, c_next_program_counter = word_of_nat (next_offset p),
      c_module = vm_module v2, c_memory_kind = memory_kind v2\<rparr>"
  define v3 where "v3 = push_handlers (Compiler_visit (kind p) c) v2"
  have step: "compile_step per p valid b v = Some (b', v3)"
    using packed fm(1) v2 by (simp add: compile_step_def pc_def [symmetric] v0_def [symmetric] v1_def [symmetric] v3_def c_def)
  note gas = emit_charge_gas_ok [OF _ v2, of "n + 1"]
  have r2: "room (n + 1) v2" "grown v1 v2" using gas v1(1) by simp_all
  have v3: "room n v3" "grown v2 v3"
    using room_push(1) [of n "Compiler_visit (kind p) c" v2] room_push(2) room_mono [OF r2(1), of "n + length (Compiler_visit (kind p) c)"]
      length_visit [of "kind p" c] by (simp_all add: v3_def)
  have g: "grown v v3" using v0(2) v1(2) r2(2) v3(2) grown_trans by blast
  have m: "vm_module v1 = vm_module v" using v1(2) v0(2) by (simp add: grown_def)
  show thesis
  proof (rule that [OF step v3(1) g])
    assume "m_gas_metering (vm_module v) \<noteq> None" "\<not> per"
    with gas(3) v1 m grown_nth [OF v3(2)] v3(2)
    show "bs_gas_visitor b' = GasVisitor_visit (kind p) (bs_gas_visitor b) \<and>
      (case bs_charge_gas_index b of
         None \<Rightarrow> (let i = length (vm_compiled_handlers v) + (if vm_step_tracing v then 1 else 0) in
           bs_charge_gas_index b' = Some (word_of_nat (p_offset p), i) \<and>
           i < length (vm_compiled_handlers v3) \<and> vm_compiled_handlers v3 ! i = H_control H_charge_gas)
       | Some x \<Rightarrow> bs_charge_gas_index b' = Some x)"
      by (auto simp: pc_def Let_def grown_def split: option.splits)
  next
    assume "m_gas_metering (vm_module v) = None \<or> per"
    then show "b' = b" using gas(4) v1(1) m by simp
  qed
qed

lemma ends_block_opcode: "ends_block i \<longleftrightarrow> starts_new_basic_block (opcode i)"
  by (cases i) (auto simp: ends_block_def)

definition metered :: "bool \<Rightarrow> InterpretedInstance \<Rightarrow> bool" where
  "metered per v \<longleftrightarrow> m_gas_metering (vm_module v) \<noteq> None \<and> \<not> per"

lemma compile_items_total:
  assumes "program_ok (vm_module v)" "room (3 * length ps) v" "\<forall>p \<in> set ps. p_offset p \<le> length (pb_code (m_blob (vm_module v)))"
  shows "\<exists>b' v'. compile_items per ps valid b v = Some (b', v') \<and> room 0 v' \<and> grown v v' \<and>
    (\<forall>x. bs_charge_gas_index b = Some x \<longrightarrow> bs_charge_gas_index b' = Some x) \<and> (\<not> metered per v \<longrightarrow> b' = b) \<and>
    (metered per v \<longrightarrow> gv_last_block_cost (bs_gas_visitor b) = None \<longrightarrow> list_ex ends_block (map kind ps) \<longrightarrow>
      gv_last_block_cost (bs_gas_visitor b') =
        Some (gv_cost (bs_gas_visitor b) + block_cost (gv_cost_model (bs_gas_visitor b)) (map kind ps)))"
  using assms
proof (induction ps arbitrary: valid b v)
  case (Cons p ps)
  obtain b1 v1 where step: "compile_step per p valid b v = Some (b1, v1)" and v1: "room (3 * length ps) v1" "grown v v1"
    and gas: "metered per v \<Longrightarrow> bs_gas_visitor b1 = GasVisitor_visit (kind p) (bs_gas_visitor b)"
      "\<forall>x. bs_charge_gas_index b = Some x \<longrightarrow> bs_charge_gas_index b1 = Some x" "\<not> metered per v \<Longrightarrow> b1 = b"
  proof (rule compile_step_total [OF Cons.prems(1), of "3 * length ps" p per valid b])
    show "room (3 * length ps + 3) v" using Cons.prems(2) by (simp add: algebra_simps)
    show "p_offset p \<le> length (pb_code (m_blob (vm_module v)))" using Cons.prems(3) by simp
  qed (rule that; cases "m_gas_metering (vm_module v)"; cases per; auto simp: metered_def)
  define g g1 where "g = bs_gas_visitor b" and "g1 = bs_gas_visitor b1"
  show ?case
  proof (cases "ends_block (kind p)")
    case True
    moreover have "gv_last_block_cost g1 = Some (gv_cost g + instruction_cost (gv_cost_model g) (kind p))"
      if "metered per v" using gas(1) [OF that] True by (simp add: g_def g1_def GasVisitor_visit_eq start_new_basic_block_def Let_def)
    ultimately show ?thesis
      using step v1 gas(2,3) room_mono [OF v1(1), of 0] by (auto simp: ends_block_opcode [symmetric] g_def g1_def)
  next
    case False
    have m: "vm_module v1 = vm_module v" "metered per v1 = metered per v" using v1(2) by (simp_all add: grown_def metered_def)
    obtain b2 v2 where rest: "compile_items per ps False b1 v1 = Some (b2, v2)" "room 0 v2" "grown v1 v2"
      "\<forall>x. bs_charge_gas_index b1 = Some x \<longrightarrow> bs_charge_gas_index b2 = Some x" "\<not> metered per v \<longrightarrow> b2 = b1"
      "metered per v \<longrightarrow> gv_last_block_cost g1 = None \<longrightarrow> list_ex ends_block (map kind ps) \<longrightarrow>
        gv_last_block_cost (bs_gas_visitor b2) = Some (gv_cost g1 + block_cost (gv_cost_model g1) (map kind ps))"
      using Cons.IH [of v1 False b1] Cons.prems(1,3) v1(1) m by (auto simp: g1_def)
    have items: "compile_items per (p # ps) valid b v = Some (b2, v2)"
      using step rest(1) False by (simp add: ends_block_opcode)
    have g1: "gv_last_block_cost g1 = gv_last_block_cost g" "gv_cost_model g1 = gv_cost_model g"
      "gv_cost g1 = gv_cost g + instruction_cost (gv_cost_model g) (kind p)" if "metered per v"
      using gas(1) [OF that] False by (simp_all add: g_def g1_def GasVisitor_visit_eq Let_def)
    show ?thesis
      using items rest grown_trans [OF v1(2) rest(3)] gas(2,3) g1 False by (simp add: g_def [symmetric] add.assoc)
  qed
qed simp

lemma visit_nonempty: "ends_block i \<Longrightarrow> Compiler_visit i c \<noteq> []"
  by (cases i) (auto simp: ends_block_def compile_argless_def compile_reg_imm_def compile_reg_reg_offset_def
    compile_reg_imm_offset_def compile_offset_def compile_reg_reg_imm_imm_def compile_invalid_def emit_branch_def Let_def
    split: op_argless.split op_reg_imm.split op_reg_imm_offset.split op_offset.split op_reg_reg_imm_imm.split)

lemma compile_step_grows:
  assumes "compile_step per p valid b v = Some (b', v')"
  shows "length (vm_compiled_handlers v) \<le> length (vm_compiled_handlers v')"
    "ends_block (kind p) \<Longrightarrow> length (vm_compiled_handlers v) < length (vm_compiled_handlers v')"
proof -
  have e: "length (vm_compiled_handlers u) \<le> length (vm_compiled_handlers (emit_step pc u))"
    "length (vm_compiled_handlers u) \<le> length (vm_compiled_handlers (snd (emit_charge_gas per p pc b u)))" for u pc
    by (auto simp: emit_step_def emit_charge_gas_def push_handlers_def Let_def)
  obtain fm pc v1 c where "emit_charge_gas per p pc b (emit_step pc (v\<lparr>vm_compiled_offset_for_block := fm\<rparr>)) = (b', v1)"
    and v': "v' = push_handlers (Compiler_visit (kind p) c) v1"
    using compile_stepE [OF assms] by metis
  then have "length (vm_compiled_handlers v) \<le> length (vm_compiled_handlers v1)"
    using order_trans [OF e(1) e(2), of "v\<lparr>vm_compiled_offset_for_block := fm\<rparr>" pc pc] by simp
  with v'
  show "length (vm_compiled_handlers v) \<le> length (vm_compiled_handlers v')"
    "ends_block (kind p) \<Longrightarrow> length (vm_compiled_handlers v) < length (vm_compiled_handlers v')"
    using visit_nonempty [of "kind p" c] by (auto simp: push_handlers_def length_greater_0_conv [symmetric] simp del: length_greater_0_conv)
qed

lemma compile_items_grows:
  "compile_items per ps valid b v = Some (b', v') \<Longrightarrow> list_ex ends_block (map kind ps) \<Longrightarrow>
    length (vm_compiled_handlers v) < length (vm_compiled_handlers v')"
proof (induction ps arbitrary: valid b v)
  case (Cons p ps)
  then obtain b1 v1 where step: "compile_step per p valid b v = Some (b1, v1)"
    and rest: "(if ends_block (kind p) then Some (b1, v1) else compile_items per ps False b1 v1) = Some (b', v')"
    by (auto simp: Option.bind_eq_Some_conv ends_block_opcode)
  show ?case
  proof (cases "ends_block (kind p)")
    case True
    then show ?thesis using compile_step_grows(2) [OF step] rest by simp
  next
    case False
    then have "length (vm_compiled_handlers v1) < length (vm_compiled_handlers v')"
      using Cons.IH [of False b1 v1] Cons.prems(2) rest by simp
    then show ?thesis using compile_step_grows(1) [OF step] by linarith
  qed
qed simp

lemma items_from_ge: "code_ok code bm \<Longrightarrow> p \<in> set (items_from isa code bm True offset) \<Longrightarrow> offset \<le> p_offset p"
proof -
  have "\<forall>p \<in> set (walk_items isa code bm True os). offset \<le> p_offset p" if "\<forall>o1 \<in> set os. offset \<le> o1" for os
    using that by (induction os) (auto simp: items_at_def Let_def split: if_splits)
  from this [of "filter (bit_at bm) [offset..<length code]"]
  show "p \<in> set (items_from isa code bm True offset) \<Longrightarrow> offset \<le> p_offset p" by (auto simp: items_from_def)
qed

lemma block_items_hd:
  assumes "program_ok md" "pc < module_code_len md" "block_items md pc = p # ps"
  shows "p_offset p = unat pc" "q \<in> set ps \<Longrightarrow> unat pc < p_offset q"
proof -
  define code bm isa where "code = pb_code (m_blob md)" and "bm = pb_bitmask (m_blob md)" and "isa = isa_of (pb_isa (m_blob md))"
  have ok: "code_ok code bm" and pc: "unat pc < length code"
    using assms unat_code_len [OF assms(1)] by (auto simp: program_ok_def code_def bm_def word_less_nat_alt)
  have "unat pc < following code bm (unat pc)"
    using skip_at_following [OF pc, of bm] following_start [of code bm "unat pc"] pc by (auto simp: following_def split: option.split)
  then have f: "unat pc < p_offset q" if "q \<in> set (items_from isa code bm True (following code bm (unat pc)))" for q
    using items_from_ge [OF ok that] by simp
  show "p_offset p = unat pc" "q \<in> set ps \<Longrightarrow> unat pc < p_offset q"
    using assms(3) pc items_from_step [of bm "unat pc" code isa True] f
    by (auto simp: block_items_def code_def [symmetric] bm_def [symmetric] isa_def [symmetric] items_at_def Let_def split: if_splits)
qed

text \<open>The loop on a block, with the position of the handler that charges for it.\<close>

lemma block_compiled:
  assumes "program_ok (vm_module v)" "pc < module_code_len (vm_module v)" "room (6 * length (pb_code (m_blob (vm_module v)))) v"
  defines "i \<equiv> length (vm_compiled_handlers v) + (if vm_step_tracing v then 1 else 0)"
    and "b0 \<equiv> \<lparr>bs_gas_visitor = GasVisitor_new (m_cost_model (vm_module v)), bs_charge_gas_index = None\<rparr>"
  obtains b v' where "compile_items per (block_items (vm_module v) pc) valid b0 v = Some (b, v')" "room 0 v'" "grown v v'"
    "length (vm_compiled_handlers v) < length (vm_compiled_handlers v')" "\<not> metered per v \<Longrightarrow> bs_charge_gas_index b = None"
    "metered per v \<Longrightarrow> bs_charge_gas_index b = Some (pc, i) \<and> i < length (vm_compiled_handlers v') \<and>
      vm_compiled_handlers v' ! i = H_control H_charge_gas \<and>
      fst (take_block_cost (bs_gas_visitor b)) = Some (block_cost (m_cost_model (vm_module v)) (map kind (block_items (vm_module v) pc)))"
proof -
  note ok = block_items_ok [OF assms(1,2)]
  define ps where "ps = block_items (vm_module v) pc"
  obtain p qs where ps: "ps = p # qs" using ok(2) by (cases ps) (auto simp: ps_def)
  have first: "word_of_nat (p_offset p) = pc" using block_items_hd(1) [OF assms(1,2), of p qs] ps by (simp add: ps_def)
  have r: "room (3 * length ps) v" using room_mono [OF assms(3)] ok(3) by (simp add: ps_def)
  have off: "\<forall>p \<in> set ps. p_offset p \<le> length (pb_code (m_blob (vm_module v)))" using ok(1) by (simp add: ps_def)
  obtain b v' where all: "compile_items per ps valid b0 v = Some (b, v')" "room 0 v'" "grown v v'" "\<not> metered per v \<longrightarrow> b = b0"
    "metered per v \<longrightarrow> gv_last_block_cost (bs_gas_visitor b) = Some (block_cost (m_cost_model (vm_module v)) (map kind ps))"
    using compile_items_total [OF assms(1) r off, of per valid b0] ok(2) by (auto simp: b0_def ps_def GasVisitor_new_def)
  have grows: "length (vm_compiled_handlers v) < length (vm_compiled_handlers v')"
    using compile_items_grows [OF all(1)] ok(2) by (simp add: ps_def)
  have idx: "bs_charge_gas_index b = Some (pc, i) \<and> i < length (vm_compiled_handlers v') \<and>
      vm_compiled_handlers v' ! i = H_control H_charge_gas" if m: "metered per v"
  proof -
    obtain b1 v1 where step: "compile_step per p valid b0 v = Some (b1, v1)" "room (3 * length qs) v1" "grown v v1"
      "bs_charge_gas_index b1 = Some (pc, i) \<and> i < length (vm_compiled_handlers v1) \<and> vm_compiled_handlers v1 ! i = H_control H_charge_gas"
    proof (rule compile_step_total [OF assms(1), of "3 * length qs" p per valid b0])
      show "room (3 * length qs + 3) v" using r by (simp add: ps algebra_simps)
      show "p_offset p \<le> length (pb_code (m_blob (vm_module v)))" using off by (simp add: ps)
    qed (rule that; use m in \<open>auto simp: metered_def i_def b0_def first Let_def\<close>)
    have "bs_charge_gas_index b = Some (pc, i) \<and> grown v1 v'"
    proof (cases "starts_new_basic_block (opcode (kind p))")
      case True
      then show ?thesis using all(1) step by (simp add: ps)
    next
      case False
      then have "compile_items per qs False b1 v1 = Some (b, v')" using all(1) step by (simp add: ps)
      then show ?thesis
        using compile_items_total [of v1 qs per False b1] step off assms(1) by (simp add: ps grown_def)
    qed
    with step(4) show ?thesis using grown_nth [of v1 v' i] by (auto simp: grown_def)
  qed
  show thesis
    using that [OF all(1) [unfolded ps_def] all(2,3) grows] all(4,5) idx by (simp add: b0_def take_block_cost_def ps_def)
qed

section \<open>Finding the block again\<close>

lemma FlatMap_get_insert:
  assumes "flat_ok m" "FlatMap_insert key x m = Some m'"
  shows "FlatMap_get k m' = (if k = key then Some x else FlatMap_get k m)" "flat_ok m'"
  using assms
  by (auto simp: FlatMap_insert_def flat_ok_def allocate_capacity_def FlatMap_get_def nth_list_update word_unat_eq_iff Let_def
      split: if_splits)

lemma map_unchanged [simp]:
  "vm_compiled_offset_for_block (push_handlers code v) = vm_compiled_offset_for_block v"
  "vm_compiled_offset_for_block (emit_step pc v) = vm_compiled_offset_for_block v"
  "vm_compiled_offset_for_block (snd (emit_charge_gas per p pc b v)) = vm_compiled_offset_for_block v"
  by (auto simp: push_handlers_def emit_step_def emit_charge_gas_def Let_def)

lemma compile_step_map:
  assumes "compile_step per p valid b v = Some (b', v')" "flat_ok (vm_compiled_offset_for_block v)"
  obtains packed where "pack_target (length (vm_compiled_handlers v)) valid = Some packed" "flat_ok (vm_compiled_offset_for_block v')"
    "\<And>k. FlatMap_get k (vm_compiled_offset_for_block v') =
      (if k = word_of_nat (p_offset p) then Some packed else FlatMap_get k (vm_compiled_offset_for_block v))"
proof -
  obtain packed fm v1 c where *: "pack_target (length (vm_compiled_handlers v)) valid = Some packed"
    "FlatMap_insert (word_of_nat (p_offset p)) packed (vm_compiled_offset_for_block v) = Some fm"
    "emit_charge_gas per p (word_of_nat (p_offset p)) b
      (emit_step (word_of_nat (p_offset p)) (v\<lparr>vm_compiled_offset_for_block := fm\<rparr>)) = (b', v1)"
    "v' = push_handlers (Compiler_visit (kind p) c) v1"
    using compile_stepE [OF assms(1)] by metis
  have "vm_compiled_offset_for_block v1 = fm"
    using arg_cong [OF *(3), of "\<lambda>x. vm_compiled_offset_for_block (snd x)"] by simp
  then have "vm_compiled_offset_for_block v' = fm" using *(4) by simp
  with that [OF *(1)] FlatMap_get_insert [OF assms(2) *(2)] show thesis by simp
qed

lemma compile_items_map:
  "compile_items per ps valid b v = Some (b', v') \<Longrightarrow> flat_ok (vm_compiled_offset_for_block v) \<Longrightarrow>
    \<forall>p \<in> set ps. word_of_nat (p_offset p) \<noteq> k \<Longrightarrow>
    FlatMap_get k (vm_compiled_offset_for_block v') = FlatMap_get k (vm_compiled_offset_for_block v)"
proof (induction ps arbitrary: valid b v)
  case (Cons p ps)
  obtain b1 v1 where step: "compile_step per p valid b v = Some (b1, v1)"
    and rest: "(if starts_new_basic_block (opcode (kind p)) then Some (b1, v1) else compile_items per ps False b1 v1) = Some (b', v')"
    using Cons.prems(1) by (cases "compile_step per p valid b v") auto
  obtain packed where m: "flat_ok (vm_compiled_offset_for_block v1)"
    "FlatMap_get k (vm_compiled_offset_for_block v1) =
      (if k = word_of_nat (p_offset p) then Some packed else FlatMap_get k (vm_compiled_offset_for_block v))"
    using compile_step_map [OF step Cons.prems(2)] by metis
  show ?case using rest m Cons.IH [of False b1 v1] Cons.prems(3) by (auto split: if_splits)
qed simp

lemma block_found:
  assumes "program_ok (vm_module v)" "pc < module_code_len (vm_module v)" "room n v"
    "compile_items per (block_items (vm_module v) pc) valid b v = Some (b', v')"
  shows "\<exists>packed. pack_target (length (vm_compiled_handlers v)) valid = Some packed \<and>
    FlatMap_get pc (vm_compiled_offset_for_block v') = Some packed"
proof -
  obtain p ps where ps: "block_items (vm_module v) pc = p # ps"
    using block_items_ok(2) [OF assms(1,2)] by (cases "block_items (vm_module v) pc") auto
  have len: "length (pb_code (m_blob (vm_module v))) < 2 ^ 32 - 1" using assms(1) by (simp add: program_ok_def u32_MAX_def)
  have first: "word_of_nat (p_offset p) = pc" using block_items_hd(1) [OF assms(1,2) ps] by simp
  have other: "word_of_nat (p_offset q) \<noteq> pc" if "q \<in> set ps" for q
    using block_items_hd(2) [OF assms(1,2) ps that] block_items_ok(1) [OF assms(1,2), of q] that ps len
    by (auto simp: word_unat_eq_iff unat_of_nat)
  obtain b1 v1 where step: "compile_step per p valid b v = Some (b1, v1)"
    and rest: "(if starts_new_basic_block (opcode (kind p)) then Some (b1, v1) else compile_items per ps False b1 v1) = Some (b', v')"
    using assms(4) ps by (cases "compile_step per p valid b v") auto
  obtain packed where m: "pack_target (length (vm_compiled_handlers v)) valid = Some packed" "flat_ok (vm_compiled_offset_for_block v1)"
    "FlatMap_get pc (vm_compiled_offset_for_block v1) = Some packed"
    using compile_step_map [OF step] assms(3) first by (metis room_def)
  show ?thesis
    using rest m compile_items_map [of per ps False b1 v1 b' v' pc] other by (auto split: if_splits)
qed

section \<open>Compiling a block\<close>

lemma limit_cache_ok:
  assumes "origin < length (vm_compiled_handlers v)" "length (vm_compiled_args v) = length (vm_compiled_handlers v)"
  shows "\<exists>v'. limit_cache origin pc v = Some v' \<and> length (vm_compiled_handlers v') = length (vm_compiled_handlers v) \<and>
    length (vm_compiled_args v') = length (vm_compiled_args v) \<and> vm_compiled_offset_for_block v' = vm_compiled_offset_for_block v \<and>
    vm_module v' = vm_module v \<and> (vm_max_compiled_handlers v = None \<longrightarrow> v' = v)"
proof (cases "vm_max_compiled_handlers v")
  case (Some m)
  have put: "\<exists>v'. put_handler origin (H_control H_reset_cache) (args1 pc) w = Some v' \<and>
      length (vm_compiled_handlers v') = length (vm_compiled_handlers v) \<and> length (vm_compiled_args v') = length (vm_compiled_args v) \<and>
      vm_compiled_offset_for_block v' = vm_compiled_offset_for_block v \<and> vm_module v' = vm_module v"
    if "w = v \<or> (\<exists>n. w = v\<lparr>vm_max_compiled_handlers := n\<rparr>)" for w
    using that assms by (auto simp: put_handler_def)
  then show ?thesis using Some by (auto simp: limit_cache_def Let_def)
qed (simp add: limit_cache_def)

text \<open>Everything \<open>compile_block\<close> does to an instance with room for the block, without a limit of the cache.\<close>

lemma compile_block_result:
  assumes "program_ok (vm_module v)" "pc < module_code_len (vm_module v)" "room (6 * length (pb_code (m_blob (vm_module v)))) v"
  defines "per \<equiv> m_is_per_instruction_metering (vm_module v)"
    and "i \<equiv> length (vm_compiled_handlers v) + (if vm_step_tracing v then 1 else 0)"
  obtains v' packed where "compile_block pc v = Some (Some (word_of_nat (length (vm_compiled_handlers v))), v')" "vm_module v' = vm_module v"
    "pack_target (length (vm_compiled_handlers v)) (module_is_jump_target_valid (vm_module v) pc) = Some packed"
    "FlatMap_get pc (vm_compiled_offset_for_block v') = Some packed"
    "length (vm_compiled_args v') = length (vm_compiled_handlers v')" "length (vm_compiled_handlers v') < 2 ^ 31"
    "\<exists>b v1. compile_items per (block_items (vm_module v) pc) (module_is_jump_target_valid (vm_module v) pc)
        \<lparr>bs_gas_visitor = GasVisitor_new (m_cost_model (vm_module v)), bs_charge_gas_index = None\<rparr> v = Some (b, v1) \<and>
      vm_compiled_offset_for_block v' = vm_compiled_offset_for_block v1 \<and>
      (vm_max_compiled_handlers v = None \<longrightarrow> vm_compiled_handlers v' = vm_compiled_handlers v1)"
    "metered per v \<and> vm_max_compiled_handlers v = None \<longrightarrow> vm_compiled_handlers v' ! i = H_control H_charge_gas \<and>
      vm_compiled_args v' ! i = args2 pc (block_cost (m_cost_model (vm_module v)) (map kind (block_items (vm_module v) pc)))"
proof -
  define valid where "valid = module_is_jump_target_valid (vm_module v) pc"
  define b0 where "b0 = \<lparr>bs_gas_visitor = GasVisitor_new (m_cost_model (vm_module v)), bs_charge_gas_index = None\<rparr>"
  define origin where "origin = length (vm_compiled_handlers v)"
  obtain it where it: "module_instructions_bounded_at (vm_module v) pc = Some it"
    "Instructions_collect (2 * length (pb_code (m_blob (vm_module v))) + 2) it = Some (block_items (vm_module v) pc)"
    using module_items [OF assms(1,2)] by blast
  obtain b v1 where items: "compile_items per (block_items (vm_module v) pc) valid b0 v = Some (b, v1)" and v1: "room 0 v1" "grown v v1"
    "origin < length (vm_compiled_handlers v1)" and idx: "\<not> metered per v \<Longrightarrow> bs_charge_gas_index b = None"
    "metered per v \<Longrightarrow> bs_charge_gas_index b = Some (pc, i) \<and> i < length (vm_compiled_handlers v1) \<and>
      vm_compiled_handlers v1 ! i = H_control H_charge_gas \<and>
      fst (take_block_cost (bs_gas_visitor b)) = Some (block_cost (m_cost_model (vm_module v)) (map kind (block_items (vm_module v) pc)))"
    using block_compiled [OF assms(1-3), of per valid] unfolding b0_def origin_def i_def by metis
  have loop: "compile_loop per it valid b0 v = Some (b, v1)" using compile_loop_items [OF it(2)] items by simp
  have len1: "length (vm_compiled_args v1) = length (vm_compiled_handlers v1)" using v1(1) by (simp add: room_def)
  obtain v2 where v2: "limit_cache origin pc v1 = Some v2" "length (vm_compiled_handlers v2) = length (vm_compiled_handlers v1)"
    "length (vm_compiled_args v2) = length (vm_compiled_args v1)" "vm_compiled_offset_for_block v2 = vm_compiled_offset_for_block v1"
    "vm_module v2 = vm_module v1" "vm_max_compiled_handlers v1 = None \<Longrightarrow> v2 = v1"
    using limit_cache_ok [OF v1(3) len1] by metis
  obtain v' where v': "set_block_cost b v2 = Some v'" "vm_compiled_offset_for_block v' = vm_compiled_offset_for_block v2"
    "vm_module v' = vm_module v2" "vm_compiled_handlers v' = vm_compiled_handlers v2"
    "length (vm_compiled_args v') = length (vm_compiled_args v2)"
    "metered per v \<Longrightarrow> vm_compiled_args v' = (vm_compiled_args v2)
      [i := args2 pc (block_cost (m_cost_model (vm_module v)) (map kind (block_items (vm_module v) pc)))]"
    using idx v2(2,3) len1 by (cases "metered per v") (auto simp: set_block_cost_def)
  have block: "compile_block pc v = Some (Some (word_of_nat origin), v')"
    using assms(2,3) it(1) loop v2 v' v1(3)
    by (simp add: compile_block_def compile_block_impl_def per_def valid_def b0_def origin_def room_def Let_def not_le)
  obtain packed where packed: "pack_target (length (vm_compiled_handlers v)) valid = Some packed"
    "FlatMap_get pc (vm_compiled_offset_for_block v1) = Some packed"
    using block_found [OF assms(1-3) items] by blast
  have max: "vm_max_compiled_handlers v1 = vm_max_compiled_handlers v" "vm_module v1 = vm_module v" using v1(2) by (simp_all add: grown_def)
  show thesis
  proof (rule that [OF block [unfolded origin_def]])
    show "vm_module v' = vm_module v" using v'(3) v2(5) max(2) by simp
    show "pack_target (length (vm_compiled_handlers v)) (module_is_jump_target_valid (vm_module v) pc) = Some packed"
      using packed(1) by (simp add: valid_def)
    show "FlatMap_get pc (vm_compiled_offset_for_block v') = Some packed" using packed(2) v'(2) v2(4) by simp
    show "length (vm_compiled_args v') = length (vm_compiled_handlers v')" using v'(4,5) v2(2,3) len1 by simp
    show "length (vm_compiled_handlers v') < 2 ^ 31" using v'(4) v2(2) v1(1) by (simp add: room_def)
    show "\<exists>b v1. compile_items per (block_items (vm_module v) pc) (module_is_jump_target_valid (vm_module v) pc)
        \<lparr>bs_gas_visitor = GasVisitor_new (m_cost_model (vm_module v)), bs_charge_gas_index = None\<rparr> v = Some (b, v1) \<and>
      vm_compiled_offset_for_block v' = vm_compiled_offset_for_block v1 \<and>
      (vm_max_compiled_handlers v = None \<longrightarrow> vm_compiled_handlers v' = vm_compiled_handlers v1)"
      using items v'(2,4) v2(4,6) max(1) by (auto simp: valid_def b0_def)
    show "metered per v \<and> vm_max_compiled_handlers v = None \<longrightarrow> vm_compiled_handlers v' ! i = H_control H_charge_gas \<and>
      vm_compiled_args v' ! i = args2 pc (block_cost (m_cost_model (vm_module v)) (map kind (block_items (vm_module v) pc)))"
      using idx(2) v'(4,6) v2(6) max(1) len1 by simp
  qed
qed

lemma block_cost_reported:
  assumes "program_ok md" "pc < module_code_len md" "module_is_jump_target_valid md pc"
  shows "calculate_gas_cost_for md pc = Some (Some (ucast (block_cost (m_cost_model md) (map kind (block_items md pc)))))"
proof -
  obtain it where it: "module_instructions_bounded_at md pc = Some it"
    "Instructions_collect (2 * length (pb_code (m_blob md)) + 2) it = Some (block_items md pc)"
    using module_items [OF assms(1,2)] by blast
  show ?thesis
    using calculate_for_block_collect [OF it(2), of "m_cost_model md"] it(1) assms(3) by (auto simp: calculate_gas_cost_for_def)
qed

section \<open>A program\<close>

text \<open>A 32-bit program of two blocks: a \<open>trap\<close>, and two \<open>load_imm\<close> followed by a \<open>trap\<close>.\<close>

definition two_blocks_code :: bytes where
  "two_blocks_code = [0, 51, 7, 1, 51, 7, 2, 0]"

definition two_blocks :: Module where
  "two_blocks = demo_module\<lparr>m_blob := demo_blob\<lparr>pb_isa := Latest32, pb_code := two_blocks_code, pb_bitmask := [0x93]\<rparr>,
    m_gas_metering := Some Sync\<rparr>"

lemma two_blocks_parts:
  "pb_isa (m_blob two_blocks) = Latest32" "pb_code (m_blob two_blocks) = two_blocks_code" "pb_bitmask (m_blob two_blocks) = [0x93]"
  "m_gas_metering two_blocks = Some Sync" "m_is_per_instruction_metering two_blocks = False" "m_cost_model two_blocks = CostModel_naive"
  "m_dynamic_paging two_blocks = False" "m_step_tracing two_blocks = False"
  by (simp_all add: two_blocks_def demo_module_def)

lemma two_blocks_bytes:
  "length two_blocks_code = 8" "two_blocks_code ! 0 = 0" "two_blocks_code ! 1 = 51" "two_blocks_code ! 4 = 51" "two_blocks_code ! 7 = 0"
  by (simp_all add: two_blocks_code_def)

lemma two_blocks_bits:
  "bit_at [0x93] 0" "bit_at [0x93] 1" "\<not> bit_at [0x93] 2" "\<not> bit_at [0x93] 3" "bit_at [0x93] 4" "\<not> bit_at [0x93] 5" "\<not> bit_at [0x93] 6"
  "bit_at [0x93] 7"
  by (simp_all add: bit_at_def)

lemma two_blocks_opcodes: "opcode_from_u8 ISA_Latest32 0 = Some (O_argless trap)" "opcode_from_u8 ISA_Latest32 51 = Some (O_reg_imm load_imm)"
  unfolding latest32.opcode_from_u8_iff by (simp_all add: ISA_Latest32_def Latest32_argless_def Latest32_reg_imm_def)

lemma two_blocks_targets: "module_is_jump_target_valid two_blocks 0" "module_is_jump_target_valid two_blocks 1"
proof -
  have "prev_start [0x93] 1 = Some 0" by (simp add: prev_start_def two_blocks_bits)
  then show "module_is_jump_target_valid two_blocks 0" "module_is_jump_target_valid two_blocks 1"
    unfolding module_is_jump_target_valid_def two_blocks_parts isa_of.simps
    by (auto intro!: is_jump_target_validI [where p = 0 and op = "O_argless trap"] simp: two_blocks_bits [simplified] two_blocks_bytes two_blocks_opcodes BITMASK_MAX_def)
qed

definition two_blocks_vm :: InterpretedInstance where
  "two_blocks_vm = the (new_from_module two_blocks False)"

lemma two_blocks_new: "new_from_module two_blocks False = Some two_blocks_vm"
  by (simp add: two_blocks_vm_def new_from_module_def initialize_module_def vm_reset_memory_def memory_kind_def two_blocks_def demo_module_def)

lemma two_blocks_fields:
  "vm_module two_blocks_vm = two_blocks" "vm_compiled_handlers two_blocks_vm = []" "vm_compiled_args two_blocks_vm = []"
  "vm_compiled_offset_for_block two_blocks_vm = FlatMap_new True (module_code_len two_blocks + 1)"
  "vm_step_tracing two_blocks_vm = False" "vm_max_compiled_handlers two_blocks_vm = None"
  by (simp_all add: two_blocks_vm_def new_from_module_def initialize_module_def vm_reset_memory_def memory_kind_def two_blocks_def demo_module_def)

lemma two_blocks_ok: "program_ok two_blocks" "module_code_len two_blocks = 8" "room 48 two_blocks_vm"
  by (simp_all add: program_ok_def u32_MAX_def code_ok_def two_blocks_parts two_blocks_bytes module_code_len_def room_def two_blocks_fields FlatMap_new_def
      flat_ok_def)

section \<open>Properties\<close>

text \<open>C6: Compiling a block never panics: with an allocated or allocatable map of program counters and room for the handlers of the
  program, \<open>compile_block\<close> on a position in the code returns the position of the first new handler, whatever the code is, with or without
  metering, tracing or a limit of the cache. Afterwards a jump to the block is resolved to that handler exactly if the block may
  be jumped to.\<close>
theorem compile_block_total:
  assumes "program_ok (vm_module v)" "pc < module_code_len (vm_module v)" "room (6 * length (pb_code (m_blob (vm_module v)))) v"
  shows "\<exists>v'. compile_block pc v = Some (Some (word_of_nat (length (vm_compiled_handlers v))), v') \<and>
    resolve_jump pc v' = Some (if module_is_jump_target_valid (vm_module v) pc
      then Some (word_of_nat (length (vm_compiled_handlers v))) else None, v')"
proof -
  have "0 < length (pb_code (m_blob (vm_module v)))"
    using assms(2) unat_code_len [OF assms(1)] by (auto simp: word_less_nat_alt)
  then have small: "length (vm_compiled_handlers v) < 2 ^ 31 - 1" using assms(3) unfolding room_def by linarith
  obtain v' packed where v': "compile_block pc v = Some (Some (word_of_nat (length (vm_compiled_handlers v))), v')"
    "pack_target (length (vm_compiled_handlers v)) (module_is_jump_target_valid (vm_module v) pc) = Some packed"
    "FlatMap_get pc (vm_compiled_offset_for_block v') = Some packed"
    using compile_block_result [OF assms] by blast
  obtain q where "pack_target (length (vm_compiled_handlers v)) (module_is_jump_target_valid (vm_module v) pc) = Some q"
    "unpack_target q = (module_is_jump_target_valid (vm_module v) pc, word_of_nat (length (vm_compiled_handlers v)))"
    using pack_unpack [OF small] by blast
  then show ?thesis using v' by (simp add: resolve_jump_def)
qed

theorem compile_block_total_witness:
  "\<exists>v'. compile_block 4 two_blocks_vm = Some (Some 0, v') \<and>
    resolve_jump 4 v' = Some (if module_is_jump_target_valid two_blocks 4 then Some 0 else None, v')"
  using compile_block_total [of two_blocks_vm 4] two_blocks_ok by (simp add: two_blocks_fields two_blocks_parts two_blocks_bytes cong: if_cong)

text \<open>C7: The interpreter charges for a block what the module reports: when a program is metered by blocks and the cache of handlers has no limit, compiling a block that
  may be jumped to puts a \<open>charge_gas\<close> handler at its start, after the \<open>step\<close> handler when tracing, and its argument is the cost that
  \<open>calculate_gas_cost_for\<close> gives for the block.\<close>
theorem block_gas_charged:
  assumes "program_ok (vm_module v)" "pc < module_code_len (vm_module v)" "room (6 * length (pb_code (m_blob (vm_module v)))) v"
    "m_gas_metering (vm_module v) \<noteq> None" "\<not> m_is_per_instruction_metering (vm_module v)" "vm_max_compiled_handlers v = None"
    "module_is_jump_target_valid (vm_module v) pc"
  shows "\<exists>v' i cost. compile_block pc v = Some (Some (word_of_nat (length (vm_compiled_handlers v))), v') \<and>
    i = length (vm_compiled_handlers v) + (if vm_step_tracing v then 1 else 0) \<and>
    vm_compiled_handlers v' ! i = H_control H_charge_gas \<and> vm_compiled_args v' ! i = args2 pc cost \<and>
    calculate_gas_cost_for (vm_module v) pc = Some (Some (ucast cost))"
  using compile_block_result [OF assms(1-3)] block_cost_reported [OF assms(1,2,7)] assms(4-6) unfolding metered_def by metis

theorem block_gas_charged_witness:
  "module_is_jump_target_valid two_blocks 1 \<and> (\<exists>v' cost. compile_block 1 two_blocks_vm = Some (Some 0, v') \<and>
    vm_compiled_handlers v' ! 0 = H_control H_charge_gas \<and> vm_compiled_args v' ! 0 = args2 1 cost \<and>
    calculate_gas_cost_for two_blocks 1 = Some (Some (ucast cost)))"
  using block_gas_charged [of two_blocks_vm 1] two_blocks_ok two_blocks_targets by (simp add: two_blocks_fields two_blocks_parts two_blocks_bytes)

end
