(* ===== verification/Interp_Entry.thy ===== *)
theory Interp_Entry
  imports Interp_Reach Interp_Block
begin

text \<open>
  Entering a program from outside, \<open>resolve_arbitrary_jump\<close> and \<open>extract_target_and_gas\<close> of
  \<open>crates/polkavm/src/interpreter.rs\<close>: a run may start in the middle of a block and is then charged for the whole block. Also
  what a reset or a limit of the cache does to it, and the properties of all reachable states.
\<close>

section \<open>The handlers of a block\<close>

text \<open>Handlers of a block without its \<open>charge_gas\<close>, with \<open>step\<close> handlers only when tracing.\<close>

definition block_body :: "bool \<Rightarrow> Handler list \<Rightarrow> bool" where
  "block_body tr code \<longleftrightarrow> H_control H_charge_gas \<notin> set code \<and> (H_control H_step \<in> set code \<longrightarrow> tr)"

lemma block_body_append [simp]: "block_body tr []" "block_body tr (xs @ ys) \<longleftrightarrow> block_body tr xs \<and> block_body tr ys"
  by (auto simp: block_body_def)

lemma visit_body: "block_body tr (map fst (Compiler_visit i c))"
proof (cases i)
  case (I_reg_reg_imm op r s w)
  then show ?thesis unfolding block_body_def by (auto simp: compile_reg_reg_imm_def split: option.split)
qed (auto simp: block_body_def compile_defs emit_branch_def Let_def
    split: op_argless.split op_imm.split op_reg_reg.split op_reg_imm.split op_reg_imm64.split op_imm_imm.split op_reg_imm_imm.split
      op_reg_imm_offset.split op_offset.split op_reg_reg_imm_imm.split)

text \<open>With metering by blocks, one instruction adds a \<open>step\<close> handler when tracing, the \<open>charge_gas\<close> handler if the block has none yet,
  and its own code.\<close>

lemma compile_step_handlers:
  assumes "compile_step False p valid b v = Some (b', v')" "m_gas_metering (vm_module v) \<noteq> None"
  shows "\<exists>code. vm_compiled_handlers v' = (vm_compiled_handlers v @ (if vm_step_tracing v then [H_control H_step] else [])) @
      (if bs_charge_gas_index b = None then [H_control H_charge_gas] else []) @ code \<and>
      block_body (vm_step_tracing v) code \<and> (ends_block (kind p) \<longrightarrow> code \<noteq> [])"
    "bs_charge_gas_index b' \<noteq> None" "vm_step_tracing v' = vm_step_tracing v" "vm_module v' = vm_module v"
proof -
  obtain fm pc v1 c where e: "emit_charge_gas False p pc b (emit_step pc (v\<lparr>vm_compiled_offset_for_block := fm\<rparr>)) = (b', v1)"
    and v': "v' = push_handlers (Compiler_visit (kind p) c) v1"
    using compile_stepE [OF assms(1)] by metis
  have v1: "vm_compiled_handlers v1 = (vm_compiled_handlers v @ (if vm_step_tracing v then [H_control H_step] else [])) @
      (if bs_charge_gas_index b = None then [H_control H_charge_gas] else [])"
    "bs_charge_gas_index b' \<noteq> None" "vm_step_tracing v1 = vm_step_tracing v" "vm_module v1 = vm_module v"
    using e assms(2) by (auto simp: emit_charge_gas_def emit_step_def push_handlers_def Let_def split: if_splits)
  then show "bs_charge_gas_index b' \<noteq> None" "vm_step_tracing v' = vm_step_tracing v" "vm_module v' = vm_module v"
    using v' by (simp_all add: push_handlers_def)
  show "\<exists>code. vm_compiled_handlers v' = (vm_compiled_handlers v @ (if vm_step_tracing v then [H_control H_step] else [])) @
      (if bs_charge_gas_index b = None then [H_control H_charge_gas] else []) @ code \<and>
      block_body (vm_step_tracing v) code \<and> (ends_block (kind p) \<longrightarrow> code \<noteq> [])"
    using v1(1) v' visit_body [of "vm_step_tracing v" "kind p" c] visit_nonempty [of "kind p" c]
    by (intro exI [of _ "map fst (Compiler_visit (kind p) c)"]) (simp add: push_handlers_def)
qed

text \<open>The map has a program counter that is no jump target at a position from \<open>lo\<close> on, with a number of handlers after it.\<close>

definition points :: "u32 \<Rightarrow> nat \<Rightarrow> nat \<Rightarrow> InterpretedInstance \<Rightarrow> bool" where
  "points k lo after v \<longleftrightarrow> (\<exists>n packed. FlatMap_get k (vm_compiled_offset_for_block v) = Some packed \<and> pack_target n False = Some packed \<and>
    lo \<le> n \<and> n + after < length (vm_compiled_handlers v))"

lemma pointsI:
  "FlatMap_get k (vm_compiled_offset_for_block v) = Some packed \<Longrightarrow> pack_target lo False = Some packed \<Longrightarrow>
    lo + after < length (vm_compiled_handlers v) \<Longrightarrow> points k lo after v"
  by (auto simp: points_def)

lemma points_mono: "points k lo after v \<Longrightarrow> lo' \<le> lo \<Longrightarrow> points k lo' after v"
  using order_trans unfolding points_def by blast

text \<open>The rest of a block: no further \<open>charge_gas\<close>, and every new entry of the map points into the new handlers and is no jump target.\<close>

lemma rest_of_block:
  fixes tr :: bool
  defines "after \<equiv> if tr then 1 else 0"
  assumes "compile_items False ps False b v = Some (b', v')" "flat_ok (vm_compiled_offset_for_block v)"
    "m_gas_metering (vm_module v) \<noteq> None" "bs_charge_gas_index b \<noteq> None" "list_ex ends_block (map kind ps)" "vm_step_tracing v = tr"
  shows "\<exists>code. vm_compiled_handlers v' = vm_compiled_handlers v @ code \<and> block_body tr code \<and> after < length code \<and>
    (FlatMap_get k (vm_compiled_offset_for_block v') = FlatMap_get k (vm_compiled_offset_for_block v) \<or>
     points k (length (vm_compiled_handlers v)) after v')"
  using assms(2-)
proof (induction ps arbitrary: b v)
  case (Cons p ps)
  obtain b1 v1 where step: "compile_step False p False b v = Some (b1, v1)"
    and rest: "(if ends_block (kind p) then Some (b1, v1) else compile_items False ps False b1 v1) = Some (b', v')"
    using Cons.prems(1) by (cases "compile_step False p False b v") (auto simp: ends_block_opcode)
  obtain packed where m: "pack_target (length (vm_compiled_handlers v)) False = Some packed" "flat_ok (vm_compiled_offset_for_block v1)"
    "FlatMap_get k (vm_compiled_offset_for_block v1) =
      (if k = word_of_nat (p_offset p) then Some packed else FlatMap_get k (vm_compiled_offset_for_block v))"
    using compile_step_map [OF step Cons.prems(2)] by metis
  define pre where "pre = (if vm_step_tracing v then [H_control H_step] else [])"
  have pre: "length pre = after" "block_body tr pre" using Cons.prems(6) by (simp_all add: pre_def after_def block_body_def)
  note one = compile_step_handlers [OF step Cons.prems(3), folded pre_def]
  obtain code where v1: "vm_compiled_handlers v1 = vm_compiled_handlers v @ pre @ code"
    and code: "block_body tr code" "ends_block (kind p) \<longrightarrow> code \<noteq> []"
    using one(1) Cons.prems(6) unfolding if_not_P [OF Cons.prems(4)] append_Nil append_assoc by blast
  obtain code1 where c1: "vm_compiled_handlers v' = vm_compiled_handlers v1 @ code1" "block_body tr code1"
    "after < length (pre @ code @ code1)" "FlatMap_get k (vm_compiled_offset_for_block v') = FlatMap_get k (vm_compiled_offset_for_block v1) \<or>
      points k (length (vm_compiled_handlers v1)) after v'"
  proof (cases "ends_block (kind p)")
    case True
    then have "v' = v1" "0 < length code" using rest code(2) by auto
    then show ?thesis using that [of "[]"] pre by simp
  next
    case False
    then have "compile_items False ps False b1 v1 = Some (b', v')" "list_ex ends_block (map kind ps)" using rest Cons.prems(5) by simp_all
    from Cons.IH [OF this(1) m(2) _ one(2) this(2)] show ?thesis using Cons.prems(3,6) one(3,4) that by fastforce
  qed
  have "length (vm_compiled_handlers v) + after < length (vm_compiled_handlers v')" using v1 c1(1,3) by simp
  then have "FlatMap_get k (vm_compiled_offset_for_block v') = FlatMap_get k (vm_compiled_offset_for_block v) \<or>
      points k (length (vm_compiled_handlers v)) after v'"
    using c1(4) m(1,3) pointsI [of k v' packed "length (vm_compiled_handlers v)" after]
      points_mono [of k "length (vm_compiled_handlers v1)" after v' "length (vm_compiled_handlers v)"] v1 by (auto split: if_splits)
  then show ?case using v1 pre code(1) c1(1-3) by (intro exI [of _ "pre @ code @ code1"]) auto
qed simp

lemma find_charge_gas_last:
  "i \<le> n \<Longrightarrow> hs ! i = H_control H_charge_gas \<Longrightarrow> \<forall>j. i < j \<and> j \<le> n \<longrightarrow> hs ! j \<noteq> H_control H_charge_gas \<Longrightarrow>
    find_charge_gas n hs = i"
  by (induction n) (auto simp: le_Suc_eq)

lemma no_charge_after:
  assumes "hs = xs @ H_control H_charge_gas # ys" "H_control H_charge_gas \<notin> set ys"
  shows "hs ! length xs = H_control H_charge_gas" "length xs < j \<Longrightarrow> j < length hs \<Longrightarrow> hs ! j \<noteq> H_control H_charge_gas"
proof -
  show "hs ! length xs = H_control H_charge_gas" using assms(1) by simp
  assume j: "length xs < j" "j < length hs"
  then have "hs ! j = ys ! (j - length xs - 1)" "j - length xs - 1 < length ys" using assms(1) by (auto simp: nth_append nth_Cons')
  then show "hs ! j \<noteq> H_control H_charge_gas" using assms(2) nth_mem by metis
qed

lemma items_entered:
  assumes "compile_items False ps valid b v = Some (b', v')" "flat_ok (vm_compiled_offset_for_block v)"
    "m_gas_metering (vm_module v) \<noteq> None" "bs_charge_gas_index b = None" "list_ex ends_block (map kind ps)"
    "word_of_nat (p_offset (hd ps)) \<noteq> k" "FlatMap_get k (vm_compiled_offset_for_block v) = None"
  defines "tr \<equiv> if vm_step_tracing v then 1 else 0"
  shows "\<exists>xs ys. vm_compiled_handlers v' = xs @ H_control H_charge_gas # ys \<and> block_body (vm_step_tracing v) ys \<and>
    length xs = length (vm_compiled_handlers v) + tr \<and>
    (FlatMap_get k (vm_compiled_offset_for_block v') = None \<or> points k (length xs + 1) tr v')"
proof -
  obtain p qs where ps: "ps = p # qs" using assms(5) by (cases ps) auto
  obtain b1 v1 where step: "compile_step False p valid b v = Some (b1, v1)"
    and rest: "(if ends_block (kind p) then Some (b1, v1) else compile_items False qs False b1 v1) = Some (b', v')"
    using assms(1) ps by (cases "compile_step False p valid b v") (auto simp: ends_block_opcode)
  have m: "FlatMap_get k (vm_compiled_offset_for_block v1) = None" "flat_ok (vm_compiled_offset_for_block v1)"
    using compile_step_map [OF step assms(2)] assms(6,7) ps by (metis list.sel(1))+
  define xs where "xs = vm_compiled_handlers v @ (if vm_step_tracing v then [H_control H_step] else [])"
  note one = compile_step_handlers [OF step assms(3), folded xs_def]
  obtain code where v1: "vm_compiled_handlers v1 = xs @ H_control H_charge_gas # code" and code: "block_body (vm_step_tracing v) code"
    using one(1) unfolding if_P [OF assms(4)] append_Cons append_Nil by blast
  have xs: "length xs = length (vm_compiled_handlers v) + tr" by (simp add: xs_def tr_def)
  show ?thesis
  proof (cases "ends_block (kind p)")
    case True
    then show ?thesis using rest v1 code xs m(1) by auto
  next
    case False
    then have "compile_items False qs False b1 v1 = Some (b', v')" "list_ex ends_block (map kind qs)" using rest assms(5) ps by simp_all
    from rest_of_block [OF this(1) m(2) _ one(2) this(2) one(3), of k] assms(3) one(4)
    obtain code1 where "vm_compiled_handlers v' = vm_compiled_handlers v1 @ code1" "block_body (vm_step_tracing v) code1"
      "FlatMap_get k (vm_compiled_offset_for_block v') = None \<or> points k (length (vm_compiled_handlers v1)) tr v'"
      unfolding m(1) tr_def by auto
    moreover have "length xs + 1 \<le> length (vm_compiled_handlers v1)" using v1 by simp
    ultimately show ?thesis using v1 code xs points_mono
      by (intro exI [of _ xs] exI [of _ "code @ code1"]) auto
  qed
qed

section \<open>Entering a block\<close>

lemma extract_points:
  assumes "vm_compiled_handlers v = xs @ H_control H_charge_gas # ys" "block_body tr ys" "points pc (length xs + 1) (if tr then 1 else 0) v"
    "length (vm_compiled_args v) = length (vm_compiled_handlers v)" "length (vm_compiled_handlers v) < 2 ^ 31"
    "m_gas_metering (vm_module v) \<noteq> None" "\<not> m_is_per_instruction_metering (vm_module v)" "vm_charge_gas_on_entry v"
  shows "\<exists>packed target. FlatMap_get pc (vm_compiled_offset_for_block v) = Some packed \<and>
    extract_target_and_gas packed v = Some (target, ucast (a1 (vm_compiled_args v ! length xs)))"
proof -
  define hs where "hs = vm_compiled_handlers v"
  obtain n packed where n: "FlatMap_get pc (vm_compiled_offset_for_block v) = Some packed" "pack_target n False = Some packed"
    "length xs + 1 \<le> n" "n + (if tr then 1 else 0) < length hs"
    using assms(3) by (auto simp: points_def hs_def)
  then have small: "n < 2 ^ 31 - 1" using assms(5) by (simp add: hs_def)
  then have u: "unpack_target packed = (False, word_of_nat n)" using pack_unpack [of n False] n(2) by (metis option.inject)
  have un: "unat (word_of_nat n :: u32) = n" using small by (simp add: unat_of_nat)
  have "H_control H_charge_gas \<notin> set ys" using assms(2) by (simp add: block_body_def)
  note charge = no_charge_after [OF assms(1) this, folded hs_def]
  have step: "hs ! n = H_control H_step \<Longrightarrow> n + 1 < length hs"
    using nth_mem [of "n - length xs - 1" ys] n(3,4) assms(1,2) by (auto simp: hs_def block_body_def nth_append nth_Cons' split: if_splits)
  have found: "find_charge_gas n hs = length xs" using n(3,4) charge by (intro find_charge_gas_last) auto
  have "hs ! (n + 1) \<noteq> H_control H_charge_gas" if "hs ! n = H_control H_step" using charge(2) [of "n + 1"] n(3) step [OF that] by simp
  moreover have "n < length hs" "length xs < length (vm_compiled_args v)" using n(3,4) assms(4) by (auto simp: hs_def)
  ultimately show ?thesis
    using n(1) u un found charge(1) step assms(6-8) by (auto simp: extract_target_and_gas_def Let_def hs_def [symmetric])
qed

lemma find_start_le:
  assumes "program_ok md" "pc < module_code_len md" "module_find_start_of_basic_block md pc = Some start"
  shows "start \<le> pc"
proof -
  define isa code bm where "isa = isa_of (pb_isa (m_blob md))" and "code = pb_code (m_blob md)" and "bm = pb_bitmask (m_blob md)"
  obtain b where b: "find_start_of_basic_block isa code bm (unat pc) = Some b" "start = word_of_nat b"
    using assms(3) by (auto simp: module_find_start_of_basic_block_def isa_def code_def bm_def)
  then have "b \<le> unat pc"
    using find_start_loop_spec [of bm "unat pc" isa code b]
    by (auto simp: find_start_of_basic_block_def get_bit_for_offset_eq split: if_splits)
  then show ?thesis
    using b(2) le_less_trans [of b "unat pc" "2 ^ 32"] unsigned_less [of pc] by (simp add: word_le_nat_alt unat_of_nat)
qed

text \<open>What \<open>compile_block\<close> leaves at the start of a block for a program counter in the middle of it.\<close>

lemma block_entered:
  assumes "program_ok (vm_module v)" "start < module_code_len (vm_module v)" "room (6 * length (pb_code (m_blob (vm_module v)))) v"
    "m_gas_metering (vm_module v) \<noteq> None" "\<not> m_is_per_instruction_metering (vm_module v)" "vm_max_compiled_handlers v = None"
    "FlatMap_get pc (vm_compiled_offset_for_block v) = None" "start \<noteq> pc"
  obtains v' xs ys where "compile_block start v = Some (Some (word_of_nat (length (vm_compiled_handlers v))), v')"
    "vm_module v' = vm_module v" "length (vm_compiled_args v') = length (vm_compiled_handlers v')" "length (vm_compiled_handlers v') < 2 ^ 31"
    "vm_compiled_handlers v' = xs @ H_control H_charge_gas # ys" "block_body (vm_step_tracing v) ys"
    "vm_compiled_args v' ! length xs =
      args2 start (block_cost (m_cost_model (vm_module v)) (map kind (block_items (vm_module v) start)))"
    "FlatMap_get pc (vm_compiled_offset_for_block v') = None \<or> points pc (length xs + 1) (if vm_step_tracing v then 1 else 0) v'"
proof -
  define i where "i = length (vm_compiled_handlers v) + (if vm_step_tracing v then 1 else 0)"
  define cost where "cost = block_cost (m_cost_model (vm_module v)) (map kind (block_items (vm_module v) start))"
  have per: "m_is_per_instruction_metering (vm_module v) = False" using assms(5) by simp
  have m: "metered False v" using assms(4) by (simp add: metered_def)
  obtain v' where v': "compile_block start v = Some (Some (word_of_nat (length (vm_compiled_handlers v))), v')"
    "vm_module v' = vm_module v" "length (vm_compiled_args v') = length (vm_compiled_handlers v')" "length (vm_compiled_handlers v') < 2 ^ 31"
    and items: "\<exists>b v1. compile_items False (block_items (vm_module v) start) (module_is_jump_target_valid (vm_module v) start)
        \<lparr>bs_gas_visitor = GasVisitor_new (m_cost_model (vm_module v)), bs_charge_gas_index = None\<rparr> v = Some (b, v1) \<and>
      vm_compiled_offset_for_block v' = vm_compiled_offset_for_block v1 \<and>
      (vm_max_compiled_handlers v = None \<longrightarrow> vm_compiled_handlers v' = vm_compiled_handlers v1)"
    and args: "metered False v \<and> vm_max_compiled_handlers v = None \<longrightarrow> vm_compiled_handlers v' ! i = H_control H_charge_gas \<and>
      vm_compiled_args v' ! i = args2 start cost"
    by (rule compile_block_result [OF assms(1-3), folded i_def cost_def, unfolded per])
  obtain b v1 where v1: "compile_items False (block_items (vm_module v) start) (module_is_jump_target_valid (vm_module v) start)
        \<lparr>bs_gas_visitor = GasVisitor_new (m_cost_model (vm_module v)), bs_charge_gas_index = None\<rparr> v = Some (b, v1)"
    "vm_compiled_offset_for_block v' = vm_compiled_offset_for_block v1" "vm_compiled_handlers v' = vm_compiled_handlers v1"
    using items assms(6) by blast
  have ends: "list_ex ends_block (map kind (block_items (vm_module v) start))" by (rule block_items_ok(2) [OF assms(1,2)])
  then obtain p ps where ps: "block_items (vm_module v) start = p # ps" by (cases "block_items (vm_module v) start") auto
  have "word_of_nat (p_offset (hd (block_items (vm_module v) start))) \<noteq> pc"
    using block_items_hd(1) [OF assms(1,2) ps] ps assms(8) by simp
  from items_entered [OF v1(1) _ assms(4) _ ends this assms(7)] assms(3)
  obtain xs ys where "vm_compiled_handlers v1 = xs @ H_control H_charge_gas # ys" "block_body (vm_step_tracing v) ys"
    "length xs = i" "FlatMap_get pc (vm_compiled_offset_for_block v1) = None \<or> points pc (length xs + 1) (if vm_step_tracing v then 1 else 0) v1"
    by (auto simp: room_def i_def)
  with that [OF v'(1-4), of xs ys] v1(2,3) args m assms(6) show thesis by (simp add: cost_def points_def)
qed

section \<open>Properties\<close>

text \<open>C9: Starting a run in the middle of a block charges for the whole block: if the program is metered by blocks and the cache has no
  limit, \<open>resolve_arbitrary_jump\<close> never panics on a position that was not compiled yet, inside a block whose start is a valid jump target, and when it finds the position, the gas to
  charge is the cost that \<open>calculate_gas_cost_for\<close> gives for the block the position is in.\<close>
theorem entry_gas_charged:
  assumes "program_ok (vm_module v)" "pc < module_code_len (vm_module v)" "room (6 * length (pb_code (m_blob (vm_module v)))) v"
    "m_gas_metering (vm_module v) \<noteq> None" "\<not> m_is_per_instruction_metering (vm_module v)" "vm_max_compiled_handlers v = None"
    "vm_charge_gas_on_entry v" "FlatMap_get pc (vm_compiled_offset_for_block v) = None"
    "module_find_start_of_basic_block (vm_module v) pc = Some start" "start \<noteq> pc" "module_is_jump_target_valid (vm_module v) start"
  shows "\<exists>r v'. resolve_arbitrary_jump pc v = Some (r, v') \<and>
    (\<forall>target gas. r = Some (target, gas) \<longrightarrow> calculate_gas_cost_for (vm_module v) start = Some (Some gas))"
proof -
  have start: "start < module_code_len (vm_module v)" using find_start_le [OF assms(1,2,9)] assms(2) by (rule le_less_trans)
  obtain v' xs ys where v': "compile_block start v = Some (Some (word_of_nat (length (vm_compiled_handlers v))), v')"
    "vm_module v' = vm_module v" "length (vm_compiled_args v') = length (vm_compiled_handlers v')" "length (vm_compiled_handlers v') < 2 ^ 31"
    "vm_compiled_handlers v' = xs @ H_control H_charge_gas # ys" "block_body (vm_step_tracing v) ys"
    "vm_compiled_args v' ! length xs =
      args2 start (block_cost (m_cost_model (vm_module v)) (map kind (block_items (vm_module v) start)))"
    "FlatMap_get pc (vm_compiled_offset_for_block v') = None \<or> points pc (length xs + 1) (if vm_step_tracing v then 1 else 0) v'"
    by (rule block_entered [OF assms(1) start assms(3-6,8,10)])
  have entry: "m_gas_metering (vm_module v') \<noteq> None" "\<not> m_is_per_instruction_metering (vm_module v')" "vm_charge_gas_on_entry v'"
    using arg_cong [OF compile_block_machine [OF v'(1)], of vm_charge_gas_on_entry] assms(4,5,7) v'(2) by (simp_all add: machine_def)
  note found = extract_points [OF v'(5,6) _ v'(3,4) entry, where pc = pc]
  note cost = block_cost_reported [OF assms(1) start assms(11)]
  show ?thesis
  proof (cases "FlatMap_get pc (vm_compiled_offset_for_block v')")
    case None
    then show ?thesis using v'(1) assms(8,9) by (simp add: resolve_arbitrary_jump_def)
  next
    case (Some packed)
    then obtain target where "extract_target_and_gas packed v' = Some (target, ucast (a1 (vm_compiled_args v' ! length xs)))"
      using found v'(8) by auto
    then show ?thesis using Some v'(1,7) assms(8-10) cost by (simp add: resolve_arbitrary_jump_def)
  qed
qed

text \<open>C17: Resetting the cache of an interrupted instance makes it stuck: if the interrupt left the next program counter unchanged, as a step, a
  page fault or a lack of gas with synchronous metering does, then after \<open>reset_interpreter_cache\<close> every run returns the old interrupt
  at once and changes nothing, also with more gas.\<close>
theorem reset_cache_stuck:
  assumes "\<not> vm_next_program_counter_changed v"
  shows "run (reset_interpreter_cache (set_gas gas v)) = Some (vm_interrupt v, reset_interpreter_cache (set_gas gas v))"
proof -
  define u where "u = reset_interpreter_cache (set_gas gas v)"
  have u: "\<not> vm_next_program_counter_changed u" "vm_next_compiled_offset u = 0" "vm_compiled_handlers u = []" "vm_interrupt u = vm_interrupt v"
    using assms by (simp_all add: u_def reset_interpreter_cache_def set_gas_def)
  then have "run_enter u = Some (Inr 0, u)" by (simp add: run_enter_def)
  moreover have "run_loop 0 u = Some (vm_interrupt u, u)" by (subst run_loop.simps) (simp add: fetch_def u)
  ultimately have "run u = Some (vm_interrupt v, u)" using u by (simp add: run_def run_impl_def)
  then show ?thesis by (simp add: u_def)
qed

end
