(* ===== verification/Interp_Gas.thy ===== *)
theory Interp_Gas
  imports Interp_Reach
begin

text \<open>
  What a run pays: with synchronous metering, gas never goes below zero and never grows, whatever handlers run, whether the charge is the one of
  a block, of an instruction, of a byte that \<open>memset\<close> writes, or of an entry in the middle of a block.
\<close>

section \<open>Paying\<close>

text \<open>A step that leaves gas that is not negative not negative, and does not add to it.\<close>

definition pays :: "InterpretedInstance \<Rightarrow> InterpretedInstance \<Rightarrow> bool" where
  "pays v v' \<longleftrightarrow> vm_module v' = vm_module v \<and>
    (0 \<le> sint (vm_gas v) \<longrightarrow> 0 \<le> sint (vm_gas v') \<and> sint (vm_gas v') \<le> sint (vm_gas v))"

lemma pays_refl [simp]: "pays v v"
  by (simp add: pays_def)

lemma pays_trans [trans]: "pays u v \<Longrightarrow> pays v w \<Longrightarrow> pays u w"
  by (auto simp: pays_def)

lemma pays_plain: "plain v v' \<Longrightarrow> pays v v'"
  by (simp add: pays_def plain_def cache_of_def)

lemma pays_machine: "machine v' = machine v \<Longrightarrow> pays v v'"
  using machine_fields(1,3) [of v' v] by (simp add: pays_def)

lemma sint_charge:
  fixes g c :: u64
  assumes "0 \<le> sint g" "0 \<le> sint c"
  shows "sint (g - c) = sint g - sint c"
proof -
  have "- (2 ^ 63) \<le> sint g - sint c" "sint g - sint c < 2 ^ 63"
    using assms sint_lt [of g] sint_lt [of c] by simp_all
  then show ?thesis by (simp add: sint_word_ariths signed_take_bit_int_eq_self)
qed

lemma sint_cost: "0 \<le> sint (ucast c :: u64)" for c :: u32
proof -
  have "uint (ucast c :: u64) = uint c" using uint_lt2p [of c] by (simp add: unsigned_ucast_eq take_bit_int_eq_self)
  then have "sint (ucast c :: u64) = signed_take_bit 63 (uint c)" by (simp only: sint_uint) simp
  also have "\<dots> = uint c"
  proof (rule signed_take_bit_int_eq_self)
    show "- (2 ^ 63) \<le> uint c" by (rule order_trans [of _ 0]) simp_all
    show "uint c < 2 ^ 63" using uint_lt2p [of c] by simp
  qed
  finally show ?thesis by simp
qed

section \<open>Handlers\<close>

lemma not_enough_gas_pays:
  "not_enough_gas_impl co pc g v = Some (r, v') \<Longrightarrow> m_gas_metering (vm_module v) \<noteq> Some Async \<Longrightarrow> pays v v'"
  by (auto simp: not_enough_gas_impl_def trigger_interrupt_def pays_def split: option.splits GasMeteringKind.splits)

lemma charge_gas_pays:
  assumes "run_charge_gas co pc c v = Some (r, v')" "m_gas_metering (vm_module v) \<noteq> Some Async"
  shows "pays v v'"
proof (cases "sint (vm_gas v - ucast c) < 0")
  case True
  then show ?thesis using assms not_enough_gas_pays by (auto simp: run_charge_gas_def Let_def)
next
  case False
  then show ?thesis
    using assms(1) sint_charge [of "vm_gas v" "ucast c"] sint_cost [of c] by (auto simp: run_charge_gas_def Let_def pays_def)
qed

lemma memset_pays:
  "memset_loop n mk metered co pc x d v = Some (r, d', n', v') \<Longrightarrow> m_gas_metering (vm_module v) \<noteq> Some Async \<Longrightarrow> pays v v'"
proof (induction n arbitrary: d v)
  case (Suc n)
  show ?case
  proof (cases "metered \<and> vm_gas v = 0")
    case True
    then show ?thesis using Suc.prems not_enough_gas_pays [of co pc 0 v] by auto
  next
    case False
    then obtain r1 v1 where store: "vm_store mk S_u8 co pc (RI_Imm x) None d v = Some (r1, v1)"
      using Suc.prems by (cases "vm_store mk S_u8 co pc (RI_Imm x) None d v") auto
    have one: "vm_gas v1 = vm_gas v" "vm_module v1 = vm_module v" using vm_store_effect [OF store] by (simp_all add: plain_def cache_of_def)
    define v2 where "v2 = (if metered then v1\<lparr>vm_gas := vm_gas v1 - 1\<rparr> else v1)"
    have rest: "(if r1 \<noteq> go_to_next_instruction co then Some (r1, d, Suc n, v1)
        else memset_loop n mk metered co pc x (d + 1) v2) = Some (r, d', n', v')"
      using Suc.prems False store unfolding memset_loop.simps Let_def v2_def by (simp split del: if_split)
    have "sint (vm_gas v) \<noteq> 0" if metered using False that by (metis signed_eq_0_iff)
    then have "pays v v2" using one sint_charge [of "vm_gas v" 1] by (auto simp: v2_def pays_def)
    moreover have "pays v v1" using one by (simp add: pays_def)
    ultimately show ?thesis using rest Suc.IH [of "d + 1" v2] Suc.prems(2) by (auto simp: pays_def split: if_splits)
  qed
qed simp

lemma resolve_pays:
  "compile_block pc v = Some (r, v') \<Longrightarrow> vm_module v' = vm_module v \<and> vm_gas v' = vm_gas v"
  "resolve_jump pc v = Some (r, v') \<Longrightarrow> vm_module v' = vm_module v \<and> vm_gas v' = vm_gas v"
  "resolve_fallthrough pc v = Some (r, v') \<Longrightarrow> vm_module v' = vm_module v \<and> vm_gas v' = vm_gas v"
  "resolve_arbitrary_jump pc v = Some (r2, v') \<Longrightarrow> vm_module v' = vm_module v \<and> vm_gas v' = vm_gas v"
  using compile_block_machine resolve_machine machine_fields(1,3) by blast+

lemma put_handler_pays: "put_handler i h a v = Some v' \<Longrightarrow> vm_module v' = vm_module v \<and> vm_gas v' = vm_gas v"
  using machine_put machine_fields(1,3) by blast

lemmas interrupt_defs = trigger_interrupt_def trap_impl_def Option.bind_eq_Some_conv

lemma jump_indirect_pays: "jump_indirect_impl pc target v = Some (r, v') \<Longrightarrow> pays v v'"
  by (auto simp: jump_indirect_impl_def interrupt_defs pays_def dest!: resolve_pays split: if_splits option.splits)

lemma unresolved_pays:
  "run_unresolved_jump co pc target v = Some (r, v') \<Longrightarrow> pays v v'"
  "run_unresolved_fallthrough co pc target v = Some (r, v') \<Longrightarrow> pays v v'"
  "run_unresolved_load_imm_and_jump co pc ra x target v = Some (r, v') \<Longrightarrow> pays (set_i32 ra x v) v'"
  subgoal by (auto simp: run_unresolved_jump_def interrupt_defs pays_def dest!: resolve_pays put_handler_pays split: if_splits option.splits)
  subgoal by (auto simp: run_unresolved_fallthrough_def interrupt_defs pays_def dest!: resolve_pays put_handler_pays split: if_splits option.splits)
  subgoal by (auto simp: run_unresolved_load_imm_and_jump_def interrupt_defs pays_def dest!: resolve_pays put_handler_pays
        split: if_splits option.splits)
  done

lemma reset_cache_pays: "run_reset_cache pc v = Some (r, v') \<Longrightarrow> pays v v'"
proof -
  have "vm_module (reset_interpreter_cache v) = vm_module v" "vm_gas (reset_interpreter_cache v) = vm_gas v"
    by (simp_all add: reset_interpreter_cache_def)
  then show "run_reset_cache pc v = Some (r, v') \<Longrightarrow> pays v v'"
    by (auto simp: run_reset_cache_def trigger_interrupt_def pays_def dest!: resolve_pays(1) split: option.splits)
qed

lemma run_control_pays:
  assumes "run_control k co a v = Some (r, v')" "m_gas_metering (vm_module v) \<noteq> Some Async"
  shows "pays v v'"
proof -
  note run = assms(1) [unfolded run_control_def on_reg_def Option.bind_eq_Some_conv]
  have set: "pays v (set_i32 d x v)" "pays v (set_u64 d y v)" for d x y by (simp_all add: pays_plain)
  show ?thesis
  proof (cases k)
    case H_step
    then show ?thesis using run by (auto simp: run_step_def trigger_interrupt_def pays_def)
  next
    case H_trap
    then show ?thesis using run pays_plain [OF plain_trap(1) [of v "a0 a"]] by (simp add: run_trap_def)
  next
    case H_invalid_branch_trap
    then show ?thesis using run pays_plain [OF plain_trap(1) [of v "a0 a"]] by (simp add: run_invalid_branch_trap_def)
  next
    case H_sbrk
    then show ?thesis using run by (auto simp: Option.bind_eq_Some_conv dest!: sbrk_effect intro: pays_plain)
  next
    case H_jump_indirect
    then show ?thesis using run by (auto simp: Option.bind_eq_Some_conv run_jump_indirect_def intro: jump_indirect_pays)
  next
    case H_load_imm_and_jump_indirect
    then show ?thesis
      using run by (auto simp: Option.bind_eq_Some_conv run_load_imm_and_jump_indirect_def Let_def dest!: jump_indirect_pays intro: pays_trans set)
  next
    case H_unresolved_load_imm_and_jump
    then show ?thesis using run by (auto simp: Option.bind_eq_Some_conv dest!: unresolved_pays(3) intro: pays_trans set)
  qed (use run assms(2) in \<open>auto simp: Option.bind_eq_Some_conv run_fallthrough_def run_jump_def run_load_imm_def run_load_imm64_def
      run_load_imm_and_jump_def Let_def
      dest!: ecalli_effect intro: pays_plain charge_gas_pays reset_cache_pays unresolved_pays\<close>)
qed

lemma run_handler_pays:
  assumes "run_handler h co a v = Some (r, v')" "m_gas_metering (vm_module v) \<noteq> Some Async"
  shows "pays v v'"
proof -
  note run = assms(1) [unfolded run_handler_def on_reg_def Option.bind_eq_Some_conv]
  show ?thesis
  proof (cases h)
    case (H_control k)
    then show ?thesis using run run_control_pays assms(2) by simp
  next
    case (H_memset mk)
    then obtain d n w where "memset_loop (unat (get_u32 (RI_Reg A2) v)) mk (m_gas_metering (vm_module v) \<noteq> None) co (a0 a)
        (get_i32 (RI_Reg A1) v) (ucast (get_u64 (RI_Reg A0) v)) v = Some (r, d, n, w)" "vm_module v' = vm_module w" "vm_gas v' = vm_gas w"
      using run by (auto simp: run_memset_def Let_def set_u64_def set_i64_def)
    then show ?thesis using memset_pays assms(2) by (auto simp: pays_def)
  next
    case (H_reg_reg_reg wide op)
    then obtain d s1 s2 where "run_reg_reg_reg wide op co d s1 s2 v = (r, v')" using run by (auto simp: Option.bind_eq_Some_conv)
    then show ?thesis using pays_plain [OF plain_alu(1) [of v wide op co d s1 s2]] by simp
  next
    case (H_reg_reg_imm op)
    then obtain d s1 f where f: "run_reg_reg_imm op = Some f" "f co d s1 (a2 a) v = (r, v')"
      using run by (auto simp: Option.bind_eq_Some_conv)
    then show ?thesis using pays_plain [OF plain_alu(2) [OF f(1), of v co d s1 "a2 a"]] by simp
  next
    case (H_reg_reg wide op)
    then obtain d s1 f where f: "run_reg_reg wide op = Some f" "f co d s1 v = (r, v')" using run by (auto simp: Option.bind_eq_Some_conv)
    then show ?thesis using pays_plain [OF plain_alu(3) [OF f(1), of v co d s1]] by simp
  next
    case (H_branch op)
    then show ?thesis using run by (cases op) (auto simp: run_branch_def branch_i_def branch_u_def Let_def Option.bind_eq_Some_conv)
  next
    case (H_branch_imm op)
    then show ?thesis using run by (cases op) (auto simp: run_branch_imm_def branch_i_def branch_u_def Let_def Option.bind_eq_Some_conv)
  qed (use run in \<open>auto simp: Option.bind_eq_Some_conv run_store_imm_def run_store_imm_indirect_def run_store_indirect_def run_store_def
      run_load_def run_load_indirect_def dest!: vm_store_effect vm_load_effect unresolved_branch_machine intro: pays_plain pays_machine\<close>)
qed

section \<open>Runs\<close>

lemma resolve_arbitrary_cost: "resolve_arbitrary_jump pc v = Some (Some (target, cost), v') \<Longrightarrow> 0 \<le> sint cost"
  using sint_cost
  by (auto simp: resolve_arbitrary_jump_def extract_target_and_gas_def Option.bind_eq_Some_conv Let_def split: option.splits if_splits prod.splits)

lemma run_enter_pays:
  assumes "run_enter v = Some (r, v')"
  shows "pays v v'"
proof (cases "vm_next_program_counter_changed v")
  case True
  obtain pc where pc: "vm_next_program_counter v = Some pc"
    using assms True by (cases "vm_next_program_counter v") (auto simp: run_enter_def)
  obtain r1 w where w: "resolve_arbitrary_jump pc v = Some (r1, w)"
    using assms True pc by (cases "resolve_arbitrary_jump pc v") (auto simp: run_enter_def)
  note same = resolve_pays(4) [OF w]
  show ?thesis
  proof (cases r1)
    case None
    then show ?thesis using assms True pc w same by (auto simp: run_enter_def pays_def)
  next
    case (Some tc)
    then obtain target cost where tc: "r1 = Some (target, cost)" by (cases tc) simp
    have cost: "0 \<le> sint cost" using resolve_arbitrary_cost w tc by simp
    show ?thesis
      using assms True pc w tc same cost sint_charge [of "vm_gas v" cost] by (auto simp: run_enter_def pays_def split: if_splits)
  qed
qed (use assms in \<open>simp add: run_enter_def\<close>)

lemma run_loop_pays: "run_loop offset v = Some (interrupt, v') \<Longrightarrow> m_gas_metering (vm_module v) \<noteq> Some Async \<Longrightarrow> pays v v'"
proof (induction offset v "(interrupt, v')" rule: run_loop.raw_induct [rotated, consumes 1, case_names step])
  case (step loop offset v)
  show ?case
  proof (cases "fetch offset v")
    case None
    then show ?thesis using step.hyps by simp
  next
    case (Some ha)
    then obtain h a offset' w where h: "run_handler h offset a v = Some (offset', w)" "loop offset' w = Some (interrupt, v')"
      using step.hyps by (cases ha) (auto simp: Option.bind_eq_Some_conv)
    have one: "pays v w" by (rule run_handler_pays [OF h(1) step.prems])
    then have "m_gas_metering (vm_module w) \<noteq> Some Async" using step.prems by (simp add: pays_def)
    with step.hyps(1) [OF h(2)] one show ?thesis by (blast intro: pays_trans)
  qed
qed

section \<open>Properties\<close>

text \<open>C8: A run spends only gas that is there: with synchronous metering, an instance that starts a run with gas that is not negative ends it
  with gas that is not negative and not more than before, whatever the program does and however the run ends.\<close>
theorem run_gas_bounds:
  assumes "run v = Some (interrupt, v')" "m_gas_metering (vm_module v) = Some Sync" "0 \<le> sint (vm_gas v)"
  shows "0 \<le> sint (vm_gas v') \<and> sint (vm_gas v') \<le> sint (vm_gas v)"
proof -
  obtain r w where w: "run_enter v = Some (r, w)" "(case r of Inl i \<Rightarrow> Some (i, w) | Inr o1 \<Rightarrow> run_loop o1 w) = Some (interrupt, v')"
    using assms(1) by (auto simp: run_def run_impl_def Option.bind_eq_Some_conv)
  have enter: "pays v w" by (rule run_enter_pays [OF w(1)])
  then have "m_gas_metering (vm_module w) \<noteq> Some Async" using assms(2) by (simp add: pays_def)
  then have "pays w v'" using w(2) run_loop_pays by (cases r) auto
  with enter have "pays v v'" by (rule pays_trans)
  then show ?thesis using assms(3) by (simp add: pays_def)
qed

end
