(* ===== verification/Interp_Example.thy ===== *)
theory Interp_Example
  imports Interp_Entry Interp_Gas
begin

text \<open>
  A program of two blocks, compiled and run step by step. Its runs are the concrete cases of the properties of reachable states and of
  entering a block, and they show what a limit of the cache does to the gas that is charged on entry.
\<close>

section \<open>The instructions\<close>

lemma two_blocks_next:
  "next_start [0x93] 1 = Some 1" "next_start [0x93] (Suc (Suc 0)) = Some 4" "next_start [0x93] 5 = Some 7" "next_start [0x93] 8 = None"
  by (simp_all add: next_start_def upt_rec bit_at_def)

lemma two_blocks_arms: "matching_arm ISA_Latest32 0 = Some (O_argless trap)" "matching_arm ISA_Latest32 51 = Some (O_reg_imm load_imm)"
  unfolding latest32.matching_arm_iff by (simp_all add: ISA_Latest32_def Latest32_argless_def Latest32_reg_imm_def)

lemma two_blocks_instructions:
  defines "at \<equiv> instruction_at ISA_Latest32 two_blocks_code [0x93]"
  shows "at 0 = I_argless trap" "\<exists>r w. at 1 = I_reg_imm load_imm r w" "\<exists>r w. at 4 = I_reg_imm load_imm r w" "at 7 = I_argless trap"
  by (simp_all add: at_def instruction_at_def two_blocks_bytes [simplified] parse_instruction_def two_blocks_arms case_prod_beta)

lemma two_blocks_walk:
  "skip_at two_blocks_code [0x93] 0 = 0" "skip_at two_blocks_code [0x93] 1 = 2" "skip_at two_blocks_code [0x93] 4 = 2"
  "skip_at two_blocks_code [0x93] 7 = 0"
  "\<not> invalid_after ISA_Latest32 two_blocks_code [0x93] 0" "\<not> invalid_after ISA_Latest32 two_blocks_code [0x93] 1"
  "\<not> invalid_after ISA_Latest32 two_blocks_code [0x93] 4" "\<not> invalid_after ISA_Latest32 two_blocks_code [0x93] 7"
  using two_blocks_next
  by (simp_all add: skip_at_def invalid_after_def two_blocks_bytes [simplified] skip_to_next_def BITMASK_MAX_def next_is_invalid_def
      slow_anomaly_def opcode_or_trap_def two_blocks_opcodes can_fallthrough_def)

lemma two_blocks_offsets: "filter (bit_at [0x93]) [0..<8] = [0, 1, 4, 7]" "filter (bit_at [0x93]) [1..<8] = [1, 4, 7]"
  by (simp_all add: upt_rec bit_at_def)

lemma two_blocks_items:
  obtains r1 w1 r2 w2 where
    "block_items two_blocks 1 = [\<lparr>kind = I_reg_imm load_imm r1 w1, p_offset = 1, next_offset = 4\<rparr>,
      \<lparr>kind = I_reg_imm load_imm r2 w2, p_offset = 4, next_offset = 7\<rparr>, \<lparr>kind = I_argless trap, p_offset = 7, next_offset = 8\<rparr>]"
    "block_items two_blocks 0 = \<lparr>kind = I_argless trap, p_offset = 0, next_offset = 1\<rparr> # block_items two_blocks 1"
proof -
  obtain r1 w1 r2 w2 where i: "instruction_at ISA_Latest32 two_blocks_code [0x93] 1 = I_reg_imm load_imm r1 w1"
    "instruction_at ISA_Latest32 two_blocks_code [0x93] 4 = I_reg_imm load_imm r2 w2" using two_blocks_instructions by blast
  note facts = i two_blocks_walk two_blocks_instructions(1,4) two_blocks_offsets
  have "block_items two_blocks 1 = [\<lparr>kind = I_reg_imm load_imm r1 w1, p_offset = 1, next_offset = 4\<rparr>,
      \<lparr>kind = I_reg_imm load_imm r2 w2, p_offset = 4, next_offset = 7\<rparr>, \<lparr>kind = I_argless trap, p_offset = 7, next_offset = 8\<rparr>]"
    using facts by (simp add: block_items_def two_blocks_parts two_blocks_bytes two_blocks_bits [simplified] items_from_def items_at_def Let_def)
  moreover have "block_items two_blocks 0 = \<lparr>kind = I_argless trap, p_offset = 0, next_offset = 1\<rparr> # block_items two_blocks 1"
    using facts by (simp add: block_items_def two_blocks_parts two_blocks_bytes two_blocks_bits [simplified] items_from_def items_at_def Let_def)
  ultimately show thesis using that by blast
qed

section \<open>Compiling it\<close>

lemma two_blocks_loop:
  assumes "pc < 8"
  obtains it where "module_instructions_bounded_at two_blocks pc = Some it"
    "\<And>per valid b v. compile_loop per it valid b v = compile_items per (block_items two_blocks pc) valid b v"
  using module_items [OF two_blocks_ok(1), of pc] assms two_blocks_ok(2) compile_loop_items by metis

lemma list_eval:
  "replicate 9 x = [x, x, x, x, x, x, x, x, x]" "replicate 8 x = [x, x, x, x, x, x, x, x]"
  "(x # xs)[numeral n := y] = x # xs[pred_numeral n := y]"
  by (simp_all add: eval_nat_numeral numeral_eq_Suc)

lemmas gas_eval = GasVisitor_visit_eq take_block_cost_def GasVisitor_new_def ends_block_def start_new_basic_block_def instruction_cost_def
  CostModel_naive_def gas_trap_def add_cost_def
lemmas compile_eval = compile_step_def pack_target_def emit_step_def emit_charge_gas_def FlatMap_insert_def FlatMap_new_def allocate_capacity_def
  push_handlers_def compile_argless_def compile_reg_imm_def two_blocks_parts

definition map_of_targets :: "u32 option list \<Rightarrow> u32 FlatMap" where
  "map_of_targets ts = \<lparr>fm_inner = ts, fm_capacity = 9, fm_desired_capacity = 9\<rparr>"

lemma compile_first:
  assumes "vm_module v = two_blocks" "vm_compiled_handlers v = []" "vm_compiled_args v = []" "\<not> vm_step_tracing v"
    "vm_compiled_offset_for_block v = FlatMap_new True 9" "vm_max_compiled_handlers v \<in> {None, Some 4}"
  shows "compile_block 0 v = Some (Some 0, v\<lparr>vm_compiled_offset_for_block := map_of_targets (Some 0x80000001 # replicate 8 None),
     vm_compiled_handlers := [H_control H_charge_gas, H_control H_trap], vm_compiled_args := [args2 0 1, args1 0]\<rparr>)"
proof -
  obtain it where it: "module_instructions_bounded_at two_blocks 0 = Some it"
    "\<And>per valid b v. compile_loop per it valid b v = compile_items per (block_items two_blocks 0) valid b v"
    using two_blocks_loop [of 0] by auto
  obtain rest where items: "block_items two_blocks 0 = \<lparr>kind = I_argless trap, p_offset = 0, next_offset = 1\<rparr> # rest"
    using two_blocks_items by metis
  have "compile_items False (block_items two_blocks 0) True \<lparr>bs_gas_visitor = GasVisitor_new CostModel_naive, bs_charge_gas_index = None\<rparr> v =
    Some (\<lparr>bs_gas_visitor = \<lparr>gv_cost_model = CostModel_naive, gv_cost = 0, gv_last_block_cost = Some 1\<rparr>, bs_charge_gas_index = Some (0, 0)\<rparr>,
      v\<lparr>vm_compiled_offset_for_block := map_of_targets (Some 0x80000001 # replicate 8 None),
        vm_compiled_handlers := [H_control H_charge_gas, H_control H_trap], vm_compiled_args := [args2 0 0, args1 0]\<rparr>)"
    using assms by (simp add: items compile_eval gas_eval map_of_targets_def list_eval)
  then show ?thesis
    using assms it(1)
    by (auto simp: compile_block_def two_blocks_ok two_blocks_parts compile_block_impl_def it(2) two_blocks_targets limit_cache_def
        set_block_cost_def take_block_cost_def)
qed

lemma compile_second:
  assumes "vm_module v = two_blocks" "vm_compiled_handlers v = [H_control H_charge_gas, H_control H_trap]" 
    "vm_compiled_args v = [args2 0 1, args1 0]" "\<not> vm_step_tracing v"
    "vm_compiled_offset_for_block v = map_of_targets (Some 0x80000001 # replicate 8 None)" "vm_max_compiled_handlers v = Some 4"
  obtains r1 w1 r2 w2 where "compile_block 1 v = Some (Some 2, v\<lparr>vm_compiled_offset_for_block := map_of_targets
        [Some 0x80000001, Some 0x80000003, None, None, Some 5, None, None, Some 6, None],
     vm_compiled_handlers := [H_control H_charge_gas, H_control H_trap, H_control H_reset_cache, H_control H_load_imm, H_control H_load_imm,
       H_control H_trap], vm_compiled_args := [args2 0 1, args1 0, args2 1 3, args2 (raw_reg r1) w1, args2 (raw_reg r2) w2, args1 7]\<rparr>)"
proof -
  obtain it where it: "module_instructions_bounded_at two_blocks 1 = Some it"
    "\<And>per valid b v. compile_loop per it valid b v = compile_items per (block_items two_blocks 1) valid b v"
    using two_blocks_loop [of 1] by auto
  obtain r1 w1 r2 w2 where items: 
    "block_items two_blocks 1 = [\<lparr>kind = I_reg_imm load_imm r1 w1, p_offset = 1, next_offset = 4\<rparr>,
      \<lparr>kind = I_reg_imm load_imm r2 w2, p_offset = 4, next_offset = 7\<rparr>, \<lparr>kind = I_argless trap, p_offset = 7, next_offset = 8\<rparr>]"
    using two_blocks_items by metis
  have "compile_items False (block_items two_blocks 1) True \<lparr>bs_gas_visitor = GasVisitor_new CostModel_naive, bs_charge_gas_index = None\<rparr> v =
    Some (\<lparr>bs_gas_visitor = \<lparr>gv_cost_model = CostModel_naive, gv_cost = 0, gv_last_block_cost = Some 3\<rparr>, bs_charge_gas_index = Some (1, 2)\<rparr>,
      v\<lparr>vm_compiled_offset_for_block := map_of_targets [Some 0x80000001, Some 0x80000003, None, None, Some 5, None, None, Some 6, None],
        vm_compiled_handlers := [H_control H_charge_gas, H_control H_trap, H_control H_charge_gas, H_control H_load_imm, H_control H_load_imm,
       H_control H_trap], vm_compiled_args := [args2 0 1, args1 0, args2 1 0, args2 (raw_reg r1) w1, args2 (raw_reg r2) w2, args1 7]\<rparr>)"
    using assms by (simp add: items compile_eval gas_eval map_of_targets_def list_eval)
  then have "compile_block 1 v = Some (Some 2, v\<lparr>vm_compiled_offset_for_block := map_of_targets
        [Some 0x80000001, Some 0x80000003, None, None, Some 5, None, None, Some 6, None],
     vm_compiled_handlers := [H_control H_charge_gas, H_control H_trap, H_control H_reset_cache, H_control H_load_imm, H_control H_load_imm,
       H_control H_trap], vm_compiled_args := [args2 0 1, args1 0, args2 1 3, args2 (raw_reg r1) w1, args2 (raw_reg r2) w2, args1 7]\<rparr>)"
    using assms it(1)
    by (simp add: compile_block_def two_blocks_ok two_blocks_parts compile_block_impl_def it(2) two_blocks_targets limit_cache_def
        set_block_cost_def take_block_cost_def put_handler_def list_eval word_le_nat_alt)
  then show thesis by (rule that)
qed

section \<open>Entering it\<close>

lemma two_blocks_start: "module_find_start_of_basic_block two_blocks 0 = Some 0" "module_find_start_of_basic_block two_blocks 4 = Some 1"
proof -
  have prev: "prev_start [0x93] 1 = Some 0" "prev_start [0x93] 4 = Some 1" by (simp_all add: prev_start_def two_blocks_bits upt_rec bit_at_def)
  have none: "\<not> bit_at [0x93] i" if "1 < i" "i < 4" for i using that two_blocks_bits by (cases "i = 2") (auto simp: eval_nat_numeral le_less_Suc_eq)
  have start: "block_start ISA_Latest32 two_blocks_code [0x93] 1" "near [0x93] 1" "\<not> block_start ISA_Latest32 two_blocks_code [0x93] 4" "near [0x93] 4"
    using prev two_blocks_bytes two_blocks_opcodes by (simp_all add: block_start_def near_def opcode_or_trap_def previous_skip_limit_def BITMASK_MAX_def)
  have "find_start_loop ISA_Latest32 two_blocks_code [0x93] 4 = Some 1 \<longleftrightarrow>
    1 \<le> (4::nat) \<and> bit_at [0x93] 1 \<and> block_start ISA_Latest32 two_blocks_code [0x93] 1 \<and> near [0x93] 1 \<and>
    (\<forall>i. 1 < i \<and> i \<le> 4 \<and> bit_at [0x93] i \<longrightarrow> \<not> block_start ISA_Latest32 two_blocks_code [0x93] i \<and> near [0x93] i)"
    by (rule find_start_loop_spec) (simp_all add: two_blocks_bits)
  moreover have "\<not> block_start ISA_Latest32 two_blocks_code [0x93] i \<and> near [0x93] i" if "1 < i" "i \<le> 4" "bit_at [0x93] i" for i
    using none [of i] that start by (cases "i = 4") auto
  ultimately have "find_start_loop ISA_Latest32 two_blocks_code [0x93] 4 = Some 1" using start two_blocks_bits by simp
  then show "module_find_start_of_basic_block two_blocks 4 = Some 1"
    by (simp add: module_find_start_of_basic_block_def two_blocks_parts find_start_of_basic_block_def get_bit_for_offset_eq two_blocks_bits two_blocks_bytes)
  show "module_find_start_of_basic_block two_blocks 0 = Some 0"
    by (simp add: module_find_start_of_basic_block_def two_blocks_parts find_start_of_basic_block_def get_bit_for_offset_eq two_blocks_bits)
qed


definition limited_vm :: InterpretedInstance where
  "limited_vm = snd (set_interpreter_cache_size_limit (Some \<lparr>max_block_size = 3, max_cache_size_bytes = 192\<rparr>) (set_gas 100 two_blocks_vm))"

lemma limited_fields:
  "vm_module limited_vm = two_blocks" "vm_compiled_handlers limited_vm = []" "vm_compiled_args limited_vm = []"
  "vm_compiled_offset_for_block limited_vm = FlatMap_new True 9"
  "vm_step_tracing limited_vm = False" "vm_max_compiled_handlers limited_vm = Some 4" "vm_gas limited_vm = 100"
  by (simp_all add: limited_vm_def set_interpreter_cache_size_limit_def set_gas_def two_blocks_fields two_blocks_ok
     interpreter_calculate_cache_num_entries_def INTERPRETER_CACHE_ENTRY_SIZE_def)

lemmas run_eval = run_handler_def run_control_def run_charge_gas_def run_trap_def run_load_imm_def trap_impl_def trigger_interrupt_def
  go_to_next_instruction_def on_reg_def transmute_reg_def args1_def args2_def set_i32_def

lemma loop_eval:
  "fetch offset v = None \<Longrightarrow> run_loop offset v = Some (vm_interrupt v, v)"
  "fetch offset v = Some (h, Some a) \<Longrightarrow> run_handler h offset a v = Some (offset', v') \<Longrightarrow> run_loop offset v = run_loop offset' v'"
  by (simp_all add: run_loop.simps)

definition entered_first :: "InterpretedInstance \<Rightarrow> InterpretedInstance" where
  "entered_first v = v\<lparr>vm_compiled_offset_for_block := map_of_targets (Some 0x80000001 # replicate 8 None),
     vm_compiled_handlers := [H_control H_charge_gas, H_control H_trap], vm_compiled_args := [args2 0 1, args1 0],
     vm_next_compiled_offset := 0, vm_program_counter := 0, vm_next_program_counter := None, vm_next_program_counter_changed := False,
     vm_charge_gas_on_entry := False\<rparr>"

lemma enter_first:
  assumes "vm_module v = two_blocks" "vm_compiled_handlers v = []" "vm_compiled_args v = []" "\<not> vm_step_tracing v"
    "vm_compiled_offset_for_block v = FlatMap_new True 9" "vm_max_compiled_handlers v \<in> {None, Some 4}" "0 \<le> sint (vm_gas v)"
  shows "run_enter (set_next_program_counter 0 v) = Some (Inr 0, entered_first v\<lparr>vm_program_counter_valid := False\<rparr>)"
proof -
  define u where "u = set_next_program_counter 0 v"
  define w where "w = u\<lparr>vm_compiled_offset_for_block := map_of_targets (Some 0x80000001 # replicate 8 None),
     vm_compiled_handlers := [H_control H_charge_gas, H_control H_trap], vm_compiled_args := [args2 0 1, args1 0]\<rparr>"
  have u: "vm_module u = two_blocks" "vm_compiled_handlers u = []" "vm_compiled_args u = []" "\<not> vm_step_tracing u"
    "vm_compiled_offset_for_block u = FlatMap_new True 9" "vm_max_compiled_handlers u \<in> {None, Some 4}"
    using assms by (simp_all add: u_def set_next_program_counter_def)
  have "compile_block 0 u = Some (Some 0, w)" unfolding w_def by (rule compile_first [OF u])
  then have "resolve_arbitrary_jump 0 u = Some (Some (0, 0), w)"
    by (simp add: resolve_arbitrary_jump_def u two_blocks_start FlatMap_get_def FlatMap_new_def w_def map_of_targets_def unpack_target_def Let_def)
  then show ?thesis
    using assms(7) by (simp add: run_enter_def u_def w_def set_next_program_counter_def entered_first_def)
qed

lemma first_run:
  obtains v' where "run (set_next_program_counter 0 limited_vm) = Some (ITrap, v')" "vm_module v' = two_blocks" "vm_gas v' = 99"
    "vm_compiled_handlers v' = [H_control H_charge_gas, H_control H_trap]" "vm_compiled_args v' = [args2 0 1, args1 0]" "\<not> vm_step_tracing v'"
    "vm_compiled_offset_for_block v' = map_of_targets (Some 0x80000001 # replicate 8 None)" "vm_max_compiled_handlers v' = Some 4"
proof -
  define u where "u = entered_first limited_vm\<lparr>vm_program_counter_valid := False\<rparr>"
  have enter: "run_enter (set_next_program_counter 0 limited_vm) = Some (Inr 0, u)"
    unfolding u_def by (rule enter_first) (simp_all add: limited_fields)
  have u: "vm_compiled_handlers u = [H_control H_charge_gas, H_control H_trap]" "vm_compiled_args u = [args2 0 1, args1 0]" "vm_gas u = 100"
    by (simp_all add: u_def entered_first_def limited_fields)
  have "run_loop 0 u = run_loop 1 (u\<lparr>vm_gas := 99\<rparr>)"
    by (rule loop_eval(2) [where h = "H_control H_charge_gas" and a = "args2 0 1"]) (simp_all add: fetch_def u run_eval)
  also have "\<dots> = run_loop Target_MAX (snd (trap_impl 0 (u\<lparr>vm_gas := 99\<rparr>)))"
    by (rule loop_eval(2) [where h = "H_control H_trap" and a = "args1 0"]) (simp_all add: fetch_def u run_eval)
  also have "\<dots> = Some (ITrap, snd (trap_impl 0 (u\<lparr>vm_gas := 99\<rparr>)))"
    by (subst loop_eval(1)) (simp_all add: fetch_def u run_eval Target_MAX_def)
  finally have "run (set_next_program_counter 0 limited_vm) = Some (ITrap, snd (trap_impl 0 (u\<lparr>vm_gas := 99\<rparr>)))"
    using enter by (simp add: run_def run_impl_def)
  then show thesis by (rule that) (simp_all add: run_eval u_def entered_first_def limited_fields)
qed

lemma enter_second:
  assumes "vm_module v = two_blocks" "vm_compiled_handlers v = [H_control H_charge_gas, H_control H_trap]"
    "vm_compiled_args v = [args2 0 1, args1 0]" "\<not> vm_step_tracing v"
    "vm_compiled_offset_for_block v = map_of_targets (Some 0x80000001 # replicate 8 None)" "vm_max_compiled_handlers v = Some 4"
    "vm_gas v = 99"
  obtains u r x where "run_enter (set_next_program_counter 4 v) = Some (Inr 4, u)" "vm_gas u = 98"
    "fetch 4 u = Some (H_control H_load_imm, Some (args2 (raw_reg r) x))" "fetch 5 u = Some (H_control H_trap, Some (args1 7))"
    "length (vm_compiled_handlers u) = 6"
proof -
  define v1 where "v1 = set_next_program_counter 4 v"
  have v1: "vm_module v1 = two_blocks" "vm_compiled_handlers v1 = [H_control H_charge_gas, H_control H_trap]"
    "vm_compiled_args v1 = [args2 0 1, args1 0]" "\<not> vm_step_tracing v1"
    "vm_compiled_offset_for_block v1 = map_of_targets (Some 0x80000001 # replicate 8 None)" "vm_max_compiled_handlers v1 = Some 4"
    "vm_next_program_counter_changed v1" "vm_next_program_counter v1 = Some 4" "vm_gas v1 = 99" "vm_charge_gas_on_entry v1"
    using assms by (simp_all add: v1_def set_next_program_counter_def)
  obtain r1 x1 r2 x2 where c: "compile_block 1 v1 = Some (Some 2, v1\<lparr>vm_compiled_offset_for_block := map_of_targets
        [Some 0x80000001, Some 0x80000003, None, None, Some 5, None, None, Some 6, None],
     vm_compiled_handlers := [H_control H_charge_gas, H_control H_trap, H_control H_reset_cache, H_control H_load_imm, H_control H_load_imm,
       H_control H_trap], vm_compiled_args := [args2 0 1, args1 0, args2 1 3, args2 (raw_reg r1) x1, args2 (raw_reg r2) x2, args1 7]\<rparr>)"
    (is "_ = Some (_, ?w)") by (rule compile_second [OF v1(1-6)])
  define w where "w = ?w"
  have w: "vm_compiled_handlers w = [H_control H_charge_gas, H_control H_trap, H_control H_reset_cache, H_control H_load_imm,
      H_control H_load_imm, H_control H_trap]" "vm_compiled_args w = [args2 0 1, args1 0, args2 1 3, args2 (raw_reg r1) x1, args2 (raw_reg r2) x2, args1 7]"
    "vm_module w = two_blocks" "vm_charge_gas_on_entry w" "vm_gas w = 99" 
    "vm_compiled_offset_for_block w = map_of_targets [Some 0x80000001, Some 0x80000003, None, None, Some 5, None, None, Some 6, None]"
    by (simp_all add: w_def v1)
  note c = c [folded w_def]
  have found: "find_charge_gas 4 (vm_compiled_handlers w) = 0" by (simp add: w eval_nat_numeral)
  have five: "unpack_target 5 = (False, 4)" by (simp add: unpack_target_def Let_def)
  have "extract_target_and_gas 5 w = Some (4, 1)"
    using found five by (simp add: extract_target_and_gas_def Let_def w two_blocks_parts args2_def)
  then have "resolve_arbitrary_jump 4 v1 = Some (Some (4, 1), w)"
    using c by (simp add: resolve_arbitrary_jump_def v1 two_blocks_start FlatMap_get_def map_of_targets_def w(6))
  then have enter: "run_enter v1 = Some (Inr 4, w\<lparr>vm_gas := 98, vm_next_compiled_offset := 4, vm_program_counter := 4,
      vm_next_program_counter := None, vm_next_program_counter_changed := False, vm_charge_gas_on_entry := False\<rparr>)"
    by (simp add: run_enter_def v1 w)
  define u where "u = w\<lparr>vm_gas := 98, vm_next_compiled_offset := 4, vm_program_counter := 4,
      vm_next_program_counter := None, vm_next_program_counter_changed := False, vm_charge_gas_on_entry := False\<rparr>"
  show thesis using enter unfolding v1_def u_def [symmetric] by (rule that) (simp_all add: u_def fetch_def w)
qed

lemma second_run:
  assumes "run_enter v = Some (Inr 4, u)" "vm_gas u = 98" "fetch 4 u = Some (H_control H_load_imm, Some (args2 (raw_reg r) x))"
    "fetch 5 u = Some (H_control H_trap, Some (args1 7))" "length (vm_compiled_handlers u) = 6"
  shows "\<exists>v'. run v = Some (ITrap, v') \<and> vm_gas v' = 98"
proof -
  define u1 where "u1 = set_i32 (RawReg_get r) x u"
  have same: "fetch n u1 = fetch n u" "length (vm_compiled_handlers u1) = 6" for n
    using assms(5) by (simp_all add: u1_def fetch_def set_i32_def)
  have "run_loop 4 u = run_loop 5 u1"
    by (rule loop_eval(2) [OF assms(3)]) (simp add: run_eval u1_def)
  also have "\<dots> = run_loop Target_MAX (snd (trap_impl 7 u1))"
    by (rule loop_eval(2) [where h = "H_control H_trap" and a = "args1 7"]) (simp_all add: same assms(4) run_eval)
  also have "\<dots> = Some (ITrap, snd (trap_impl 7 u1))"
    using same(2) by (subst loop_eval(1)) (simp_all add: fetch_def run_eval Target_MAX_def)
  finally have "run v = Some (ITrap, snd (trap_impl 7 u1))" using assms(1) by (simp add: run_def run_impl_def)
  then show ?thesis using assms(2) by (simp add: run_eval u1_def)
qed

section \<open>Properties\<close>

text \<open>C18: With a limit of the cache, starting in the middle of a block charges the wrong amount: the limit admits blocks of three instructions,
  the first run compiles the first block and pays its cost of 1, and the second run starts in the middle of the second block, whose cost is 3, and pays
  1 again. The cache exceeds its limit, so \<open>reset_cache\<close> replaces the \<open>charge_gas\<close> handler of the second block, and the search for it
  finds the one of the first block.\<close>
theorem limited_entry_undercharged:
  "\<exists>v1 v2. run (set_next_program_counter 0 limited_vm) = Some (ITrap, v1) \<and> vm_gas limited_vm - vm_gas v1 = 1 \<and>
    run (set_next_program_counter 4 v1) = Some (ITrap, v2) \<and> vm_gas v1 - vm_gas v2 = 1 \<and>
    module_find_start_of_basic_block two_blocks 4 = Some 1 \<and> calculate_gas_cost_for two_blocks 1 = Some (Some 3)"
proof -
  obtain v1 where v1: "run (set_next_program_counter 0 limited_vm) = Some (ITrap, v1)" "vm_module v1 = two_blocks" "vm_gas v1 = 99"
    "vm_compiled_handlers v1 = [H_control H_charge_gas, H_control H_trap]" "vm_compiled_args v1 = [args2 0 1, args1 0]" "\<not> vm_step_tracing v1"
    "vm_compiled_offset_for_block v1 = map_of_targets (Some 0x80000001 # replicate 8 None)" "vm_max_compiled_handlers v1 = Some 4"
    by (rule first_run)
  obtain v2 where v2: "run (set_next_program_counter 4 v1) = Some (ITrap, v2)" "vm_gas v2 = 98"
  proof (rule enter_second [OF v1(2,4-8,3)])
    fix u r x assume "run_enter (set_next_program_counter 4 v1) = Some (Inr 4, u)" "vm_gas u = 98"
      "fetch 4 u = Some (H_control H_load_imm, Some (args2 (raw_reg r) x))" "fetch 5 u = Some (H_control H_trap, Some (args1 7))"
      "length (vm_compiled_handlers u) = 6"
    from second_run [OF this] show thesis using that by blast
  qed
  have "block_cost CostModel_naive (map kind (block_items two_blocks 1)) = 3"
    by (rule two_blocks_items) (simp add: ends_block_def instruction_cost_def CostModel_naive_def)
  then have "calculate_gas_cost_for two_blocks 1 = Some (Some 3)"
    using block_cost_reported [OF two_blocks_ok(1) _ two_blocks_targets(2)] two_blocks_ok(2) by (simp add: two_blocks_parts word_less_nat_alt)
  with v1(1,3) v2 show ?thesis by (simp add: limited_fields two_blocks_start)
qed

section \<open>Concrete cases\<close>

lemma two_blocks_idle:
  "vm_charge_gas_on_entry two_blocks_vm" "vm_gas two_blocks_vm = 0"
  by (simp_all add: two_blocks_vm_def new_from_module_def initialize_module_def vm_reset_memory_def memory_kind_def two_blocks_def demo_module_def)

theorem entry_gas_charged_witness:
  "\<exists>r v'. resolve_arbitrary_jump 4 two_blocks_vm = Some (r, v') \<and>
    (\<forall>target gas. r = Some (target, gas) \<longrightarrow> calculate_gas_cost_for two_blocks 1 = Some (Some gas))"
  using entry_gas_charged [of two_blocks_vm 4 1] two_blocks_ok two_blocks_targets two_blocks_start two_blocks_idle
  by (simp add: two_blocks_fields two_blocks_parts two_blocks_bytes FlatMap_get_def FlatMap_new_def word_less_nat_alt)

text \<open>A run without gas, and the same after a reset of the cache with enough gas.\<close>

lemma run_without_gas:
  obtains v' where "run (set_next_program_counter 0 two_blocks_vm) = Some (INotEnoughGas, v')" "\<not> vm_next_program_counter_changed v'"
    "vm_interrupt v' = INotEnoughGas"
proof -
  define u where "u = entered_first two_blocks_vm\<lparr>vm_program_counter_valid := False\<rparr>"
  have enter: "run_enter (set_next_program_counter 0 two_blocks_vm) = Some (Inr 0, u)"
    unfolding u_def by (rule enter_first) (simp_all add: two_blocks_fields two_blocks_idle two_blocks_ok)
  define v' where "v' = u\<lparr>vm_program_counter := 0, vm_program_counter_valid := True, vm_next_program_counter := Some 0,
    vm_next_program_counter_changed := False, vm_next_compiled_offset := 0, vm_interrupt := INotEnoughGas\<rparr>"
  have u: "vm_compiled_handlers u = [H_control H_charge_gas, H_control H_trap]" "vm_compiled_args u = [args2 0 1, args1 0]" "vm_gas u = 0"
    "vm_module u = two_blocks"
    by (simp_all add: u_def entered_first_def two_blocks_fields two_blocks_idle)
  have "run_loop 0 u = run_loop Target_MAX v'"
    by (rule loop_eval(2) [where h = "H_control H_charge_gas" and a = "args2 0 1"])
      (simp_all add: fetch_def u run_eval not_enough_gas_impl_def two_blocks_parts v'_def)
  also have "\<dots> = Some (INotEnoughGas, v')"
    by (subst loop_eval(1)) (simp_all add: fetch_def v'_def u Target_MAX_def)
  finally have "run (set_next_program_counter 0 two_blocks_vm) = Some (INotEnoughGas, v')"
    using enter by (simp add: run_def run_impl_def)
  then show thesis by (rule that) (simp_all add: v'_def)
qed

theorem reset_cache_stuck_witness:
  "\<exists>v'. run (set_next_program_counter 0 two_blocks_vm) = Some (INotEnoughGas, v') \<and>
    run (reset_interpreter_cache (set_gas 100 v')) = Some (INotEnoughGas, reset_interpreter_cache (set_gas 100 v'))"
  using run_without_gas reset_cache_stuck [of _ 100] by metis

text \<open>An operand byte of the code is the opcode of \<open>memset\<close>; no marked offset has it.\<close>

lemma two_blocks_32: "program_32 two_blocks"
proof -
  have "offset \<in> {0, 1, 4, 7}" if "bit_at [0x93] offset" "offset < 8" for offset
  proof -
    have "offset \<in> set (filter (bit_at [0x93]) [0..<8])" using that by simp
    then show ?thesis unfolding two_blocks_offsets(1) by simp
  qed
  then show ?thesis
    using two_blocks_instructions unfolding program_32_def two_blocks_parts two_blocks_bytes by (fastforce simp: u32_MAX_def)
qed

theorem reach_regs_32_witness:
  "vm_reach two_blocks Target_MAX (set_reg A0 0x80000000 two_blocks_vm) \<and> program_32 two_blocks \<and> regs_32 (set_reg A0 0x80000000 two_blocks_vm)"
  using reach_regs_32 vm_reach.host [OF vm_reach.new [OF two_blocks_new] host_op.set_reg] two_blocks_32 by blast

text \<open>The state in which the loop is about to run the second \<open>load_imm\<close>.\<close>

lemma second_reached:
  obtains u r x where "vm_reach two_blocks 4 u" "fetch 4 u = Some (H_control H_load_imm, Some (args2 (raw_reg r) x))"
proof -
  have "vm_reach two_blocks Target_MAX (set_next_program_counter 0 limited_vm)"
    unfolding limited_vm_def
    by (rule vm_reach.host [OF vm_reach.host [OF vm_reach.host [OF vm_reach.new [OF two_blocks_new] host_op.set_gas]
        host_op.set_cache_size_limit] host_op.set_next_program_counter])
  moreover obtain v1 where v1: "run (set_next_program_counter 0 limited_vm) = Some (ITrap, v1)" "vm_module v1 = two_blocks" "vm_gas v1 = 99"
    "vm_compiled_handlers v1 = [H_control H_charge_gas, H_control H_trap]" "vm_compiled_args v1 = [args2 0 1, args1 0]" "\<not> vm_step_tracing v1"
    "vm_compiled_offset_for_block v1 = map_of_targets (Some 0x80000001 # replicate 8 None)" "vm_max_compiled_handlers v1 = Some 4"
    by (rule first_run)
  ultimately obtain o1 where "vm_reach two_blocks o1 v1" using reach_run by blast
  then have reach: "vm_reach two_blocks Target_MAX (set_next_program_counter 4 v1)" by (rule vm_reach.host) (rule host_op.set_next_program_counter)
  show thesis by (rule enter_second [OF v1(2,4-8,3)]) (rule that [OF vm_reach.enter [OF reach]])
qed

theorem reach_args_decode_witness:
  "\<exists>u a. vm_reach two_blocks 4 u \<and> fetch 4 u = Some (H_control H_load_imm, Some a) \<and> args_decode (H_control H_load_imm) a"
proof (rule second_reached)
  fix u r x assume u: "vm_reach two_blocks 4 u" "fetch 4 u = Some (H_control H_load_imm, Some (args2 (raw_reg r) x))"
  then show ?thesis using reach_args_decode [OF u] by blast
qed

theorem run_gas_bounds_witness:
  "\<exists>v'. run (set_next_program_counter 0 limited_vm) = Some (ITrap, v') \<and> 0 \<le> sint (vm_gas v') \<and> sint (vm_gas v') \<le> sint (vm_gas limited_vm)"
proof (rule first_run)
  fix v' assume v': "run (set_next_program_counter 0 limited_vm) = Some (ITrap, v')"
  have "vm_module (set_next_program_counter 0 limited_vm) = two_blocks" "vm_gas (set_next_program_counter 0 limited_vm) = vm_gas limited_vm"
    by (simp_all add: set_next_program_counter_def limited_fields)
  then show ?thesis using run_gas_bounds [OF v'] v' by (simp add: two_blocks_parts limited_fields)
qed

end
