(* ===== verification/Spec2Isabelle.thy ===== *)
theory Spec2Isabelle
  imports Varint Operation Memory_Map Instr Bitmask Code_Walk Code_Settle Stack_Growth Interp_Example
begin

text \<open>
  A verification library for PolkaVM, a register virtual machine whose programs are compact
  bytecode blobs. Paths below are under \<open>src/crates/\<close>; \<open>program.rs\<close>, \<open>writer.rs\<close>, \<open>varint.rs\<close>, \<open>operation.rs\<close> and \<open>abi.rs\<close> are in
  \<open>polkavm-common/src/\<close>, \<open>interpreter.rs\<close>, \<open>gas.rs\<close> and \<open>api.rs\<close> in \<open>polkavm/src/\<close>.

  \<^bold>\<open>The program.\<close> A builder (\<open>writer.rs\<close>) or the ELF linker writes a program blob: a container of sections with code, a bitmask
  that marks where instructions start, a jump table, data, imports and exports, in which numbers are variable-length integers. The
  virtual machine parses the blob (\<open>program.rs\<close>), lays out the guest memory (\<open>abi.rs\<close>) and runs the code, here in the interpreter
  (\<open>interpreter.rs\<close>), which translates one basic block at a time into a cache of handlers with arguments and then dispatches on
  them, charges gas (\<open>gas.rs\<close>) and reaches the guest memory through one of two implementations.

  \<^bold>\<open>Conventions.\<close> Machine integers are words (\<open>u8\<close> to \<open>u128\<close>; \<open>i32\<close> and \<open>i64\<close> are words read with \<^const>\<open>sint\<close>), \<open>usize\<close> is a natural
  number, arithmetic wraps as in a release build. Code offsets are natural numbers in the walks over code. The iterator, whose
  constructor accepts code of up to \<open>u32::MAX\<close> bytes, reduces them modulo \<open>2 ^ 32\<close> where they can overflow (\<open>Instructions_next\<close>,
  \<open>find_next_offset_u32\<close>). The visitor, which only sees parsed code of at most \<open>VM_MAXIMUM_CODE_SIZE\<close> bytes, does not
  (\<open>find_next_offset_unbounded\<close>); \<open>find_next_offset_u32_eq\<close> is the agreement of the two searches where nothing overflows. A \<open>Result\<close> is a sum type with the error left. \<open>None\<close> of an operation that
  is no \<open>Option\<close> in the source is a panic or undefined behaviour, and for a \<open>partial_function\<close> also a run that does not end. A
  method on \<open>&mut self\<close> takes the record of its object and returns it updated. The constant parameter \<open>DEBUG\<close> is false.

  \<^bold>\<open>Numbers, bytes and operations.\<close>
  \<^item> \<open>Prelude\<close>: names of the integers, the bit counting of the standard library, little-endian bytes, writes into buffers.
  \<^item> \<open>Varint\<close> (\<open>varint.rs\<close>): both encodings; round trips, minimality, the number of bytes required.
  \<^item> \<open>Operation\<close> (\<open>operation.rs\<close>): division, remainder and the high halves of products, against their integer specifications.
  \<^item> \<open>Memory_Map\<close> (\<open>abi.rs\<close>): \<open>MemoryMapBuilder::build\<close>; when it succeeds, and the alignment, order and guard pages of its regions.

  \<^bold>\<open>Instructions\<close> (\<open>program.rs\<close>).
  \<^item> \<open>Isa\<close>, \<open>Isa_Tables\<close>: registers, opcodes by shape of their arguments, and the four instruction sets as tables. The locale
    \<open>instruction_set\<close> states what an instruction set is; each of the four tables is an interpretation of it.
  \<^item> \<open>Args\<close>: the argument decoders with their packed lookup tables, equal to decoders written without tables.
  \<^item> \<open>Instr\<close>: instructions, \<open>parse_instruction\<close> and \<open>serialize_into\<close>; decoding inverts encoding.
  \<^item> \<open>Bitmask\<close>: the searches for the next and the previous instruction; the fast one against the slow one, both against
    \<open>next_start\<close> and \<open>prev_start\<close>.
  \<^item> \<open>Code_Walk\<close>: the visitor loop, the iterator \<open>Instructions\<close>, jump targets and starts of basic blocks. A list of items,
    \<open>items_from\<close>, is the specification of every walk.

  \<^bold>\<open>Blobs\<close> (\<open>program.rs\<close>, \<open>writer.rs\<close>).
  \<^item> \<open>Reader\<close>: the cursor of the parser. The locales \<open>codec\<close> and \<open>codec_pair\<close> state that a reader inverts a writer;
    bytes, varints, sized bytes and export entries are interpretations.
  \<^item> \<open>Blob\<close>: \<open>ProgramParts::from_bytes\<close>, \<open>ProgramBlob::from_parts\<close> and the accessors; what parsing guarantees, lookups in the jump table.
  \<^item> \<open>Writer\<close>: \<open>ProgramBlobBuilder\<close> up to the code; written blobs parse back field by field.
  \<^item> \<open>Code_Writer\<close>, \<open>Code_Settle\<close>: \<open>serialize_code\<close> with the loop that adjusts targets until nothing moves. Its result decodes to the
    builder's instructions with resolved targets; the targets read back from the written code, exports and jump table are valid, apart from table entries
    that the entry size cuts off; the loop ends for programs without forward jumps.
  \<^item> This theory: a program built, written, parsed and walked is the program of the builder.

  \<^bold>\<open>The virtual machine\<close> (\<open>api.rs\<close>, \<open>gas.rs\<close>, \<open>interpreter.rs\<close>).
  \<^item> \<open>Gas\<close>: the simple cost model, its serialization, \<open>GasVisitor\<close> and \<open>calculate_for_block\<close>; \<open>VM_Module\<close>: the methods of \<open>Module\<close>.
  \<^item> \<open>Std_Memory\<close>, \<open>Memory_Spec\<close>, \<open>Guest_Memory\<close>, \<open>Memory_Life\<close>: \<open>StandardMemory\<close> with lazily resident regions, and \<open>peek\<close>, the map from
    addresses to bytes that it implements. The locale \<open>guest_memory\<close> is the contract of loads and stores; \<open>StandardMemory\<close> meets it.
    The access of the host, the heap and the reset act on the same map. \<open>Stack_Growth\<close>: a stack whose size is no power of
    two grows too far.
  \<^item> \<open>Dyn_Memory\<close>: \<open>DynamicMemory\<close>, pages with protection that the host fills on faults. \<open>Flat_Map\<close>: \<open>FlatMap\<close> of \<open>utils.rs\<close>.
  \<^item> \<open>Interp_State\<close>: \<open>InterpretedInstance\<close> as a record, access to registers and memory, interrupts. \<open>Interp_Alu\<close>: one definition for
    each arithmetic handler. \<open>Interp_Compile\<close>: \<open>Compiler\<close>, \<open>compile_block\<close> and the resolution of jumps. \<open>Interp_Run\<close>: the other handlers,
    \<open>run_impl\<close> and the methods that the host calls. A pair of a function pointer and its \<open>Args\<close> is a value of the datatype
    \<open>Handler\<close> with a record \<open>Args\<close>, and \<open>run_handler\<close> is the call through the pointer.
  \<^item> \<open>Interp_Width\<close>, \<open>Interp_Cache\<close>, \<open>Interp_Reach\<close>: the inductive relation \<open>vm_reach\<close> of the states an instance reaches by actions of the
    host, the start of a run and single dispatches; the end of every run is reachable. The locale \<open>entry_property\<close> turns a
    property of compiled handlers into an invariant of the cache. Its interpretations give that arguments decode to registers and that
    a 32-bit program with no \<open>memset\<close> among its instructions keeps its registers sign-extended.
  \<^item> \<open>Interp_Block\<close>, \<open>Interp_Entry\<close>, \<open>Interp_Gas\<close>: compiling a block is total and its gas is what the module reports; the same for a run that
    starts in the middle of a block; gas stays within bounds; a reset of the cache can make an instance stuck.
    \<open>Interp_Example\<close>: a program run step by step, the concrete cases, and the wrong charge under a limit of the cache.

  \<^bold>\<open>Bounds and loops.\<close> \<open>Instructions_collect\<close> and the iterator of exports take a number of items as fuel; \<open>2 * length code + 2\<close> is
  enough for code whose offsets fit into 32 bits (\<open>walk_fits\<close>), as an instruction is followed by at most one implicit trap, and this is
  proved. \<open>find_next_loop_u32\<close>, \<open>adjust_loop\<close>,
  \<open>BitVec_finish\<close>, \<open>each_page_loop\<close>, \<open>block_loop\<close>, \<open>compile_loop\<close> and \<open>run_loop\<close> are \<open>partial_function\<close>s, because the source bounds none of
  them by structure. \<open>compile_loop\<close> and \<open>block_loop\<close> are proved to end; \<open>find_next_loop_u32\<close> ends for a bitmask of less than
  \<open>2 ^ 29\<close> bytes; \<open>adjust_loop\<close> ends under the condition above and may
  not end otherwise; a guest program may run forever, so statements on \<open>run\<close> are about runs that end. A compiled block needs at
  most three handlers for an item, so \<open>room\<close> asks for six for each byte of code below \<open>2 ^ 31\<close>, the range of a packed target.

  \<^bold>\<open>Not modelled.\<close>
  \<^item> The recompiler, the machine code assembler and the sandboxes with their zygote, allocators, page sets and system calls: their meaning
    is that of a processor and an operating system.
  \<^item> The ELF linker, its RISC-V decoder and optimiser, and the DWARF reader, which rest on third-party formats and libraries; the
    builder is where their output enters.
  \<^item> The pipeline simulator of the full cost models (\<open>simulator.rs\<close>) and the choice of a cost model: blocks are costed with the simple
    models only.
  \<^item> Line programs and frames of the debug sections, the text assembler, the disassembler, hashing, guest macros, the
    embedding objects \<open>Engine\<close>, \<open>Linker\<close> and caches behind locks, logging, tools, tests and examples.
  \<^item> Of the interpreter, the dispatch by tail calls, which has the meaning of the loop, and the tracing of \<open>DEBUG\<close>.
\<close>

section \<open>Written programs\<close>

lemma invalid_after_layout:
  assumes lay: "layout isa es bm" and k: "k < length es" and "supports_opcode (isa_of isa) (opcode (si_instruction (es ! k)))"
  shows "Suc k < length es \<Longrightarrow> \<not> invalid_after (isa_of isa) (code_of es) bm (offset_of es k)"
    and "\<not> Suc k < length es \<Longrightarrow> invalid_after (isa_of isa) (code_of es) bm (offset_of es k) \<longleftrightarrow>
      can_fallthrough (opcode (si_instruction (es ! k)))"
proof -
  have ok: "list_all (entry_ok isa) es" using lay by (simp add: layout_def laid_out_def)
  have len: "length (code_of es) = offset_of es (length es)" by (rule length_code_of [OF ok])
  have entry: "1 \<le> entry_len (es ! k)" "entry_len (es ! k) \<le> 11"
    using ok k entry_ok_encoding(3,4) [of isa] by (simp_all add: list_all_length)
  note step = offset_of_Suc [OF k]
  note start = next_start_layout [OF lay k]
  show "\<not> invalid_after (isa_of isa) (code_of es) bm (offset_of es k)" if "Suc k < length es"
    using start that step entry offset_of_strict_mono [OF ok that] len
    by (auto simp: invalid_after_def next_is_invalid_def slow_anomaly_def BITMASK_MAX_def)
  assume last: "\<not> Suc k < length es"
  then have "Suc k = length es" using k by simp
  then have "offset_of es (Suc k) = length (code_of es)" using len by simp
  moreover have "opcode_or_trap (isa_of isa) (code_of es ! offset_of es k) = opcode (si_instruction (es ! k))"
    using first_byte_layout [OF lay k] instruction_set.matching_arm_raw_opcode [OF instruction_set_isa_of assms(3)]
    by (simp add: opcode_or_trap_def instruction_set.matching_arm_from_u8 [OF instruction_set_isa_of])
  ultimately show "invalid_after (isa_of isa) (code_of es) bm (offset_of es k) \<longleftrightarrow>
      can_fallthrough (opcode (si_instruction (es ! k)))"
    using start last step entry instruction_layout(1) [OF lay k]
    by (simp add: invalid_after_def next_is_invalid_def)
qed

lemma opcode_normalize: "normalize i = normalize j \<Longrightarrow> opcode i = opcode j"
proof -
  have "opcode (normalize i) = opcode i" for i by (cases i) simp_all
  then show "normalize i = normalize j \<Longrightarrow> opcode i = opcode j" by metis
qed

text \<open>The instructions of a program and the implicit trap after the last one.\<close>

definition with_trap :: "Instruction list \<Rightarrow> Instruction list" where
  "with_trap is = is @ (if can_fallthrough (opcode (last is)) then [invalid] else [])"

lemma walk_layout:
  assumes lay: "layout isa es bm" and enc: "list_all (\<lambda>e. encodable isa (si_instruction e)) es" and "k < length es"
  shows "map (normalize \<circ> kind) (walk_items (isa_of isa) (code_of es) bm False (map (offset_of es) [k..<length es])) =
    map normalize (with_trap (map si_instruction (drop k es)))"
  using assms(3)
proof (induction "length es - k" arbitrary: k)
  case (Suc n)
  have k: "k < length es" using Suc.prems .
  have e: "encodable isa (si_instruction (es ! k))" using enc k by (simp add: list_all_length)
  then have instr: "normalize (instruction_at (isa_of isa) (code_of es) bm (offset_of es k)) = normalize (si_instruction (es ! k))"
    using instruction_layout(2) [OF lay k] by (simp add: encodable_def)
  note op = opcode_normalize [OF instr]
  have inv: "Suc k < length es \<Longrightarrow> \<not> invalid_after (isa_of isa) (code_of es) bm (offset_of es k)"
    "\<not> Suc k < length es \<Longrightarrow> invalid_after (isa_of isa) (code_of es) bm (offset_of es k) \<longleftrightarrow>
      can_fallthrough (opcode (si_instruction (es ! k)))"
    using invalid_after_layout [OF lay k] e by (simp_all add: encodable_def)
  have upt: "[k..<length es] = k # [Suc k..<length es]" using k by (simp add: upt_conv_Cons)
  have dr: "drop k es = es ! k # drop (Suc k) es" using k by (simp add: Cons_nth_drop_Suc)
  show ?case
  proof (cases "Suc k < length es")
    case True
    then have "drop (Suc k) es \<noteq> []" by simp
    then show ?thesis
      using Suc.hyps(1) [of "Suc k"] Suc.hyps(2) True inv(1) instr
      by (simp add: upt dr items_at_def Let_def with_trap_def del: upt_Suc)
  next
    case False
    then show ?thesis
      using inv(2) instr op by (simp add: upt dr items_at_def Let_def with_trap_def del: upt_Suc)
  qed
qed simp


lemma check_bitmaskI:
  assumes "code_ok code bm" "\<And>i. bit_at bm i \<Longrightarrow> i < length code"
  shows "check_bitmask code bm = Inr ()"
proof -
  have pad_bits: "n = 8 * q + r \<Longrightarrow> (q + 1) * 8 - n = 8 - r" for n q r :: nat by simp
  have "last bm AND padding_mask (length bm * 8 - length code) = 0" if pad: "length code mod 8 \<noteq> 0"
  proof (rule bit_word_eqI)
    fix i assume "i < LENGTH(8)"
    then have i: "i < 8" by simp
    have split: "length code = 8 * (length code div 8) + length code mod 8" by simp
    have len: "length bm = length code div 8 + 1"
      using assms(1) pad unfolding code_ok_def div_ceil_8 [symmetric] by simp
    have k: "length bm * 8 - length code = 8 - length code mod 8" 
      using split pad_bits unfolding len by blast
    have "\<not> bit (last bm) i" if "length code mod 8 \<le> i"
    proof
      assume "bit (last bm) i"
      then have "bit_at bm (8 * (length code div 8) + i)"
        using i len last_conv_nth [of bm] by (cases "bm = []") (simp_all add: bit_at_def)
      then show False using assms(2) that split by fastforce
    qed
    then show "bit (last bm AND padding_mask (length bm * 8 - length code)) i = bit (0 :: u8) i"
      using i pad unfolding k by (auto simp: bit_and_iff bit_padding_mask)
  qed
  then show ?thesis using assms(1) by (simp add: check_bitmask_iff)
qed

lemma serialized_code_ok:
  assumes es: "entries_of b out es" and "length (w_jump_table b) \<le> unat VM_MAXIMUM_JUMP_TABLE_ENTRIES"
    and "length (sc_code out) \<le> unat VM_MAXIMUM_CODE_SIZE"
  shows "serialized_ok out"
proof -
  have lay: "layout (w_isa b) es (sc_bitmask out)" and code: "sc_code out = code_of es"
    using es by (simp_all add: entries_of_def)
  then have ok: "list_all (entry_ok (w_isa b)) es" by (simp add: layout_def laid_out_def)
  have "i < length (sc_code out)" if "bit_at (sc_bitmask out) i" for i
    using that lay offset_of_strict_mono [OF ok] by (auto simp: layout_def code length_code_of [OF ok])
  moreover have "code_ok (sc_code out) (sc_bitmask out)" using lay code by (simp add: layout_def)
  ultimately have "check_bitmask (sc_code out) (sc_bitmask out) = Inr ()" by (intro check_bitmaskI)
  moreover note tables = tables_written [OF es]
  moreover have count: "unat (sc_jump_table_entry_count out) = length (w_jump_table b)"
    using tables assms(2) unsigned_less [of VM_MAXIMUM_JUMP_TABLE_ENTRIES, where 'a = nat]
    by (simp add: unsigned_of_nat take_bit_nat_eq_self)
  moreover have "length (sc_jump_table out) = length (w_jump_table b) * unat (sc_jump_table_entry_size out)"
    using tables by (simp add: length_concat comp_def sum_list_triv)
  moreover have "sc_jump_table_entry_count out \<le> VM_MAXIMUM_JUMP_TABLE_ENTRIES"
    using count assms(2) by (simp add: word_le_nat_alt)
  moreover have "sc_jump_table_entry_size out \<le> 4" using tables by (simp add: word_le_nat_alt)
  ultimately show ?thesis using assms(3) by (simp add: serialized_ok_def)
qed

lemma written_items:
  assumes es: "entries_of b out es" and "list_all (encodable (w_isa b)) (w_code b)" "linked_instructions b \<noteq> []"
  shows "map (normalize \<circ> kind) (items_from (isa_of (w_isa b)) (sc_code out) (sc_bitmask out) False 0) =
      map normalize (with_trap (map (resolve b (instruction_offsets out)) (linked_instructions b)))"
    and "bit_at (sc_bitmask out) 0"
proof -
  have lay: "layout (w_isa b) es (sc_bitmask out)" and code: "sc_code out = code_of es"
    and len: "length es = length (linked_instructions b)" using es by (simp_all add: entries_of_def)
  have instrs: "map si_instruction es = map (resolve b (instruction_offsets out)) (linked_instructions b)"
    using resolve_entry(1) [OF es] len by (intro nth_equalityI) simp_all
  have enc: "list_all (\<lambda>e. encodable (w_isa b) (si_instruction e)) es"
    using linked_encodable [OF assms(2)] arg_cong [OF instrs, of "list_all (encodable (w_isa b))"]
    by (simp add: list.pred_map comp_def resolve_encodable)
  have "items_from (isa_of (w_isa b)) (sc_code out) (sc_bitmask out) False 0 =
      walk_items (isa_of (w_isa b)) (code_of es) (sc_bitmask out) False (map (offset_of es) [0..<length es])"
    using instruction_offsets_eq [OF es] by (simp add: items_from_def instruction_offsets_def code)
  then show "map (normalize \<circ> kind) (items_from (isa_of (w_isa b)) (sc_code out) (sc_bitmask out) False 0) =
      map normalize (with_trap (map (resolve b (instruction_offsets out)) (linked_instructions b)))"
    using walk_layout [OF lay enc, of 0] assms(3) len instrs by simp
  show "bit_at (sc_bitmask out) 0"
    using lay assms(3) len by (auto simp: layout_def intro!: exI [of _ 0])
qed

lemma Instructions_start:
  assumes "code_ok code bm" "walk_fits code bounded" "bit_at bm offset" "offset \<le> length code"
  shows "\<exists>it. Instructions_new isa code bm offset bounded = Some it \<and>
    Instructions_collect (2 * length code + 2) it = Some (items_from isa code bm bounded offset)"
proof -
  have "length (items_from isa code bm bounded offset) < 2 * length code + 2"
    using length_items_from [of isa code bm bounded offset] by simp
  then have "Instructions_collect (2 * length code + 2) (iterator isa code bm bounded offset None False) =
      Some (items_from isa code bm bounded offset)"
    using collect_items_from [OF assms(1,2)] assms(3) by blast
  moreover have "Instructions_new isa code bm offset bounded = Some (iterator isa code bm bounded offset None False)"
    using assms walk_fits_u32 [OF assms(2)] by (simp add: Instructions_new_def code_ok_def get_bit_for_offset_eq)
  ultimately show ?thesis by blast
qed

text \<open>C1: A program survives the trip through bytes. When \<open>to_vec\<close> writes a builder whose sizes are within the limits
  of the virtual machine, parsing the bytes succeeds, and the iterator over the instructions of the parsed program
  yields the dispatch table and the builder's instructions in order, with every basic block number replaced
  by the code offset at which the block starts, and after the last one an implicit trap if it can fall through.
  The exports that are read back are at the offsets of the instructions they were added for.\<close>
theorem program_roundtrip:
  assumes "to_vec b = Some (Inr bs)" "serialize_code b = Some (Inr out)" "length bs < 2 ^ 64"
    and "list_all (encodable (w_isa b)) (w_code b)" "w_code b \<noteq> []"
    and "length (w_jump_table b) \<le> unat VM_MAXIMUM_JUMP_TABLE_ENTRIES"
    and "length (sc_code out) \<le> unat VM_MAXIMUM_CODE_SIZE"
    and "length (w_imports b) \<le> 1024"
    and "w_custom b = debug_sections strings programs ranges hash @ unknown"
    and "list_all (\<lambda>c. 132 \<le> unat (fst c)) unknown"
    and "length (w_ro_data b) \<le> unat (w_ro_data_size b)" "length (w_rw_data b) \<le> unat (w_rw_data_size b)"
  shows "\<exists>p it items. parse bs = Inr p \<and>
    Instructions_new (isa_of (pb_isa p)) (pb_code p) (pb_bitmask p) 0 False = Some it \<and>
    Instructions_collect (2 * length (pb_code p) + 2) it = Some items \<and>
    map (normalize \<circ> kind) items =
      map normalize (with_trap (map (resolve b (instruction_offsets out)) (linked_instructions b))) \<and>
    exports_collect (length (w_exports b) + 1) (blob_exports p) = Some (map (\<lambda>(target, name).
      \<lparr>program_counter = word_of_nat (instruction_offsets out ! export_index b target), symbol = name\<rparr>) (w_exports b))"
proof -
  obtain es where es: "entries_of b out es" using serialize_code_entries [OF assms(2)] by blast
  have "to_vec_with b out = Some bs" using assms(1,2) by (auto simp: to_vec_def)
  then have fit: "lengths_fit b out" and bs: "bs = container b out"
    by (simp_all add: to_vec_with_eq split: if_splits)
  define p where "p = builder_blob b out strings programs ranges hash"
  have "linked_instructions b \<noteq> []" using assms(5) by (simp add: linked_instructions_def)
  note items = written_items [OF es assms(4) this]
  have ok: "serialized_ok out" by (rule serialized_code_ok [OF es assms(6,7)])
  then have parse: "parse bs = Inr p"
    unfolding bs p_def using fit assms(3,8-12) by (intro parse_container) (simp_all add: bs)
  have p: "pb_isa p = w_isa b" "pb_code p = sc_code out" "pb_bitmask p = sc_bitmask out"
    by (simp_all add: p_def builder_blob_def)
  have "code_ok (sc_code out) (sc_bitmask out)" "walk_fits (sc_code out) False"
    using ok assms(7)
    by (simp_all add: serialized_ok_def check_bitmask_iff walk_fits_def VM_MAXIMUM_CODE_SIZE_def)
  moreover have "0 < length (sc_code out)"
    using ok items(2) check_bitmask_marks by (auto simp: serialized_ok_def)
  ultimately have "\<exists>it. Instructions_new (isa_of (pb_isa p)) (pb_code p) (pb_bitmask p) 0 False = Some it \<and>
      Instructions_collect (2 * length (pb_code p) + 2) it =
        Some (items_from (isa_of (w_isa b)) (sc_code out) (sc_bitmask out) False 0)"
    using items(2) by (simp only: p Instructions_start le0)
  moreover have "length (sc_exports out) = length (w_exports b)"
    "map (\<lambda>(pc, name). \<lparr>program_counter = pc, symbol = name\<rparr>) (sc_exports out) = map (\<lambda>(target, name).
      \<lparr>program_counter = word_of_nat (instruction_offsets out ! export_index b target), symbol = name\<rparr>) (w_exports b)"
    using tables_written [OF es] by (simp_all add: case_prod_beta)
  ultimately show ?thesis
    using parse items(1) exports_written [OF fit, of strings programs ranges hash] by (auto simp: p_def)
qed

lemma offset_of_le: "list_all (entry_ok isa) es \<Longrightarrow> k \<le> length es \<Longrightarrow> offset_of es k \<le> 11 * k"
proof (induction k)
  case (Suc k)
  have "entry_len (es ! k) \<le> 11" using Suc.prems entry_ok_encoding(4) [of isa] by (simp add: list_all_length)
  then show ?case using Suc by (simp add: offset_of_Suc)
qed simp

lemma length_section_le:
  "length (section_bytes sec contents) \<le> length contents + 6"
  "length (optional_section present sec contents) \<le> length contents + 6"
  "length (varint v) \<le> 5"
  by (simp_all add: section_bytes_def optional_section_def sized_def length_varint varint_length_cases)

lemma loop_sizes:
  assumes "serialize_code loop_builder = Some (Inr out)"
  shows "length (sc_code out) \<le> 44" "length (sc_bitmask out) \<le> 6" "length (sc_jump_table out) \<le> 4"
    "\<exists>a b. sc_exports out = [(a, [97]), (b, [98])]"
proof -
  obtain es where es: "entries_of loop_builder out es" using serialize_code_entries [OF assms] by blast
  then have lay: "layout Latest64 es (sc_bitmask out)" "sc_code out = code_of es" and len: "length es = 4"
    by (simp_all add: entries_of_def loop_linked loop_fields)
  then have ok: "list_all (entry_ok Latest64) es" by (simp add: layout_def laid_out_def)
  show code: "length (sc_code out) \<le> 44"
    using offset_of_le [OF ok, of 4] length_code_of [OF ok] len by (simp add: lay(2))
  have "length (sc_bitmask out) = (length (sc_code out) + 7) div 8" using lay by (simp add: layout_def code_ok_def)
  then show "length (sc_bitmask out) \<le> 6" using code by simp
  note tables = tables_written [OF es]
  then show "length (sc_jump_table out) \<le> 4" by (simp add: loop_fields)
  show "\<exists>a b. sc_exports out = [(a, [97]), (b, [98])]" using tables by (simp add: loop_fields)
qed

lemma program_roundtrip_witness:
  "\<exists>bs p it items. to_vec loop_builder = Some (Inr bs) \<and> parse bs = Inr p \<and>
    Instructions_new (isa_of (pb_isa p)) (pb_code p) (pb_bitmask p) 0 False = Some it \<and>
    Instructions_collect (2 * length (pb_code p) + 2) it = Some items \<and> length items = 4"
proof -
  obtain out where out: "serialize_code loop_builder = Some (Inr out)" using loop_serialized by blast
  note sizes = loop_sizes [OF out]
  note varint = length_section_le(3)
  have payload: "length (code_payload out) \<le> 65"
    using sizes(1-3) varint [of "sc_jump_table_entry_count out"] varint [of "word_of_nat (length (sc_code out))"]
    by (simp add: code_payload_def)
  obtain x y where exports: "sc_exports out = [(x, [97]), (y, [98])]" using sizes(4) by blast
  have exports_len: "length (exports_payload (sc_exports out)) \<le> 15"
    using varint [of x] varint [of y]
    by (simp add: exports exports_payload_def enc_pair_def sized_def length_varint varint_length_cases)
  have fit: "lengths_fit loop_builder out"
    using payload exports_len exports by (auto simp: lengths_fit_def loop_fields fits_u32_def debug_sections_def)
  have bs: "to_vec loop_builder = Some (Inr (container loop_builder out))"
    using fit by (simp add: to_vec_def out to_vec_with_eq)
  have "length (memory_config_payload loop_builder) \<le> 15"
    using varint [of "w_ro_data_size loop_builder"] varint [of "w_rw_data_size loop_builder"]
      varint [of "w_stack_size loop_builder"] by (simp add: memory_config_payload_def)
  moreover have "custom_bytes (w_custom loop_builder) = section_bytes SECTION_OPT_METADATA_HASH [7]"
    by (simp add: loop_fields custom_bytes_def debug_sections_def section_bytes_def)
  ultimately have "length (sections loop_builder out) \<le> 200"
    using payload exports_len
      length_section_le(2) [of "has_memory_config loop_builder" SECTION_MEMORY_CONFIG "memory_config_payload loop_builder"]
      length_section_le(2) [of "sc_exports out \<noteq> []" SECTION_EXPORTS "exports_payload (sc_exports out)"]
      length_section_le(1) [of SECTION_CODE_AND_JUMP_TABLE "code_payload out"]
      length_section_le(1) [of SECTION_OPT_METADATA_HASH "[7]"]
    by (simp add: sections_def loop_fields section_bytes_def [of _ "[]"] optional_section_def [of False])
  then have "length (container loop_builder out) < 2 ^ 64"
    by (simp add: container_def BLOB_MAGIC_def)
  note size = this
  have fields: "w_code loop_builder \<noteq> []" "length (w_jump_table loop_builder) \<le> unat VM_MAXIMUM_JUMP_TABLE_ENTRIES"
    "length (sc_code out) \<le> unat VM_MAXIMUM_CODE_SIZE" "length (w_imports loop_builder) \<le> 1024"
    "w_custom loop_builder = debug_sections [] [] [] [7] @ []" "list_all (\<lambda>c. 132 \<le> unat (fst c)) ([] :: (u8 \<times> bytes) list)"
    "length (w_ro_data loop_builder) \<le> unat (w_ro_data_size loop_builder)"
    "length (w_rw_data loop_builder) \<le> unat (w_rw_data_size loop_builder)"
    using sizes(1) by (simp_all add: loop_fields VM_MAXIMUM_JUMP_TABLE_ENTRIES_def VM_MAXIMUM_CODE_SIZE_def)
  obtain p it items where p: "parse (container loop_builder out) = Inr p"
    "Instructions_new (isa_of (pb_isa p)) (pb_code p) (pb_bitmask p) 0 False = Some it"
    "Instructions_collect (2 * length (pb_code p) + 2) it = Some items"
    and items: "map (normalize \<circ> kind) items =
      map normalize (with_trap (map (resolve loop_builder (instruction_offsets out)) (linked_instructions loop_builder)))"
    using program_roundtrip [OF bs out size loop_encodable fields] by (elim exE conjE) (rule that)
  have "length items = 4"
    using map_eq_imp_length_eq [OF items]
    by (simp add: with_trap_def loop_linked loop_fields resolve_def can_fallthrough_def)
  then show ?thesis using bs p by blast
qed

end
